(* ===== verification/Prelude.thy ===== *)
theory Prelude
  imports Main "HOL-Library.Word"
begin

text \<open>
  Shared vocabulary of the development: Go's byte strings, byte slices and
  machine integers, the outcome type of code that may fail or panic, and the
  list and string lemmas the component theories use.

  A Go \<open>string\<close> is a sequence of bytes, so it is an Isabelle \<open>string\<close> (a list
  of 8-bit characters). The case and white-space functions of Go's \<open>strings\<close>
  package are written out for ASCII; bytes above 127 are left unchanged.
\<close>

named_theorems codec_simps \<open>equations that evaluate the encoders and decoders\<close>
named_theorems inv_intros \<open>preservation of the component invariants\<close>

type_synonym byte = "8 word"
type_synonym u32 = "32 word"
type_synonym i64 = "64 word"

unbundle bit_operations_syntax

section \<open>Outcomes\<close>

text \<open>
  A Go function with an \<open>error\<close> result either returns a value, returns an error,
  or panics at run time (an out-of-range slice expression).
\<close>

datatype ('e, 'a) outcome = Ret 'a | Fail 'e | Panic

fun ret_of :: "('e, 'a) outcome \<Rightarrow> 'a option" where
  "ret_of (Ret a) = Some a"
| "ret_of (Fail e) = None"
| "ret_of Panic = None"

text \<open>The slice expression \<open>xs[lo:hi]\<close> for \<open>hi \<le> len(xs)\<close>: it panics when \<open>lo > hi\<close>.\<close>

definition go_slice :: "'a list \<Rightarrow> nat \<Rightarrow> nat \<Rightarrow> ('e, 'a list) outcome" where
  "go_slice xs lo hi = (if lo \<le> hi \<and> hi \<le> length xs then Ret (take (hi - lo) (drop lo xs)) else Panic)"

section \<open>Reading a list at a position\<close>

lemma drop_Cons_nth:
  assumes "drop n xs = y # ys"
  shows "n < length xs" "xs ! n = y" "drop (Suc n) xs = ys"
proof -
  show *: "n < length xs"
    using assms by (metis drop_all linorder_not_less list.distinct(1))
  show "xs ! n = y"
    using assms * by (metis Cons_nth_drop_Suc list.inject)
  show "drop (Suc n) xs = ys"
    using assms by (metis drop_Suc list.sel(3) tl_drop)
qed

lemma drop_append_at:
  assumes "drop n xs = ys @ zs"
  shows "drop (n + length ys) xs = zs"
proof -
  have "drop (n + length ys) xs = drop (length ys) (drop n xs)"
    by (simp add: add.commute)
  with assms show ?thesis by simp
qed

lemma drop_append_len: "drop n xs = ys @ zs \<Longrightarrow> ys \<noteq> [] \<Longrightarrow> n + length ys \<le> length xs"
  by (metis append_is_Nil_conv drop_append_at drop_eq_Nil length_append length_drop
      le_add_diff_inverse nat_add_left_cancel_le le_add1 linorder_le_cases)

section \<open>Strings\<close>

definition lower_tab :: "(char \<times> char) list" where
  "lower_tab = zip ''ABCDEFGHIJKLMNOPQRSTUVWXYZ'' ''abcdefghijklmnopqrstuvwxyz''"

definition upper_tab :: "(char \<times> char) list" where
  "upper_tab = zip ''abcdefghijklmnopqrstuvwxyz'' ''ABCDEFGHIJKLMNOPQRSTUVWXYZ''"

definition lower_char :: "char \<Rightarrow> char" where
  "lower_char c = (case map_of lower_tab c of Some d \<Rightarrow> d | None \<Rightarrow> c)"

definition upper_char :: "char \<Rightarrow> char" where
  "upper_char c = (case map_of upper_tab c of Some d \<Rightarrow> d | None \<Rightarrow> c)"

text \<open>Go's \<open>strings.ToLower\<close>, \<open>ToUpper\<close> and \<open>TrimSpace\<close> on ASCII.\<close>

definition to_lower :: "string \<Rightarrow> string" where
  "to_lower = map lower_char"

definition to_upper :: "string \<Rightarrow> string" where
  "to_upper = map upper_char"

definition is_space :: "char \<Rightarrow> bool" where
  "is_space c \<longleftrightarrow> c \<in> set [CHR '' '', CHR 0x09, CHR 0x0A, CHR 0x0B, CHR 0x0C, CHR 0x0D]"

definition trim_space :: "string \<Rightarrow> string" where
  "trim_space s = rev (dropWhile is_space (rev (dropWhile is_space s)))"

fun has_prefix :: "string \<Rightarrow> string \<Rightarrow> bool" where
  "has_prefix s [] = True"
| "has_prefix [] (p # ps) = False"
| "has_prefix (c # cs) (p # ps) = (c = p \<and> has_prefix cs ps)"

text \<open>\<open>strings.Contains(s, sub)\<close>\<close>

fun contains_str :: "string \<Rightarrow> string \<Rightarrow> bool" where
  "contains_str [] p = has_prefix [] p"
| "contains_str (c # cs) p = (has_prefix (c # cs) p \<or> contains_str cs p)"

definition is_digit :: "char \<Rightarrow> bool" where
  "is_digit c \<longleftrightarrow> c \<in> set ''0123456789''"

definition digit_val :: "char \<Rightarrow> nat" where
  "digit_val c = (case map_of (zip ''0123456789'' [0,1,2,3,4,5,6,7,8,9]) c of Some d \<Rightarrow> d | None \<Rightarrow> 0)"

definition digit_char :: "nat \<Rightarrow> char" where
  "digit_char d = ''0123456789'' ! (d mod 10)"

fun nat_digits :: "nat \<Rightarrow> string" where
  "nat_digits n = (if n < 10 then [digit_char n] else nat_digits (n div 10) @ [digit_char (n mod 10)])"

declare nat_digits.simps [simp del]

text \<open>\<open>strconv.Itoa\<close>\<close>

definition itoa :: "int \<Rightarrow> string" where
  "itoa i = (if i < 0 then CHR ''-'' # nat_digits (nat (- i)) else nat_digits (nat i))"

text \<open>
  \<open>strconv.Atoi\<close>: an optional sign and at least one decimal digit, nothing
  else, in the range of a 64-bit \<open>int\<close>; \<open>None\<close> is the error result. (Go also
  rejects underscores here, since \<open>Atoi\<close> uses base 10.)
\<close>

definition digits_val :: "string \<Rightarrow> nat" where
  "digits_val s = foldl (\<lambda>v c. v * 10 + digit_val c) 0 s"

definition atoi_err :: "string \<Rightarrow> int option" where
  "atoi_err s =
     (let (neg, ds) = (case s of [] \<Rightarrow> (False, [])
                       | c # cs \<Rightarrow> if c = CHR ''-'' then (True, cs)
                                   else if c = CHR ''+'' then (False, cs) else (False, s));
          v = int (digits_val ds); w = (if neg then - v else v)
      in if ds = [] \<or> \<not> list_all is_digit ds then None
         else if - (2 ^ 63) \<le> w \<and> w < 2 ^ 63 then Some w else None)"

text \<open>
  \<open>n, _ := strconv.Atoi(s)\<close>: with the error ignored the value is 0 on a syntax
  error and the nearest \<open>int64\<close> on a range error.
\<close>

definition atoi_or :: "string \<Rightarrow> int" where
  "atoi_or s =
     (let (neg, ds) = (case s of [] \<Rightarrow> (False, [])
                       | c # cs \<Rightarrow> if c = CHR ''-'' then (True, cs)
                                   else if c = CHR ''+'' then (False, cs) else (False, s));
          v = int (digits_val ds)
      in if ds = [] \<or> \<not> list_all is_digit ds then 0
         else if neg then max (- v) (- (2 ^ 63)) else min v (2 ^ 63 - 1))"

text \<open>The part of \<open>s\<close> before the first \<open>'/'\<close> (all of \<open>s\<close> when there is none).\<close>

definition before_slash :: "string \<Rightarrow> string" where
  "before_slash s = takeWhile (\<lambda>c. c \<noteq> CHR ''/'') s"

lemma before_slash_idem [simp]: "before_slash (before_slash s) = before_slash s"
  unfolding before_slash_def by (auto simp: takeWhile_eq_all_conv dest: set_takeWhileD)

lemma before_slash_no_slash: "CHR ''/'' \<notin> set (before_slash s)"
  unfolding before_slash_def by (auto dest: set_takeWhileD)

lemma has_prefix_append [simp]: "has_prefix (p @ s) p"
  by (induction p) auto

lemma has_prefix_iff: "has_prefix s p \<longleftrightarrow> (\<exists>r. s = p @ r)"
  by (induction s p rule: has_prefix.induct) auto

lemma contains_str_iff: "contains_str s p \<longleftrightarrow> (\<exists>a b. s = a @ p @ b)"
proof (induction s)
  case Nil
  then show ?case by (auto simp: has_prefix_iff)
next
  case (Cons c s)
  show ?case
  proof
    assume "contains_str (c # s) p"
    then show "\<exists>a b. c # s = a @ p @ b"
      using Cons.IH by (auto simp: has_prefix_iff) (metis append_Cons append_Nil)+
  next
    assume "\<exists>a b. c # s = a @ p @ b"
    then obtain a b where "c # s = a @ p @ b" by blast
    then have "(\<exists>r. c # s = p @ r) \<or> (\<exists>a b. s = a @ p @ b)"
      by (cases a) auto
    then show "contains_str (c # s) p"
      using Cons.IH by (simp add: has_prefix_iff)
  qed
qed

section \<open>Go maps with string keys\<close>

text \<open>
  A read \<open>m[k]\<close> of a Go \<open>map[string]string\<close> returns the empty string for a
  missing key.
\<close>

type_synonym smap = "string \<rightharpoonup> string"

definition get :: "smap \<Rightarrow> string \<Rightarrow> string" where
  "get m k = (case m k of Some v \<Rightarrow> v | None \<Rightarrow> '''')"

text \<open>The idiom \<open>x := v; if x == "" { x = d }\<close>.\<close>

definition or_default :: "string \<Rightarrow> string \<Rightarrow> string" where
  "or_default v d = (if v = '''' then d else v)"

lemma get_upd [simp]: "get (m(k \<mapsto> v)) k' = (if k' = k then v else get m k')"
  by (simp add: get_def)

lemma or_default_nonempty: "d \<noteq> '''' \<Longrightarrow> or_default v d \<noteq> ''''"
  by (simp add: or_default_def)

lemma or_default_id [simp]: "v \<noteq> '''' \<Longrightarrow> or_default v d = v"
  by (simp add: or_default_def)

section \<open>Searching a list by key\<close>

lemma map_of_key_image: "map_of (map (\<lambda>d. (f d, g d)) ds) k = (case find (\<lambda>d. f d = k) ds of Some d \<Rightarrow> Some (g d) | None \<Rightarrow> None)"
  by (induction ds) auto

lemma find_distinct_key:
  "distinct (map f xs) \<Longrightarrow> x \<in> set xs \<Longrightarrow> P x \<Longrightarrow> find (\<lambda>y. f y = f x) (filter P xs) = Some x"
proof (induction xs)
  case (Cons a xs)
  then show ?case by (cases "a = x") (auto simp: image_iff)
qed simp

lemma find_filter_None:
  "distinct (map f xs) \<Longrightarrow> x \<in> set xs \<Longrightarrow> \<not> P x \<Longrightarrow> find (\<lambda>y. f y = f x) (filter P xs) = None"
  by (auto simp: find_None_iff) (metis (mono_tags) distinct_map inj_onD)

lemma find_map: "find P (map f xs) = map_option f (find (P \<circ> f) xs)"
  by (induction xs) simp_all

lemma find_unique_key: "distinct (map f xs) \<Longrightarrow> x \<in> set xs \<Longrightarrow> find (\<lambda>y. f y = f x) xs = Some x"
  using find_distinct_key [where P = "\<lambda>_. True"] by simp

section \<open>Decimal texts\<close>

lemma nat_digits_props: "nat_digits n \<noteq> [] \<and> list_all is_digit (nat_digits n) \<and> digits_val (nat_digits n) = n"
proof (induction n rule: nat_digits.induct)
  case (1 n)
  have d: "is_digit (digit_char k) \<and> digit_val (digit_char k) = k mod 10" for k
  proof -
    have "k mod 10 = 0 \<or> k mod 10 = 1 \<or> k mod 10 = 2 \<or> k mod 10 = 3 \<or> k mod 10 = 4
        \<or> k mod 10 = 5 \<or> k mod 10 = 6 \<or> k mod 10 = 7 \<or> k mod 10 = 8 \<or> k mod 10 = 9"
      by presburger
    then show ?thesis by (elim disjE) (simp_all add: digit_char_def is_digit_def digit_val_def)
  qed
  show ?case
  proof (cases "n < 10")
    case True
    then show ?thesis using d [of n] by (simp add: nat_digits.simps [of n] digits_val_def)
  next
    case False
    then show ?thesis using 1 d [of n] d [of "n mod 10"] by (simp add: nat_digits.simps [of n] digits_val_def)
  qed
qed

lemma digit_no_sign: "is_digit c \<Longrightarrow> c \<noteq> CHR ''-'' \<and> c \<noteq> CHR ''+''"
  by (auto simp: is_digit_def)

lemma atoi_itoa [simp]: "- (2 ^ 63) \<le> n \<Longrightarrow> n < 2 ^ 63 \<Longrightarrow> atoi_err (itoa n) = Some n"
proof -
  assume b: "- (2 ^ 63) \<le> n" "n < 2 ^ 63"
  obtain c cs where c: "nat_digits (nat n) = c # cs" "is_digit c"
    using nat_digits_props [of "nat n"] by (cases "nat_digits (nat n)") auto
  show ?thesis
    using nat_digits_props [of "nat n"] nat_digits_props [of "nat (- n)"] b digit_no_sign [OF c(2)]
    by (cases "n < 0") (auto simp: itoa_def atoi_err_def c(1))
qed

lemma itoa_chars: "c \<in> set (itoa n) \<Longrightarrow> is_digit c \<or> c = CHR ''-''"
  using nat_digits_props [of "nat n"] nat_digits_props [of "nat (- n)"]
  by (auto simp: itoa_def list_all_iff split: if_splits)

lemma trim_itoa [simp]: "trim_space (itoa n) = itoa n"
proof -
  have ns: "\<not> is_space c" if "c \<in> set (itoa n)" for c
    using itoa_chars [OF that] by (auto simp: is_digit_def is_space_def)
  then have "dropWhile is_space (itoa n) = itoa n" "dropWhile is_space (rev (itoa n)) = rev (itoa n)"
    by (auto simp: dropWhile_eq_self_iff hd_in_set hd_rev last_in_set)
  then show ?thesis by (simp add: trim_space_def)
qed

end
