(* ===== verification/Bacnet_Codec.thy ===== *)
theory Bacnet_Codec
  imports Prelude "HOL-Library.Monad_Syntax"
begin

text \<open>
  The BACnet/IP codec of the collector: \<open>fwEDR/internal/bacnet/codec.go\<close> and the
  frame parser of \<open>client.go\<close>. A datagram is a list of bytes and a position in
  it is a \<open>nat\<close>. A read of \<open>data[i]\<close> is \<open>data ! i\<close> under the guard the code has in
  front of it; the slice expressions that can panic go through \<open>go_slice\<close>.
  Loops over a position are recursive functions that terminate because every
  tag header moves the position forward.

  A decoded \<open>float64\<close> is kept as the exact conversion the code performs: from an
  unsigned integer, or from the bits of a \<open>float32\<close>.
\<close>

datatype go_float = F64_uint nat | F64_f32 u32

datatype bac_error = ErrShort | ErrNetworkLayer | ErrUnhandledApdu

definition bvllType :: byte where "bvllType = 0x81"
definition bvlcOriginalUnicast :: byte where "bvlcOriginalUnicast = 0x0A"
definition bvlcOriginalBroadcast :: byte where "bvlcOriginalBroadcast = 0x0B"
definition bvlcForwardedNPDU :: byte where "bvlcForwardedNPDU = 0x04"

abbreviation (input) "pduConfirmedRequest \<equiv> (0::nat)"
abbreviation (input) "pduUnconfirmedRequest \<equiv> (1::nat)"
abbreviation (input) "pduComplexAck \<equiv> (3::nat)"
abbreviation (input) "pduError \<equiv> (5::nat)"
abbreviation (input) "PropPresentValue \<equiv> (85::int)"

section \<open>Tag encoders\<close>

function bitLen :: "u32 \<Rightarrow> nat" where
  "bitLen v = (if v = 0 then 0 else Suc (bitLen (drop_bit 1 v)))"
  by pat_completeness auto
termination
proof (relation "measure unat")
  fix v :: u32
  assume "v \<noteq> 0"
  then have "0 < unat v" by (simp add: unat_gt_0)
  then show "(drop_bit 1 v, v) \<in> measure unat"
    by (simp add: unsigned_drop_bit_eq drop_bit_eq_div take_bit_nat_less_eq_self unat_div)
qed simp

declare bitLen.simps [simp del]

text \<open>\<open>binary.BigEndian.PutUint32\<close> into a fresh 4-byte buffer, and \<open>Uint32\<close>.\<close>

definition putU32 :: "u32 \<Rightarrow> byte list" where
  "putU32 v = [ucast (drop_bit 24 v), ucast (drop_bit 16 v), ucast (drop_bit 8 v), ucast v]"

definition getU32 :: "byte list \<Rightarrow> u32" where
  "getU32 bs = foldl (\<lambda>v b. push_bit 8 v OR ucast b) 0 bs"

definition encAppUint :: "u32 \<Rightarrow> byte list" where
  "encAppUint val =
     (if val = 0 then [0x21, 0x00]
      else let n = min ((bitLen val + 7) div 8) 4
           in (0x20 OR word_of_nat n) # drop (4 - n) (putU32 val))"

definition encAppEnum :: "u32 \<Rightarrow> byte list" where
  "encAppEnum val =
     (let n = min (max ((bitLen val + 7) div 8) 1) 4
      in (0x90 OR word_of_nat n) # drop (4 - n) (putU32 val))"

definition oidWord :: "u32 \<Rightarrow> u32 \<Rightarrow> u32" where
  "oidWord objType inst = push_bit 22 (objType AND 0x3FF) OR (inst AND 0x3FFFFF)"

definition encAppOID :: "u32 \<Rightarrow> u32 \<Rightarrow> byte list" where
  "encAppOID objType inst = 0xC4 # putU32 (oidWord objType inst)"

definition encCtxUint :: "nat \<Rightarrow> u32 \<Rightarrow> byte list" where
  "encCtxUint ctx val =
     (let payload = (if val = 0 then [0x00] else drop (4 - (bitLen val + 7) div 8) (putU32 val))
      in (word_of_nat (ctx * 16) OR 0x08 OR word_of_nat (length payload)) # payload)"

definition encCtxOID :: "nat \<Rightarrow> int \<Rightarrow> int \<Rightarrow> byte list" where
  "encCtxOID ctx objType inst =
     (word_of_nat (ctx * 16) OR 0x08 OR 4) # putU32 (oidWord (word_of_int objType) (word_of_int inst))"

definition encCtxOpen :: "nat \<Rightarrow> byte list" where
  "encCtxOpen ctx = [word_of_nat (ctx * 16) OR 0x0E]"

definition encCtxClose :: "nat \<Rightarrow> byte list" where
  "encCtxClose ctx = [word_of_nat (ctx * 16) OR 0x0F]"

section \<open>BVLL and NPDU framing\<close>

definition buildNPDU :: "byte list \<Rightarrow> bool \<Rightarrow> byte list" where
  "buildNPDU apdu expectsReply = [0x01, if expectsReply then 0x04 else 0x00] @ apdu"

definition buildBVLL :: "byte list \<Rightarrow> bool \<Rightarrow> byte list" where
  "buildBVLL npdu broadcast =
     (let len = 4 + length npdu
      in [bvllType, if broadcast then bvlcOriginalBroadcast else bvlcOriginalUnicast,
          word_of_nat (len div 256), word_of_nat (len mod 256)] @ npdu)"

definition parseBVLL :: "byte list \<Rightarrow> (bac_error, byte list) outcome" where
  "parseBVLL data =
     (if length data < 4 \<or> data ! 0 \<noteq> bvllType then Fail ErrShort
      else let len = unat (data ! 2) * 256 + unat (data ! 3)
           in if len > length data then Fail ErrShort
              else if data ! 1 = bvlcForwardedNPDU then
                (if len < 10 then Fail ErrShort else go_slice data 10 len)
              else go_slice data 4 len)"

text \<open>The position after the optional DNET and SNET fields, \<open>None\<close> when one is cut off.\<close>

definition npdu_dnet :: "byte list \<Rightarrow> nat \<Rightarrow> nat option" where
  "npdu_dnet data pos =
     (if (data ! 1) AND 0x20 \<noteq> 0 then
        (if pos + 2 \<ge> length data then None else Some (pos + 3 + unat (data ! (pos + 2)) + 1))
      else Some pos)"

definition npdu_snet :: "byte list \<Rightarrow> nat \<Rightarrow> nat option" where
  "npdu_snet data pos =
     (if (data ! 1) AND 0x08 \<noteq> 0 then
        (if pos + 2 \<ge> length data then None else Some (pos + 3 + unat (data ! (pos + 2))))
      else Some pos)"

definition parseNPDU :: "byte list \<Rightarrow> (bac_error, byte list) outcome" where
  "parseNPDU data =
     (if length data < 2 \<or> data ! 0 \<noteq> 0x01 then Fail ErrShort
      else if (data ! 1) AND 0x80 \<noteq> 0 then Fail ErrNetworkLayer
      else case npdu_dnet data 2 of None \<Rightarrow> Fail ErrShort
           | Some p \<Rightarrow> (case npdu_snet data p of None \<Rightarrow> Fail ErrShort
               | Some q \<Rightarrow> if q > length data then Fail ErrShort else Ret (drop q data)))"

record apdu =
  kind :: nat
  service :: nat
  invokeID :: nat
  payload :: "byte list"

definition parseAPDU :: "byte list \<Rightarrow> (bac_error, apdu) outcome" where
  "parseAPDU data =
     (if data = [] then Fail ErrShort
      else let t = unat (drop_bit 4 (data ! 0) AND 0x0F)
           in if t = pduUnconfirmedRequest then
                (if length data < 2 then Fail ErrShort
                 else Ret \<lparr>kind = t, service = unat (data ! 1), invokeID = 0, payload = drop 2 data\<rparr>)
              else if t = pduComplexAck \<or> t = pduError then
                (if length data < 3 then Fail ErrShort
                 else Ret \<lparr>kind = t, service = unat (data ! 2), invokeID = unat (data ! 1),
                           payload = drop 3 data\<rparr>)
              else Fail ErrUnhandledApdu)"

text \<open>\<open>parseFrame\<close>: \<open>Ret None\<close> stands for the nil result; a panic of \<open>parseBVLL\<close> escapes.\<close>

definition parseFrame :: "byte list \<Rightarrow> (bac_error, apdu option) outcome" where
  "parseFrame data =
     (case parseBVLL data of
        Panic \<Rightarrow> Panic
      | Fail e \<Rightarrow> Ret None
      | Ret npdu \<Rightarrow>
          (case parseNPDU npdu of
             Panic \<Rightarrow> Panic
           | Fail e \<Rightarrow> Ret None
           | Ret body \<Rightarrow>
               (case parseAPDU body of Panic \<Rightarrow> Panic | Fail e \<Rightarrow> Ret None | Ret p \<Rightarrow> Ret (Some p))))"

section \<open>Request builders\<close>

record ObjSpec =
  ObjType :: int
  Instance :: int
  Props :: "int list"

definition confirmedHdr :: "int \<Rightarrow> byte \<Rightarrow> byte list" where
  "confirmedHdr invoke svc = [0x00, 0x05, word_of_int (invoke mod 256), svc]"

definition encSpec :: "ObjSpec \<Rightarrow> byte list" where
  "encSpec s = encCtxOID 0 (ObjType s) (Instance s) @ encCtxOpen 1
     @ concat (map (\<lambda>p. encCtxUint 0 (word_of_int p)) (Props s)) @ encCtxClose 1"

definition buildReadPropertyMultiple :: "int \<Rightarrow> ObjSpec list \<Rightarrow> byte list" where
  "buildReadPropertyMultiple invoke specs =
     buildBVLL (buildNPDU (confirmedHdr invoke 14 @ concat (map encSpec specs)) True) False"

definition buildReadProperty :: "int \<Rightarrow> int \<Rightarrow> int \<Rightarrow> int \<Rightarrow> byte list" where
  "buildReadProperty invoke objType inst prop =
     buildBVLL (buildNPDU (confirmedHdr invoke 12 @ encCtxOID 0 objType inst
       @ encCtxUint 1 (word_of_int prop)) True) False"

definition buildWhoIs :: "byte list" where
  "buildWhoIs = buildBVLL (buildNPDU [0x10, 8] False) True"

definition buildSubscribeCOV :: "int \<Rightarrow> int \<Rightarrow> int \<Rightarrow> int \<Rightarrow> int \<Rightarrow> byte list" where
  "buildSubscribeCOV invoke processID objType inst lifetimeSec =
     buildBVLL (buildNPDU (confirmedHdr invoke 5
       @ encCtxUint 0 (word_of_int processID) @ encCtxOID 1 objType inst
       @ encCtxUint 2 0 @ encCtxUint 3 (word_of_int lifetimeSec)) True) False"

section \<open>Decoders\<close>

definition decodeOID :: "byte list \<Rightarrow> nat \<times> nat" where
  "decodeOID b =
     (let v = getU32 (take 4 b)
      in (unat (drop_bit 22 v AND 0x3FF), unat (v AND 0x3FFFFF)))"

text \<open>
  The result of \<open>readTagHdr\<close>: tag number, context flag, opening and closing
  flags, value length and the position after the header; \<open>None\<close> is \<open>ErrShort\<close>.
\<close>

record taghdr =
  tagNum :: nat
  isCtx :: bool
  isOpen :: bool
  isClose :: bool
  vlen :: nat
  newPos :: nat

definition readTagLen :: "byte list \<Rightarrow> nat \<Rightarrow> bool \<Rightarrow> nat \<Rightarrow> nat \<Rightarrow> taghdr option" where
  "readTagLen data tn ctx lenEnc pos =
     (if ctx \<and> lenEnc = 6 then Some \<lparr>tagNum = tn, isCtx = True, isOpen = True, isClose = False, vlen = 0, newPos = pos\<rparr>
      else if ctx \<and> lenEnc = 7 then Some \<lparr>tagNum = tn, isCtx = True, isOpen = False, isClose = True, vlen = 0, newPos = pos\<rparr>
      else if lenEnc = 5 then
        (if pos \<ge> length data then None
         else let ext = unat (data ! pos); pos = pos + 1
              in if ext = 254 then
                   (if pos + 2 > length data then None
                    else Some \<lparr>tagNum = tn, isCtx = ctx, isOpen = False, isClose = False,
                               vlen = unat (data ! pos) * 256 + unat (data ! (pos + 1)), newPos = pos + 2\<rparr>)
                 else if ext = 255 then
                   (if pos + 4 > length data then None
                    else Some \<lparr>tagNum = tn, isCtx = ctx, isOpen = False, isClose = False,
                               vlen = unat (getU32 (take 4 (drop pos data))), newPos = pos + 4\<rparr>)
                 else Some \<lparr>tagNum = tn, isCtx = ctx, isOpen = False, isClose = False, vlen = ext, newPos = pos\<rparr>)
      else Some \<lparr>tagNum = tn, isCtx = ctx, isOpen = False, isClose = False, vlen = lenEnc, newPos = pos\<rparr>)"

definition readTagHdr :: "byte list \<Rightarrow> nat \<Rightarrow> taghdr option" where
  "readTagHdr data pos =
     (if pos \<ge> length data then None
      else let b = data ! pos; raw = unat (drop_bit 4 b AND 0x0F);
               ctx = (b AND 0x08 \<noteq> 0); lenEnc = unat (b AND 0x07); pos = pos + 1
           in if raw = 0x0F then
                (if pos \<ge> length data then None
                 else readTagLen data (unat (data ! pos)) ctx lenEnc (pos + 1))
              else readTagLen data raw ctx lenEnc pos)"

definition decodeAppValue :: "byte list \<Rightarrow> nat \<Rightarrow> (go_float \<times> nat) option" where
  "decodeAppValue data pos =
     (if pos \<ge> length data then None
      else let tag = data ! pos; appTag = unat (drop_bit 4 tag AND 0x0F);
               lenEnc = unat (tag AND 0x07); p = pos + 1
           in if appTag = 1 then Some (F64_uint (lenEnc mod 2), p)
              else if appTag = 2 \<or> appTag = 9 then
                (if p + lenEnc > length data then None
                 else Some (F64_uint (unat (getU32 (take lenEnc (drop p data)))), p + lenEnc))
              else if appTag = 4 then
                (if p + 4 > length data then None
                 else Some (F64_f32 (getU32 (take 4 (drop p data))), p + 4))
              else if appTag = 8 then
                (if lenEnc < 1 \<or> p + lenEnc > length data then None
                 else if lenEnc \<ge> 2 then Some (F64_uint (unat (drop_bit 4 (data ! (p + 1)))), p + lenEnc)
                 else Some (F64_uint 0, p + lenEnc))
              else None)"

text \<open>The loop \<open>prop = prop<<8 | int(b)\<close> on a 64-bit \<open>int\<close>.\<close>

definition propId :: "byte list \<Rightarrow> int" where
  "propId bs = sint (foldl (\<lambda>v b. push_bit 8 v OR ucast b) (0 :: i64) bs)"

lemma readTagLen_pos:
  "readTagLen data tn ctx le pos = Some h \<Longrightarrow> pos \<le> length data
     \<Longrightarrow> pos \<le> newPos h \<and> newPos h \<le> length data"
  by (auto simp: readTagLen_def Let_def split: if_splits)

lemma readTagHdr_pos:
  assumes "readTagHdr data pos = Some h"
  shows "pos < newPos h \<and> newPos h \<le> length data"
  using assms
  by (auto simp: readTagHdr_def Let_def split: if_splits dest!: readTagLen_pos)

lemma readTagHdr_lt: "readTagHdr data pos = Some h \<Longrightarrow> pos < length data"
  by (auto simp: readTagHdr_def split: if_splits)

text \<open>\<open>skipToClose\<close>: advance past the closing tag with number \<open>ctx\<close>.\<close>

function skipToClose :: "byte list \<Rightarrow> nat \<Rightarrow> nat \<Rightarrow> nat" where
  "skipToClose data pos ctx =
     (if pos < length data then
        (case readTagHdr data pos of
           None \<Rightarrow> length data
         | Some h \<Rightarrow>
             if isCtx h \<and> tagNum h = ctx \<and> isClose h then newPos h
             else if isOpen h then skipToClose data (newPos h) ctx
             else skipToClose data (newPos h + vlen h) ctx)
      else pos)"
  by pat_completeness auto
termination
  by (relation "measure (\<lambda>(data, pos, ctx). length data - pos)") (auto dest!: readTagHdr_pos)

declare skipToClose.simps [simp del]

lemma skipToClose_ge: "pos \<le> skipToClose data pos ctx"
proof (induction data pos ctx rule: skipToClose.induct)
  case (1 data pos ctx)
  show ?case
  proof (cases "pos < length data")
    case True
    show ?thesis
    proof (cases "readTagHdr data pos")
      case None
      then show ?thesis using True by (subst skipToClose.simps) simp
    next
      case (Some h)
      have "pos < newPos h" using readTagHdr_pos [OF Some] by simp
      then show ?thesis
        using 1 [OF True Some] Some True by (subst skipToClose.simps) auto
    qed
  next
    case False
    then show ?thesis by (subst skipToClose.simps) simp
  qed
qed

text \<open>\<open>decodeReadPropertyAck\<close>: the scalar inside the context[3] opening tag.\<close>

function decodeReadPropertyAck_from :: "byte list \<Rightarrow> nat \<Rightarrow> go_float option" where
  "decodeReadPropertyAck_from data pos =
     (if pos < length data then
        (case readTagHdr data pos of
           None \<Rightarrow> None
         | Some h \<Rightarrow>
             if isCtx h \<and> tagNum h = 3 \<and> isOpen h then map_option fst (decodeAppValue data (newPos h))
             else if isOpen h then decodeReadPropertyAck_from data (newPos h)
             else decodeReadPropertyAck_from data (newPos h + vlen h))
      else None)"
  by pat_completeness auto
termination
  by (relation "measure (\<lambda>(data, pos). length data - pos)") (auto dest!: readTagHdr_pos)

declare decodeReadPropertyAck_from.simps [simp del]

definition decodeReadPropertyAck :: "byte list \<Rightarrow> go_float option" where
  "decodeReadPropertyAck data = decodeReadPropertyAck_from data 0"

definition decodeIAm :: "byte list \<Rightarrow> nat option" where
  "decodeIAm data =
     (if length data \<ge> 5 \<and> data ! 0 = 0xC4 then Some (snd (decodeOID (take 4 (drop 1 data)))) else None)"

section \<open>ReadPropertyMultiple acknowledgements\<close>

record PropResult =
  pObjType :: nat
  pInstance :: nat
  pProp :: int
  pValue :: go_float
  pOK :: bool

definition consumeClose :: "byte list \<Rightarrow> nat \<Rightarrow> nat \<Rightarrow> nat" where
  "consumeClose data pos tn =
     (case readTagHdr data pos of
        Some h \<Rightarrow> if isCtx h \<and> tagNum h = tn \<and> isClose h then newPos h else pos
      | None \<Rightarrow> pos)"

text \<open>
  One result entry, from after its context[2] opening tag; \<open>None\<close> is the code's
  \<open>return out\<close> in the middle of the entry.
\<close>

definition rpm_entry ::
  "byte list \<Rightarrow> nat \<Rightarrow> nat \<Rightarrow> nat \<Rightarrow> PropResult list \<Rightarrow> (nat \<times> PropResult list) option" where
  "rpm_entry data objType inst pos out =
     (case readTagHdr data pos of
        None \<Rightarrow> None
      | Some h \<Rightarrow>
          if \<not> isCtx h \<or> tagNum h \<noteq> 0 \<or> newPos h + vlen h > length data then None
          else
            let prop = propId (take (vlen h) (drop (newPos h) data)); pos1 = newPos h + vlen h
            in (case readTagHdr data pos1 of
                  None \<Rightarrow> None
                | Some h1 \<Rightarrow>
                    if \<not> isCtx h1 \<or> \<not> isOpen h1 then None
                    else
                      let pos2 = newPos h1
                      in if tagNum h1 = 5 then
                           Some (consumeClose data (skipToClose data pos2 5) 2,
                                 out @ [\<lparr>pObjType = objType, pInstance = inst, pProp = prop,
                                         pValue = F64_uint 0, pOK = False\<rparr>])
                         else
                           Some (consumeClose data (skipToClose data pos2 4) 2,
                                 (case decodeAppValue data pos2 of
                                    Some (v, _) \<Rightarrow> out @ [\<lparr>pObjType = objType, pInstance = inst,
                                       pProp = prop, pValue = v, pOK = True\<rparr>]
                                  | None \<Rightarrow> out))))"

lemma consumeClose_ge: "pos \<le> consumeClose data pos tn"
  by (auto simp: consumeClose_def split: option.splits dest!: readTagHdr_pos)

lemma consumeClose_gt: "q < pos \<Longrightarrow> q < consumeClose data pos tn"
  using consumeClose_ge less_le_trans by blast

lemma skip_consume_gt: "q < pos \<Longrightarrow> q < consumeClose data (skipToClose data pos c) tn"
  using skipToClose_ge consumeClose_gt less_le_trans by blast

lemma rpm_entry_gt:
  assumes "rpm_entry data ot inst pos out = Some (pos', out')"
  shows "pos < pos'"
proof -
  from assms obtain h h1 c where h: "readTagHdr data pos = Some h"
      and h1: "readTagHdr data (newPos h + vlen h) = Some h1"
      and p: "pos' = consumeClose data (skipToClose data (newPos h1) c) 2"
    by (auto simp: rpm_entry_def Let_def split: option.splits if_splits)
  have "pos < newPos h1"
    using readTagHdr_pos [OF h] readTagHdr_pos [OF h1] by simp
  then show ?thesis by (simp add: p skip_consume_gt)
qed

text \<open>The inner loop leaves by \<open>return out\<close> or by falling out at a position.\<close>

datatype rpm_flow = Returned "PropResult list" | Broke nat "PropResult list"

function rpm_results ::
  "byte list \<Rightarrow> nat \<Rightarrow> nat \<Rightarrow> nat \<Rightarrow> PropResult list \<Rightarrow> rpm_flow" where
  "rpm_results data objType inst pos out =
     (if pos < length data then
        (case readTagHdr data pos of
           None \<Rightarrow> Returned out
         | Some h \<Rightarrow>
             if isCtx h \<and> tagNum h = 1 \<and> isClose h then Broke (newPos h) out
             else if \<not> (isCtx h \<and> tagNum h = 2 \<and> isOpen h) then Returned out
             else (case rpm_entry data objType inst (newPos h) out of
                     None \<Rightarrow> Returned out
                   | Some (pos', out') \<Rightarrow> rpm_results data objType inst pos' out'))
      else Broke pos out)"
  by pat_completeness auto
termination
  by (relation "measure (\<lambda>(data, ot, inst, pos, out). length data - pos)")
    (auto dest!: readTagHdr_pos rpm_entry_gt)

declare rpm_results.simps [simp del]

lemma rpm_results_ge:
  "rpm_results data ot inst pos out = Broke pos' out' \<Longrightarrow> pos \<le> pos'"
proof (induction data ot inst pos out rule: rpm_results.induct)
  case (1 data ot inst pos out)
  show ?case
  proof (cases "pos < length data")
    case True
    with "1.prems" obtain h where h: "readTagHdr data pos = Some h"
      by (subst (asm) rpm_results.simps) (auto split: option.splits)
    have lt: "pos < newPos h" using readTagHdr_pos [OF h] by simp
    show ?thesis
    proof (cases "isCtx h \<and> tagNum h = 1 \<and> isClose h")
      case c: True
      with "1.prems" True h lt show ?thesis by (subst (asm) rpm_results.simps) auto
    next
      case c: False
      with "1.prems" True h obtain p o' where e: "isCtx h \<and> tagNum h = 2 \<and> isOpen h"
          "rpm_entry data ot inst (newPos h) out = Some (p, o')"
          "rpm_results data ot inst p o' = Broke pos' out'"
        by (subst (asm) rpm_results.simps) (auto split: if_splits option.splits)
      have "p \<le> pos'" using "1.IH" [OF True h c _ e(2) refl] e by simp
      with rpm_entry_gt [OF e(2)] lt show ?thesis by simp
    qed
  next
    case False
    with "1.prems" show ?thesis by (subst (asm) rpm_results.simps) simp
  qed
qed

function rpm_objects :: "byte list \<Rightarrow> nat \<Rightarrow> PropResult list \<Rightarrow> PropResult list" where
  "rpm_objects data pos out =
     (if pos < length data then
        (case readTagHdr data pos of
           None \<Rightarrow> out
         | Some h \<Rightarrow>
             if \<not> isCtx h \<or> tagNum h \<noteq> 0 \<or> vlen h < 4 \<or> newPos h + 4 > length data then out
             else
               (case readTagHdr data (newPos h + 4) of
                  None \<Rightarrow> out
                | Some h1 \<Rightarrow>
                    if \<not> isCtx h1 \<or> tagNum h1 \<noteq> 1 \<or> \<not> isOpen h1 then out
                    else (case rpm_results data (fst (decodeOID (take 4 (drop (newPos h) data))))
                                 (snd (decodeOID (take 4 (drop (newPos h) data)))) (newPos h1) out of
                            Returned out' \<Rightarrow> out'
                          | Broke pos' out' \<Rightarrow> rpm_objects data pos' out')))
      else out)"
  by pat_completeness auto
termination
  by (relation "measure (\<lambda>(data, pos, out). length data - pos)")
    (auto dest!: readTagHdr_pos rpm_results_ge)

declare rpm_objects.simps [simp del]

definition decodeReadPropertyMultipleAck :: "byte list \<Rightarrow> PropResult list" where
  "decodeReadPropertyMultipleAck data = rpm_objects data 0 []"

section \<open>COV notifications\<close>

record covNotification =
  deviceInstance :: nat
  covObjType :: nat
  covInstance :: nat
  presentValue :: go_float
  hasValue :: bool

text \<open>The list of values, from after the context[4] opening tag.\<close>

function cov_values :: "byte list \<Rightarrow> nat \<Rightarrow> covNotification \<Rightarrow> covNotification" where
  "cov_values data pos n =
     (if pos < length data then
        (case readTagHdr data pos of
           None \<Rightarrow> n
         | Some h \<Rightarrow>
             if isCtx h \<and> tagNum h = 4 \<and> isClose h then n
             else if \<not> (isCtx h \<and> tagNum h = 2 \<and> isOpen h) then n
             else
               (case readTagHdr data (newPos h) of
                  None \<Rightarrow> n
                | Some h0 \<Rightarrow>
                    if \<not> isCtx h0 \<or> tagNum h0 \<noteq> 0 \<or> newPos h0 + vlen h0 > length data then n
                    else
                      let prop = propId (take (vlen h0) (drop (newPos h0) data));
                          pos1 = newPos h0 + vlen h0
                      in (case readTagHdr data pos1 of
                            Some h1 \<Rightarrow>
                              if isCtx h1 \<and> tagNum h1 = 4 \<and> isOpen h1 then
                                cov_values data (consumeClose data (skipToClose data (newPos h1) 4) 2)
                                  (case decodeAppValue data (newPos h1) of
                                     Some (v, _) \<Rightarrow> if prop = PropPresentValue
                                                    then n\<lparr>presentValue := v, hasValue := True\<rparr> else n
                                   | None \<Rightarrow> n)
                              else cov_values data (consumeClose data pos1 2) n
                          | None \<Rightarrow> cov_values data (consumeClose data pos1 2) n)))
      else n)"
  by pat_completeness auto
termination
  by (relation "measure (\<lambda>(data, pos, n). length data - pos)")
    (auto intro!: diff_less_mono2 consumeClose_gt skip_consume_gt dest!: readTagHdr_pos)

declare cov_values.simps [simp del]

definition guard_opt :: "bool \<Rightarrow> unit option" where
  "guard_opt b = (if b then Some () else None)"

definition decodeCOVNotification :: "byte list \<Rightarrow> covNotification option" where
  "decodeCOVNotification data = do {
     h0 \<leftarrow> readTagHdr data 0;
     h1 \<leftarrow> readTagHdr data (newPos h0 + vlen h0);
     guard_opt (newPos h1 + 4 \<le> length data);
     let dev = snd (decodeOID (take 4 (drop (newPos h1) data)));
     h2 \<leftarrow> readTagHdr data (newPos h1 + 4);
     guard_opt (newPos h2 + 4 \<le> length data);
     let (ot, inst) = decodeOID (take 4 (drop (newPos h2) data));
     h3 \<leftarrow> readTagHdr data (newPos h2 + 4);
     h4 \<leftarrow> readTagHdr data (newPos h3 + vlen h3);
     guard_opt (isCtx h4 \<and> tagNum h4 = 4 \<and> isOpen h4);
     let n = cov_values data (newPos h4)
               \<lparr>deviceInstance = dev, covObjType = ot, covInstance = inst,
                presentValue = F64_uint 0, hasValue = False\<rparr>;
     if hasValue n then Some n else None
   }"

end
