(* ===== verification/Bacnet_Proofs.thy ===== *)
theory Bacnet_Proofs
  imports Bacnet_Codec
begin

text \<open>
  Correctness of the BACnet codec. The first sections relate the machine-word
  reads and writes to numbers and read one tag header at a position; the
  acknowledgement and notification formats the source comments describe are then
  written as encoders, and the decoders are shown to invert them.
\<close>

section \<open>Words and bytes\<close>

text \<open>The number a big-endian byte string denotes.\<close>

definition beval :: "byte list \<Rightarrow> nat" where
  "beval bs = foldl (\<lambda>v b. v * 256 + unat b) 0 bs"

lemma shift_or_add: "push_bit 8 (v :: 'a::len word) OR ucast (b :: byte) = push_bit 8 v + ucast b"
  by (rule disjunctive_add [symmetric]) (auto simp: bit_simps dest: bit_imp_le_length)

lemma unat_shift_or:
  assumes "8 < LENGTH('a::len)" "unat (v :: 'a word) * 256 + unat (b :: byte) < 2 ^ LENGTH('a)"
  shows "unat (push_bit 8 v OR ucast b) = unat v * 256 + unat b"
proof -
  have "unat b < 2 ^ 8" using unsigned_less [of b] by simp
  also have "(2::nat) ^ 8 \<le> 2 ^ LENGTH('a)" using assms(1) by (intro power_increasing) simp_all
  finally have b: "unat (ucast b :: 'a word) = unat b"
    unfolding unsigned_ucast_eq by (simp add: take_bit_nat_eq_self)
  have "unat v * 256 < 2 ^ LENGTH('a)" using assms(2) by simp
  then have v: "unat (push_bit 8 v) = unat v * 256"
    unfolding unsigned_push_bit_eq by (simp add: push_bit_eq_mult take_bit_nat_eq_self)
  show ?thesis
    using assms(2) by (simp only: shift_or_add) (simp add: unat_word_ariths v b)
qed

lemma unat_lt32: "unat (v :: u32) < 4294967296"
proof -
  have "unat v < 2 ^ LENGTH(32)" by (rule unsigned_less)
  then show ?thesis by simp
qed

lemma unat_drop32: "unat (drop_bit k (v :: u32)) = unat v div 2 ^ k"
  using unat_lt32 [of v]
  unfolding unsigned_drop_bit_eq by (simp add: drop_bit_eq_div take_bit_eq_mod)

lemma unat_ucast8: "unat (ucast (w :: u32) :: byte) = unat w mod 256"
  unfolding unsigned_ucast_eq by (simp add: take_bit_eq_mod)

lemma unat_byte_of: "unat (ucast (drop_bit k (v :: u32)) :: byte) = (unat v div 2 ^ k) mod 256"
  by (simp add: unat_ucast8 unat_drop32)

lemma beval_snoc: "beval (bs @ [b]) = beval bs * 256 + unat b"
  by (simp add: beval_def)

lemma beval_less: "beval bs < 256 ^ length bs"
proof (induction bs rule: rev_induct)
  case Nil
  then show ?case by (simp add: beval_def)
next
  case (snoc b bs)
  have "unat b < 256" using unsigned_less [of b] by simp
  then have "beval (bs @ [b]) < (beval bs + 1) * 256" by (simp add: beval_snoc)
  also have "\<dots> \<le> 256 ^ length bs * 256" using snoc by (intro mult_right_mono) simp_all
  finally show ?case by simp
qed

lemma unat_fold:
  assumes "8 < LENGTH('a::len)" "8 * length bs \<le> LENGTH('a)"
  shows "unat (foldl (\<lambda>v b. push_bit 8 v OR ucast b) (0 :: 'a word) bs) = beval bs"
  using assms(2)
proof (induction bs rule: rev_induct)
  case Nil
  then show ?case by (simp add: beval_def)
next
  case (snoc b bs)
  have "beval (bs @ [b]) < 2 ^ (8 * length (bs @ [b]))"
    using beval_less [of "bs @ [b]"] by (simp only: power_mult) simp
  also have "\<dots> \<le> 2 ^ LENGTH('a)" using snoc.prems by (intro power_increasing) simp_all
  finally have "beval bs * 256 + unat b < 2 ^ LENGTH('a)" by (simp add: beval_snoc)
  with snoc show ?case by (simp add: unat_shift_or [OF assms(1)] beval_snoc)
qed

lemma beval_putU32: "n \<le> 4 \<Longrightarrow> beval (drop (4 - n) (putU32 v)) = unat v mod 256 ^ n"
proof -
  assume "n \<le> 4"
  then consider "n = 0" | "n = 1" | "n = 2" | "n = 3" | "n = 4" by linarith
  moreover have "unat v mod 65536 = 256 * (unat v div 256 mod 256) + unat v mod 256"
    "unat v mod 16777216 = 65536 * (unat v div 65536 mod 256) + unat v mod 65536"
    "unat v mod 4294967296 = 16777216 * (unat v div 16777216 mod 256) + unat v mod 16777216"
    using mod_mult2_eq [of "unat v" 256 256] mod_mult2_eq [of "unat v" 65536 256]
      mod_mult2_eq [of "unat v" 16777216 256] by simp_all
  ultimately show ?thesis
    by cases (simp_all add: putU32_def beval_def unat_ucast8 unat_drop32)
qed

lemma oid1: "drop_bit 22 (oidWord t i) AND 0x3FF = t AND 0x3FF"
proof -
  have m: "(0x3FF :: u32) = mask 10" "(0x3FFFFF :: u32) = mask 22" by (simp_all add: mask_eq_exp_minus_1)
  show ?thesis unfolding oidWord_def m
    by (rule bit_word_eqI) (auto simp: bit_simps)
qed
lemma oid2: "oidWord t i AND 0x3FFFFF = i AND 0x3FFFFF"
proof -
  have m: "(0x3FF :: u32) = mask 10" "(0x3FFFFF :: u32) = mask 22" by (simp_all add: mask_eq_exp_minus_1)
  show ?thesis unfolding oidWord_def m
    by (rule bit_word_eqI) (auto simp: bit_simps)
qed

definition hdrByte_ok :: "nat \<Rightarrow> nat \<Rightarrow> bool" where
 "hdrByte_ok c l = (let b = (word_of_nat (c * 16) OR 8 OR word_of_nat l) :: byte in
    unat (drop_bit 4 b AND 0x0F) = c \<and> b AND 8 \<noteq> 0 \<and> unat (b AND 7) = l)"
lemma hdrByte_ok:
  assumes "c < 15" "l < 8"
  shows "hdrByte_ok c l"
proof -
  have "\<forall>c \<in> set [0..<15]. \<forall>l \<in> set [0..<8]. hdrByte_ok c l" by code_simp
  with assms show ?thesis by simp
qed
lemma bitLen_bounds: "v \<noteq> 0 \<Longrightarrow> unat v < 2 ^ bitLen v \<and> 2 ^ (bitLen v - 1) \<le> unat v \<and> 0 < bitLen v"
proof (induction v rule: bitLen.induct)
  case (1 v)
  have h: "unat (drop_bit 1 v) = unat v div 2"
    by (simp add: unsigned_drop_bit_eq drop_bit_eq_div unat_div)
  have b: "bitLen v = Suc (bitLen (drop_bit 1 v))" using 1 by (subst bitLen.simps) simp
  show ?case
  proof (cases "drop_bit 1 v = 0")
    case True
    then have "bitLen (drop_bit 1 v) = 0" by (subst bitLen.simps) simp
    moreover have "unat v div 2 = 0" using True h by simp
    moreover have "0 < unat v" using 1(2) by (simp add: unat_gt_0)
    ultimately show ?thesis using b by simp
  next
    case False
    from 1(1) [OF 1(2) False] h b have "unat v div 2 < 2 ^ bitLen (drop_bit 1 v)"
      "2 ^ (bitLen (drop_bit 1 v) - 1) \<le> unat v div 2" "0 < bitLen (drop_bit 1 v)" by auto
    then show ?thesis using b by (cases "bitLen (drop_bit 1 v)") auto
  qed
qed

lemma appByte_ok:
  assumes "n < 5" "b \<in> {0x20, 0x90}"
  shows "drop_bit 4 (b OR word_of_nat n :: byte) AND 0x0F = drop_bit 4 b"
    and "(b OR word_of_nat n :: byte) AND 8 = 0"
    and "unat ((b OR word_of_nat n :: byte) AND 7) = n"
proof -
  have "n \<in> {0,1,2,3,4}" using assms(1) by auto
  with assms(2) show "drop_bit 4 (b OR word_of_nat n :: byte) AND 0x0F = drop_bit 4 b"
    "(b OR word_of_nat n :: byte) AND 8 = 0" "unat ((b OR word_of_nat n :: byte) AND 7) = n"
    by auto
qed

section \<open>Headers at a position\<close>

abbreviation (input) prim_hdr :: "nat \<Rightarrow> nat \<Rightarrow> nat \<Rightarrow> taghdr" where
  "prim_hdr tn n pos \<equiv> \<lparr>tagNum = tn, isCtx = False, isOpen = False, isClose = False, vlen = n, newPos = pos\<rparr>"

abbreviation (input) ctx_hdr :: "nat \<Rightarrow> bool \<Rightarrow> bool \<Rightarrow> nat \<Rightarrow> nat \<Rightarrow> taghdr" where
  "ctx_hdr c op cl n pos \<equiv> \<lparr>tagNum = c, isCtx = True, isOpen = op, isClose = cl, vlen = n, newPos = pos\<rparr>"

lemma read_ctx_byte:
  assumes d: "drop pos data = (word_of_nat (c * 16) OR 8 OR word_of_nat l) # rest"
    and c: "c < 15" and l: "l < 8" "l \<noteq> 5"
  shows "readTagHdr data pos = Some (ctx_hdr c (l = 6) (l = 7) (if l < 5 then l else 0) (pos + 1))"
proof -
  note b = drop_Cons_nth [OF d]
  have "l \<noteq> 6 \<Longrightarrow> l \<noteq> 7 \<Longrightarrow> l < 5" using l by linarith
  with b(1,2) c l hdrByte_ok [OF c l(1)] show ?thesis
    by (auto simp: readTagHdr_def readTagLen_def hdrByte_ok_def Let_def)
qed

lemma read_open:
  assumes "drop pos data = encCtxOpen c @ rest" "c < 15"
  shows "readTagHdr data pos = Some (ctx_hdr c True False 0 (pos + 1))" "drop (pos + 1) data = rest"
proof -
  have "encCtxOpen c = [word_of_nat (c * 16) OR 8 OR word_of_nat 6]" by (simp add: encCtxOpen_def)
  with assms have "drop pos data = (word_of_nat (c * 16) OR 8 OR word_of_nat 6) # rest"
    by (simp only: append_Cons append_Nil)
  from read_ctx_byte [OF this assms(2)] drop_Cons_nth(3) [OF this]
  show "readTagHdr data pos = Some (ctx_hdr c True False 0 (pos + 1))" "drop (pos + 1) data = rest"
    by simp_all
qed

lemma read_close:
  assumes "drop pos data = encCtxClose c @ rest" "c < 15"
  shows "readTagHdr data pos = Some (ctx_hdr c False True 0 (pos + 1))" "drop (pos + 1) data = rest"
proof -
  have "encCtxClose c = [word_of_nat (c * 16) OR 8 OR word_of_nat 7]" by (simp add: encCtxClose_def)
  with assms have "drop pos data = (word_of_nat (c * 16) OR 8 OR word_of_nat 7) # rest"
    by (simp only: append_Cons append_Nil)
  from read_ctx_byte [OF this assms(2)] drop_Cons_nth(3) [OF this]
  show "readTagHdr data pos = Some (ctx_hdr c False True 0 (pos + 1))" "drop (pos + 1) data = rest"
    by simp_all
qed

lemma length_putU32 [simp]: "length (putU32 v) = 4"
  by (simp add: putU32_def)

lemma length_ctx_tags [simp]: "length (encCtxOpen c) = 1" "length (encCtxClose c) = 1"
  by (simp_all add: encCtxOpen_def encCtxClose_def)

lemma byte_width:
  assumes "v \<noteq> 0"
  shows "1 \<le> (bitLen v + 7) div 8" "(bitLen v + 7) div 8 \<le> 4" "unat v < 256 ^ ((bitLen v + 7) div 8)"
proof -
  from bitLen_bounds [OF assms] have b: "unat v < 2 ^ bitLen v" "2 ^ (bitLen v - 1) \<le> unat v" "0 < bitLen v"
    by auto
  have "(2::nat) ^ (bitLen v - 1) < 2 ^ 32" using b(2) unat_lt32 [of v] by simp
  then have "bitLen v - 1 < 32" by (rule power_less_imp_less_exp [rotated]) simp
  then show "1 \<le> (bitLen v + 7) div 8" "(bitLen v + 7) div 8 \<le> 4" using b(3) by linarith+
  have "bitLen v \<le> 8 * ((bitLen v + 7) div 8)" by linarith
  then have "(2::nat) ^ bitLen v \<le> 2 ^ (8 * ((bitLen v + 7) div 8))" by (intro power_increasing) simp_all
  also have "\<dots> = 256 ^ ((bitLen v + 7) div 8)" by (simp only: power_mult) simp
  finally show "unat v < 256 ^ ((bitLen v + 7) div 8)" using b(1) by simp
qed

text \<open>The minimal big-endian payload of a value: \<open>n\<close> bytes that read back as the value.\<close>

definition payload_of :: "u32 \<Rightarrow> byte list \<Rightarrow> bool" where
  "payload_of v bs \<longleftrightarrow> 1 \<le> length bs \<and> length bs \<le> 4 \<and> beval bs = unat v"

lemma payload_ofI:
  "v \<noteq> 0 \<Longrightarrow> payload_of v (drop (4 - (bitLen v + 7) div 8) (putU32 v))"
  using byte_width [of v] by (simp add: payload_of_def beval_putU32)

lemma encCtxUint_shape:
  obtains bs where "encCtxUint c v = (word_of_nat (c * 16) OR 8 OR word_of_nat (length bs)) # bs"
    and "payload_of v bs"
proof (cases "v = 0")
  case True
  then show ?thesis using that [of "[0]"] by (simp add: encCtxUint_def payload_of_def beval_def)
next
  case False
  then show ?thesis using that [OF _ payload_ofI [OF False]] by (simp add: encCtxUint_def Let_def)
qed

lemma read_ctxUint:
  assumes "drop pos data = encCtxUint c v @ rest" "c < 15"
  shows "\<exists>bs. readTagHdr data pos = Some (ctx_hdr c False False (length bs) (pos + 1))
     \<and> payload_of v bs \<and> take (length bs) (drop (pos + 1) data) = bs
     \<and> pos + 1 + length bs \<le> length data \<and> drop (pos + 1 + length bs) data = rest
     \<and> length (encCtxUint c v) = Suc (length bs)"
proof -
  obtain bs where bs: "encCtxUint c v = (word_of_nat (c * 16) OR 8 OR word_of_nat (length bs)) # bs"
    "payload_of v bs" by (rule encCtxUint_shape)
  with assms have d: "drop pos data = (word_of_nat (c * 16) OR 8 OR word_of_nat (length bs)) # bs @ rest"
    by simp
  have len: "length bs < 5" "bs \<noteq> []" using bs(2) by (auto simp: payload_of_def)
  note d' = drop_Cons_nth(3) [OF d]
  have "pos + 1 + length bs \<le> length data"
    using drop_append_len [of "Suc pos" data bs rest] d' len by simp
  moreover have "drop (pos + 1 + length bs) data = rest"
    using drop_append_at [of "Suc pos" data bs rest] d' by simp
  ultimately show ?thesis
    using read_ctx_byte [OF d assms(2)] len d' bs by (intro exI [of _ bs]) simp
qed

lemma propId_payload:
  assumes "payload_of v bs"
  shows "propId bs = int (unat v)"
proof -
  have f: "unat (foldl (\<lambda>v b. push_bit 8 v OR ucast b) (0 :: i64) bs) = unat v"
    using assms by (simp add: unat_fold payload_of_def)
  have *: "sint w = int (unat w)" if "unat w < 2 ^ 63" for w :: i64
  proof -
    have u: "uint w = int (unat w)" by simp
    have "int (unat w) < 2 ^ 63" using that by (metis of_nat_less_iff of_nat_numeral of_nat_power)
    moreover have "0 \<le> int (unat w)" by (rule of_nat_0_le_iff)
    then have "- (2 ^ 63) \<le> int (unat w)" by (rule order_trans [rotated]) simp
    ultimately show ?thesis unfolding sint_uint u by (intro signed_take_bit_int_eq_self) simp_all
  qed
  have "unat (foldl (\<lambda>v b. push_bit 8 v OR ucast b) (0 :: i64) bs) < 2 ^ 63"
    using f unat_lt32 [of v] by simp
  from * [OF this] show ?thesis by (simp only: propId_def f)
qed

lemma getU32_payload: "payload_of v bs \<Longrightarrow> getU32 bs = v"
  by (simp add: getU32_def payload_of_def word_unat_eq_iff unat_fold)

lemma getU32_putU32 [simp]: "getU32 (putU32 v) = v"
proof -
  have "beval (putU32 v) = unat v" using beval_putU32 [of 4 v] unat_lt32 [of v] by simp
  then show ?thesis by (simp add: getU32_def word_unat_eq_iff unat_fold)
qed


section \<open>Round trips\<close>

lemma decodeOID_oid:
  "decodeOID (putU32 (oidWord t i)) = (unat (t AND 0x3FF), unat (i AND 0x3FFFFF))"
  by (simp add: decodeOID_def oid1 oid2)

lemma unat_and_mask:
  "unat (t AND 0x3FF :: u32) = unat t mod 1024" "unat (i AND 0x3FFFFF :: u32) = unat i mod 4194304"
proof -
  have "(0x3FF :: u32) = mask 10" "(0x3FFFFF :: u32) = mask 22" by (simp_all add: mask_eq_exp_minus_1)
  then show "unat (t AND 0x3FF :: u32) = unat t mod 1024" "unat (i AND 0x3FFFFF :: u32) = unat i mod 4194304"
    by (simp_all only: take_bit_eq_mask [symmetric] unsigned_take_bit_eq)
      (simp_all add: take_bit_eq_mod)
qed

text \<open>An application-tagged primitive: one header and as many bytes as the header says.\<close>

definition is_prim :: "byte list \<Rightarrow> bool" where
  "is_prim bs \<longleftrightarrow> bs \<noteq> [] \<and> (\<forall>data pos rest. drop pos data = bs @ rest \<longrightarrow>
     (\<exists>tn. readTagHdr data pos = Some (prim_hdr tn (length bs - 1) (pos + 1))))"

lemma app_prim:
  assumes n: "length bs < 5" and b: "b \<in> {0x20, 0x90}"
  shows "is_prim ((b OR word_of_nat (length bs)) # bs)"
  unfolding is_prim_def
proof (intro conjI allI impI)
  fix data pos rest
  assume "drop pos data = ((b OR word_of_nat (length bs)) # bs) @ rest"
  then have d: "drop pos data = (b OR word_of_nat (length bs)) # bs @ rest" by simp
  have "unat (drop_bit 4 b) \<in> {2, 9}" using b by auto
  then show "\<exists>tn. readTagHdr data pos = Some (prim_hdr tn (length ((b OR word_of_nat (length bs)) # bs) - 1) (pos + 1))"
    using drop_Cons_nth(1,2) [OF d] appByte_ok [OF n b] n
    by (auto simp: readTagHdr_def readTagLen_def Let_def)
qed simp

lemma app_value:
  assumes d: "drop pos data = ((b OR word_of_nat (length bs)) # bs) @ rest"
    and n: "length bs < 5" and b: "b \<in> {0x20, 0x90}"
  shows "decodeAppValue data pos = Some (F64_uint (unat (getU32 bs)), pos + 1 + length bs)"
proof -
  from d have d: "drop pos data = (b OR word_of_nat (length bs)) # bs @ rest" by simp
  note d' = drop_Cons_nth [OF d]
  have "pos + 1 + length bs \<le> length data"
    using drop_append_len [of "Suc pos" data bs rest] d' by (cases "bs = []") auto
  moreover have "unat (drop_bit 4 b) \<in> {2, 9}" using b by auto
  ultimately show ?thesis
    using d' appByte_ok [OF n b] by (auto simp: decodeAppValue_def Let_def)
qed

lemma encAppEnum_shape:
  obtains bs where "encAppEnum v = (0x90 OR word_of_nat (length bs)) # bs" and "payload_of v bs"
proof (cases "v = 0")
  case True
  moreover have "bitLen 0 = 0" by (simp add: bitLen.simps)
  ultimately show ?thesis
    using that [of "[0]"] by (simp add: encAppEnum_def payload_of_def beval_def putU32_def)
next
  case False
  with byte_width [OF False] have "min (max ((bitLen v + 7) div 8) 1) 4 = (bitLen v + 7) div 8" by simp
  then show ?thesis
    using that [OF _ payload_ofI [OF False]] byte_width [OF False] by (simp add: encAppEnum_def Let_def)
qed

lemma encAppUint_shape:
  obtains bs where "encAppUint v = (0x20 OR word_of_nat (length bs)) # bs" and "payload_of v bs"
proof (cases "v = 0")
  case True
  then show ?thesis
    using that [of "[0]"] by (simp add: encAppUint_def payload_of_def beval_def)
next
  case False
  with byte_width [OF False] have "min ((bitLen v + 7) div 8) 4 = (bitLen v + 7) div 8" by simp
  then show ?thesis
    using that [OF _ payload_ofI [OF False]] byte_width [OF False] False by (simp add: encAppUint_def Let_def)
qed

lemma prim_encAppEnum: "is_prim (encAppEnum v)"
proof -
  obtain bs where "encAppEnum v = (0x90 OR word_of_nat (length bs)) # bs" "payload_of v bs"
    by (rule encAppEnum_shape)
  then show ?thesis by (simp add: app_prim payload_of_def)
qed

lemma prim_encAppUint: "is_prim (encAppUint v)"
proof -
  obtain bs where "encAppUint v = (0x20 OR word_of_nat (length bs)) # bs" "payload_of v bs"
    by (rule encAppUint_shape)
  then show ?thesis by (simp add: app_prim payload_of_def)
qed

lemma prim_real: "is_prim (0x44 # putU32 w)"
  unfolding is_prim_def
proof (intro conjI allI impI)
  fix data pos rest
  assume "drop pos data = (0x44 # putU32 w) @ rest"
  then have d: "drop pos data = 0x44 # putU32 w @ rest" by simp
  then show "\<exists>tn. readTagHdr data pos = Some (prim_hdr tn (length (0x44 # putU32 w) - 1) (pos + 1))"
    using drop_Cons_nth(1,2) [OF d] by (auto simp: readTagHdr_def readTagLen_def Let_def)
qed simp

lemma skip_prim:
  assumes p: "is_prim bs" and d: "drop pos data = bs @ rest"
  shows "skipToClose data pos c = skipToClose data (pos + length bs) c"
proof -
  obtain tn where h: "readTagHdr data pos = Some (prim_hdr tn (length bs - 1) (pos + 1))"
    using p d unfolding is_prim_def by blast
  obtain b bs' where "bs = b # bs'" using p by (cases bs) (auto simp: is_prim_def)
  with h readTagHdr_lt [OF h] show ?thesis by (subst skipToClose.simps) simp
qed

lemma skip_close:
  assumes "drop pos data = encCtxClose c @ rest" "c < 15"
  shows "skipToClose data pos c = pos + 1"
  using read_close(1) [OF assms] readTagHdr_lt [OF read_close(1) [OF assms]]
  by (subst skipToClose.simps) simp

lemma consume_close:
  assumes "drop pos data = encCtxClose c @ rest" "c < 15"
  shows "consumeClose data pos c = pos + 1"
  using read_close(1) [OF assms] by (simp add: consumeClose_def)


subsection \<open>A ReadPropertyMultiple acknowledgement\<close>

text \<open>
  The wire format the comment of \<open>decodeReadPropertyMultipleAck\<close> describes, as an
  encoder: per object a context[0] identifier and a context[1] list whose
  entries are \<open>[2]{ [0] property, [4]{ value } }\<close> or \<open>[2]{ [0] property, [5]{ class, code } }\<close>.
\<close>

datatype rpm_value = RReal u32 | RUint u32 | REnum u32

fun encValue :: "rpm_value \<Rightarrow> byte list" where
  "encValue (RReal w) = 0x44 # putU32 w"
| "encValue (RUint v) = encAppUint v"
| "encValue (REnum v) = encAppEnum v"

fun floatOf :: "rpm_value \<Rightarrow> go_float" where
  "floatOf (RReal w) = F64_f32 w"
| "floatOf (RUint v) = F64_uint (unat v)"
| "floatOf (REnum v) = F64_uint (unat v)"

datatype rpm_item = RItem u32 rpm_value | RError u32 u32 u32

fun encItem :: "rpm_item \<Rightarrow> byte list" where
  "encItem (RItem p v) = encCtxOpen 2 @ encCtxUint 0 p @ encCtxOpen 4 @ encValue v
     @ encCtxClose 4 @ encCtxClose 2"
| "encItem (RError p cl co) = encCtxOpen 2 @ encCtxUint 0 p @ encCtxOpen 5 @ encAppEnum cl @ encAppEnum co
     @ encCtxClose 5 @ encCtxClose 2"

fun resOf :: "nat \<Rightarrow> nat \<Rightarrow> rpm_item \<Rightarrow> PropResult" where
  "resOf t i (RItem p v) = \<lparr>pObjType = t, pInstance = i, pProp = int (unat p), pValue = floatOf v, pOK = True\<rparr>"
| "resOf t i (RError p cl co) = \<lparr>pObjType = t, pInstance = i, pProp = int (unat p), pValue = F64_uint 0, pOK = False\<rparr>"

definition encObject :: "int \<times> int \<times> rpm_item list \<Rightarrow> byte list" where
  "encObject ob = (case ob of (t, i, items) \<Rightarrow>
     encCtxOID 0 t i @ encCtxOpen 1 @ concat (map encItem items) @ encCtxClose 1)"

definition resObject :: "int \<times> int \<times> rpm_item list \<Rightarrow> PropResult list" where
  "resObject ob = (case ob of (t, i, items) \<Rightarrow> map (resOf (nat (t mod 1024)) (nat (i mod 4194304))) items)"

lemma value_prim: "is_prim (encValue v)"
  by (cases v) (simp_all add: prim_encAppEnum prim_encAppUint prim_real)

lemma value_decodes:
  assumes "drop pos data = encValue v @ rest"
  shows "\<exists>q. decodeAppValue data pos = Some (floatOf v, q)"
proof (cases v)
  case (RReal w)
  with assms have d: "drop pos data = 0x44 # putU32 w @ rest" by simp
  note d' = drop_Cons_nth [OF d]
  have "pos + 5 \<le> length data"
    using drop_append_len [of "Suc pos" data "putU32 w" rest] d'(3) by (simp add: putU32_def)
  then show ?thesis using d' RReal by (simp add: decodeAppValue_def Let_def)
next
  case (RUint u)
  obtain bs where bs: "encAppUint u = (0x20 OR word_of_nat (length bs)) # bs" "payload_of u bs"
    by (rule encAppUint_shape)
  with assms RUint app_value [of pos data "0x20" bs rest] show ?thesis
    by (simp add: payload_of_def getU32_payload [OF bs(2)])
next
  case (REnum u)
  obtain bs where bs: "encAppEnum u = (0x90 OR word_of_nat (length bs)) # bs" "payload_of u bs"
    by (rule encAppEnum_shape)
  with assms REnum app_value [of pos data "0x90" bs rest] show ?thesis
    by (simp add: payload_of_def getU32_payload [OF bs(2)])
qed

text \<open>Skipping the content of a property result and its two closing tags.\<close>

lemma skip_prims_close:
  assumes "drop pos data = concat bss @ encCtxClose c @ encCtxClose 2 @ rest"
    and "\<forall>bs \<in> set bss. is_prim bs" and "c < 15"
  shows "consumeClose data (skipToClose data pos c) 2 = pos + length (concat bss) + 2
     \<and> drop (pos + length (concat bss) + 2) data = rest"
  using assms
proof (induction bss arbitrary: pos)
  case Nil
  then have d: "drop pos data = encCtxClose c @ encCtxClose 2 @ rest" by simp
  note d2 = read_close(2) [OF d \<open>c < 15\<close>]
  show ?case
    using skip_close [OF d \<open>c < 15\<close>] consume_close [OF d2] read_close(2) [OF d2] by simp
next
  case (Cons bs bss)
  then have d: "drop pos data = bs @ concat bss @ encCtxClose c @ encCtxClose 2 @ rest" and p: "is_prim bs"
    by simp_all
  from drop_append_at [OF d] Cons.IH [of "pos + length bs"] Cons.prems
  have "consumeClose data (skipToClose data (pos + length bs) c) 2 = pos + length bs + length (concat bss) + 2
     \<and> drop (pos + length bs + length (concat bss) + 2) data = rest" by simp
  then show ?case by (simp add: skip_prim [OF p d] add.assoc)
qed

lemma encItem_shape:
  obtains c p bss where "encItem it = encCtxOpen 2 @ encCtxUint 0 p @ encCtxOpen c @ concat bss
      @ encCtxClose c @ encCtxClose 2"
    and "\<forall>bs \<in> set bss. is_prim bs"
    and "(\<exists>v. it = RItem p v \<and> c = 4 \<and> bss = [encValue v]) \<or> (\<exists>cl co. it = RError p cl co \<and> c = 5)"
proof (cases it)
  case (RItem p v)
  then show ?thesis using that [of p 4 "[encValue v]"] by (simp add: value_prim)
next
  case (RError p cl co)
  then show ?thesis using that [of p 5 "[encAppEnum cl, encAppEnum co]"] by (simp add: prim_encAppEnum)
qed

lemma rpm_entry_item:
  assumes d: "drop pos data = encItem it @ rest"
  shows "rpm_entry data t i (pos + 1) out = Some (pos + length (encItem it), out @ [resOf t i it])
     \<and> drop (pos + length (encItem it)) data = rest
     \<and> readTagHdr data pos = Some (ctx_hdr 2 True False 0 (pos + 1))"
proof -
  obtain c p bss where e: "encItem it = encCtxOpen 2 @ encCtxUint 0 p @ encCtxOpen c @ concat bss
      @ encCtxClose c @ encCtxClose 2"
    and prims: "\<forall>bs \<in> set bss. is_prim bs"
    and it: "(\<exists>v. it = RItem p v \<and> c = 4 \<and> bss = [encValue v]) \<or> (\<exists>cl co. it = RError p cl co \<and> c = 5)"
    by (rule encItem_shape)
  have c: "c < 15" using it by auto
  from d e have d0: "drop pos data = encCtxOpen 2 @ encCtxUint 0 p @ encCtxOpen c @ concat bss
      @ encCtxClose c @ encCtxClose 2 @ rest" by simp
  note o = read_open [OF d0]
  obtain bs where u: "readTagHdr data (pos + 1) = Some (ctx_hdr 0 False False (length bs) (pos + 2))"
      "payload_of p bs" "take (length bs) (drop (pos + 2) data) = bs" "pos + 2 + length bs \<le> length data"
      "drop (pos + 2 + length bs) data = encCtxOpen c @ concat bss @ encCtxClose c @ encCtxClose 2 @ rest"
      "length (encCtxUint 0 p) = Suc (length bs)"
    using read_ctxUint [OF o(2)] by auto
  note o2 = read_open [OF u(5) c]
  let ?p = "pos + 2 + length bs + 1"
  note s = skip_prims_close [OF o2(2) prims c]
  have len: "length (encItem it) = 2 + length bs + 1 + length (concat bss) + 2"
    using u(6) e by (simp add: encCtxOpen_def encCtxClose_def)
  have val: "\<exists>q. decodeAppValue data ?p = Some (floatOf v, q)" if "it = RItem p v" for v
    using that it o2(2) value_decodes [of ?p data v] by simp
  have end_pos: "pos + length (encItem it) = ?p + length (concat bss) + 2" using len by simp
  have hdrs: "readTagHdr data (pos + 1) = Some (ctx_hdr 0 False False (length bs) (pos + 2))"
    "readTagHdr data (pos + 2 + length bs) = Some (ctx_hdr c True False 0 ?p)"
    "propId (take (length bs) (drop (pos + 2) data)) = int (unat p)"
    using u(1) o2(1) propId_payload [OF u(2)] u(3) by simp_all
  have "rpm_entry data t i (pos + 1) out
     = Some (consumeClose data (skipToClose data ?p c) 2, out @ [resOf t i it])"
    using it
  proof (elim disjE exE conjE)
    fix v
    assume v: "it = RItem p v" "c = 4" "bss = [encValue v]"
    with val obtain q where "decodeAppValue data ?p = Some (floatOf v, q)" by blast
    with v hdrs u(4) show ?thesis by (simp add: rpm_entry_def Let_def del: One_nat_def)
  next
    fix cl co
    assume "it = RError p cl co" "c = 5"
    with hdrs u(4) show ?thesis by (simp add: rpm_entry_def Let_def del: One_nat_def)
  qed
  with s o(1) show ?thesis by (simp only: end_pos) 
qed

lemma rpm_results_items:
  assumes "drop pos data = concat (map encItem items) @ encCtxClose 1 @ rest"
  shows "rpm_results data t i pos out
     = Broke (pos + length (concat (map encItem items)) + 1) (out @ map (resOf t i) items)
     \<and> drop (pos + length (concat (map encItem items)) + 1) data = rest"
  using assms
proof (induction items arbitrary: pos out)
  case Nil
  then have d: "drop pos data = encCtxClose 1 @ rest" by simp
  have "(1::nat) < 15" by simp
  note c = read_close [OF d this]
  show ?case using c readTagHdr_lt [OF c(1)] by (subst rpm_results.simps) simp
next
  case (Cons it items)
  then have d: "drop pos data = encItem it @ concat (map encItem items) @ encCtxClose 1 @ rest" by simp
  from rpm_entry_item [OF d, of t i out]
  have e: "rpm_entry data t i (pos + 1) out = Some (pos + length (encItem it), out @ [resOf t i it])"
    "drop (pos + length (encItem it)) data = concat (map encItem items) @ encCtxClose 1 @ rest"
    "readTagHdr data pos = Some (ctx_hdr 2 True False 0 (pos + 1))" by auto
  from Cons.IH [OF e(2), of "out @ [resOf t i it]"] e(1,3) readTagHdr_lt [OF e(3)]
  show ?case by (subst rpm_results.simps) (simp add: add.assoc)
qed

lemma oid_ctx:
  assumes "drop pos data = encCtxOID c t i @ rest" "c < 15"
  shows "readTagHdr data pos = Some (ctx_hdr c False False 4 (pos + 1))"
    and "take 4 (drop (pos + 1) data) = putU32 (oidWord (word_of_int t) (word_of_int i))"
    and "pos + 5 \<le> length data" and "drop (pos + 5) data = rest"
proof -
  have "encCtxOID c t i = (word_of_nat (c * 16) OR 8 OR word_of_nat 4)
      # putU32 (oidWord (word_of_int t) (word_of_int i))" by (simp add: encCtxOID_def)
  with assms(1) have d: "drop pos data = (word_of_nat (c * 16) OR 8 OR word_of_nat 4)
      # putU32 (oidWord (word_of_int t) (word_of_int i)) @ rest" by simp
  note d' = drop_Cons_nth(3) [OF d]
  show "readTagHdr data pos = Some (ctx_hdr c False False 4 (pos + 1))"
    using read_ctx_byte [OF d assms(2)] by simp
  show "take 4 (drop (pos + 1) data) = putU32 (oidWord (word_of_int t) (word_of_int i))"
    using d' by simp
  show "pos + 5 \<le> length data" "drop (pos + 5) data = rest"
    using drop_append_len [OF d'] drop_append_at [OF d'] by (auto simp: putU32_def numeral_eq_Suc)
qed

lemma decodeOID_int:
  "decodeOID (putU32 (oidWord (word_of_int t) (word_of_int i))) = (nat (t mod 1024), nat (i mod 4194304))"
proof -
  have "unat (word_of_int k :: u32) mod m = nat (k mod int m)" if "int m dvd 4294967296" "0 < m" for k m
  proof -
    have "unat (word_of_int k :: u32) = nat (k mod 4294967296)"
      by (simp add: unat_eq_nat_uint uint_word_of_int)
    then have "int (unat (word_of_int k :: u32) mod m) = (k mod 4294967296) mod int m"
      by (simp add: zmod_int)
    then show ?thesis using mod_mod_cancel [OF that(1), of k] by (metis nat_int)
  qed
  from this [of 1024 t] this [of 4194304 i] show ?thesis
    by (simp add: decodeOID_oid unat_and_mask)
qed

lemma rpm_objects_obs:
  assumes "drop pos data = concat (map encObject obs)"
  shows "rpm_objects data pos out = out @ concat (map resObject obs)"
  using assms
proof (induction obs arbitrary: pos out)
  case Nil
  then show ?case by (subst rpm_objects.simps) simp
next
  case (Cons ob obs)
  obtain t i items where ob: "ob = (t, i, items)" by (cases ob)
  with Cons.prems have d: "drop pos data = encCtxOID 0 t i @ encCtxOpen 1 @ concat (map encItem items)
      @ encCtxClose 1 @ concat (map encObject obs)" by (simp add: encObject_def [of "(t, i, items)"])
  have lt: "(0::nat) < 15" "(1::nat) < 15" by simp_all
  note h = oid_ctx [OF d lt(1)]
  note o = read_open [OF h(4) lt(2)]
  let ?t = "nat (t mod 1024)" and ?i = "nat (i mod 4194304)"
  have items: "rpm_results data ?t ?i (pos + 5 + 1) out
     = Broke (pos + 5 + 1 + length (concat (map encItem items)) + 1) (out @ map (resOf ?t ?i) items)"
    "drop (pos + 5 + 1 + length (concat (map encItem items)) + 1) data = concat (map encObject obs)"
    using rpm_results_items [OF o(2), of ?t ?i out] by auto
  have o1: "readTagHdr data (5 + pos) = Some (ctx_hdr 1 True False 0 (pos + 6))"
    using o(1) by (simp add: add.commute)
  show ?case
    using h(1-3) o1 items(1) Cons.IH [OF items(2), of "out @ map (resOf ?t ?i) items"]
      readTagHdr_lt [OF h(1)]
    by (subst rpm_objects.simps) (simp add: decodeOID_int ob resObject_def [of "(t, i, items)"] add.commute)
qed

subsection \<open>Frames\<close>

lemma nth_header:
  "length (buildBVLL npdu b) = 4 + length npdu"
  "buildBVLL npdu b ! 0 = 0x81"
  "buildBVLL npdu b ! 1 = (if b then 0x0B else 0x0A)"
  "buildBVLL npdu b ! 2 = word_of_nat ((4 + length npdu) div 256)"
  "buildBVLL npdu b ! 3 = word_of_nat ((4 + length npdu) mod 256)"
  "drop 4 (buildBVLL npdu b) = npdu"
  by (simp_all add: buildBVLL_def bvllType_def bvlcOriginalBroadcast_def bvlcOriginalUnicast_def Let_def)

lemma parseBVLL_build:
  assumes "4 + length npdu < 65536"
  shows "parseBVLL (buildBVLL npdu b) = Ret npdu"
proof -
  have "unat (word_of_nat ((4 + length npdu) div 256) :: byte) = (4 + length npdu) div 256"
    "unat (word_of_nat ((4 + length npdu) mod 256) :: byte) = (4 + length npdu) mod 256"
    using assms by (simp_all add: unsigned_of_nat take_bit_nat_eq_self)
  then have "unat (word_of_nat ((4 + length npdu) div 256) :: byte) * 256
      + unat (word_of_nat ((4 + length npdu) mod 256) :: byte) = 4 + length npdu"
    by (simp only:) (rule div_mult_mod_eq)
  then show ?thesis
    unfolding parseBVLL_def nth_header Let_def
    by (simp add: nth_header bvllType_def bvlcForwardedNPDU_def go_slice_def)
qed

lemma parseNPDU_build: "parseNPDU (buildNPDU body er) = Ret body"
  by (simp add: parseNPDU_def buildNPDU_def npdu_dnet_def npdu_snet_def)

lemma parseAPDU_no_panic [simp]: "parseAPDU d \<noteq> Panic" "parseNPDU d \<noteq> Panic"
  by (auto simp: parseAPDU_def parseNPDU_def Let_def split: option.splits)

lemma parseFrame_panic_iff: "parseFrame d = Panic \<longleftrightarrow> parseBVLL d = Panic"
  by (auto simp: parseFrame_def split: outcome.splits)

subsection \<open>A COV notification\<close>

text \<open>The value of the last present-value entry, as the loop leaves it in the notification.\<close>

definition encCovEntry :: "u32 \<times> rpm_value \<Rightarrow> byte list" where
  "encCovEntry e = encItem (RItem (fst e) (snd e))"

definition encCOV :: "u32 \<Rightarrow> int \<Rightarrow> int \<Rightarrow> int \<Rightarrow> u32 \<Rightarrow> (u32 \<times> rpm_value) list \<Rightarrow> byte list" where
  "encCOV pid dev ot inst remaining entries =
     encCtxUint 0 pid @ encCtxOID 1 8 dev @ encCtxOID 2 ot inst @ encCtxUint 3 remaining
     @ encCtxOpen 4 @ concat (map encCovEntry entries) @ encCtxClose 4"

definition cov_step :: "covNotification \<Rightarrow> u32 \<times> rpm_value \<Rightarrow> covNotification" where
  "cov_step n e = (if fst e = 85 then n\<lparr>presentValue := floatOf (snd e), hasValue := True\<rparr> else n)"

definition lastPresent :: "(u32 \<times> rpm_value) list \<Rightarrow> go_float option" where
  "lastPresent entries = (case rev (filter (\<lambda>e. fst e = 85) entries) of [] \<Rightarrow> None | e # _ \<Rightarrow> Some (floatOf (snd e)))"

lemma cov_fold:
  "foldl cov_step n entries =
     (case lastPresent entries of None \<Rightarrow> n | Some v \<Rightarrow> n\<lparr>presentValue := v, hasValue := True\<rparr>)"
proof (induction entries rule: rev_induct)
  case (snoc e es)
  then show ?case
    by (cases "fst e = 85") (auto simp: lastPresent_def cov_step_def split: list.splits)
qed (simp add: lastPresent_def)

lemma cov_values_entry:
  assumes d: "drop pos data = encCovEntry e @ rest"
  shows "cov_values data pos n = cov_values data (pos + length (encCovEntry e)) (cov_step n e)
     \<and> drop (pos + length (encCovEntry e)) data = rest"
proof -
  obtain p v where e: "e = (p, v)" by (cases e)
  from d e have d0: "drop pos data = encCtxOpen 2 @ encCtxUint 0 p @ encCtxOpen 4 @ concat [encValue v]
      @ encCtxClose 4 @ encCtxClose 2 @ rest" by (simp add: encCovEntry_def)
  have c: "(2::nat) < 15" "(0::nat) < 15" "(4::nat) < 15" by simp_all
  note o = read_open [OF d0 c(1)]
  obtain bs where u: "readTagHdr data (pos + 1) = Some (ctx_hdr 0 False False (length bs) (pos + 2))"
      "payload_of p bs" "take (length bs) (drop (pos + 2) data) = bs" "pos + 2 + length bs \<le> length data"
      "drop (pos + 2 + length bs) data = encCtxOpen 4 @ concat [encValue v] @ encCtxClose 4 @ encCtxClose 2 @ rest"
      "length (encCtxUint 0 p) = Suc (length bs)"
    using read_ctxUint [OF o(2) c(2)] by auto
  note o2 = read_open [OF u(5) c(3)]
  let ?p = "pos + 2 + length bs + 1"
  have prims: "\<forall>bs \<in> set [encValue v]. is_prim bs" by (simp add: value_prim)
  note s = skip_prims_close [OF o2(2) prims c(3)]
  obtain q where val: "decodeAppValue data ?p = Some (floatOf v, q)"
    using o2(2) value_decodes [of ?p data v] by auto
  have pid: "propId (take (length bs) (drop (pos + 2) data)) = int (unat p)"
    using propId_payload [OF u(2)] u(3) by simp
  have eq: "int (unat p) = PropPresentValue \<longleftrightarrow> p = 85"
    unfolding uint_nat [symmetric] by (simp add: word_uint_eq_iff)
  have len: "pos + length (encCovEntry e) = ?p + length (concat [encValue v]) + 2"
    using u(6) e by (simp add: encCovEntry_def)
  have "cov_values data pos n
     = cov_values data (consumeClose data (skipToClose data ?p 4) 2) (cov_step n e)"
    using readTagHdr_lt [OF o(1)] o(1) u(1,4) o2(1) val pid eq e
    by (subst cov_values.simps) (simp add: Let_def cov_step_def del: One_nat_def)
  with s show ?thesis by (simp only: len)
qed

lemma cov_values_entries:
  assumes "drop pos data = concat (map encCovEntry entries) @ encCtxClose 4 @ rest"
  shows "cov_values data pos n = foldl cov_step n entries"
  using assms
proof (induction entries arbitrary: pos n)
  case Nil
  then have d: "drop pos data = encCtxClose 4 @ rest" by simp
  have "(4::nat) < 15" by simp
  note c = read_close [OF d this]
  show ?case using c readTagHdr_lt [OF c(1)] by (subst cov_values.simps) simp
next
  case (Cons e es)
  then have d: "drop pos data = encCovEntry e @ concat (map encCovEntry es) @ encCtxClose 4 @ rest" by simp
  from cov_values_entry [OF d, of n] Cons.IH [of "pos + length (encCovEntry e)" "cov_step n e"]
  show ?case by simp
qed

section \<open>Properties\<close>

text \<open>
  C30. The acknowledgement decoder inverts the format its comment describes: for
  every list of objects, each with its list of values and access errors, the
  decoded results are the entries in order, with the 10-bit object type and
  22-bit instance of the identifier, the exact value of every REAL, unsigned and
  enumerated entry, and \<open>pOK = False\<close> exactly at the access errors.
\<close>

theorem rpm_ack_roundtrip:
  "decodeReadPropertyMultipleAck (concat (map encObject obs)) = concat (map resObject obs)"
  by (simp add: decodeReadPropertyMultipleAck_def rpm_objects_obs)

text \<open>
  The COV decoder inverts the notification format: whatever the process id,
  the lifetime and the entries, the device and object are read back (identifiers
  masked to their wire width) and the value is that of the last present-value
  entry; a notification with no present-value entry is not reported.
\<close>

theorem cov_roundtrip:
  "decodeCOVNotification (encCOV pid dev ot inst remaining entries) =
     map_option (\<lambda>v. \<lparr>deviceInstance = nat (dev mod 4194304), covObjType = nat (ot mod 1024),
        covInstance = nat (inst mod 4194304), presentValue = v, hasValue = True\<rparr>) (lastPresent entries)"
proof -
  let ?data = "encCOV pid dev ot inst remaining entries"
  have c: "(0::nat) < 15" "(1::nat) < 15" "(2::nat) < 15" "(3::nat) < 15" "(4::nat) < 15" by simp_all
  have d0: "drop 0 ?data = encCtxUint 0 pid @ encCtxOID 1 8 dev @ encCtxOID 2 ot inst
      @ encCtxUint 3 remaining @ encCtxOpen 4 @ concat (map encCovEntry entries) @ encCtxClose 4 @ []"
    by (simp add: encCOV_def)
  from read_ctxUint [OF d0 c(1)] obtain b0 :: "byte list" where
    h0: "readTagHdr ?data 0 = Some (ctx_hdr 0 False False (length b0) (0 + 1))"
    and d1: "drop (0 + 1 + length b0) ?data = encCtxOID 1 8 dev @ encCtxOID 2 ot inst
      @ encCtxUint 3 remaining @ encCtxOpen 4 @ concat (map encCovEntry entries) @ encCtxClose 4 @ []"
    by blast
  note h1 = oid_ctx [OF d1 c(2)]
  note h2 = oid_ctx [OF h1(4) c(3)]
  let ?q = "0 + 1 + length b0 + 5 + 5"
  from read_ctxUint [OF h2(4) c(4)] obtain b3 :: "byte list" where
    h3: "readTagHdr ?data ?q = Some (ctx_hdr 3 False False (length b3) (?q + 1))"
    and d4: "drop (?q + 1 + length b3) ?data =
      encCtxOpen 4 @ concat (map encCovEntry entries) @ encCtxClose 4 @ []"
    by blast
  note h4 = read_open [OF d4 c(5)]
  note vals = cov_values_entries [OF h4(2)]
  have "decodeOID (putU32 (oidWord 8 (word_of_int dev))) = (8, nat (dev mod 4194304))"
    using decodeOID_int [of 8 dev] by simp
  note steps = this h0 h1(1-3) h2(1-3) h3 h4(1) vals
  show ?thesis
    unfolding decodeCOVNotification_def
    using steps
    by (simp add: decodeOID_int guard_opt_def cov_fold add.commute split: option.split)
qed

text \<open>
  An unsigned or enumerated application value written by the request builders
  reads back as itself, and the encoding is one tag byte and one to four value
  bytes, whatever the 32-bit value and whatever follows it.
\<close>

theorem app_value_roundtrip:
  "decodeAppValue (encAppUint v @ rest) 0 = Some (F64_uint (unat v), length (encAppUint v))
   \<and> decodeAppValue (encAppEnum v @ rest) 0 = Some (F64_uint (unat v), length (encAppEnum v))
   \<and> length (encAppUint v) \<in> {2..5} \<and> length (encAppEnum v) \<in> {2..5}"
proof -
  obtain bu where bu: "encAppUint v = (0x20 OR word_of_nat (length bu)) # bu" "payload_of v bu"
    by (rule encAppUint_shape)
  obtain be where be: "encAppEnum v = (0x90 OR word_of_nat (length be)) # be" "payload_of v be"
    by (rule encAppEnum_shape)
  from app_value [of 0 "encAppUint v @ rest" "0x20" bu rest] app_value [of 0 "encAppEnum v @ rest" "0x90" be rest]
  show ?thesis using bu be by (simp add: payload_of_def getU32_payload)
qed

text \<open>
  Every tag header that is read moves the position strictly forward and stays
  inside the datagram, so no decoding loop can spin on a hostile datagram.
\<close>

theorem tag_header_progress:
  "case readTagHdr data pos of
     None \<Rightarrow> True
   | Some h \<Rightarrow> pos < newPos h \<and> newPos h \<le> length data \<and> pos \<le> skipToClose data pos c"
  by (auto split: option.split dest: readTagHdr_pos simp: skipToClose_ge)

text \<open>
  An APDU framed by \<open>buildNPDU\<close> and \<open>buildBVLL\<close>, unicast or broadcast, is
  parsed back to exactly what \<open>parseAPDU\<close> makes of it, as long as the frame fits
  the 16-bit length field.
\<close>

theorem frame_roundtrip:
  assumes "6 + length body < 65536"
  shows "parseFrame (buildBVLL (buildNPDU body er) b) = Ret (ret_of (parseAPDU body))"
proof -
  have "4 + length (buildNPDU body er) < 65536" using assms by (simp add: buildNPDU_def)
  then show ?thesis
    using parseAPDU_no_panic(1) [of body]
    by (simp add: parseFrame_def parseBVLL_build parseNPDU_build split: outcome.splits)
qed

theorem frame_roundtrip_witness:
  "parseFrame (buildBVLL (buildNPDU [0x30, 7, 14, 1, 2] False) True)
     = Ret (Some \<lparr>kind = 3, service = 14, invokeID = 7, payload = [1, 2]\<rparr>)"
proof -
  have "parseAPDU [0x30, 7, 14, 1, 2] = Ret \<lparr>kind = 3, service = 14, invokeID = 7, payload = [1, 2]\<rparr>"
    by (simp add: parseAPDU_def)
  with frame_roundtrip [of "[0x30, 7, 14, 1, 2]" False True] show ?thesis by simp
qed

text \<open>
  Which datagrams crash the receive loop: \<open>parseFrame\<close> panics exactly on a
  BVLL frame, other than a forwarded one, whose declared length is below the four
  bytes of its own header, because \<open>data[4:length]\<close> is then an invalid slice.
  Every other datagram yields a frame or is dropped.
\<close>

theorem parseFrame_panics:
  "parseFrame d = Panic \<longleftrightarrow>
     4 \<le> length d \<and> d ! 0 = bvllType \<and> d ! 1 \<noteq> bvlcForwardedNPDU
     \<and> unat (d ! 2) * 256 + unat (d ! 3) < 4"
  unfolding parseFrame_panic_iff
  by (auto simp: parseBVLL_def go_slice_def Let_def not_less)

end
