(* ===== verification/Lru_Cache.thy ===== *)
theory Lru_Cache
  imports Prelude
begin

text \<open>
  The lookup cache of the ingest pipeline, \<open>fwDCS/internal/ingest/cache.go\<close>: a
  doubly linked list of entries, most recently used first, and an index from key
  to list element. A list element is a pointer in the code, so it is a number
  here: \<open>ll\<close> pairs each element with its entry and \<open>idx\<close> maps a key to an
  element. Times are nanoseconds; \<open>expiresAt = None\<close> is the zero time.

  The abstract cache is the association list of keys to values and expiry
  times; every operation refines an operation on it.
\<close>

record lruEntry =
  key :: string
  val :: string
  expiresAt :: "int option"

record LRU =
  cap :: nat
  ttl :: int
  ll :: "(nat \<times> lruEntry) list"
  idx :: "string \<rightharpoonup> nat"
  nextElem :: nat

definition NewLRUWithTTL :: "int \<Rightarrow> int \<Rightarrow> LRU" where
  "NewLRUWithTTL capacity t =
     \<lparr>cap = (if capacity \<le> 0 then 1024 else nat capacity), ttl = t, ll = [], idx = Map.empty, nextElem = 0\<rparr>"

definition NewLRU :: "int \<Rightarrow> LRU" where
  "NewLRU capacity = NewLRUWithTTL capacity 0"

text \<open>\<open>container/list\<close>: reading an element, \<open>Remove\<close> and \<open>MoveToFront\<close>.\<close>

definition list_elem :: "(nat \<times> lruEntry) list \<Rightarrow> nat \<Rightarrow> lruEntry option" where
  "list_elem xs e = map_of xs e"

definition list_remove :: "(nat \<times> lruEntry) list \<Rightarrow> nat \<Rightarrow> (nat \<times> lruEntry) list" where
  "list_remove xs e = filter (\<lambda>p. fst p \<noteq> e) xs"

definition move_to_front :: "(nat \<times> lruEntry) list \<Rightarrow> nat \<Rightarrow> (nat \<times> lruEntry) list" where
  "move_to_front xs e = filter (\<lambda>p. fst p = e) xs @ list_remove xs e"

text \<open>
  A key whose element is not in the list would be a nil dereference; the
  invariant below excludes it, and the model treats it as a miss.
\<close>

definition Get :: "int \<Rightarrow> LRU \<Rightarrow> string \<Rightarrow> string option \<times> LRU" where
  "Get now c k =
     (case idx c k of
        None \<Rightarrow> (None, c)
      | Some e \<Rightarrow>
          (case list_elem (ll c) e of
             None \<Rightarrow> (None, c)
           | Some entry \<Rightarrow>
               (case expiresAt entry of
                  Some x \<Rightarrow>
                    if now > x then (None, c\<lparr>ll := list_remove (ll c) e, idx := (idx c)(k := None)\<rparr>)
                    else (Some (val entry), c\<lparr>ll := move_to_front (ll c) e\<rparr>)
                | None \<Rightarrow> (Some (val entry), c\<lparr>ll := move_to_front (ll c) e\<rparr>))))"

definition evict_oldest :: "LRU \<Rightarrow> LRU" where
  "evict_oldest c =
     (if length (ll c) > cap c then
        (case rev (ll c) of
           [] \<Rightarrow> c
         | (e, entry) # _ \<Rightarrow> c\<lparr>ll := list_remove (ll c) e, idx := (idx c)(key entry := None)\<rparr>)
      else c)"

definition Put :: "int \<Rightarrow> LRU \<Rightarrow> string \<Rightarrow> string \<Rightarrow> LRU" where
  "Put now c k v =
     (let exp = (if ttl c > 0 then Some (now + ttl c) else None)
      in case idx c k of
           Some e \<Rightarrow>
             c\<lparr>ll := move_to_front (map (\<lambda>(e', en). (e', if e' = e then en\<lparr>val := v, expiresAt := exp\<rparr> else en)) (ll c)) e\<rparr>
         | None \<Rightarrow>
             evict_oldest (c\<lparr>ll := (nextElem c, \<lparr>key = k, val = v, expiresAt = exp\<rparr>) # ll c,
                             idx := (idx c)(k \<mapsto> nextElem c), nextElem := Suc (nextElem c)\<rparr>))"

definition Invalidate :: "LRU \<Rightarrow> string \<Rightarrow> LRU" where
  "Invalidate c k =
     (case idx c k of
        Some e \<Rightarrow> c\<lparr>ll := list_remove (ll c) e, idx := (idx c)(k := None)\<rparr>
      | None \<Rightarrow> c)"

definition Flush :: "LRU \<Rightarrow> nat \<times> LRU" where
  "Flush c = (length (ll c), c\<lparr>ll := [], idx := Map.empty\<rparr>)"

definition Len :: "LRU \<Rightarrow> nat" where
  "Len c = length (ll c)"

section \<open>Invariant\<close>

text \<open>
  The index and the list describe the same entries: elements and keys are
  distinct, a key is indexed exactly at the element that holds it, and the list
  never exceeds the capacity.
\<close>

definition lru_wf :: "LRU \<Rightarrow> bool" where
  "lru_wf c \<longleftrightarrow>
     distinct (map fst (ll c)) \<and> distinct (map (key \<circ> snd) (ll c)) \<and>
     (\<forall>k e. idx c k = Some e \<longleftrightarrow> (\<exists>en. (e, en) \<in> set (ll c) \<and> key en = k)) \<and>
     (\<forall>(e, en) \<in> set (ll c). e < nextElem c)"

definition lru_inv :: "LRU \<Rightarrow> bool" where
  "lru_inv c \<longleftrightarrow> lru_wf c \<and> length (ll c) \<le> cap c \<and> 0 < cap c"

text \<open>The abstract cache: recency-ordered association list.\<close>

definition lru_abs :: "LRU \<Rightarrow> (string \<times> string \<times> int option) list" where
  "lru_abs c = map (\<lambda>(e, en). (key en, val en, expiresAt en)) (ll c)"

definition aremove :: "string \<Rightarrow> (string \<times> 'v) list \<Rightarrow> (string \<times> 'v) list" where
  "aremove k xs = filter (\<lambda>p. fst p \<noteq> k) xs"

fun fresh :: "int \<Rightarrow> int option \<Rightarrow> bool" where
  "fresh now None = True"
| "fresh now (Some x) = (now \<le> x)"

definition spec_get :: "int \<Rightarrow> (string \<times> string \<times> int option) list \<Rightarrow> string \<Rightarrow>
    string option \<times> (string \<times> string \<times> int option) list" where
  "spec_get now xs k =
     (case map_of xs k of
        None \<Rightarrow> (None, xs)
      | Some (v, x) \<Rightarrow> if fresh now x then (Some v, (k, v, x) # aremove k xs) else (None, aremove k xs))"

definition spec_put :: "nat \<Rightarrow> string \<Rightarrow> string \<Rightarrow> int option \<Rightarrow>
    (string \<times> string \<times> int option) list \<Rightarrow> (string \<times> string \<times> int option) list" where
  "spec_put n k v x xs = take n ((k, v, x) # aremove k xs)"

lemma lru_wf_simps:
  assumes "lru_wf c"
  shows "distinct (map fst (ll c))" "distinct (map (key \<circ> snd) (ll c))"
    "idx c k = Some e \<longleftrightarrow> (\<exists>en. (e, en) \<in> set (ll c) \<and> key en = k)"
    "(e, en) \<in> set (ll c) \<Longrightarrow> e < nextElem c"
  using assms by (auto simp: lru_wf_def)

lemma lru_idx_None:
  "lru_wf c \<Longrightarrow> idx c k = None \<longleftrightarrow> k \<notin> (key \<circ> snd) ` set (ll c)"
proof -
  assume wf: "lru_wf c"
  have "idx c k = None \<longleftrightarrow> (\<forall>e. idx c k \<noteq> Some e)" by simp
  also have "\<dots> \<longleftrightarrow> (\<forall>e en. (e, en) \<in> set (ll c) \<longrightarrow> key en \<noteq> k)"
    unfolding lru_wf_simps(3) [OF wf] by blast
  also have "\<dots> \<longleftrightarrow> k \<notin> (key \<circ> snd) ` set (ll c)" by force
  finally show ?thesis .
qed

lemma list_elem_in: "distinct (map fst xs) \<Longrightarrow> list_elem xs e = Some en \<longleftrightarrow> (e, en) \<in> set xs"
  by (simp add: list_elem_def)

lemma set_list_remove [simp]: "set (list_remove xs e) = {p \<in> set xs. fst p \<noteq> e}"
  by (auto simp: list_remove_def)

lemma set_move_to_front [simp]: "set (move_to_front xs e) = set xs"
  by (auto simp: move_to_front_def list_remove_def)

lemma length_move_to_front [simp]: "length (move_to_front xs e) = length xs"
  by (simp add: move_to_front_def list_remove_def sum_length_filter_compl)

lemma distinct_map_filter_parts:
  "distinct (map f xs) \<Longrightarrow> distinct (map f (filter P xs @ filter (\<lambda>x. \<not> P x) xs))"
  by (auto simp: distinct_map inj_on_def)

lemma distinct_move_to_front:
  "distinct (map f xs) \<Longrightarrow> distinct (map f (move_to_front xs e))"
  using distinct_map_filter_parts [of f xs "\<lambda>p. fst p = e"]
  by (simp add: move_to_front_def list_remove_def)

lemma distinct_list_remove: "distinct (map f xs) \<Longrightarrow> distinct (map f (list_remove xs e))"
  by (simp add: list_remove_def distinct_map_filter)

lemma length_list_remove_le: "length (list_remove xs e) \<le> length xs"
  by (simp add: list_remove_def)

lemma wf_move: "lru_wf c \<Longrightarrow> lru_wf (c\<lparr>ll := move_to_front (ll c) e\<rparr>)"
  by (auto simp: lru_wf_def distinct_move_to_front)

lemma wf_unique:
  assumes "lru_wf c" "(e, en) \<in> set (ll c)" "(e', en') \<in> set (ll c)"
  shows "e = e' \<longleftrightarrow> key en = key en'"
proof -
  have "e = e' \<Longrightarrow> en = en'"
    using assms(2,3) map_of_is_SomeI [OF lru_wf_simps(1) [OF assms(1)]] by (metis option.inject)
  moreover have inj: "inj_on (key \<circ> snd) (set (ll c))"
    using lru_wf_simps(2) [OF assms(1)] by (simp add: distinct_map)
  have "key en = key en' \<Longrightarrow> (e, en) = (e', en')"
    using inj_onD [OF inj _ assms(2,3)] by simp
  ultimately show ?thesis by blast
qed

lemma wf_remove:
  assumes c: "lru_wf c" and e: "(e, en) \<in> set (ll c)"
  shows "lru_wf (c\<lparr>ll := list_remove (ll c) e, idx := (idx c)(key en := None)\<rparr>)"
proof -
  have "((idx c)(key en := None)) k = Some e' \<longleftrightarrow> (\<exists>en'. (e', en') \<in> set (list_remove (ll c) e) \<and> key en' = k)" for k e'
    using wf_unique [OF c e] lru_wf_simps(3) [OF c, of k e'] by (cases "k = key en") (simp; metis)+
  then show ?thesis
    using lru_wf_simps [OF c] by (auto simp: lru_wf_def distinct_list_remove)
qed

section \<open>Every operation keeps the invariant\<close>

lemma Get_inv [inv_intros]: "lru_inv c \<Longrightarrow> lru_inv (snd (Get now c k))"
proof -
  assume inv: "lru_inv c"
  then have wf: "lru_wf c" and len: "length (ll c) \<le> cap c" and cap: "0 < cap c" by (auto simp: lru_inv_def)
  have rm: "lru_inv (c\<lparr>ll := list_remove (ll c) e, idx := (idx c)(k := None)\<rparr>)"
    if "(e, en) \<in> set (ll c)" "key en = k" for e en
    using wf_remove [OF wf that(1)] that(2) len cap length_list_remove_le [of "ll c" e]
    by (auto simp: lru_inv_def)
  have mv: "lru_inv (c\<lparr>ll := move_to_front (ll c) e\<rparr>)" for e
    using wf_move [OF wf] len cap by (simp add: lru_inv_def)
  show "lru_inv (snd (Get now c k))"
  proof (cases "idx c k")
    case None
    then show ?thesis by (simp add: Get_def inv)
  next
    case (Some e)
    then obtain en where "(e, en) \<in> set (ll c)" "key en = k"
      using lru_wf_simps(3) [OF wf] by auto
    moreover from this have "list_elem (ll c) e = Some en"
      by (simp add: list_elem_in lru_wf_simps(1) [OF wf])
    ultimately show ?thesis
      using Some rm mv by (auto simp: Get_def split: option.splits)
  qed
qed

lemma Invalidate_inv [inv_intros]: "lru_inv c \<Longrightarrow> lru_inv (Invalidate c k)"
proof -
  assume inv: "lru_inv c"
  then have wf: "lru_wf c" by (simp add: lru_inv_def)
  show "lru_inv (Invalidate c k)"
  proof (cases "idx c k")
    case None
    then show ?thesis by (simp add: Invalidate_def inv)
  next
    case (Some e)
    then obtain en where "(e, en) \<in> set (ll c)" "key en = k"
      using lru_wf_simps(3) [OF wf] by auto
    with wf_remove [OF wf this(1)] Some inv length_list_remove_le [of "ll c" e] show ?thesis
      by (auto simp: Invalidate_def lru_inv_def)
  qed
qed

lemma Flush_inv [inv_intros]: "lru_inv c \<Longrightarrow> lru_inv (snd (Flush c))"
  by (auto simp: Flush_def lru_inv_def lru_wf_def)

lemma NewLRU_inv [inv_intros]: "lru_inv (NewLRUWithTTL capacity t)"
  by (auto simp: NewLRUWithTTL_def lru_inv_def lru_wf_def)


lemma evict_oldest_wf:
  assumes "lru_wf c"
  shows "lru_wf (evict_oldest c)"
proof (cases "rev (ll c)")
  case Nil
  then show ?thesis using assms by (simp add: evict_oldest_def)
next
  case (Cons p ps)
  obtain e en where p: "p = (e, en)" by (cases p)
  with Cons have "(e, en) \<in> set (ll c)" by (metis list.set_intros(1) set_rev)
  from wf_remove [OF assms this] Cons p assms show ?thesis by (simp add: evict_oldest_def)
qed

lemma remove_last:
  assumes "distinct (map fst (xs @ [(e, en)]))"
  shows "list_remove (xs @ [(e, en)]) e = xs"
  using assms by (auto simp: list_remove_def filter_id_conv image_iff)

lemma evict_oldest_ll:
  assumes "lru_wf c" "length (ll c) \<le> Suc (cap c)"
  shows "ll (evict_oldest c) = take (cap c) (ll c)"
proof (cases "length (ll c) > cap c")
  case True
  then obtain xs e en where xs: "ll c = xs @ [(e, en)]"
    by (metis append_butlast_last_id length_greater_0_conv less_nat_zero_code not_gr_zero surj_pair)
  with True assms(2) have "length xs = cap c" by simp
  with xs remove_last [of xs e en] lru_wf_simps(1) [OF assms(1)] show ?thesis
    by (simp add: evict_oldest_def)
qed (simp add: evict_oldest_def)

lemma evict_oldest_cap [simp]: "cap (evict_oldest c) = cap c"
  by (simp add: evict_oldest_def split: list.splits prod.splits)

lemma push_wf:
  assumes "lru_wf c" "idx c k = None"
  shows "lru_wf (c\<lparr>ll := (nextElem c, \<lparr>key = k, val = v, expiresAt = x\<rparr>) # ll c,
     idx := (idx c)(k \<mapsto> nextElem c), nextElem := Suc (nextElem c)\<rparr>)"
proof -
  have "\<forall>e en. (e, en) \<in> set (ll c) \<longrightarrow> key en \<noteq> k" using lru_idx_None [OF assms(1)] assms(2) by force
  moreover have "\<forall>e en. (e, en) \<in> set (ll c) \<longrightarrow> e \<noteq> nextElem c" using lru_wf_simps(4) [OF assms(1)] by fastforce
  ultimately show ?thesis
    using assms(1) unfolding lru_wf_def by (auto 0 3 simp: less_Suc_eq)
qed

text \<open>Overwriting the value of one element changes neither elements nor keys.\<close>

abbreviation set_val :: "nat \<Rightarrow> string \<Rightarrow> int option \<Rightarrow> (nat \<times> lruEntry) list \<Rightarrow> (nat \<times> lruEntry) list" where
  "set_val e v x \<equiv> map (\<lambda>(e', en). (e', if e' = e then en\<lparr>val := v, expiresAt := x\<rparr> else en))"

lemma set_val_keys:
  "map fst (set_val e v x xs) = map fst xs"
  "map (key \<circ> snd) (set_val e v x xs) = map (key \<circ> snd) xs"
  by (induction xs) auto

lemma set_val_mem:
  "(e', en') \<in> set (set_val e v x xs) \<longleftrightarrow>
     (\<exists>en. (e', en) \<in> set xs \<and> en' = (if e' = e then en\<lparr>val := v, expiresAt := x\<rparr> else en))"
  by force

lemma set_val_index:
  "(\<exists>en. (e', en) \<in> set (set_val e v x xs) \<and> key en = k) \<longleftrightarrow> (\<exists>en. (e', en) \<in> set xs \<and> key en = k)"
  unfolding set_val_mem by (cases "e' = e") auto

lemma set_val_wf: "lru_wf c \<Longrightarrow> lru_wf (c\<lparr>ll := set_val e v x (ll c)\<rparr>)"
proof -
  assume wf: "lru_wf c"
  have "e' < nextElem c" if "(e', en) \<in> set (set_val e v x (ll c))" for e' en
    using that lru_wf_simps(4) [OF wf] unfolding set_val_mem by blast
  then have b: "\<forall>(e', en) \<in> set (set_val e v x (ll c)). e' < nextElem c" by blast
  have i: "\<forall>k e'. (idx c k = Some e') = (\<exists>en. (e', en) \<in> set (set_val e v x (ll c)) \<and> key en = k)"
    using lru_wf_simps(3) [OF wf] unfolding set_val_index by blast
  have f: "ll (c\<lparr>ll := xs\<rparr>) = xs" "idx (c\<lparr>ll := xs\<rparr>) = idx c" "nextElem (c\<lparr>ll := xs\<rparr>) = nextElem c" for xs
    by simp_all
  show ?thesis
    unfolding lru_wf_def f set_val_keys
    by (intro conjI b i lru_wf_simps(1,2) [OF wf])
qed

lemma Put_inv [inv_intros]:
  assumes "lru_inv c"
  shows "lru_inv (Put now c k v)"
proof -
  from assms have wf: "lru_wf c" and len: "length (ll c) \<le> cap c" and cap: "0 < cap c" by (auto simp: lru_inv_def)
  show ?thesis
  proof (cases "idx c k")
    case None
    let ?c = "c\<lparr>ll := (nextElem c, \<lparr>key = k, val = v, expiresAt = if ttl c > 0 then Some (now + ttl c) else None\<rparr>) # ll c,
     idx := (idx c)(k \<mapsto> nextElem c), nextElem := Suc (nextElem c)\<rparr>"
    have "lru_wf ?c" by (rule push_wf [OF wf None])
    moreover have "length (ll ?c) \<le> Suc (cap ?c)" using len by simp
    ultimately have "lru_inv (evict_oldest ?c)"
      using cap evict_oldest_wf [of ?c] evict_oldest_ll [of ?c] unfolding lru_inv_def by simp
    then show ?thesis by (simp add: Put_def None Let_def)
  next
    case (Some e)
    show ?thesis
      using wf_move [OF set_val_wf [OF wf]] len cap by (simp add: Put_def Some Let_def lru_inv_def)
  qed
qed

section \<open>Refinement of the abstract cache\<close>

abbreviation absEntry :: "nat \<times> lruEntry \<Rightarrow> string \<times> string \<times> int option" where
  "absEntry \<equiv> \<lambda>(e, en). (key en, val en, expiresAt en)"

lemma abs_list_remove:
  assumes "lru_wf c" "(e, en) \<in> set (ll c)"
  shows "map absEntry (list_remove (ll c) e) = aremove (key en) (lru_abs c)"
proof -
  have "filter (\<lambda>p. fst p \<noteq> e) (ll c) = filter (\<lambda>p. key (snd p) \<noteq> key en) (ll c)"
    using wf_unique [OF assms] by (intro filter_cong refl) (metis prod.collapse)
  then show ?thesis
    by (simp add: list_remove_def aremove_def lru_abs_def filter_map comp_def case_prod_beta)
qed

lemma filter_elem:
  assumes "distinct (map fst xs)" "(e, en) \<in> set xs"
  shows "filter (\<lambda>p. fst p = e) xs = [(e, en)]"
  using assms by (induction xs) (auto simp: filter_empty_conv image_iff)

lemma abs_move_to_front:
  assumes "lru_wf c" "(e, en) \<in> set (ll c)"
  shows "map absEntry (move_to_front (ll c) e) = (key en, val en, expiresAt en) # aremove (key en) (lru_abs c)"
  using filter_elem [OF lru_wf_simps(1) [OF assms(1)] assms(2)] abs_list_remove [OF assms]
  by (simp add: move_to_front_def)

lemma abs_lookup:
  assumes "lru_wf c"
  shows "map_of (lru_abs c) k = Some (v, x) \<longleftrightarrow>
     (\<exists>e en. (e, en) \<in> set (ll c) \<and> key en = k \<and> val en = v \<and> expiresAt en = x)"
proof -
  have "distinct (map fst (lru_abs c))"
    using lru_wf_simps(2) [OF assms] by (simp add: lru_abs_def comp_def case_prod_beta)
  then show ?thesis by (force simp: lru_abs_def)
qed

lemma Get_refines:
  assumes "lru_wf c"
  shows "(fst (Get now c k), lru_abs (snd (Get now c k))) = spec_get now (lru_abs c) k"
proof (cases "idx c k")
  case None
  then have "map_of (lru_abs c) k = None"
    using abs_lookup [OF assms, of k] lru_wf_simps(3) [OF assms, of k] by (cases "map_of (lru_abs c) k") auto
  with None show ?thesis by (simp add: Get_def spec_get_def)
next
  case (Some e)
  then obtain en where en: "(e, en) \<in> set (ll c)" "key en = k" using lru_wf_simps(3) [OF assms] by auto
  then have look: "list_elem (ll c) e = Some en" by (simp add: list_elem_in lru_wf_simps(1) [OF assms])
  have m: "map_of (lru_abs c) k = Some (val en, expiresAt en)" using abs_lookup [OF assms] en by blast
  show ?thesis
    using Some look m en abs_list_remove [OF assms en(1)] abs_move_to_front [OF assms en(1)]
    by (auto simp: Get_def spec_get_def lru_abs_def split: option.splits)
qed

lemma aremove_set_val:
  assumes "\<And>b. (e, b) \<in> set xs \<Longrightarrow> key b = k"
  shows "aremove k (map absEntry (set_val e v x xs)) = aremove k (map absEntry xs)"
  using assms
proof (induction xs)
  case (Cons p xs)
  obtain e' en where "p = (e', en)" by (cases p)
  with Cons show ?case by (cases "e' = e") (simp_all add: aremove_def)
qed simp

lemma Put_refines:
  assumes "lru_inv c"
  shows "lru_abs (Put now c k v) =
     spec_put (cap c) k v (if ttl c > 0 then Some (now + ttl c) else None) (lru_abs c)"
    (is "_ = spec_put _ _ _ ?x _")
proof -
  from assms have wf: "lru_wf c" and len: "length (ll c) \<le> cap c" and cap: "0 < cap c" by (auto simp: lru_inv_def)
  show ?thesis
  proof (cases "idx c k")
    case None
    let ?c = "c\<lparr>ll := (nextElem c, \<lparr>key = k, val = v, expiresAt = ?x\<rparr>) # ll c,
     idx := (idx c)(k \<mapsto> nextElem c), nextElem := Suc (nextElem c)\<rparr>"
    have "ll (evict_oldest ?c) = take (cap c) (ll ?c)"
      using evict_oldest_ll [of ?c] push_wf [OF wf None] len by simp
    moreover have "aremove k (lru_abs c) = lru_abs c"
      using lru_idx_None [OF wf, of k] None by (auto simp: aremove_def lru_abs_def filter_id_conv image_iff)
    ultimately show ?thesis
      by (simp add: Put_def None Let_def spec_put_def lru_abs_def take_map [symmetric])
  next
    case (Some e)
    then obtain en where en: "(e, en) \<in> set (ll c)" "key en = k" using lru_wf_simps(3) [OF wf] by auto
    let ?c = "c\<lparr>ll := set_val e v ?x (ll c)\<rparr>"
    have f: "ll ?c = set_val e v ?x (ll c)" by simp
    have wf': "lru_wf ?c" by (rule set_val_wf [OF wf])
    have "(e, en\<lparr>val := v, expiresAt := ?x\<rparr>) \<in> set (ll ?c)" using en(1) by force
    from abs_move_to_front [OF wf' this]
    have 1: "lru_abs (Put now c k v) = (k, v, ?x) # aremove k (lru_abs ?c)"
      by (simp add: Put_def Some Let_def lru_abs_def en(2))
    have "aremove k (lru_abs ?c) = aremove k (lru_abs c)"
      unfolding lru_abs_def f
    proof (rule aremove_set_val)
      fix b
      assume "(e, b) \<in> set (ll c)"
      from wf_unique [OF wf en(1) this] en(2) show "key b = k" by simp
    qed
    moreover have "length (lru_abs (Put now c k v)) \<le> cap c"
      using len by (simp add: Put_def Some Let_def lru_abs_def)
    ultimately show ?thesis using 1 by (simp add: spec_put_def)
  qed
qed

lemma Invalidate_refines:
  assumes "lru_wf c"
  shows "lru_abs (Invalidate c k) = aremove k (lru_abs c)"
proof (cases "idx c k")
  case None
  then have "aremove k (lru_abs c) = lru_abs c"
    using lru_idx_None [OF assms, of k] unfolding aremove_def filter_id_conv
    by (auto simp: lru_abs_def image_iff)
  with None show ?thesis by (simp add: Invalidate_def)
next
  case (Some e)
  then obtain en where en: "(e, en) \<in> set (ll c)" "key en = k" using lru_wf_simps(3) [OF assms] by auto
  then show ?thesis
    using Some abs_list_remove [OF assms en(1)] by (simp add: Invalidate_def lru_abs_def)
qed

section \<open>Runs of the cache\<close>

text \<open>One call of an exported method, made at the clock value \<open>now\<close>.\<close>

datatype lru_op = OpGet int string | OpPut int string string | OpInvalidate string | OpFlush

fun lru_run :: "LRU \<Rightarrow> lru_op \<Rightarrow> LRU" where
  "lru_run c (OpGet now k) = snd (Get now c k)"
| "lru_run c (OpPut now k v) = Put now c k v"
| "lru_run c (OpInvalidate k) = Invalidate c k"
| "lru_run c OpFlush = snd (Flush c)"

fun spec_run :: "nat \<Rightarrow> int \<Rightarrow> (string \<times> string \<times> int option) list \<Rightarrow> lru_op \<Rightarrow>
    (string \<times> string \<times> int option) list" where
  "spec_run n t xs (OpGet now k) = snd (spec_get now xs k)"
| "spec_run n t xs (OpPut now k v) = spec_put n k v (if t > 0 then Some (now + t) else None) xs"
| "spec_run n t xs (OpInvalidate k) = aremove k xs"
| "spec_run n t xs OpFlush = []"

text \<open>What the calls return: \<open>Get\<close> a value or a miss, \<open>Flush\<close> the number of dropped entries.\<close>

datatype lru_result = AValue "string option" | ACount nat | ANone

fun lru_answer :: "LRU \<Rightarrow> lru_op \<Rightarrow> lru_result" where
  "lru_answer c (OpGet now k) = AValue (fst (Get now c k))"
| "lru_answer c OpFlush = ACount (fst (Flush c))"
| "lru_answer c op = ANone"

fun spec_answer :: "(string \<times> string \<times> int option) list \<Rightarrow> lru_op \<Rightarrow> lru_result" where
  "spec_answer xs (OpGet now k) = AValue (fst (spec_get now xs k))"
| "spec_answer xs OpFlush = ACount (length xs)"
| "spec_answer xs op = ANone"

fun lru_answers :: "LRU \<Rightarrow> lru_op list \<Rightarrow> lru_result list" where
  "lru_answers c [] = []"
| "lru_answers c (op # ops) = lru_answer c op # lru_answers (lru_run c op) ops"

fun spec_answers :: "nat \<Rightarrow> int \<Rightarrow> (string \<times> string \<times> int option) list \<Rightarrow> lru_op list \<Rightarrow> lru_result list" where
  "spec_answers n t xs [] = []"
| "spec_answers n t xs (op # ops) = spec_answer xs op # spec_answers n t (spec_run n t xs op) ops"

lemma lru_answer_refines: "lru_inv c \<Longrightarrow> lru_answer c op = spec_answer (lru_abs c) op"
proof (cases op)
  case (OpGet now k)
  assume "lru_inv c"
  then have "lru_wf c" by (simp add: lru_inv_def)
  from arg_cong [OF Get_refines [OF this, of now k], of fst] OpGet show ?thesis by simp
qed (simp_all add: Flush_def lru_abs_def)

lemma lru_run_inv [inv_intros]: "lru_inv c \<Longrightarrow> lru_inv (lru_run c op)"
  by (cases op) (simp_all add: inv_intros)

lemma lru_run_params: "cap (lru_run c op) = cap c \<and> ttl (lru_run c op) = ttl c"
  by (cases op)
    (auto simp: Get_def Put_def Invalidate_def Flush_def evict_oldest_def Let_def
      split: option.splits list.splits)

lemma lru_run_refines:
  "lru_inv c \<Longrightarrow> lru_abs (lru_run c op) = spec_run (cap c) (ttl c) (lru_abs c) op"
proof (cases op)
  case (OpGet now k)
  assume "lru_inv c"
  then have "lru_wf c" by (simp add: lru_inv_def)
  from Get_refines [OF this, of now k] show ?thesis using OpGet by (metis lru_run.simps(1) snd_conv spec_run.simps(1))
next
  case (OpInvalidate k)
  assume "lru_inv c"
  then show ?thesis using OpInvalidate by (simp add: Invalidate_refines lru_inv_def)
next
  case (OpPut now k v)
  assume "lru_inv c"
  from Put_refines [OF this, of now k v] show ?thesis using OpPut by simp
qed (simp add: Flush_def lru_abs_def)

lemma lru_runs_inv: "lru_inv c \<Longrightarrow> lru_inv (foldl lru_run c ops)"
  by (induction ops arbitrary: c) (simp_all add: lru_run_inv)

lemma lru_runs_refine:
  "lru_inv c \<Longrightarrow> lru_abs (foldl lru_run c ops) = foldl (spec_run (cap c) (ttl c)) (lru_abs c) ops"
  by (induction ops arbitrary: c) (simp_all add: lru_run_inv lru_run_params lru_run_refines)

lemma lru_answers_refine: "lru_inv c \<Longrightarrow> lru_answers c ops = spec_answers (cap c) (ttl c) (lru_abs c) ops"
  by (induction ops arbitrary: c) (simp_all add: lru_run_inv lru_run_params lru_run_refines lru_answer_refines)

section \<open>Properties\<close>

text \<open>
  Whatever sequence of lookups, stores, invalidations and flushes is made on a
  new cache, its index and its list describe the same entries (distinct keys, every
  key indexed at the element holding it, no dangling element) and the number of
  entries never exceeds the capacity.
\<close>

theorem lru_always_consistent:
  "lru_inv (foldl lru_run (NewLRUWithTTL capacity t) ops)"
  by (rule lru_runs_inv [OF NewLRU_inv])

text \<open>
  C31. The linked list and index implement a bounded recency list: over any sequence
  of calls on a new cache, every \<open>Get\<close> returns the value or miss and every \<open>Flush\<close>
  the count of the reference cache that keeps an association list, moves a hit to
  the front, drops an expired entry on lookup and truncates to the capacity on
  insertion; and the entries from front to back are those of the reference.
\<close>

theorem lru_implements_recency_list:
  "lru_answers (NewLRUWithTTL capacity t) ops =
     spec_answers (if capacity \<le> 0 then 1024 else nat capacity) t [] ops
   \<and> lru_abs (foldl lru_run (NewLRUWithTTL capacity t) ops) =
     foldl (spec_run (if capacity \<le> 0 then 1024 else nat capacity) t) [] ops"
  using lru_runs_refine [OF NewLRU_inv, of capacity t ops] lru_answers_refine [OF NewLRU_inv, of capacity t ops]
  by (simp add: NewLRUWithTTL_def lru_abs_def)

text \<open>
  A lookup after a store of the same key returns the stored value until the
  time to live has passed, and a miss afterwards, in a cache of any content.
\<close>

theorem Get_after_Put:
  assumes "lru_inv c"
  shows "fst (Get now' (Put now c k v) k) = (if ttl c > 0 \<and> now' > now + ttl c then None else Some v)"
proof -
  have wf: "lru_wf (Put now c k v)" and cap: "0 < cap c"
    using Put_inv [OF assms, of now k v] assms by (simp_all add: lru_inv_def)
  obtain n where n: "cap c = Suc n" using cap by (cases "cap c") auto
  have "fst (Get now' (Put now c k v) k) = fst (spec_get now' (lru_abs (Put now c k v)) k)"
    using Get_refines [OF wf, of now' k] by (metis fst_conv)
  then show ?thesis
    by (simp add: Put_refines [OF assms] spec_get_def spec_put_def n)
qed

theorem Get_after_Put_witness:
  "lru_inv (NewLRUWithTTL 2 10)
   \<and> fst (Get 15 (Put 0 (NewLRUWithTTL 2 10) ''k'' ''v'') ''k'') = None
   \<and> fst (Get 10 (Put 0 (NewLRUWithTTL 2 10) ''k'' ''v'') ''k'') = Some ''v''"
  using Get_after_Put [OF NewLRU_inv, of 15 0 2 10 "''k''" "''v''"]
    Get_after_Put [OF NewLRU_inv, of 10 0 2 10 "''k''" "''v''"]
    NewLRU_inv [of 2 10]
  by (simp add: NewLRUWithTTL_def)

end
