(* ===== verification/Packet.thy ===== *)
theory Packet
  imports Complex_Main Prelude
begin

text \<open>
  The telemetry packet (\<open>proto/v1/telemetry.pb.go\<close>), and the signing helpers of
  \<open>fwEDR/pkg/packet/packet.go\<close>: the nonce counter, the time-ordered identifier
  and the byte string that is signed. A finite \<open>float64\<close> value is a rational
  number; timestamps are nanoseconds. The ed25519 operations and the marshalling
  of protobuf are third-party code and do not appear here.
\<close>

record TelemetryPacket =
  PktId :: string
  OrgId :: string
  DatacenterId :: string
  FloorId :: string
  NetworkId :: string
  GroupId :: string
  SourceType :: string
  SourceId :: string
  ReaderId :: string
  TimestampNs :: int
  Name :: string
  Tag :: string
  Value :: rat
  Meta :: smap
  Kind :: string
  Severity :: string
  Signature :: "byte list"
  Nonce :: i64

text \<open>The severities the queue protects.\<close>

definition is_critical :: "string \<Rightarrow> bool" where
  "is_critical sev \<longleftrightarrow> sev = ''critical'' \<or> sev = ''major''"

section \<open>Signer\<close>

record Signer =
  sourceID :: string
  nonce :: i64

definition NewSigner :: "string \<Rightarrow> int \<Rightarrow> Signer" where
  "NewSigner src unixNano = \<lparr>sourceID = src, nonce = word_of_int unixNano\<rparr>"

definition NewSignerFromKey :: "string \<Rightarrow> Signer" where
  "NewSignerFromKey src = \<lparr>sourceID = src, nonce = 0\<rparr>"

definition NextNonce :: "Signer \<Rightarrow> i64 \<times> Signer" where
  "NextNonce s = (nonce s + 1, s\<lparr>nonce := nonce s + 1\<rparr>)"

fun take_nonces :: "nat \<Rightarrow> Signer \<Rightarrow> i64 list" where
  "take_nonces 0 s = []"
| "take_nonces (Suc n) s = (let (x, s') = NextNonce s in x # take_nonces n s')"

text \<open>\<open>binary.BigEndian.PutUint64\<close>\<close>

definition putU64 :: "i64 \<Rightarrow> byte list" where
  "putU64 v = map (\<lambda>k. ucast (drop_bit k v)) [56, 48, 40, 32, 24, 16, 8, 0]"

text \<open>\<open>NewID\<close>: ten random bytes overwrite everything after the 48-bit millisecond time.\<close>

definition newIDBytes :: "i64 \<Rightarrow> byte list \<Rightarrow> byte list" where
  "newIDBytes ms rnd =
     (let b = take 6 (putU64 (push_bit 16 ms)) @ take 10 rnd;
          b = b[6 := (b ! 6 AND 0x0f) OR 0x70]
      in b[8 := (b ! 8 AND 0x3f) OR 0x80])"

definition str_bytes :: "string \<Rightarrow> byte list" where
  "str_bytes s = map of_char s"

text \<open>
  \<open>scaled\<close> is the result of the conversion \<open>uint64(value*1e9)\<close>, which \<open>scaled_value\<close> models.
\<close>

definition CanonicalBytes ::
  "string \<Rightarrow> string \<Rightarrow> i64 \<Rightarrow> string \<Rightarrow> string \<Rightarrow> i64 \<Rightarrow> i64 \<Rightarrow> byte list" where
  "CanonicalBytes idn src ts name tag scaled n =
     str_bytes idn @ [0] @ str_bytes src @ [0] @ putU64 ts
     @ str_bytes name @ [0] @ str_bytes tag @ [0] @ putU64 scaled @ putU64 n"

text \<open>
  \<open>uint64(value*1e9)\<close>: the product is rounded to a float64 (\<open>fl\<close>), and the conversion drops
  its fraction. For a product outside the 64-bit range Go leaves the result to the
  implementation (\<open>impl\<close>). The functions named \<open>*_scaled\<close> of the collectors stand for this one.
\<close>

definition go_trunc :: "rat \<Rightarrow> int" where
  "go_trunc x = (if x < 0 then - \<lfloor>- x\<rfloor> else \<lfloor>x\<rfloor>)"

definition scaled_value :: "(rat \<Rightarrow> rat) \<Rightarrow> (rat \<Rightarrow> i64) \<Rightarrow> rat \<Rightarrow> i64" where
  "scaled_value fl impl v =
     (let x = fl (v * 10 ^ 9) in if - 1 < x \<and> x < 2 ^ 64 then word_of_int (go_trunc x) else impl x)"

section \<open>Two sample packets and a marshaller for them\<close>

definition pktA :: TelemetryPacket where
  "pktA = \<lparr>PktId = ''a'', OrgId = ''org'', DatacenterId = ''dc'', FloorId = ''f1'', NetworkId = ''net'',
     GroupId = '''', SourceType = ''device'', SourceId = ''sw1'', ReaderId = ''edr-1'', TimestampNs = 5,
     Name = ''sys.up'', Tag = '''', Value = 1, Meta = Map.empty, Kind = ''event'', Severity = ''critical'',
     Signature = [], Nonce = 1\<rparr>"

definition pktB :: TelemetryPacket where
  "pktB = pktA\<lparr>PktId := ''b'', Severity := ''minor'', Nonce := 2\<rparr>"

definition demo_marshal :: "TelemetryPacket \<Rightarrow> byte list option" where
  "demo_marshal p = (if p = pktA then Some [1] else if p = pktB then Some [2] else None)"

definition demo_unmarshal :: "byte list \<Rightarrow> TelemetryPacket option" where
  "demo_unmarshal d = (if d = [1] then Some pktA else if d = [2] then Some pktB else None)"

lemma demo_simps [simp]:
  "pktA \<noteq> pktB" "pktB \<noteq> pktA" "Severity pktA = ''critical''" "Severity pktB = ''minor''"
  "demo_marshal pktA = Some [1]" "demo_marshal pktB = Some [2]"
  "demo_unmarshal [1] = Some pktA" "demo_unmarshal [2] = Some pktB"
  by (simp_all add: pktA_def pktB_def demo_marshal_def demo_unmarshal_def)

section \<open>Lemmas\<close>

lemma length_putU64 [simp]: "length (putU64 v) = 8"
  by (simp add: putU64_def)

lemma putU64_bits: "k < 8 \<Longrightarrow> putU64 v ! k = ucast (drop_bit (56 - 8 * k) v)"
proof -
  assume "k < 8"
  then have "k \<in> {0, 1, 2, 3, 4, 5, 6, 7}" by auto
  then show ?thesis by (auto simp: putU64_def)
qed

lemma putU64_inject [simp]: "putU64 v = putU64 w \<longleftrightarrow> v = w"
proof
  assume eq: "putU64 v = putU64 w"
  show "v = w"
  proof (rule bit_word_eqI)
    fix n
    assume n: "n < LENGTH(64)"
    let ?k = "7 - n div 8"
    have q: "n div 8 \<le> 7" using n by simp
    then have "56 - 8 * ?k = 8 * (n div 8)" by simp
    then have k: "?k < 8" "56 - 8 * ?k + n mod 8 = n" by simp_all
    have "bit (putU64 v ! ?k) (n mod 8) = bit (putU64 w ! ?k) (n mod 8)" using eq by simp
    then show "bit v n = bit w n"
      unfolding putU64_bits [OF k(1)] using k(2) n by (simp add: bit_simps)
  qed
qed simp

lemma of_char_byte_inject: "(of_char c :: byte) = of_char d \<longleftrightarrow> c = d"
proof
  assume "(of_char c :: byte) = of_char d"
  then have "(word_of_nat (of_char c) :: byte) = word_of_nat (of_char d)" by (simp only: of_nat_of_char)
  then have "(of_char c :: nat) mod 256 = of_char d mod 256"
    by (simp add: word_of_nat_eq_iff take_bit_eq_mod)
  then show "c = d" by simp
qed simp

lemma of_char_byte_0: "(of_char c :: byte) = 0 \<longleftrightarrow> c = CHR 0x00"
  using of_char_byte_inject [of c "CHR 0x00"] by simp

lemma str_bytes_inject [simp]: "str_bytes s = str_bytes t \<longleftrightarrow> s = t"
  unfolding str_bytes_def by (rule inj_map_eq_map) (auto intro: injI simp: of_char_byte_inject)

text \<open>A field followed by its terminator is determined when it has no terminator inside.\<close>

lemma split_at_sep:
  assumes "xs @ [z] @ xs' = ys @ [z] @ ys'" "z \<notin> set xs" "z \<notin> set ys"
  shows "xs = ys \<and> xs' = ys'"
  using assms
proof (induction xs arbitrary: ys)
  case Nil
  then show ?case by (cases ys) auto
next
  case (Cons x xs)
  then show ?case by (cases ys) auto
qed

lemma str_bytes_no_nul: "CHR 0x00 \<notin> set s \<Longrightarrow> 0 \<notin> set (str_bytes s)"
  using of_char_byte_0 by (force simp: str_bytes_def)

lemma take_nonces_eq:
  "take_nonces n s = map (\<lambda>i. nonce s + 1 + word_of_nat i) [0..<n]"
proof (induction n arbitrary: s)
  case (Suc n)
  have "map (\<lambda>i. nonce s + 1 + word_of_nat i) [0..<Suc n]
      = (nonce s + 1) # map (\<lambda>i. nonce s + 1 + 1 + word_of_nat i) [0..<n]"
    by (simp add: map_upt_Suc add.assoc del: upt_Suc)
  with Suc show ?case by (simp add: NextNonce_def)
qed simp

lemma uint_seed:
  "0 \<le> t \<Longrightarrow> t + int n < 2 ^ 64 \<Longrightarrow> i < n \<Longrightarrow>
    uint (word_of_int t + 1 + word_of_nat i :: i64) = t + 1 + int i"
proof -
  assume "0 \<le> t" "t + int n < 2 ^ 64" "i < n"
  moreover have "(word_of_int t + 1 + word_of_nat i :: i64) = word_of_int (t + 1 + int i)"
    by simp
  ultimately show ?thesis by (simp only: uint_word_of_int) simp
qed

section \<open>Properties\<close>

text \<open>The fields of the signed bytes, the value as the integer that is written.\<close>

lemma canonical_fields:
  assumes "\<forall>s \<in> {a, b, d, e, a', b', d', e'}. CHR 0x00 \<notin> set s"
  shows "CanonicalBytes a b c d e f g = CanonicalBytes a' b' c' d' e' f' g' \<longleftrightarrow>
    a = a' \<and> b = b' \<and> c = c' \<and> d = d' \<and> e = e' \<and> f = f' \<and> g = g'"
proof
  assume eq: "CanonicalBytes a b c d e f g = CanonicalBytes a' b' c' d' e' f' g'"
  have n: "0 \<notin> set (str_bytes s)" if "s \<in> {a, b, d, e, a', b', d', e'}" for s
    using assms that str_bytes_no_nul by blast
  have ab: "str_bytes a = str_bytes a' \<and> str_bytes b @ [0] @ putU64 c @ str_bytes d @ [0] @ str_bytes e @ [0]
        @ putU64 f @ putU64 g = str_bytes b' @ [0] @ putU64 c' @ str_bytes d' @ [0] @ str_bytes e' @ [0]
        @ putU64 f' @ putU64 g'"
    by (rule split_at_sep [OF eq [unfolded CanonicalBytes_def]]) (rule n, simp)+
  have bc: "str_bytes b = str_bytes b' \<and> putU64 c @ str_bytes d @ [0] @ str_bytes e @ [0] @ putU64 f @ putU64 g
        = putU64 c' @ str_bytes d' @ [0] @ str_bytes e' @ [0] @ putU64 f' @ putU64 g'"
    by (rule split_at_sep [OF conjunct2 [OF ab]]) (rule n, simp)+
  then have cd: "c = c'" "str_bytes d @ [0] @ str_bytes e @ [0] @ putU64 f @ putU64 g
        = str_bytes d' @ [0] @ str_bytes e' @ [0] @ putU64 f' @ putU64 g'"
    by simp_all
  have de: "str_bytes d = str_bytes d' \<and> str_bytes e @ [0] @ putU64 f @ putU64 g
        = str_bytes e' @ [0] @ putU64 f' @ putU64 g'"
    by (rule split_at_sep [OF cd(2)]) (rule n, simp)+
  have "str_bytes e = str_bytes e' \<and> putU64 f @ putU64 g = putU64 f' @ putU64 g'"
    by (rule split_at_sep [OF conjunct2 [OF de]]) (rule n, simp)+
  with ab bc cd de show "a = a' \<and> b = b' \<and> c = c' \<and> d = d' \<and> e = e' \<and> f = f' \<and> g = g'" by simp
qed simp

lemma scaled_value_trunc:
  assumes "- 1 < fl (v * 10 ^ 9)" "fl (v * 10 ^ 9) < 2 ^ 64" "- 1 < fl (v' * 10 ^ 9)" "fl (v' * 10 ^ 9) < 2 ^ 64"
  shows "scaled_value fl impl v = scaled_value fl impl v' \<longleftrightarrow> go_trunc (fl (v * 10 ^ 9)) = go_trunc (fl (v' * 10 ^ 9))"
proof -
  have r: "0 \<le> go_trunc x \<and> go_trunc x < 2 ^ 64" if "- 1 < x" "x < 2 ^ 64" for x :: rat
  proof (cases "x < 0")
    case True
    with that(1) have "\<lfloor>- x\<rfloor> = 0" by (simp add: floor_eq_iff)
    with True show ?thesis by (simp add: go_trunc_def)
  next
    case False
    with that(2) show ?thesis by (simp add: go_trunc_def floor_less_iff)
  qed
  have w: "(word_of_int m :: i64) = word_of_int n \<longleftrightarrow> m = n" if "0 \<le> m" "m < 2 ^ 64" "0 \<le> n" "n < 2 ^ 64" for m n
    using that by (simp add: word_of_int_eq_iff take_bit_int_eq_self)
  show ?thesis using assms r [OF assms(1,2)] r [OF assms(3,4)] w by (simp add: scaled_value_def Let_def)
qed

text \<open>
  C39. What a signature covers. Two packets whose text fields hold no NUL byte have the same
  canonical bytes exactly if identifier, source, timestamp, name, tag and nonce agree and
  their values are scaled to the same integer, so a signature cannot be moved to another
  packet by shifting bytes between fields. The value itself is covered only up to the
  conversion: when the products with 1e9 lie in the range of 64 bits, they are
  indistinguishable exactly if they agree in the integer part; outside that range (a value
  of about 1.8e10 or more, or a negative one) the bytes hold what the hardware conversion gives.
\<close>

theorem canonical_bytes_injective:
  assumes "\<forall>s \<in> {a, b, d, e, a', b', d', e'}. CHR 0x00 \<notin> set s"
  shows "(CanonicalBytes a b c d e (scaled_value fl impl v) g = CanonicalBytes a' b' c' d' e' (scaled_value fl impl v') g'
      \<longleftrightarrow> a = a' \<and> b = b' \<and> c = c' \<and> d = d' \<and> e = e' \<and> g = g' \<and> scaled_value fl impl v = scaled_value fl impl v')
    \<and> (- 1 < fl (v * 10 ^ 9) \<and> fl (v * 10 ^ 9) < 2 ^ 64 \<and> - 1 < fl (v' * 10 ^ 9) \<and> fl (v' * 10 ^ 9) < 2 ^ 64 \<longrightarrow>
      (scaled_value fl impl v = scaled_value fl impl v' \<longleftrightarrow> go_trunc (fl (v * 10 ^ 9)) = go_trunc (fl (v' * 10 ^ 9))))"
  using canonical_fields [OF assms, of c "scaled_value fl impl v" g c' "scaled_value fl impl v'" g'] scaled_value_trunc [of fl v v' impl]
  by blast

theorem canonical_bytes_injective_witness:
  "CanonicalBytes ''ab'' ''c'' 5 ''cpu'' ''x'' (scaled_value id (\<lambda>_. 0) 7) 9
     \<noteq> CanonicalBytes ''a'' ''bc'' 5 ''cpu'' ''x'' (scaled_value id (\<lambda>_. 0) 7) 9
   \<and> CanonicalBytes ''a'' ''c'' 5 ''cpu'' ''x'' (scaled_value id (\<lambda>_. 0) 0) 9
     = CanonicalBytes ''a'' ''c'' 5 ''cpu'' ''x'' (scaled_value id (\<lambda>_. 0) (1 / 10 ^ 10)) 9"
proof
  show "CanonicalBytes ''ab'' ''c'' 5 ''cpu'' ''x'' (scaled_value id (\<lambda>_. 0) 7) 9
     \<noteq> CanonicalBytes ''a'' ''bc'' 5 ''cpu'' ''x'' (scaled_value id (\<lambda>_. 0) 7) 9"
    by (subst canonical_bytes_injective [THEN conjunct1]) simp_all
  have "\<lfloor>1 / 10 :: rat\<rfloor> = 0" by (simp add: floor_eq_iff)
  then have "scaled_value id (\<lambda>_. 0) 0 = scaled_value id (\<lambda>_. 0) (1 / 10 ^ 10)"
    by (simp add: scaled_value_def go_trunc_def Let_def)
  then show "CanonicalBytes ''a'' ''c'' 5 ''cpu'' ''x'' (scaled_value id (\<lambda>_. 0) 0) 9
     = CanonicalBytes ''a'' ''c'' 5 ''cpu'' ''x'' (scaled_value id (\<lambda>_. 0) (1 / 10 ^ 10)) 9"
    by (subst canonical_bytes_injective [THEN conjunct1]) simp_all
qed

text \<open>
  Nonces survive a restart: a signer seeded from the clock after another one
  hands out only larger nonces, provided the first handed out no more nonces than
  nanoseconds have passed, and no 64-bit wrap occurs; so the replay filter, which
  keeps the last nonce seen, accepts the restarted reader.
\<close>

theorem nonces_increase_across_restart:
  assumes "0 \<le> t" "t + int n \<le> t'" "t' + int m < 2 ^ 64"
    and "x \<in> set (take_nonces n (NewSigner src t))" "y \<in> set (take_nonces m (NewSigner src' t'))"
  shows "x < y"
proof -
  obtain i where i: "i < n" "x = word_of_int t + 1 + word_of_nat i"
    using assms(4) by (auto simp: take_nonces_eq NewSigner_def)
  obtain j where j: "j < m" "y = word_of_int t' + 1 + word_of_nat j"
    using assms(5) by (auto simp: take_nonces_eq NewSigner_def)
  have "uint x = t + 1 + int i" unfolding i(2) by (rule uint_seed [of t n]) (use assms i in auto)
  moreover have "uint y = t' + 1 + int j" unfolding j(2) by (rule uint_seed [of t' m]) (use assms j in auto)
  ultimately show ?thesis using assms i(1) by (simp add: word_less_def)
qed

theorem nonces_increase_across_restart_witness:
  "(2 :: i64) \<in> set (take_nonces 3 (NewSigner ''r'' 0)) \<and> (6 :: i64) \<in> set (take_nonces 2 (NewSigner ''r'' 5))
   \<and> (2 :: i64) < 6"
proof -
  have m: "(2 :: i64) \<in> set (take_nonces 3 (NewSigner ''r'' 0))" "(6 :: i64) \<in> set (take_nonces 2 (NewSigner ''r'' 5))"
    by (simp_all add: numeral_eq_Suc NextNonce_def NewSigner_def)
  have "(2 :: i64) < 6" by (rule nonces_increase_across_restart [OF _ _ _ m]) simp_all
  with m show ?thesis by blast
qed

end
