(* ===== verification/Queue_Interface.thy ===== *)
theory Queue_Interface
  imports "HOL-Library.Sublist" "HOL-Library.Multiset" Prelude
begin

text \<open>
  What the publisher relies on of a packet queue: \<open>push\<close> adds a batch or refuses
  it as a whole, an accepted push may evict packets (\<open>lost\<close>), only for the sake of
  urgent ones, but skips, invents and reorders none, and \<open>pop\<close> takes packets from
  the head. The first argument of both is the outcome of the disk transaction.
\<close>

locale packet_queue =
  fixes push :: "bool \<Rightarrow> 'p list \<Rightarrow> 'q \<Rightarrow> bool \<times> 'q"
    and pop :: "bool \<Rightarrow> int \<Rightarrow> 'q \<Rightarrow> 'p list \<times> 'q"
    and stored :: "'q \<Rightarrow> 'p list"
    and valid :: "'q \<Rightarrow> bool"
    and lost :: "'p list \<Rightarrow> 'q \<Rightarrow> 'p list"
    and urgent :: "'p \<Rightarrow> bool"
  assumes push_wf: "valid q \<Longrightarrow> valid (snd (push c ps q))"
    and push_refused: "\<not> fst (push c ps q) \<Longrightarrow> snd (push c ps q) = q"
    and push_accepted: "valid q \<Longrightarrow> fst (push c ps q) \<Longrightarrow> subseq (stored (snd (push c ps q))) (stored q @ ps)"
    and pop_wf: "valid q \<Longrightarrow> valid (snd (pop c n q))"
    and pop_stored: "valid q \<Longrightarrow> stored q = fst (pop c n q) @ stored (snd (pop c n q))"
    and push_conserves: "valid q \<Longrightarrow> fst (push c ps q) \<Longrightarrow>
      mset (stored q) + mset ps = mset (stored (snd (push c ps q))) + mset (lost ps q)"
    and calm_push: "\<forall>p \<in> set ps. \<not> urgent p \<Longrightarrow> lost ps q = []"
begin

lemma calm_push_stores:
  assumes "valid q" "fst (push c ps q)" "\<forall>p \<in> set ps. \<not> urgent p"
  shows "stored (snd (push c ps q)) = stored q @ ps"
proof -
  have "mset (stored (snd (push c ps q))) = mset (stored q @ ps)"
    using push_conserves [OF assms(1,2)] calm_push [OF assms(3)] by simp
  then have "length (stored (snd (push c ps q))) = length (stored q @ ps)" by (metis size_mset)
  with push_accepted [OF assms(1,2)] show ?thesis by (simp add: subseq_same_length)
qed

lemma pop_mset: "valid q \<Longrightarrow> mset (stored q) = mset (fst (pop c n q)) + mset (stored (snd (pop c n q)))"
  using pop_stored [of q c n] by (metis mset_append)

end

text \<open>A queue with room for a batch stores it behind what it holds and evicts nothing.\<close>

locale roomy_queue = packet_queue +
  fixes room :: "'b list \<Rightarrow> 'a \<Rightarrow> bool"
  assumes push_room: "valid q \<Longrightarrow> room ps q \<Longrightarrow>
    fst (push True ps q) \<and> stored (snd (push True ps q)) = stored q @ ps"
begin

lemma push_then_pop_empty:
  assumes "valid q" "stored q = []" "room ps q"
  shows "\<exists>rest. ps = fst (pop c n (snd (push True ps q))) @ rest"
  using push_room [OF assms(1,3)] pop_stored [OF push_wf [OF assms(1)], of True ps c n] assms(2)
  by (metis append_Nil)

end

end
