(* ===== verification/Queue.thy ===== *)
theory Queue
  imports Packet Queue_Interface
begin

text \<open>
  The persistent queue of the edge reader (\<open>fwEDR/internal/queue/queue.go\<close>) and of
  the host reader (\<open>fwIDR/internal/queue/queue.go\<close>). The bbolt bucket is its
  documented contents: entries ordered by key, a sequence counter, and a
  transaction that keeps all of its writes or, when the callback or the commit
  fails, none of them. \<open>commit\<close> is the outcome of the commit. Protobuf is third
  party, so \<open>marshal\<close> and \<open>unmarshal\<close> are parameters; \<open>json_sev\<close> is the severity
  that \<open>json.Unmarshal\<close> leaves in the probe struct of the eviction scan.
\<close>

type_synonym bucket = "(nat \<times> byte list) list"

datatype queue_error = ErrMarshal | ErrUnmarshal | ErrFull | ErrEmpty | ErrTx

record Queue =
  db :: bucket
  seqno :: nat
  maxBytes :: int
  usedBytes :: int

text \<open>\<open>Bucket.Put\<close> and \<open>Bucket.Delete\<close> on the ordered entries.\<close>

fun bucket_put :: "nat \<Rightarrow> byte list \<Rightarrow> bucket \<Rightarrow> bucket" where
  "bucket_put k v [] = [(k, v)]"
| "bucket_put k v ((k', v') # b) =
     (if k < k' then (k, v) # (k', v') # b else if k = k' then (k, v) # b else (k', v') # bucket_put k v b)"

definition bucket_delete :: "nat \<Rightarrow> bucket \<Rightarrow> bucket" where
  "bucket_delete k b = filter (\<lambda>e. fst e \<noteq> k) b"

definition payload_bytes :: "bucket \<Rightarrow> int" where
  "payload_bytes b = int (sum_list (map (length \<circ> snd) b))"

section \<open>The edge reader's queue\<close>

text \<open>\<open>Open\<close> on an existing bucket; \<open>leafInuse\<close> is what \<open>Stats().LeafInuse\<close> reports for it.\<close>

definition OpenQueue :: "bucket \<Rightarrow> nat \<Rightarrow> int \<Rightarrow> int \<Rightarrow> Queue" where
  "OpenQueue b sq leafInuse mx =
     \<lparr>db = b, seqno = sq, maxBytes = (if mx \<le> 0 then 512 * 1024 * 1024 else mx), usedBytes = leafInuse\<rparr>"

definition evictOldestNonCritical :: "(byte list \<Rightarrow> string) \<Rightarrow> bucket \<Rightarrow> (int \<times> bucket) option" where
  "evictOldestNonCritical json_sev b =
     (case find (\<lambda>e. \<not> is_critical (json_sev (snd e))) b of
        None \<Rightarrow> None
      | Some (k, v) \<Rightarrow> Some (int (length v), bucket_delete k b))"

text \<open>The transaction body of \<open>PushBatch\<close>: counter, sequence and bucket, \<open>None\<close> for \<open>ErrFull\<close>.\<close>

fun push_entries :: "(byte list \<Rightarrow> string) \<Rightarrow> int \<Rightarrow> (byte list \<times> string) list \<Rightarrow>
    int \<times> nat \<times> bucket \<Rightarrow> (int \<times> nat \<times> bucket) option" where
  "push_entries json_sev mx [] st = Some st"
| "push_entries json_sev mx ((data, sev) # es) (used, sq, b) =
     (if used \<ge> mx then
        (if is_critical sev then
           (case evictOldestNonCritical json_sev b of
              None \<Rightarrow> None
            | Some (freed, b') \<Rightarrow>
                push_entries json_sev mx es (used - freed + int (length data), Suc sq, bucket_put (Suc sq) data b'))
         else None)
      else push_entries json_sev mx es (used + int (length data), Suc sq, bucket_put (Suc sq) data b))"

fun marshal_all :: "(TelemetryPacket \<Rightarrow> byte list option) \<Rightarrow> TelemetryPacket list \<Rightarrow> (byte list \<times> string) list option" where
  "marshal_all marshal [] = Some []"
| "marshal_all marshal (p # ps) =
     (case marshal p of
        None \<Rightarrow> None
      | Some d \<Rightarrow> map_option (\<lambda>es. (d, Severity p) # es) (marshal_all marshal ps))"

definition PushBatch ::
  "(TelemetryPacket \<Rightarrow> byte list option) \<Rightarrow> (byte list \<Rightarrow> string) \<Rightarrow> bool \<Rightarrow> TelemetryPacket list \<Rightarrow> Queue
     \<Rightarrow> queue_error option \<times> Queue" where
  "PushBatch marshal json_sev commit pkts q =
     (if pkts = [] then (None, q)
      else case marshal_all marshal pkts of
             None \<Rightarrow> (Some ErrMarshal, q)
           | Some es \<Rightarrow>
               (case push_entries json_sev (maxBytes q) es (usedBytes q, seqno q, db q) of
                  None \<Rightarrow> (Some ErrFull, q)
                | Some (used, sq, b) \<Rightarrow>
                    if commit then (None, q\<lparr>db := b, seqno := sq, usedBytes := used\<rparr>)
                    else (Some ErrTx, q)))"

definition Push where
  "Push marshal json_sev commit pkt q = PushBatch marshal json_sev commit [pkt] q"

text \<open>Entries that do not unmarshal are dropped; they are already deleted.\<close>

definition PopBatch ::
  "(byte list \<Rightarrow> TelemetryPacket option) \<Rightarrow> bool \<Rightarrow> int \<Rightarrow> Queue
     \<Rightarrow> (queue_error + TelemetryPacket list) \<times> Queue" where
  "PopBatch unmarshal commit n q =
     (if n \<le> 0 then (Inr [], q)
      else
        let popped = take (nat n) (db q);
            freed = payload_bytes popped;
            b = fold bucket_delete (map fst popped) (db q)
        in if popped = [] then (Inl ErrEmpty, q)
           else if \<not> commit then (Inl ErrTx, q)
           else (Inr (List.map_filter unmarshal (map snd popped)),
                 q\<lparr>db := b, usedBytes := (if usedBytes q - freed < 0 then 0 else usedBytes q - freed)\<rparr>))"

definition Pop ::
  "(byte list \<Rightarrow> TelemetryPacket option) \<Rightarrow> bool \<Rightarrow> Queue \<Rightarrow> (queue_error + TelemetryPacket) \<times> Queue" where
  "Pop unmarshal commit q =
     (case PopBatch unmarshal commit 1 q of
        (Inl e, q') \<Rightarrow> (Inl e, q')
      | (Inr [], q') \<Rightarrow> (Inl ErrEmpty, q')
      | (Inr (p # _), q') \<Rightarrow> (Inr p, q'))"

definition QueueLen :: "Queue \<Rightarrow> nat" where
  "QueueLen q = length (db q)"

section \<open>The host reader's queue\<close>

text \<open>
  The size check reads \<open>Stats().LeafInuse\<close> of the bucket, a parameter. The pop is
  one transaction whose callback returns the unmarshal error, so the delete in
  front of that return is rolled back with it.
\<close>

definition idr_evict :: "(byte list \<Rightarrow> string) \<Rightarrow> bucket \<Rightarrow> bucket option" where
  "idr_evict json_sev b =
     (case find (\<lambda>e. \<not> is_critical (json_sev (snd e))) b of
        None \<Rightarrow> None
      | Some (k, v) \<Rightarrow> Some (bucket_delete k b))"

definition idr_Push ::
  "(TelemetryPacket \<Rightarrow> byte list option) \<Rightarrow> (byte list \<Rightarrow> string) \<Rightarrow> (bucket \<Rightarrow> int) \<Rightarrow> bool
     \<Rightarrow> TelemetryPacket \<Rightarrow> Queue \<Rightarrow> queue_error option \<times> Queue" where
  "idr_Push marshal json_sev leafInuse commit pkt q =
     (case marshal pkt of
        None \<Rightarrow> (Some ErrMarshal, q)
      | Some data \<Rightarrow>
          let store = (\<lambda>b. if commit then (None, q\<lparr>db := bucket_put (Suc (seqno q)) data b, seqno := Suc (seqno q)\<rparr>)
                           else (Some ErrTx, q))
          in if leafInuse (db q) \<ge> maxBytes q then
               (if is_critical (Severity pkt) then
                  (case idr_evict json_sev (db q) of
                     None \<Rightarrow> (Some ErrFull, q)
                   | Some b \<Rightarrow> store b)
                else (Some ErrFull, q))
             else store (db q))"

definition idr_Pop ::
  "(byte list \<Rightarrow> TelemetryPacket option) \<Rightarrow> bool \<Rightarrow> Queue \<Rightarrow> (queue_error + TelemetryPacket) \<times> Queue" where
  "idr_Pop unmarshal commit q =
     (case db q of
        [] \<Rightarrow> (Inl ErrEmpty, q)
      | (k, v) # _ \<Rightarrow>
          (case unmarshal v of
             None \<Rightarrow> (Inl ErrUnmarshal, q)
           | Some p \<Rightarrow> if commit then (Inr p, q\<lparr>db := bucket_delete k (db q)\<rparr>) else (Inl ErrTx, q)))"

section \<open>Well-formedness\<close>

text \<open>Keys are strictly increasing and were all handed out by the sequence.\<close>

definition queue_wf :: "Queue \<Rightarrow> bool" where
  "queue_wf q \<longleftrightarrow> sorted_wrt (<) (map fst (db q)) \<and> (\<forall>k \<in> set (map fst (db q)). k \<le> seqno q)"

definition bucket_ok :: "nat \<Rightarrow> bucket \<Rightarrow> bool" where
  "bucket_ok sq b \<longleftrightarrow> sorted_wrt (<) (map fst b) \<and> (\<forall>k \<in> set (map fst b). k \<le> sq)"

lemma queue_wf_ok: "queue_wf q \<longleftrightarrow> bucket_ok (seqno q) (db q)"
  by (simp add: queue_wf_def bucket_ok_def)

lemma bucket_put_last: "(\<forall>k' \<in> set (map fst b). k' < k) \<Longrightarrow> bucket_put k v b = b @ [(k, v)]"
  by (induction b) auto

lemma bucket_put_next: "bucket_ok sq b \<Longrightarrow> bucket_put (Suc sq) v b = b @ [(Suc sq, v)]"
  by (rule bucket_put_last) (auto simp: bucket_ok_def less_Suc_eq_le)

lemma bucket_ok_put: "bucket_ok sq b \<Longrightarrow> bucket_ok (Suc sq) (bucket_put (Suc sq) v b)"
  unfolding bucket_put_next by (force simp: bucket_ok_def sorted_wrt_append)

lemma sorted_wrt_map_filter: "sorted_wrt R (map f xs) \<Longrightarrow> sorted_wrt R (map f (filter P xs))"
  by (induction xs) auto

lemma bucket_ok_delete: "bucket_ok sq b \<Longrightarrow> bucket_ok sq (bucket_delete k b)"
  by (auto simp: bucket_ok_def bucket_delete_def sorted_wrt_map_filter)

lemma bucket_delete_head:
  assumes "bucket_ok sq ((k, v) # b)"
  shows "bucket_delete k ((k, v) # b) = b"
  using assms by (auto simp: bucket_ok_def bucket_delete_def filter_id_conv)

lemma bucket_delete_mid:
  assumes "bucket_ok sq (xs @ (k, v) # ys)"
  shows "bucket_delete k (xs @ (k, v) # ys) = xs @ ys"
proof -
  have *: "sorted_wrt (<) (map fst xs @ k # map fst ys)" using assms by (simp add: bucket_ok_def)
  then have "\<forall>x \<in> set (map fst xs). x < k" "\<forall>y \<in> set (map fst ys). k < y"
    by (simp_all add: sorted_wrt_append)
  then have "filter (\<lambda>e. fst e \<noteq> k) xs = xs" "filter (\<lambda>e. fst e \<noteq> k) ys = ys"
    unfolding filter_id_conv by auto
  then show ?thesis by (simp add: bucket_delete_def)
qed

lemma fold_delete_prefix:
  "bucket_ok sq (xs @ ys) \<Longrightarrow> fold bucket_delete (map fst xs) (xs @ ys) = ys"
proof (induction xs)
  case (Cons x xs)
  obtain k v where x: "x = (k, v)" by (cases x)
  from Cons.prems have "bucket_ok sq (xs @ ys)" by (auto simp: bucket_ok_def)
  with Cons x bucket_delete_head [of sq k v "xs @ ys"] show ?case by simp
qed simp

lemma payload_bytes_simps [simp]:
  "payload_bytes [] = 0" "payload_bytes (e # b) = int (length (snd e)) + payload_bytes b"
  "payload_bytes (b @ b') = payload_bytes b + payload_bytes b'" "0 \<le> payload_bytes b"
  by (simp_all add: payload_bytes_def)

text \<open>What an eviction removes: one entry, the first whose scanned severity is not critical.\<close>

lemma evict_shape:
  assumes "evictOldestNonCritical json_sev b = Some (freed, b')" "bucket_ok sq b"
  obtains xs k v ys where "b = xs @ (k, v) # ys" "b' = xs @ ys" "freed = int (length v)"
    "\<forall>e \<in> set xs. is_critical (json_sev (snd e))" "\<not> is_critical (json_sev v)"
proof -
  obtain k v where f: "find (\<lambda>e. \<not> is_critical (json_sev (snd e))) b = Some (k, v)"
    and r: "freed = int (length v)" "b' = bucket_delete k b"
    using assms(1) by (auto simp: evictOldestNonCritical_def split: option.splits)
  from f obtain i where i: "i < length b" "\<not> is_critical (json_sev (snd (b ! i)))" "(k, v) = b ! i"
    "\<forall>j<i. is_critical (json_sev (snd (b ! j)))" by (auto simp: find_Some_iff)
  have b: "b = take i b @ (k, v) # drop (Suc i) b" using i(1,3) by (simp add: id_take_nth_drop)
  have "\<forall>e \<in> set (take i b). is_critical (json_sev (snd e))"
  proof
    fix e
    assume "e \<in> set (take i b)"
    then obtain j where "j < i" "e = b ! j" using i(1) by (auto simp: in_set_conv_nth)
    then show "is_critical (json_sev (snd e))" using i(4) by simp
  qed
  moreover have "bucket_delete k (take i b @ (k, v) # drop (Suc i) b) = take i b @ drop (Suc i) b"
    by (rule bucket_delete_mid) (use assms(2) b in simp)
  then have "b' = take i b @ drop (Suc i) b" using r(2) b by simp
  moreover have "\<not> is_critical (json_sev v)" using i(2,3) by (metis snd_conv)
  ultimately show ?thesis using that b r(1) by blast
qed

section \<open>What a batch does to the bucket\<close>

lemma push_entries_inv:
  assumes "push_entries json_sev mx es (used, sq, b) = Some (used', sq', b')" "bucket_ok sq b"
  shows "bucket_ok sq' b' \<and> used' - payload_bytes b' = used - payload_bytes b
     \<and> subseq (map snd b') (map snd b @ map fst es)"
  using assms
proof (induction json_sev mx es "(used, sq, b)" arbitrary: used sq b rule: push_entries.induct)
  case (2 json_sev mx data sev es used sq b)
  have put: "bucket_ok (Suc sq) (bucket_put (Suc sq) data c)" "bucket_put (Suc sq) data c = c @ [(Suc sq, data)]"
    if "bucket_ok sq c" for c
    using that bucket_ok_put bucket_put_next by blast+
  show ?case
  proof (cases "used \<ge> mx")
    case True
    with "2.prems"(1) obtain freed c where ev: "is_critical sev" "evictOldestNonCritical json_sev b = Some (freed, c)"
      and rec: "push_entries json_sev mx es (used - freed + int (length data), Suc sq, bucket_put (Suc sq) data c)
        = Some (used', sq', b')"
      by (auto split: if_splits option.splits)
    obtain xs k v ys where sh: "b = xs @ (k, v) # ys" "c = xs @ ys" "freed = int (length v)"
      by (rule evict_shape [OF ev(2) "2.prems"(2)])
    have c: "bucket_ok sq c"
      using "2.prems"(2) ev(2) by (auto simp: evictOldestNonCritical_def bucket_ok_delete split: option.splits)
    have "subseq (map snd c @ [data] @ map fst es) (map snd b @ [data] @ map fst es)"
      unfolding sh by (auto intro: list_emb_append_mono)
    with "2.hyps"(1) [OF True ev(1,2) refl rec put(1) [OF c]] put(2) [OF c] sh show ?thesis
      by (auto elim: subseq_order.order_trans)
  next
    case False
    with "2.prems"(1) have rec: "push_entries json_sev mx es (used + int (length data), Suc sq, bucket_put (Suc sq) data b)
        = Some (used', sq', b')" by simp
    from "2.hyps"(2) [OF False rec put(1) [OF "2.prems"(2)]] put(2) [OF "2.prems"(2)] show ?thesis by simp
  qed
qed simp

text \<open>
  What the evictions of a batch take out: the payloads removed by the scans, and, as
  a specification, the list without the first \<open>k\<close> entries that satisfy \<open>P\<close>.
\<close>

fun evictions :: "(byte list \<Rightarrow> string) \<Rightarrow> int \<Rightarrow> (byte list \<times> string) list \<Rightarrow>
    int \<times> nat \<times> bucket \<Rightarrow> byte list list" where
  "evictions json_sev mx [] st = []"
| "evictions json_sev mx ((data, sev) # es) (used, sq, b) =
     (if used < mx then evictions json_sev mx es (used + int (length data), Suc sq, bucket_put (Suc sq) data b)
      else case find (\<lambda>e. \<not> is_critical (json_sev (snd e))) b of
             None \<Rightarrow> []
           | Some (k, v) \<Rightarrow>
               if is_critical sev
               then v # evictions json_sev mx es
                      (used - int (length v) + int (length data), Suc sq, bucket_put (Suc sq) data (bucket_delete k b))
               else [])"

fun evict_first :: "nat \<Rightarrow> ('a \<Rightarrow> bool) \<Rightarrow> 'a list \<Rightarrow> 'a list" where
  "evict_first 0 P xs = xs"
| "evict_first (Suc k) P [] = []"
| "evict_first (Suc k) P (x # xs) = (if P x then evict_first k P xs else x # evict_first (Suc k) P xs)"

lemma evict_first_skip: "\<not> P x \<Longrightarrow> evict_first k P (x # xs) = x # evict_first k P xs"
  by (cases k) simp_all

lemma evict_first_at:
  "\<forall>x \<in> set xs. \<not> P x \<Longrightarrow> P v \<Longrightarrow> evict_first (Suc k) P (xs @ v # ys) = evict_first k P (xs @ ys)"
  by (induction xs) (simp_all add: evict_first_skip del: evict_first.simps(3), simp)

lemma evict_first_subseq: "subseq (evict_first k P xs) xs"
  by (induction k P xs rule: evict_first.induct) auto

lemma push_entries_evicts:
  assumes "push_entries json_sev mx es (used, sq, b) = Some (used', sq', b')" "bucket_ok sq b"
  defines "evs \<equiv> evictions json_sev mx es (used, sq, b)"
  shows "map snd b' = evict_first (length evs) (\<lambda>d. \<not> is_critical (json_sev d)) (map snd b @ map fst es)
    \<and> mset (map snd b) + mset (map fst es) = mset (map snd b') + mset evs
    \<and> length evs \<le> length (filter (is_critical \<circ> snd) es)"
  using assms(1,2) unfolding evs_def
proof (induction json_sev mx es "(used, sq, b)" arbitrary: used sq b rule: push_entries.induct)
  case (2 json_sev mx data sev es used sq b)
  have put: "bucket_ok (Suc sq) (bucket_put (Suc sq) data c)" "bucket_put (Suc sq) data c = c @ [(Suc sq, data)]"
    if "bucket_ok sq c" for c
    using that bucket_ok_put bucket_put_next by blast+
  show ?case
  proof (cases "used \<ge> mx")
    case True
    with "2.prems"(1) obtain freed c where ev: "is_critical sev" "evictOldestNonCritical json_sev b = Some (freed, c)"
      and rec: "push_entries json_sev mx es (used - freed + int (length data), Suc sq, bucket_put (Suc sq) data c)
        = Some (used', sq', b')"
      by (auto split: if_splits option.splits)
    obtain k v where f: "find (\<lambda>e. \<not> is_critical (json_sev (snd e))) b = Some (k, v)"
      "freed = int (length v)" "c = bucket_delete k b"
      using ev(2) by (auto simp: evictOldestNonCritical_def split: option.splits)
    obtain xs k' v' ys where sh: "b = xs @ (k', v') # ys" "c = xs @ ys" "freed = int (length v')"
      "\<forall>e \<in> set xs. is_critical (json_sev (snd e))" "\<not> is_critical (json_sev v')"
      by (rule evict_shape [OF ev(2) "2.prems"(2)])
    have "find (\<lambda>e. \<not> is_critical (json_sev (snd e))) b = Some (k', v')"
      unfolding sh(1) using sh(4,5) by (induction xs) auto
    with f(1) have v: "v' = v" by simp
    have c: "bucket_ok sq c" unfolding f(3) by (rule bucket_ok_delete [OF "2.prems"(2)])
    let ?evs = "evictions json_sev mx es (used - freed + int (length data), Suc sq, bucket_put (Suc sq) data c)"
    have evs: "evictions json_sev mx ((data, sev) # es) (used, sq, b) = v # ?evs"
      using True ev(1) f by simp
    have "evict_first (Suc (length ?evs)) (\<lambda>d. \<not> is_critical (json_sev d)) (map snd b @ data # map fst es)
      = evict_first (length ?evs) (\<lambda>d. \<not> is_critical (json_sev d)) (map snd c @ data # map fst es)"
      unfolding sh(1,2) by (simp add: evict_first_at sh(4,5))
    moreover note ih = "2.hyps"(1) [OF True ev(1,2) refl rec put(1) [OF c]]
    note ih1 = conjunct1 [OF ih] and ih2 = conjunct1 [OF conjunct2 [OF ih]] and ih3 = conjunct2 [OF conjunct2 [OF ih]]
    ultimately have "map snd b' = evict_first (Suc (length ?evs)) (\<lambda>d. \<not> is_critical (json_sev d)) (map snd b @ data # map fst es)"
      by (simp add: put(2) [OF c])
    moreover have m: "mset (map snd c) + add_mset data (mset (map fst es)) = mset (map snd b') + mset ?evs"
      using ih2 by (simp add: put(2) [OF c])
    moreover have "mset (map snd b) + mset (map fst ((data, sev) # es)) = mset (map snd b') + mset (v # ?evs)"
      using m sh(1,2) v by (simp add: ac_simps)
    ultimately show ?thesis using ev(1) ih3 unfolding evs by simp
  next
    case False
    with "2.prems"(1) have rec: "push_entries json_sev mx es (used + int (length data), Suc sq, bucket_put (Suc sq) data b)
        = Some (used', sq', b')" by simp
    note ih = "2.hyps"(2) [OF False rec put(1) [OF "2.prems"(2)]]
    have evs: "evictions json_sev mx ((data, sev) # es) (used, sq, b)
      = evictions json_sev mx es (used + int (length data), Suc sq, bucket_put (Suc sq) data b)" using False by simp
    show ?thesis
      using conjunct1 [OF ih] conjunct2 [OF conjunct2 [OF ih]] conjunct1 [OF conjunct2 [OF ih]]
      unfolding evs by (intro conjI) (simp_all add: put(2) [OF "2.prems"(2)])
  qed
qed simp

lemmas push_entries_first = conjunct1 [OF push_entries_evicts]
  and push_entries_conserves = conjunct1 [OF conjunct2 [OF push_entries_evicts]]
  and push_entries_urgent = conjunct2 [OF conjunct2 [OF push_entries_evicts]]

text \<open>Without pressure nothing is evicted and every packet is appended.\<close>

lemma push_entries_room:
  assumes "used + int (sum_list (map (length \<circ> fst) es)) < mx + 1" "\<forall>e \<in> set es. fst e \<noteq> []" "bucket_ok sq b"
  shows "\<exists>b'. push_entries json_sev mx es (used, sq, b)
      = Some (used + int (sum_list (map (length \<circ> fst) es)), sq + length es, b')
      \<and> map snd b' = map snd b @ map fst es"
  using assms
proof (induction json_sev mx es "(used, sq, b)" arbitrary: used sq b rule: push_entries.induct)
  case (2 json_sev mx data sev es used sq b)
  have d: "0 < int (length data)" using "2.prems"(2) by simp
  have s: "0 \<le> int (sum_list (map (length \<circ> fst) es))" by (rule of_nat_0_le_iff)
  have "used + int (length data) + int (sum_list (map (length \<circ> fst) es)) < mx + 1" using "2.prems"(1) by simp
  with d s have n: "\<not> used \<ge> mx" by linarith
  have "\<exists>b'. push_entries json_sev mx es (used + int (length data), Suc sq, bucket_put (Suc sq) data b)
      = Some (used + int (length data) + int (sum_list (map (length \<circ> fst) es)), Suc sq + length es, b')
      \<and> map snd b' = map snd (bucket_put (Suc sq) data b) @ map fst es"
    by (rule "2.hyps"(2) [OF n]) (use "2.prems" bucket_ok_put [OF "2.prems"(3)] in auto)
  then show ?case using n bucket_put_next [OF "2.prems"(3)] by (auto simp: add.assoc)
qed simp

lemma push_entries_noncritical:
  assumes "push_entries json_sev mx es (used, sq, b) = Some (used', sq', b')"
    "\<forall>e \<in> set es. \<not> is_critical (snd e)" "es \<noteq> []"
  shows "used' < mx + int (length (fst (last es)))"
  using assms
proof (induction json_sev mx es "(used, sq, b)" arbitrary: used sq b rule: push_entries.induct)
  case (2 json_sev mx data sev es used sq b)
  have n: "\<not> used \<ge> mx" using "2.prems"(1,2) by (auto split: if_splits)
  show ?case
  proof (cases "es = []")
    case True
    with "2.prems"(1) n show ?thesis by simp
  next
    case False
    with "2.hyps"(2) [OF n] "2.prems" n show ?thesis by simp
  qed
qed simp

lemma marshal_all_fst: "marshal_all marshal ps = Some es \<Longrightarrow> map (Some \<circ> fst) es = map marshal ps"
  by (induction ps arbitrary: es) (auto split: option.splits)

lemma marshal_all_snd: "marshal_all marshal ps = Some es \<Longrightarrow> map snd es = map Severity ps"
  by (induction ps arbitrary: es) (auto split: option.splits)

section \<open>The queue as a first-in first-out list of packets\<close>

text \<open>What is documented of protobuf: a marshalled packet unmarshals to itself.\<close>

definition proto_ok :: "(TelemetryPacket \<Rightarrow> byte list option) \<Rightarrow> (byte list \<Rightarrow> TelemetryPacket option) \<Rightarrow> bool" where
  "proto_ok marshal unmarshal \<longleftrightarrow> (\<forall>p d. marshal p = Some d \<longrightarrow> unmarshal d = Some p)"

definition queued :: "(byte list \<Rightarrow> TelemetryPacket option) \<Rightarrow> Queue \<Rightarrow> TelemetryPacket list" where
  "queued unmarshal q = List.map_filter unmarshal (map snd (db q))"

lemma map_filter_append: "List.map_filter f (xs @ ys) = List.map_filter f xs @ List.map_filter f ys"
  by (simp add: List.map_filter_def)

lemma map_filter_subseq: "subseq xs ys \<Longrightarrow> subseq (List.map_filter f xs) (List.map_filter f ys)"
  by (induction rule: list_emb.induct) (auto simp: List.map_filter_simps split: option.split)

lemma map_filter_marshal:
  "proto_ok marshal unmarshal \<Longrightarrow> marshal_all marshal ps = Some es \<Longrightarrow> List.map_filter unmarshal (map fst es) = ps"
proof (induction ps arbitrary: es)
  case (Cons p ps)
  then show ?case by (auto simp: proto_ok_def List.map_filter_simps split: option.splits)
qed (simp add: List.map_filter_simps)

lemma PushBatch_rejected: "fst (PushBatch marshal json_sev c ps q) \<noteq> None \<Longrightarrow> snd (PushBatch marshal json_sev c ps q) = q"
  by (auto simp: PushBatch_def split: option.splits prod.splits if_splits)

lemma PushBatch_accepted:
  assumes "fst (PushBatch marshal json_sev c ps q) = None" "ps \<noteq> []"
  obtains es used sq b where "marshal_all marshal ps = Some es"
    "push_entries json_sev (maxBytes q) es (usedBytes q, seqno q, db q) = Some (used, sq, b)"
    "snd (PushBatch marshal json_sev c ps q) = q\<lparr>db := b, seqno := sq, usedBytes := used\<rparr>"
  using assms by (auto simp: PushBatch_def split: option.splits prod.splits if_splits)

lemma PushBatch_wf [inv_intros]:
  "queue_wf q \<Longrightarrow> queue_wf (snd (PushBatch marshal json_sev c ps q))"
proof (cases "fst (PushBatch marshal json_sev c ps q) = None \<and> ps \<noteq> []")
  case True
  assume "queue_wf q"
  from True obtain es used sq b where
    "push_entries json_sev (maxBytes q) es (usedBytes q, seqno q, db q) = Some (used, sq, b)"
    "snd (PushBatch marshal json_sev c ps q) = q\<lparr>db := b, seqno := sq, usedBytes := used\<rparr>"
    by (auto elim: PushBatch_accepted)
  with push_entries_inv \<open>queue_wf q\<close> show ?thesis unfolding queue_wf_ok by fastforce
next
  case False
  assume "queue_wf q"
  with False PushBatch_rejected [of marshal json_sev c ps q] show ?thesis
    by (cases "ps = []") (auto simp: PushBatch_def)
qed

lemma PushBatch_queued:
  assumes "queue_wf q" "proto_ok marshal unmarshal" "fst (PushBatch marshal json_sev c ps q) = None"
  shows "subseq (queued unmarshal (snd (PushBatch marshal json_sev c ps q))) (queued unmarshal q @ ps)"
proof (cases "ps = []")
  case True
  then show ?thesis by (simp add: PushBatch_def)
next
  case False
  obtain es used sq b where e: "marshal_all marshal ps = Some es"
    "push_entries json_sev (maxBytes q) es (usedBytes q, seqno q, db q) = Some (used, sq, b)"
    "snd (PushBatch marshal json_sev c ps q) = q\<lparr>db := b, seqno := sq, usedBytes := used\<rparr>"
    by (rule PushBatch_accepted [OF assms(3) False])
  from push_entries_inv [OF e(2)] assms(1)
  have "subseq (map snd b) (map snd (db q) @ map fst es)" by (simp add: queue_wf_ok)
  from map_filter_subseq [OF this, of unmarshal] show ?thesis
    by (simp add: e(3) queued_def map_filter_append map_filter_marshal [OF assms(2) e(1)])
qed

lemma PushBatch_evicts:
  assumes "queue_wf q" "fst (PushBatch marshal json_sev c ps q) = None"
  shows "\<exists>k ds. map Some ds = map marshal ps
    \<and> map snd (db (snd (PushBatch marshal json_sev c ps q)))
        = evict_first k (\<lambda>d. \<not> is_critical (json_sev d)) (map snd (db q) @ ds)
    \<and> QueueLen (snd (PushBatch marshal json_sev c ps q)) + k = QueueLen q + length ps
    \<and> k \<le> length (filter (is_critical \<circ> Severity) ps)"
proof (cases "ps = []")
  case True
  then show ?thesis by (intro exI [of _ 0] exI [of _ "[]"]) (simp add: PushBatch_def)
next
  case False
  obtain es used sq b where e: "marshal_all marshal ps = Some es"
    "push_entries json_sev (maxBytes q) es (usedBytes q, seqno q, db q) = Some (used, sq, b)"
    "snd (PushBatch marshal json_sev c ps q) = q\<lparr>db := b, seqno := sq, usedBytes := used\<rparr>"
    by (rule PushBatch_accepted [OF assms(2) False])
  let ?evs = "evictions json_sev (maxBytes q) es (usedBytes q, seqno q, db q)"
  note f = marshal_all_fst [OF e(1)] marshal_all_snd [OF e(1)]
  have "length (filter (is_critical \<circ> snd) es) = length (filter (is_critical \<circ> Severity) ps)"
    using f(2) by (metis filter_map length_map map_map)
  moreover have ds: "map Some (map fst es) = map marshal ps" using f(1) by simp
  moreover have "length es = length ps" using f(2) by (metis length_map)
  moreover have ok: "bucket_ok (seqno q) (db q)" using assms(1) by (simp add: queue_wf_ok)
  moreover have "length (db q) + length es = length b + length ?evs"
    using arg_cong [OF push_entries_conserves [OF e(2) ok], of size] by simp
  ultimately show ?thesis
    using push_entries_first [OF e(2) ok] push_entries_urgent [OF e(2) ok]
    by (intro exI [of _ "length ?evs"] exI [of _ "map fst es"]) (simp add: e(3) QueueLen_def del: map_map)
qed

lemma PopBatch_cases:
  assumes "queue_wf q"
  obtains (failed) e where "PopBatch unmarshal c n q = (Inl e, q)"
  | (none) "n \<le> 0" "PopBatch unmarshal c n q = (Inr [], q)"
  | (popped) popped where "popped \<noteq> []" "length popped \<le> nat n" "0 < n" "db q = popped @ drop (nat n) (db q)"
    "PopBatch unmarshal c n q = (Inr (List.map_filter unmarshal (map snd popped)),
       q\<lparr>db := drop (nat n) (db q),
         usedBytes := (if usedBytes q - payload_bytes popped < 0 then 0 else usedBytes q - payload_bytes popped)\<rparr>)"
proof -
  have "fold bucket_delete (map fst (take (nat n) (db q))) (db q) = drop (nat n) (db q)"
    using fold_delete_prefix [of "seqno q" "take (nat n) (db q)" "drop (nat n) (db q)"] assms
    by (simp add: queue_wf_ok)
  note eq = this
  show ?thesis
  proof (cases "n \<le> 0 \<or> take (nat n) (db q) = [] \<or> \<not> c")
    case True
    then show ?thesis
      using failed [of ErrEmpty] failed [of ErrTx] none
      by (cases "n \<le> 0"; cases "take (nat n) (db q) = []") (auto simp: PopBatch_def Let_def)
  next
    case False
    then show ?thesis
      by (intro popped [of "take (nat n) (db q)"]) (auto simp: PopBatch_def Let_def eq)
  qed
qed

lemma bucket_ok_drop: "bucket_ok sq b \<Longrightarrow> bucket_ok sq (drop n b)"
  unfolding bucket_ok_def drop_map [symmetric] by (blast intro: sorted_wrt_drop dest: in_set_dropD)

lemma PopBatch_wf [inv_intros]: "queue_wf q \<Longrightarrow> queue_wf (snd (PopBatch unmarshal c n q))"
  by (rule PopBatch_cases [of q unmarshal c n]) (auto simp: queue_wf_ok bucket_ok_drop)

lemma PopBatch_queued:
  assumes "queue_wf q" "PopBatch unmarshal c n q = (Inr ps, q')"
  shows "queued unmarshal q = ps @ queued unmarshal q' \<and> length ps \<le> nat n"
proof (rule PopBatch_cases [OF assms(1), of unmarshal c n])
  fix popped
  assume p: "length popped \<le> nat n" "db q = popped @ drop (nat n) (db q)"
    "PopBatch unmarshal c n q = (Inr (List.map_filter unmarshal (map snd popped)),
       q\<lparr>db := drop (nat n) (db q),
         usedBytes := (if usedBytes q - payload_bytes popped < 0 then 0 else usedBytes q - payload_bytes popped)\<rparr>)"
  have "length (List.map_filter unmarshal (map snd popped)) \<le> length popped"
    by (simp add: List.map_filter_def)
  moreover have "queued unmarshal q = List.map_filter unmarshal (map snd popped)
      @ List.map_filter unmarshal (map snd (drop (nat n) (db q)))"
    unfolding queued_def by (subst p(2)) (simp add: map_filter_append)
  ultimately show ?thesis using assms(2) p(1,3) by (auto simp: queued_def)
qed (use assms(2) in auto)

section \<open>The interface the publisher uses\<close>

definition queue_push ::
  "(TelemetryPacket \<Rightarrow> byte list option) \<Rightarrow> (byte list \<Rightarrow> string) \<Rightarrow> bool \<Rightarrow> TelemetryPacket list \<Rightarrow> Queue \<Rightarrow> bool \<times> Queue" where
  "queue_push marshal json_sev c ps q =
     (case PushBatch marshal json_sev c ps q of (err, q') \<Rightarrow> (err = None, q'))"

definition queue_pop ::
  "(byte list \<Rightarrow> TelemetryPacket option) \<Rightarrow> bool \<Rightarrow> int \<Rightarrow> Queue \<Rightarrow> TelemetryPacket list \<times> Queue" where
  "queue_pop unmarshal c n q =
     (case PopBatch unmarshal c n q of (Inl e, q') \<Rightarrow> ([], q') | (Inr ps, q') \<Rightarrow> (ps, q'))"

text \<open>There is room when the counter stays within the limit and no packet marshals to nothing.\<close>

definition queue_room :: "(TelemetryPacket \<Rightarrow> byte list option) \<Rightarrow> TelemetryPacket list \<Rightarrow> Queue \<Rightarrow> bool" where
  "queue_room marshal ps q =
     (case marshal_all marshal ps of
        None \<Rightarrow> False
      | Some es \<Rightarrow> list_all (\<lambda>e. fst e \<noteq> []) es
          \<and> usedBytes q + int (sum_list (map (length \<circ> fst) es)) \<le> maxBytes q)"

lemma queue_push_simps:
  "fst (queue_push marshal json_sev c ps q) \<longleftrightarrow> fst (PushBatch marshal json_sev c ps q) = None"
  "snd (queue_push marshal json_sev c ps q) = snd (PushBatch marshal json_sev c ps q)"
  by (simp_all add: queue_push_def split: prod.split)

lemma queue_pop_simps: "snd (queue_pop unmarshal c n q) = snd (PopBatch unmarshal c n q)"
  by (simp add: queue_pop_def split: prod.split sum.split)

lemma queue_pop_stored:
  assumes "queue_wf q"
  shows "queued unmarshal q = fst (queue_pop unmarshal c n q) @ queued unmarshal (snd (queue_pop unmarshal c n q))"
proof (cases "PopBatch unmarshal c n q")
  case (Pair r q')
  show ?thesis
  proof (cases r)
    case (Inl e)
    with Pair have "q' = q" using PopBatch_cases [OF assms, of unmarshal c n] by fastforce
    with Inl Pair show ?thesis by (simp add: queue_pop_def)
  next
    case (Inr ps)
    with Pair PopBatch_queued [OF assms, of unmarshal c n ps q'] show ?thesis by (simp add: queue_pop_def)
  qed
qed

lemma queue_push_room:
  assumes "proto_ok marshal unmarshal" "queue_wf q" "queue_room marshal ps q"
  shows "fst (queue_push marshal json_sev True ps q)
     \<and> queued unmarshal (snd (queue_push marshal json_sev True ps q)) = queued unmarshal q @ ps"
proof (cases "ps = []")
  case True
  then show ?thesis by (simp add: queue_push_def PushBatch_def)
next
  case False
  obtain es where es: "marshal_all marshal ps = Some es" "\<forall>e \<in> set es. fst e \<noteq> []"
    "usedBytes q + int (sum_list (map (length \<circ> fst) es)) < maxBytes q + 1"
    using assms(3) by (auto simp: queue_room_def list_all_iff split: option.splits)
  obtain b where b: "push_entries json_sev (maxBytes q) es (usedBytes q, seqno q, db q)
      = Some (usedBytes q + int (sum_list (map (length \<circ> fst) es)), seqno q + length es, b)"
    "map snd b = map snd (db q) @ map fst es"
    using push_entries_room [OF es(3,2), of "seqno q" "db q" json_sev] assms(2) by (auto simp: queue_wf_ok)
  show ?thesis
    using False es(1) b
    by (simp add: queue_push_def PushBatch_def queued_def map_filter_append map_filter_marshal [OF assms(1) es(1)])
qed

text \<open>The packets that an accepted batch pushes out, by the record of the eviction scans.\<close>

definition queue_lost ::
  "(TelemetryPacket \<Rightarrow> byte list option) \<Rightarrow> (byte list \<Rightarrow> TelemetryPacket option) \<Rightarrow> (byte list \<Rightarrow> string)
     \<Rightarrow> TelemetryPacket list \<Rightarrow> Queue \<Rightarrow> TelemetryPacket list" where
  "queue_lost marshal unmarshal json_sev ps q =
     (case marshal_all marshal ps of
        None \<Rightarrow> []
      | Some es \<Rightarrow> List.map_filter unmarshal (evictions json_sev (maxBytes q) es (usedBytes q, seqno q, db q)))"

lemma mset_map_filter: "mset (List.map_filter f xs) = image_mset (the \<circ> f) (filter_mset (\<lambda>x. f x \<noteq> None) (mset xs))"
  by (simp add: List.map_filter_def)

lemma queue_push_conserves:
  assumes "proto_ok marshal unmarshal" "queue_wf q" "fst (queue_push marshal json_sev c ps q)"
  shows "mset (queued unmarshal q) + mset ps
    = mset (queued unmarshal (snd (queue_push marshal json_sev c ps q))) + mset (queue_lost marshal unmarshal json_sev ps q)"
proof (cases "ps = []")
  case True
  then show ?thesis by (simp add: queue_push_def PushBatch_def queue_lost_def List.map_filter_simps)
next
  case False
  have "fst (PushBatch marshal json_sev c ps q) = None" using assms(3) by (simp add: queue_push_simps)
  then obtain es used sq b where e: "marshal_all marshal ps = Some es"
    "push_entries json_sev (maxBytes q) es (usedBytes q, seqno q, db q) = Some (used, sq, b)"
    "snd (PushBatch marshal json_sev c ps q) = q\<lparr>db := b, seqno := sq, usedBytes := used\<rparr>"
    by (rule PushBatch_accepted [OF _ False])
  let ?evs = "evictions json_sev (maxBytes q) es (usedBytes q, seqno q, db q)"
  have "mset (map snd (db q)) + mset (map fst es) = mset (map snd b) + mset ?evs"
    using push_entries_conserves [OF e(2)] assms(2) unfolding queue_wf_ok by blast
  then have "mset (List.map_filter unmarshal (map snd (db q) @ map fst es))
      = mset (List.map_filter unmarshal (map snd b @ ?evs))"
    unfolding mset_map_filter by simp
  then show ?thesis
    by (simp add: queue_push_simps e(1,3) queued_def queue_lost_def map_filter_append map_filter_marshal [OF assms(1) e(1)])
qed

lemma queue_calm:
  assumes "\<forall>p \<in> set ps. \<not> is_critical (Severity p)"
  shows "queue_lost marshal unmarshal json_sev ps q = []"
proof (cases "marshal_all marshal ps")
  case (Some es)
  have "evictions json_sev mx es st = []" if "\<forall>e \<in> set es. \<not> is_critical (snd e)" for mx st
    using that by (induction json_sev mx es st rule: evictions.induct) (auto split: option.splits)
  moreover have "\<forall>e \<in> set es. \<not> is_critical (snd e)"
    using marshal_all_snd [OF Some] assms by (metis (no_types, lifting) image_eqI image_iff list.set_map)
  ultimately show ?thesis by (simp add: queue_lost_def Some List.map_filter_simps)
qed (simp add: queue_lost_def)

text \<open>The queue is well formed and the marshaller is a faithful one.\<close>

definition queue_ready ::
  "(TelemetryPacket \<Rightarrow> byte list option) \<Rightarrow> (byte list \<Rightarrow> TelemetryPacket option) \<Rightarrow> Queue \<Rightarrow> bool" where
  "queue_ready marshal unmarshal q \<longleftrightarrow> proto_ok marshal unmarshal \<and> queue_wf q"

interpretation edr: roomy_queue "queue_push marshal json_sev" "queue_pop unmarshal" "queued unmarshal"
  "queue_ready marshal unmarshal" "queue_lost marshal unmarshal json_sev" "is_critical \<circ> Severity" "queue_room marshal"
  for marshal unmarshal json_sev
proof (unfold_locales, goal_cases)
  case (1 q c ps)
  then show ?case by (simp add: queue_ready_def queue_push_simps PushBatch_wf)
next
  case (2 c ps q)
  then show ?case by (simp add: queue_push_simps PushBatch_rejected)
next
  case (3 q c ps)
  then show ?case using PushBatch_queued [of q marshal unmarshal json_sev c ps] by (simp add: queue_ready_def queue_push_simps)
next
  case (4 q c n)
  then show ?case by (simp add: queue_ready_def queue_pop_simps PopBatch_wf)
next
  case (5 q c n)
  then show ?case by (simp add: queue_ready_def queue_pop_stored)
next
  case (6 q c ps)
  then show ?case by (intro queue_push_conserves) (simp_all add: queue_ready_def)
next
  case (7 ps q)
  then show ?case by (simp add: queue_calm)
next
  case (8 q ps)
  then show ?case using queue_push_room [of marshal unmarshal q ps json_sev] by (simp add: queue_ready_def)
qed

section \<open>Properties\<close>

text \<open>One call on the queue, with the outcome of its transaction.\<close>

datatype queue_op = QPush bool "TelemetryPacket list" | QPop bool int

fun queue_run ::
  "(TelemetryPacket \<Rightarrow> byte list option) \<Rightarrow> (byte list \<Rightarrow> TelemetryPacket option) \<Rightarrow> (byte list \<Rightarrow> string)
     \<Rightarrow> Queue \<Rightarrow> queue_op \<Rightarrow> Queue" where
  "queue_run marshal unmarshal json_sev q (QPush c ps) = snd (PushBatch marshal json_sev c ps q)"
| "queue_run marshal unmarshal json_sev q (QPop c n) = snd (PopBatch unmarshal c n q)"

lemma queue_run_gap:
  assumes "queue_wf q" "usedBytes q - payload_bytes (db q) = g" "0 \<le> g"
  shows "queue_wf (queue_run marshal unmarshal json_sev q op)
    \<and> usedBytes (queue_run marshal unmarshal json_sev q op) - payload_bytes (db (queue_run marshal unmarshal json_sev q op)) = g"
proof (cases op)
  case (QPush c ps)
  have "usedBytes (snd (PushBatch marshal json_sev c ps q)) - payload_bytes (db (snd (PushBatch marshal json_sev c ps q))) = g"
  proof (cases "fst (PushBatch marshal json_sev c ps q) = None \<and> ps \<noteq> []")
    case True
    then obtain es used sq b where e:
      "push_entries json_sev (maxBytes q) es (usedBytes q, seqno q, db q) = Some (used, sq, b)"
      "snd (PushBatch marshal json_sev c ps q) = q\<lparr>db := b, seqno := sq, usedBytes := used\<rparr>"
      by (auto elim: PushBatch_accepted)
    with push_entries_inv [OF e(1)] assms show ?thesis by (simp add: queue_wf_ok)
  next
    case False
    with PushBatch_rejected [of marshal json_sev c ps q] have "snd (PushBatch marshal json_sev c ps q) = q"
      by (cases "ps = []") (auto simp: PushBatch_def)
    with assms(2) show ?thesis by simp
  qed
  with QPush assms(1) show ?thesis by (simp add: PushBatch_wf)
next
  case (QPop c n)
  have "usedBytes (snd (PopBatch unmarshal c n q)) - payload_bytes (db (snd (PopBatch unmarshal c n q))) = g"
  proof (rule PopBatch_cases [OF assms(1), of unmarshal c n])
    fix popped
    assume p: "db q = popped @ drop (nat n) (db q)"
      "PopBatch unmarshal c n q = (Inr (List.map_filter unmarshal (map snd popped)),
       q\<lparr>db := drop (nat n) (db q),
         usedBytes := (if usedBytes q - payload_bytes popped < 0 then 0 else usedBytes q - payload_bytes popped)\<rparr>)"
    have "payload_bytes (db q) = payload_bytes popped + payload_bytes (drop (nat n) (db q))"
      by (subst p(1)) simp
    moreover have "0 \<le> payload_bytes (drop (nat n) (db q))" by (rule payload_bytes_simps)
    ultimately have "\<not> usedBytes q - payload_bytes popped < 0" using assms(2,3) by linarith
    with \<open>payload_bytes (db q) = _\<close> show ?thesis using assms(2) unfolding p(2) by simp
  qed (use assms in simp_all)
  with QPop assms(1) show ?thesis by (simp add: PopBatch_wf)
qed

lemma queue_runs_gap:
  assumes "queue_wf q" "usedBytes q - payload_bytes (db q) = g" "0 \<le> g"
  shows "usedBytes (foldl (queue_run marshal unmarshal json_sev) q ops)
    = payload_bytes (db (foldl (queue_run marshal unmarshal json_sev) q ops)) + g"
  using assms
proof (induction ops arbitrary: q)
  case (Cons op ops)
  from queue_run_gap [OF Cons.prems, of marshal unmarshal json_sev op] Cons.IH Cons.prems(3) show ?case by simp
qed simp

text \<open>
  C38. The byte counter is the number of stored payload bytes plus a constant: the
  difference between what bbolt reported for the bucket at start-up and the payload
  it then held. For a new queue the constant is 0 and the counter is exact, whatever
  the pushes, evictions, pops and failed transactions; after a restart on a backlog
  the page and element headers in \<open>LeafInuse\<close> stay counted for the life of the
  process, so the capacity is lower by that much even when the queue is empty.
\<close>

theorem used_bytes_accounting:
  assumes "bucket_ok sq b" "payload_bytes b \<le> leafInuse"
  shows "usedBytes (foldl (queue_run marshal unmarshal json_sev) (OpenQueue b sq leafInuse mx) ops)
    = payload_bytes (db (foldl (queue_run marshal unmarshal json_sev) (OpenQueue b sq leafInuse mx) ops))
      + (leafInuse - payload_bytes b)"
  by (rule queue_runs_gap) (use assms in \<open>simp_all add: queue_wf_ok OpenQueue_def\<close>)

theorem used_bytes_accounting_witness:
  "usedBytes (foldl (queue_run (\<lambda>p. Some (str_bytes (PktId p))) (\<lambda>d. None) (\<lambda>d. ''''))
     (OpenQueue [(1, [7, 7])] 1 50 100) [QPop True 1]) = 48"
  using used_bytes_accounting [of 1 "[(1, [7, 7])]" 50 "\<lambda>p. Some (str_bytes (PktId p))" "\<lambda>d. None" "\<lambda>d. ''''" 100 "[QPop True 1]"]
  by (simp add: bucket_ok_def PopBatch_def OpenQueue_def bucket_delete_def)

text \<open>
  C4. A batch is queued as a whole and in order, or refused without any effect. On a
  well-formed queue with a faithful marshaller an error leaves the queue as it was.
  Without an error the stored payloads are those of the queue followed by those of
  every packet of the batch, less the first \<open>k\<close> of them that the scan takes for
  non-critical, where \<open>k\<close> is the shrinkage and at most the number of critical
  packets in the batch: an arriving packet is never skipped. When there was room
  nothing is missing. A pop then returns packets from the head.
\<close>

theorem queue_push_pop:
  assumes "proto_ok marshal unmarshal" "queue_wf q" "PushBatch marshal json_sev True ps q = (err, q')"
    "PopBatch unmarshal c n q' = (Inr out, q'')"
  shows "(if err = None
      then \<exists>k ds. map Some ds = map marshal ps
        \<and> map snd (db q') = evict_first k (\<lambda>d. \<not> is_critical (json_sev d)) (map snd (db q) @ ds)
        \<and> QueueLen q' + k = QueueLen q + length ps
        \<and> k \<le> length (filter (is_critical \<circ> Severity) ps)
      else q' = q)
    \<and> (queue_room marshal ps q \<longrightarrow> err = None \<and> queued unmarshal q' = queued unmarshal q @ ps)
    \<and> queued unmarshal q' = out @ queued unmarshal q'' \<and> length out \<le> nat n"
proof -
  have q: "queue_ready marshal unmarshal q" using assms(1,2) by (simp add: queue_ready_def)
  have push: "queue_push marshal json_sev True ps q = (err = None, q')" by (simp add: queue_push_def assms(3))
  have "queue_wf q'" using PushBatch_wf [OF assms(2), of marshal json_sev True ps] assms(3) by simp
  from PopBatch_queued [OF this assms(4)]
    edr.push_refused [where c = True and ps = ps and q = q and json_sev = json_sev and marshal = marshal]
    edr.push_room [OF q, of ps json_sev] PushBatch_evicts [OF assms(2), of marshal json_sev True ps]
  show ?thesis by (auto simp: push assms(3))
qed

theorem queue_push_pop_witness:
  "case PushBatch demo_marshal (\<lambda>d. []) True [pktB] (OpenQueue [(1, [1])] 1 1 10) of (err, q') \<Rightarrow>
     err = None \<and> queued demo_unmarshal q' = [pktA, pktB]"
proof -
  let ?q = "OpenQueue [(1, [1])] 1 1 10"
  obtain err q' where p: "PushBatch demo_marshal (\<lambda>d. []) True [pktB] ?q = (err, q')"
    by (cases "PushBatch demo_marshal (\<lambda>d. []) True [pktB] ?q")
  have codec: "proto_ok demo_marshal demo_unmarshal"
    by (auto simp: proto_ok_def demo_marshal_def demo_unmarshal_def split: if_splits)
  have wf: "queue_wf ?q" by (simp add: queue_wf_def OpenQueue_def)
  have "PopBatch demo_unmarshal True 0 q' = (Inr [], q')" by (simp add: PopBatch_def)
  moreover have "queue_room demo_marshal [pktB] ?q" by (simp add: queue_room_def OpenQueue_def)
  moreover have "queued demo_unmarshal ?q = [pktA]" by (simp add: OpenQueue_def queued_def List.map_filter_simps)
  ultimately show ?thesis using queue_push_pop [OF codec wf p, where c = True and n = 0 and out = "[]" and q'' = q'] by (simp add: p del: One_nat_def)
qed

text \<open>
  The eviction scan parses protobuf bytes as JSON, so it sees an empty severity
  for every entry: under that behaviour of \<open>json.Unmarshal\<close>, a critical packet
  pushed into a full queue replaces the oldest entry whatever its severity, in
  particular an older critical one, although the push promises to evict the oldest
  non-critical entry.
\<close>

theorem eviction_ignores_severity:
  assumes "\<forall>e \<in> set (db q). json_sev (snd e) = []" "queue_wf q" "db q = (k, v) # rest"
    and "usedBytes q \<ge> maxBytes q" "is_critical (Severity p)" "marshal p = Some d"
  shows "PushBatch marshal json_sev True [p] q =
     (None, q\<lparr>db := rest @ [(Suc (seqno q), d)], seqno := Suc (seqno q),
              usedBytes := usedBytes q - int (length v) + int (length d)\<rparr>)"
proof -
  have ok: "bucket_ok (seqno q) ((k, v) # rest)" using assms(2,3) by (simp add: queue_wf_ok)
  then have "bucket_ok (seqno q) rest" by (simp add: bucket_ok_def)
  then have "bucket_put (Suc (seqno q)) d rest = rest @ [(Suc (seqno q), d)]" by (rule bucket_put_next)
  moreover have "json_sev v = []" using assms(1,3) by simp
  ultimately show ?thesis
    using assms(3-6) bucket_delete_head [OF ok]
    by (simp add: PushBatch_def evictOldestNonCritical_def is_critical_def)
qed

theorem eviction_ignores_severity_witness:
  "queued demo_unmarshal (OpenQueue [(1, [1]), (2, [2])] 2 2 2) = [pktA, pktB]
   \<and> queued demo_unmarshal (snd (PushBatch demo_marshal (\<lambda>d. []) True [pktA] (OpenQueue [(1, [1]), (2, [2])] 2 2 2)))
      = [pktB, pktA]"
  using eviction_ignores_severity [of "OpenQueue [(1, [1]), (2, [2])] 2 2 2" "\<lambda>d. []" 1 "[1]" "[(2, [2])]" pktA demo_marshal "[1]"]
  by (simp add: OpenQueue_def queue_wf_def is_critical_def queued_def List.map_filter_simps)

text \<open>
  The soft limit: a batch without critical packets is accepted only if every
  packet found the counter below the limit, so the counter then exceeds the limit
  by less than the last packet.
\<close>

theorem noncritical_batch_bounded:
  assumes "PushBatch marshal json_sev c ps q = (None, q')" "ps \<noteq> []"
    and "\<forall>p \<in> set ps. \<not> is_critical (Severity p)" "marshal (last ps) = Some d"
  shows "usedBytes q' < maxBytes q + int (length d)"
proof -
  obtain es used sq b where e: "marshal_all marshal ps = Some es"
    "push_entries json_sev (maxBytes q) es (usedBytes q, seqno q, db q) = Some (used, sq, b)"
    "snd (PushBatch marshal json_sev c ps q) = q\<lparr>db := b, seqno := sq, usedBytes := used\<rparr>"
    by (rule PushBatch_accepted [of marshal json_sev c ps q]) (use assms(1,2) in auto)
  note f = marshal_all_fst [OF e(1)] marshal_all_snd [OF e(1)]
  have ne: "es \<noteq> []" using f(2) assms(2) by auto
  have "Some (fst (last es)) = marshal (last ps)"
    using f(1) ne assms(2) by (metis comp_apply last_map)
  moreover have "\<forall>e \<in> set es. \<not> is_critical (snd e)"
    using f(2) assms(3) by (metis (no_types, lifting) image_eqI image_iff list.set_map)
  ultimately show ?thesis
    using push_entries_noncritical [OF e(2) _ ne] assms(1,4) e(3) by simp
qed

theorem noncritical_batch_bounded_witness:
  "usedBytes (snd (PushBatch demo_marshal (\<lambda>d. []) True [pktB] (OpenQueue [] 0 0 1))) < 1 + 1"
  using noncritical_batch_bounded [of demo_marshal "\<lambda>d. []" True "[pktB]" "OpenQueue [] 0 0 1"
      "snd (PushBatch demo_marshal (\<lambda>d. []) True [pktB] (OpenQueue [] 0 0 1))" "[2]"]
  by (simp add: OpenQueue_def PushBatch_def is_critical_def)

text \<open>
  A corrupted head entry blocks the host reader's queue for good: the delete in
  front of the error return is rolled back, so every further pop reports the same
  error and the entries behind it are never delivered, although the comment says
  the entry is deleted.
\<close>

theorem idr_pop_stuck_on_corrupt_head:
  assumes "db q = (k, v) # rest" "unmarshal v = None"
  shows "idr_Pop unmarshal c (((\<lambda>q. snd (idr_Pop unmarshal c q)) ^^ n) q) = (Inl ErrUnmarshal, q)"
proof -
  have step: "idr_Pop unmarshal c q = (Inl ErrUnmarshal, q)" using assms by (simp add: idr_Pop_def)
  have "((\<lambda>q. snd (idr_Pop unmarshal c q)) ^^ n) q = q" by (induction n) (simp_all add: step)
  with step show ?thesis by simp
qed

theorem idr_pop_stuck_on_corrupt_head_witness:
  "idr_Pop demo_unmarshal True (OpenQueue [(1, [9]), (2, [1])] 2 0 10)
     = (Inl ErrUnmarshal, OpenQueue [(1, [9]), (2, [1])] 2 0 10)"
  using idr_pop_stuck_on_corrupt_head [where q = "OpenQueue [(1, [9]), (2, [1])] 2 0 10" and k = 1 and v = "[9]" and rest = "[(2, [1])]"
      and unmarshal = demo_unmarshal and c = True and n = 0]
  by (simp add: OpenQueue_def demo_unmarshal_def)

end
