(* ===== verification/Publisher.thy ===== *)
theory Publisher
  imports Queue
begin

text \<open>
  The edge publisher, \<open>fwEDR/internal/publisher/publisher.go\<close>, with the collection
  gate of \<open>health/gate.go\<close>: defaults, failure streak and gate, reconnect back-off,
  and the interleaving of the collector, the drain loop and the sending goroutines
  as a step relation. A \<open>BatchPush\<close> call fails, or it is answered and the service
  has rejected some of the packets (a full ingest queue rejects the whole batch):
  the environment chooses. The history fields record what happened to packets and
  are read by no step: \<open>accepted\<close> what the collector handed over, \<open>delivered\<close> what
  the service took, \<open>rejected\<close> what it turned down in an answer, \<open>refused\<close> what a
  full queue did not take back, \<open>evicted\<close> what the eviction scans of the queue took
  out (\<open>lost\<close>, a function of the batch and the queue before the push).
\<close>

record PublisherConfig =
  BatchSize :: int
  FlushIntervalMs :: int
  MaxInFlight :: int
  DCSDownAfter :: int
  DCSProbeIntervalMs :: int

definition publisher_New :: "PublisherConfig \<Rightarrow> PublisherConfig" where
  "publisher_New c =
     \<lparr>BatchSize = (if BatchSize c \<le> 0 then 512 else BatchSize c),
      FlushIntervalMs = (if FlushIntervalMs c \<le> 0 then 200 else FlushIntervalMs c),
      MaxInFlight = (if MaxInFlight c \<le> 0 then 8 else MaxInFlight c),
      DCSDownAfter = (if DCSDownAfter c \<le> 0 then 3 else DCSDownAfter c),
      DCSProbeIntervalMs = (if DCSProbeIntervalMs c \<le> 0 then 5000 else DCSProbeIntervalMs c)\<rparr>"

section \<open>The collection gate\<close>

record Health =
  failStreak :: int
  dcsDown :: bool

definition SetDCSDown :: "bool \<Rightarrow> Health \<Rightarrow> Health" where
  "SetDCSDown d h = h\<lparr>dcsDown := d\<rparr>"

definition recordResult :: "bool \<Rightarrow> int \<Rightarrow> bool \<Rightarrow> Health \<Rightarrow> Health" where
  "recordResult hasGate downAfter res h =
     (if \<not> hasGate then h
      else if res then
        (let h = h\<lparr>failStreak := 0\<rparr> in if dcsDown h then SetDCSDown False h else h)
      else
        (let h = h\<lparr>failStreak := failStreak h + 1\<rparr>
         in if failStreak h \<ge> downAfter \<and> \<not> dcsDown h then SetDCSDown True h else h))"

text \<open>The wait before the next connection attempt, in nanoseconds, after a failed one.\<close>

definition next_backoff :: "int \<Rightarrow> int" where
  "next_backoff b = (if b < 60 * 1000000000 then b * 2 else b)"

fun backoff_after :: "nat \<Rightarrow> int" where
  "backoff_after 0 = 1000000000"
| "backoff_after (Suc n) = next_backoff (backoff_after n)"

section \<open>The drain loop and its goroutines\<close>

record ('q, 'p) Publisher =
  pq :: 'q
  held :: "'p list option"
  inFlight :: "'p list list"
  health :: Health
  stopped :: bool
  accepted :: "'p multiset"
  delivered :: "'p multiset"
  rejected :: "'p multiset"
  refused :: "'p multiset"
  evicted :: "'p multiset"

definition publisher_init :: "'q \<Rightarrow> ('q, 'p) Publisher" where
  "publisher_init q = \<lparr>pq = q, held = None, inFlight = [], health = \<lparr>failStreak = 0, dcsDown = False\<rparr>,
     stopped = False, accepted = {#}, delivered = {#}, rejected = {#}, refused = {#}, evicted = {#}\<rparr>"

text \<open>\<open>EnqueueBatch\<close>: the caller sees the refusal.\<close>

definition EnqueueBatch ::
  "(bool \<Rightarrow> 'p list \<Rightarrow> 'q \<Rightarrow> bool \<times> 'q) \<Rightarrow> ('p list \<Rightarrow> 'q \<Rightarrow> 'p list)
     \<Rightarrow> bool \<Rightarrow> 'p list \<Rightarrow> ('q, 'p) Publisher \<Rightarrow> bool \<times> ('q, 'p) Publisher" where
  "EnqueueBatch push lost c ps p =
     (case push c ps (pq p) of (ok, q') \<Rightarrow>
        (ok, if ok then p\<lparr>pq := q', accepted := accepted p + mset ps,
                          evicted := evicted p + mset (lost ps (pq p))\<rparr> else p))"

text \<open>\<open>_ = p.q.PushBatch(pkts)\<close>: putting a batch back, with the result ignored.\<close>

definition requeue ::
  "(bool \<Rightarrow> 'p list \<Rightarrow> 'q \<Rightarrow> bool \<times> 'q) \<Rightarrow> ('p list \<Rightarrow> 'q \<Rightarrow> 'p list)
     \<Rightarrow> bool \<Rightarrow> 'p list \<Rightarrow> ('q, 'p) Publisher \<Rightarrow> ('q, 'p) Publisher" where
  "requeue push lost c ps p =
     (case push c ps (pq p) of (ok, q') \<Rightarrow>
        if ok then p\<lparr>pq := q', evicted := evicted p + mset (lost ps (pq p))\<rparr>
        else p\<lparr>refused := refused p + mset ps\<rparr>)"

text \<open>
  The outcome of the \<open>BatchPush\<close> call of \<open>sendBatch\<close> for a batch taken from
  \<open>inFlight\<close>: an error, or the answer of the service with the packets it rejected.
  The code looks at the error only; the counts of the answer go to the debug log.
\<close>

datatype 'p push_outcome = PushFailed | PushAnswered "'p multiset"

definition sendBatch where
  "sendBatch push lost hasGate downAfter c rpc b p =
     (case rpc of
        PushFailed \<Rightarrow> requeue push lost c b (p\<lparr>health := recordResult hasGate downAfter False (health p)\<rparr>)
      | PushAnswered rej \<Rightarrow>
          p\<lparr>health := recordResult hasGate downAfter True (health p),
            delivered := delivered p + (mset b - rej), rejected := rejected p + rej\<rparr>)"

definition probeDCS :: "bool \<Rightarrow> int \<Rightarrow> bool \<Rightarrow> ('q, 'p) Publisher \<Rightarrow> ('q, 'p) Publisher" where
  "probeDCS hasGate downAfter rpc_ok p = p\<lparr>health := recordResult hasGate downAfter rpc_ok (health p)\<rparr>"

text \<open>An answer rejects packets of the batch it answers.\<close>

fun answer_for :: "'p list \<Rightarrow> 'p push_outcome \<Rightarrow> bool" where
  "answer_for b PushFailed = True"
| "answer_for b (PushAnswered rej) = (rej \<subseteq># mset b)"

inductive pub_step ::
  "(bool \<Rightarrow> 'p list \<Rightarrow> 'q \<Rightarrow> bool \<times> 'q) \<Rightarrow> (bool \<Rightarrow> int \<Rightarrow> 'q \<Rightarrow> 'p list \<times> 'q)
     \<Rightarrow> ('p list \<Rightarrow> 'q \<Rightarrow> 'p list) \<Rightarrow> bool \<Rightarrow> PublisherConfig \<Rightarrow> ('q, 'p) Publisher \<Rightarrow> ('q, 'p) Publisher \<Rightarrow> bool"
  for push pop lost hasGate cfg where
  enqueue: "pub_step push pop lost hasGate cfg p (snd (EnqueueBatch push lost c ps p))"
| probe: "\<not> stopped p \<Longrightarrow> held p = None \<Longrightarrow> hasGate \<Longrightarrow> dcsDown (health p) \<Longrightarrow>
    pub_step push pop lost hasGate cfg p (probeDCS hasGate (DCSDownAfter cfg) rpc_ok p)"
| pop_batch: "\<not> stopped p \<Longrightarrow> held p = None \<Longrightarrow> \<not> (hasGate \<and> dcsDown (health p)) \<Longrightarrow>
    pop c (BatchSize cfg) (pq p) = (b, q') \<Longrightarrow>
    pub_step push pop lost hasGate cfg p (p\<lparr>pq := q', held := (if b = [] then None else Some b)\<rparr>)"
| launch: "\<not> stopped p \<Longrightarrow> held p = Some b \<Longrightarrow> int (length (inFlight p)) < MaxInFlight cfg \<Longrightarrow>
    pub_step push pop lost hasGate cfg p (p\<lparr>held := None, inFlight := inFlight p @ [b]\<rparr>)"
| shutdown_held: "\<not> stopped p \<Longrightarrow> held p = Some b \<Longrightarrow>
    pub_step push pop lost hasGate cfg p (requeue push lost c b (p\<lparr>held := None, stopped := True\<rparr>))"
| shutdown_idle: "\<not> stopped p \<Longrightarrow> held p = None \<Longrightarrow>
    pub_step push pop lost hasGate cfg p (p\<lparr>stopped := True\<rparr>)"
| send: "inFlight p = xs @ b # ys \<Longrightarrow> answer_for b rpc \<Longrightarrow>
    pub_step push pop lost hasGate cfg p
      (sendBatch push lost hasGate (DCSDownAfter cfg) c rpc b (p\<lparr>inFlight := xs @ ys\<rparr>))"

abbreviation pub_reach where
  "pub_reach push pop lost hasGate cfg \<equiv> (pub_step push pop lost hasGate cfg)\<^sup>*\<^sup>*"

section \<open>Invariants\<close>

text \<open>Where every accepted packet is.\<close>

definition accounted :: "('q \<Rightarrow> 'p list) \<Rightarrow> ('q, 'p) Publisher \<Rightarrow> 'p multiset" where
  "accounted stored p =
     mset (stored (pq p)) + (case held p of None \<Rightarrow> {#} | Some b \<Rightarrow> mset b)
       + sum_list (map mset (inFlight p)) + delivered p + rejected p + refused p + evicted p"

definition health_ok :: "int \<Rightarrow> Health \<Rightarrow> bool" where
  "health_ok downAfter h \<longleftrightarrow> 0 \<le> failStreak h \<and> (dcsDown h \<longleftrightarrow> failStreak h \<ge> downAfter)"

lemma recordResult_ok:
  "0 < downAfter \<Longrightarrow> health_ok downAfter h \<Longrightarrow> health_ok downAfter (recordResult g downAfter r h)"
  by (auto simp: health_ok_def recordResult_def SetDCSDown_def Let_def)

definition pub_inv :: "('q \<Rightarrow> 'p list) \<Rightarrow> ('q \<Rightarrow> bool) \<Rightarrow> ('p \<Rightarrow> bool) \<Rightarrow> bool \<Rightarrow> PublisherConfig \<Rightarrow> ('q, 'p) Publisher \<Rightarrow> bool" where
  "pub_inv stored valid urgent hasGate cfg p \<longleftrightarrow>
     valid (pq p) \<and> accepted p = accounted stored p \<and> int (length (inFlight p)) \<le> MaxInFlight cfg
     \<and> ((\<forall>x \<in># accepted p. \<not> urgent x) \<longrightarrow> evicted p = {#})
     \<and> (hasGate \<longrightarrow> health_ok (DCSDownAfter cfg) (health p))"

lemma requeue_simps [simp]:
  "held (requeue push lost c b p) = held p" "inFlight (requeue push lost c b p) = inFlight p"
  "health (requeue push lost c b p) = health p" "delivered (requeue push lost c b p) = delivered p"
  "rejected (requeue push lost c b p) = rejected p" "accepted (requeue push lost c b p) = accepted p"
  by (simp_all add: requeue_def split: prod.split)

lemma EnqueueBatch_simps [simp]:
  "health (snd (EnqueueBatch push lost c ps p)) = health p" "inFlight (snd (EnqueueBatch push lost c ps p)) = inFlight p"
  by (simp_all add: EnqueueBatch_def split: prod.split)

context packet_queue
begin

lemma push_cases:
  assumes "valid q"
  obtains (ok) q' where "push c ps q = (True, q')" "valid q'"
    "mset (stored q) + mset ps = mset (stored q') + mset (lost ps q)"
  | (refused) "push c ps q = (False, q)"
proof (cases "push c ps q")
  case (Pair r q')
  then show ?thesis
    using ok [of q'] refused push_conserves [OF assms, of c ps] push_wf [OF assms, of c ps] push_refused [of c ps q]
    by (cases r) auto
qed

lemma requeue_accounted:
  assumes "valid (pq p)"
  shows "valid (pq (requeue push lost c b p)) \<and>
    accounted stored (requeue push lost c b p) = accounted stored p + mset b"
proof (rule push_cases [OF assms, of c b])
  fix q'
  assume q': "push c b (pq p) = (True, q')" "valid q'"
    "mset (stored (pq p)) + mset b = mset (stored q') + mset (lost b (pq p))"
  have "accounted stored (requeue push lost c b p)
      = (mset (stored q') + mset (lost b (pq p))) + (accounted stored p - mset (stored (pq p)))"
    by (simp add: requeue_def accounted_def q'(1) ac_simps)
  also have "\<dots> = accounted stored p + mset b" unfolding q'(3) [symmetric] by (simp add: accounted_def ac_simps)
  finally show ?thesis using q' by (simp add: requeue_def)
next
  assume "push c b (pq p) = (False, pq p)"
  with assms show ?thesis by (simp add: requeue_def accounted_def ac_simps)
qed

lemma requeue_calm: "\<forall>x \<in> set b. \<not> urgent x \<Longrightarrow> evicted (requeue push lost c b p) = evicted p"
  by (simp add: requeue_def calm_push split: prod.split)

lemma enqueue_accounted:
  assumes "valid (pq p)" "accepted p = accounted stored p"
  shows "valid (pq (snd (EnqueueBatch push lost c ps p)))
    \<and> accepted (snd (EnqueueBatch push lost c ps p)) = accounted stored (snd (EnqueueBatch push lost c ps p))"
proof (rule push_cases [OF assms(1), of c ps])
  fix q'
  assume q': "push c ps (pq p) = (True, q')" "valid q'"
    "mset (stored (pq p)) + mset ps = mset (stored q') + mset (lost ps (pq p))"
  have "accounted stored (snd (EnqueueBatch push lost c ps p))
      = (mset (stored q') + mset (lost ps (pq p))) + (accounted stored p - mset (stored (pq p)))"
    by (simp add: EnqueueBatch_def accounted_def q'(1) ac_simps)
  also have "\<dots> = accounted stored p + mset ps" unfolding q'(3) [symmetric] by (simp add: accounted_def ac_simps)
  finally show ?thesis using q' assms(2) by (simp add: EnqueueBatch_def)
next
  assume "push c ps (pq p) = (False, pq p)"
  with assms show ?thesis by (simp add: EnqueueBatch_def)
qed

lemma enqueue_calm:
  assumes "(\<forall>x \<in># accepted p. \<not> urgent x) \<longrightarrow> evicted p = {#}"
  shows "(\<forall>x \<in># accepted (snd (EnqueueBatch push lost c ps p)). \<not> urgent x)
    \<longrightarrow> evicted (snd (EnqueueBatch push lost c ps p)) = {#}"
  using assms calm_push [of ps "pq p"] by (auto simp: EnqueueBatch_def split: prod.splits)

lemma pub_step_inv:
  assumes "pub_step push pop lost hasGate cfg p p'" "pub_inv stored valid urgent hasGate cfg p" "0 < DCSDownAfter cfg"
  shows "pub_inv stored valid urgent hasGate cfg p'"
  using assms
proof (induction rule: pub_step.induct)
  case (enqueue p c ps)
  then have v: "valid (pq p)" "accepted p = accounted stored p"
    and calm: "(\<forall>x \<in># accepted p. \<not> urgent x) \<longrightarrow> evicted p = {#}"
    unfolding pub_inv_def by blast+
  show ?case
    unfolding pub_inv_def EnqueueBatch_simps
    by (intro conjI conjunct1 [OF enqueue_accounted [OF v]] conjunct2 [OF enqueue_accounted [OF v]] enqueue_calm [OF calm])
      (use enqueue in \<open>simp_all add: pub_inv_def\<close>)
next
  case (probe p rpc_ok)
  have "accounted stored (probeDCS hasGate (DCSDownAfter cfg) rpc_ok p) = accounted stored p"
    by (simp add: probeDCS_def accounted_def)
  with probe show ?case by (simp add: pub_inv_def probeDCS_def recordResult_ok)
next
  case (pop_batch p c b q')
  then have v: "valid (pq p)" by (simp add: pub_inv_def)
  have "mset (stored (pq p)) = mset b + mset (stored q')"
    using pop_mset [OF v, of c "BatchSize cfg"] pop_batch(4) by simp
  then have "accounted stored (p\<lparr>pq := q', held := (if b = [] then None else Some b)\<rparr>) = accounted stored p"
    using pop_batch(2) by (simp add: accounted_def ac_simps)
  with pop_batch pop_wf [OF v, of c "BatchSize cfg"] show ?case by (simp add: pub_inv_def)
next
  case (launch p b)
  have "accounted stored (p\<lparr>held := None, inFlight := inFlight p @ [b]\<rparr>) = accounted stored p"
    using launch(2) by (simp add: accounted_def ac_simps)
  with launch show ?case by (simp add: pub_inv_def)
next
  case (shutdown_held p b c)
  let ?p = "p\<lparr>held := None, stopped := True\<rparr>"
  have a: "accounted stored p = accounted stored ?p + mset b"
    using shutdown_held by (simp add: accounted_def ac_simps)
  then have b: "\<forall>x \<in> set b. x \<in># accepted p" using shutdown_held by (auto simp: pub_inv_def)
  have "(\<forall>x \<in># accepted p. \<not> urgent x) \<longrightarrow> evicted (requeue push lost c b ?p) = {#}"
    using requeue_calm [of b c ?p] b shutdown_held(3) by (auto simp: pub_inv_def)
  with a requeue_accounted [of ?p c b] shutdown_held show ?case by (simp add: pub_inv_def)
next
  case (shutdown_idle p)
  have "accounted stored (p\<lparr>stopped := True\<rparr>) = accounted stored p" by (simp add: accounted_def)
  with shutdown_idle show ?case by (simp add: pub_inv_def)
next
  case (send p xs b ys rpc c)
  let ?p = "\<lambda>r. p\<lparr>inFlight := xs @ ys, health := recordResult hasGate (DCSDownAfter cfg) r (health p)\<rparr>"
  have acc: "accounted stored p = accounted stored (?p r) + mset b" for r
    using send(1) by (simp add: accounted_def ac_simps)
  have b: "\<forall>x \<in> set b. x \<in># accepted p" using send(3) acc [of True] by (simp add: pub_inv_def)
  have len: "int (length (xs @ ys)) \<le> MaxInFlight cfg" using send by (simp add: pub_inv_def)
  have h: "health_ok (DCSDownAfter cfg) (recordResult hasGate (DCSDownAfter cfg) r (health p))"
    if hasGate for r using send that by (auto simp: pub_inv_def recordResult_ok)
  show ?case
  proof (cases rpc)
    case PushFailed
    have "(\<forall>x \<in># accepted p. \<not> urgent x) \<longrightarrow> evicted (requeue push lost c b (?p False)) = {#}"
      using requeue_calm [of b c "?p False"] b send(3) by (auto simp: pub_inv_def)
    with requeue_accounted [of "?p False" c b] acc [of False] len h [of False] send(3) show ?thesis
      by (simp add: pub_inv_def sendBatch_def PushFailed)
  next
    case (PushAnswered rej)
    let ?p' = "(?p True)\<lparr>delivered := delivered p + (mset b - rej), rejected := rejected p + rej\<rparr>"
    have rej: "mset b = (mset b - rej) + rej" using send(2) PushAnswered by simp
    have "accounted stored ?p' = accounted stored (?p True) + ((mset b - rej) + rej)"
      by (simp add: accounted_def ac_simps)
    then have "accounted stored ?p' = accounted stored p" unfolding acc [of True] using rej by metis
    moreover have "accepted ?p' = accepted p" "evicted ?p' = evicted p" by simp_all
    ultimately show ?thesis
      using len h [of True] send(3) by (simp add: pub_inv_def sendBatch_def PushAnswered)
  qed
qed

lemma pub_reach_inv:
  assumes "pub_reach push pop lost hasGate cfg (publisher_init q) p" "valid q" "stored q = []"
    and "0 < DCSDownAfter cfg" "0 \<le> MaxInFlight cfg"
  shows "pub_inv stored valid urgent hasGate cfg p"
proof -
  have "pub_inv stored valid urgent hasGate cfg (publisher_init q)"
    using assms(2-5) by (simp add: pub_inv_def publisher_init_def accounted_def health_ok_def)
  with assms(1) show ?thesis
    by (induction rule: rtranclp_induct) (use assms(4) in \<open>auto intro: pub_step_inv\<close>)
qed

end

section \<open>Properties\<close>

lemma publisher_New_pos: "0 < DCSDownAfter (publisher_New c)" "0 < MaxInFlight (publisher_New c)"
  by (auto simp: publisher_New_def)

text \<open>
  C5. What can happen to a packet inside the publisher: from an empty queue, in
  every interleaving of the collector, the drain loop, probes, sends that fail or are
  answered with rejections, and shutdown, the packets accepted so far are exactly
  those still queued, held by the drain loop or in flight, plus those the service
  took, plus three losses: rejected in the answer of the service (the counts of
  which are only logged), not taken back by a full queue, and taken out by the
  eviction scans of the queue. Nothing is evicted before a critical packet was
  accepted. At most \<open>MaxInFlight\<close> sends run at once.
\<close>

theorem publisher_accounts_for_every_packet:
  assumes "proto_ok marshal unmarshal"
    and "pub_reach (queue_push marshal json_sev) (queue_pop unmarshal) (queue_lost marshal unmarshal json_sev) hasGate
           (publisher_New cfg) (publisher_init (OpenQueue [] sq leafInuse mx)) p"
  shows "accepted p = mset (queued unmarshal (pq p)) + (case held p of None \<Rightarrow> {#} | Some b \<Rightarrow> mset b)
           + sum_list (map mset (inFlight p)) + delivered p + rejected p + refused p + evicted p
    \<and> ((\<forall>x \<in># accepted p. \<not> is_critical (Severity x)) \<longrightarrow> evicted p = {#})
    \<and> int (length (inFlight p)) \<le> MaxInFlight (publisher_New cfg)"
proof -
  have "queue_ready marshal unmarshal (OpenQueue [] sq leafInuse mx)"
    using assms(1) by (simp add: queue_ready_def queue_wf_def OpenQueue_def)
  moreover have "queued unmarshal (OpenQueue [] sq leafInuse mx) = []"
    by (simp add: queued_def OpenQueue_def List.map_filter_simps)
  ultimately have "pub_inv (queued unmarshal) (queue_ready marshal unmarshal) (is_critical \<circ> Severity) hasGate (publisher_New cfg) p"
    by (rule edr.pub_reach_inv [OF assms(2)]) (simp_all add: publisher_New_pos less_imp_le)
  then show ?thesis unfolding pub_inv_def accounted_def comp_def by blast
qed

text \<open>A run of the witness: two packets are accepted, sent in one batch, and one of them is rejected.\<close>

theorem publisher_accounts_for_every_packet_witness:
  "\<exists>p. pub_reach (queue_push demo_marshal (\<lambda>d. [])) (queue_pop demo_unmarshal) (queue_lost demo_marshal demo_unmarshal (\<lambda>d. [])) True
       (publisher_New \<lparr>BatchSize = 0, FlushIntervalMs = 0, MaxInFlight = 0, DCSDownAfter = 0, DCSProbeIntervalMs = 0\<rparr>)
       (publisher_init (OpenQueue [] 0 0 100)) p
     \<and> accepted p = {#pktA, pktB#} \<and> delivered p = {#pktA#} \<and> rejected p = {#pktB#}
     \<and> mset (queued demo_unmarshal (pq p)) + (case held p of None \<Rightarrow> {#} | Some b \<Rightarrow> mset b)
           + sum_list (map mset (inFlight p)) + refused p + evicted p = {#}"
proof -
  let ?cfg = "publisher_New \<lparr>BatchSize = 0, FlushIntervalMs = 0, MaxInFlight = 0, DCSDownAfter = 0, DCSProbeIntervalMs = 0\<rparr>"
  let ?push = "queue_push demo_marshal (\<lambda>d. [])" and ?pop = "queue_pop demo_unmarshal"
  let ?lost = "queue_lost demo_marshal demo_unmarshal (\<lambda>d. [])"
  let ?q = "OpenQueue [] 0 0 100"
  let ?q1 = "\<lparr>db = [(1, [1]), (2, [2])], seqno = 2, maxBytes = 100, usedBytes = 2\<rparr>"
  let ?q2 = "\<lparr>db = [], seqno = 2, maxBytes = 100, usedBytes = 0\<rparr>"
  let ?p1 = "(publisher_init ?q1)\<lparr>accepted := {#pktA, pktB#}\<rparr>"
  let ?p2 = "(publisher_init ?q2)\<lparr>accepted := {#pktA, pktB#}, held := Some [pktA, pktB]\<rparr>"
  let ?p3 = "(publisher_init ?q2)\<lparr>accepted := {#pktA, pktB#}, inFlight := [[pktA, pktB]]\<rparr>"
  let ?p4 = "(publisher_init ?q2)\<lparr>accepted := {#pktA, pktB#}, delivered := {#pktA#}, rejected := {#pktB#}\<rparr>"
  have codec: "proto_ok demo_marshal demo_unmarshal"
    by (auto simp: proto_ok_def demo_marshal_def demo_unmarshal_def split: if_splits)
  have q1: "?push True [pktA, pktB] ?q = (True, ?q1)" by (simp add: queue_push_def PushBatch_def OpenQueue_def)
  have l1: "?lost [pktA, pktB] ?q = []" by (simp add: queue_lost_def OpenQueue_def List.map_filter_simps)
  have "snd (EnqueueBatch ?push ?lost True [pktA, pktB] (publisher_init ?q)) = ?p1"
    by (simp add: EnqueueBatch_def publisher_init_def q1 l1)
  then have s1: "pub_step ?push ?pop ?lost True ?cfg (publisher_init ?q) ?p1"
    using pub_step.enqueue [of ?push ?pop ?lost True ?cfg "publisher_init ?q" True "[pktA, pktB]"] by (simp only:)
  have b: "?pop True (BatchSize ?cfg) ?q1 = ([pktA, pktB], ?q2)"
    by (simp add: publisher_New_def queue_pop_def PopBatch_def bucket_delete_def List.map_filter_simps)
  have s2: "pub_step ?push ?pop ?lost True ?cfg ?p1 ?p2"
    using pub_step.pop_batch [of ?p1 True ?pop True ?cfg "[pktA, pktB]" ?q2 ?push ?lost] b by (simp add: publisher_init_def)
  have s3: "pub_step ?push ?pop ?lost True ?cfg ?p2 ?p3"
    using pub_step.launch [of ?p2 "[pktA, pktB]" ?cfg ?push ?pop ?lost True]
    by (simp add: publisher_init_def publisher_New_def)
  have s4: "pub_step ?push ?pop ?lost True ?cfg ?p3 ?p4"
    using pub_step.send [of ?p3 "[]" "[pktA, pktB]" "[]" "PushAnswered {#pktB#}" ?push ?pop ?lost True ?cfg True]
    by (simp add: publisher_init_def sendBatch_def recordResult_def)
  have r: "pub_reach ?push ?pop ?lost True ?cfg (publisher_init ?q) ?p4"
    using s1 s2 s3 s4 by (meson rtranclp.rtrancl_into_rtrancl rtranclp.rtrancl_refl)
  have "accepted ?p4 = {#pktA, pktB#}" "delivered ?p4 = {#pktA#}" "rejected ?p4 = {#pktB#}" by simp_all
  with publisher_accounts_for_every_packet [OF codec r] r show ?thesis
    by (intro exI [of _ ?p4]) (simp add: add.assoc)
qed

text \<open>
  Backpressure loses the batch: when the service answers that it rejected packets,
  the batch is not put back. The queue and the gate are as after a delivery, so the
  packets are neither sent again nor is collection slowed down, although the
  service's comment on the full channel says that the edge reader requeues them.
\<close>

theorem rejected_batch_is_lost:
  "pq (sendBatch push lost hasGate downAfter c (PushAnswered rej) b p) = pq p
   \<and> inFlight (sendBatch push lost hasGate downAfter c (PushAnswered rej) b p) = inFlight p
   \<and> held (sendBatch push lost hasGate downAfter c (PushAnswered rej) b p) = held p
   \<and> rejected (sendBatch push lost hasGate downAfter c (PushAnswered rej) b p) = rejected p + rej
   \<and> health (sendBatch push lost hasGate downAfter c (PushAnswered rej) b p)
      = health (sendBatch push lost hasGate downAfter c (PushAnswered {#}) b p)"
  by (simp add: sendBatch_def)

text \<open>
  The collection gate is closed exactly while the last \<open>DCSDownAfter\<close> or more
  outcomes of pushes and probes were failures: it closes at the threshold, stays
  closed through further failures, and opens on the first success.
\<close>

theorem gate_reflects_failure_streak:
  "dcsDown (foldl (\<lambda>h r. recordResult True (DCSDownAfter (publisher_New cfg)) r h)
      \<lparr>failStreak = 0, dcsDown = False\<rparr> outcomes) \<longleftrightarrow>
   DCSDownAfter (publisher_New cfg) \<le> int (length (takeWhile Not (rev outcomes)))"
proof -
  let ?n = "DCSDownAfter (publisher_New cfg)"
  have "foldl (\<lambda>h r. recordResult True ?n r h) \<lparr>failStreak = 0, dcsDown = False\<rparr> outcomes
      = \<lparr>failStreak = int (length (takeWhile Not (rev outcomes))),
         dcsDown = (?n \<le> int (length (takeWhile Not (rev outcomes))))\<rparr>"
  proof (induction outcomes rule: rev_induct)
    case Nil
    then show ?case using publisher_New_pos(1) [of cfg] by simp
  next
    case (snoc r rs)
    then show ?case
      using publisher_New_pos(1) [of cfg] by (cases r) (auto simp: recordResult_def SetDCSDown_def Let_def)
  qed
  then show ?thesis by simp
qed

text \<open>
  Reconnection waits 1, 2, 4, ... seconds after successive failed attempts and
  settles at 64 seconds, the first doubling past the 60-second bound of the code.
\<close>

theorem backoff_schedule:
  "backoff_after n = (if n \<le> 6 then 2 ^ n else 64) * 1000000000"
proof (induction n)
  case (Suc n)
  have "n \<in> {0, 1, 2, 3, 4, 5, 6} \<or> 6 < n" by auto
  then show ?case using Suc by (auto simp: next_backoff_def)
qed simp

end
