(* ===== verification/Store_Schema.thy ===== *)
theory Store_Schema
  imports Packet
begin

text \<open>
  The tables of the collection service's database, after the migrations under
  \<open>fwDCS/migrations\<close>: one record per row type, a table as the list of its rows in
  insertion order, and the SQL expressions the statements use. A nullable column
  is an option. UUIDs and INET values are canonical texts; the parser of INET
  literals belongs to the server and is a parameter of the statements that cast.
  A statement that fails changes nothing.
\<close>

record device_row =
  d_id :: string
  d_org_id :: string
  d_datacenter_id :: string
  d_floor_id :: string
  d_network_id :: string
  d_group_id :: string
  d_hostname :: string
  d_device_type :: string
  d_vendor :: "string option"
  d_model_name :: "string option"
  d_os_name :: "string option"
  d_os_version :: "string option"
  d_sys_oid :: "string option"
  d_sys_description :: "string option"
  d_sys_location :: "string option"
  d_mgmt_ip :: "string option"
  d_prod_ip :: "string option"
  d_loopback_ip :: "string option"
  d_oob_ip :: "string option"
  d_snmp_enabled :: bool
  d_gnmi_enabled :: bool
  d_snmp_port :: int
  d_snmp_version :: int
  d_gnmi_port :: int
  d_collector_agent :: string
  d_country :: "string option"
  d_datacenter_city :: "string option"
  d_datacenter :: "string option"
  d_room :: "string option"
  d_rack_row :: "int option"
  d_rack_num :: "int option"
  d_rack_unit :: "int option"
  d_power_draw_w :: "int option"
  d_power_state :: "int option"
  d_device_role :: "string option"
  d_role_confidence :: "rat option"
  d_role_source :: "string option"
  d_role_overridden :: bool
  d_is_reachable :: bool
  d_updated_at :: int
  d_last_seen_at :: "int option"

record iface_row =
  i_id :: string
  i_device_id :: string
  i_interface_name :: string
  i_interface_index :: "int option"
  i_description :: "string option"
  i_type :: "string option"
  i_mac_address :: "string option"
  i_speed_mbps :: "int option"
  i_admin_status :: int
  i_operational_status :: int
  i_access_vlan_id :: "int option"
  i_mtu_bytes :: "int option"
  i_updated_at :: int

record addr_row =
  a_id :: string
  a_interface_id :: string
  a_address :: string
  a_address_family :: string
  a_is_primary :: bool
  a_vrf :: "string option"
  a_updated_at :: int

record metric_row =
  m_device_id :: string
  m_ts :: int
  m_metric_name :: string
  m_tag :: string
  m_value :: rat
  m_attributes :: "string option"
  m_collector_agent :: string
  m_collector_protocol :: string
  m_interface_id :: "string option"

record energy_row =
  g_device_id :: string
  g_ts :: int
  g_metric_name :: string
  g_tag :: string
  g_circuit :: string
  g_phase :: string
  g_value :: rat
  g_scope :: "string option"
  g_attributes :: "string option"
  g_collector_agent :: string
  g_collector_protocol :: string

record link_row =
  l_id :: string
  l_layer :: string
  l_src_device_id :: string
  l_src_port_name :: string
  l_src_interface_id :: "string option"
  l_dst_device_id :: string
  l_dst_port_name :: string
  l_dst_interface_id :: "string option"
  l_link_speed_mbps :: "int option"
  l_link_type :: "string option"
  l_protocol :: string
  l_relation :: string
  l_is_active :: bool
  l_updated_at :: int

record event_row =
  e_id :: string
  e_device_id :: "string option"
  e_source_hostname :: "string option"
  e_src_port_name :: "string option"
  e_dst_device_id :: "string option"
  e_dst_hostname :: "string option"
  e_dst_port_name :: "string option"
  e_link_id :: "string option"
  e_ts :: int
  e_kind :: string
  e_event_name :: string
  e_severity :: string
  e_trap_oid :: "string option"
  e_source_ip :: "string option"
  e_event_payload :: "string option"
  e_collector_agent :: string

record threshold_row =
  h_device_id :: string
  h_rule :: string
  h_value :: int
  h_updated_at :: int

text \<open>A row of \<open>device_commands\<close>; the struct of \<open>commands.go\<close> has the same fields.\<close>

record DeviceCommand =
  dc_ID :: nat
  dc_OrgID :: string
  dc_NetworkID :: string
  dc_DeviceIP :: string
  dc_Hostname :: string
  dc_Field :: string
  dc_Value :: string
  dc_Status :: string
  dc_Attempts :: int
  dc_LastError :: string
  dc_CreatedAt :: int
  dc_UpdatedAt :: int

record db =
  devices :: "device_row list"
  interfaces :: "iface_row list"
  interface_addresses :: "addr_row list"
  metrics :: "metric_row list"
  energy_metrics :: "energy_row list"
  topology_links :: "link_row list"
  events :: "event_row list"
  device_state :: "((string \<times> string) \<times> string) list"
  forwarder_cursors :: "((string \<times> string) \<times> int) list"
  device_thresholds :: "threshold_row list"
  device_commands :: "DeviceCommand list"
  command_seq :: nat

definition empty_db :: db where
  "empty_db = \<lparr>devices = [], interfaces = [], interface_addresses = [], metrics = [], energy_metrics = [],
     topology_links = [], events = [], device_state = [], forwarder_cursors = [],
     device_thresholds = [], device_commands = [], command_seq = 0\<rparr>"

text \<open>\<open>NULLIF(x, '')\<close>, \<open>COALESCE(a, b)\<close> and \<open>COALESCE(a, 'x')\<close>.\<close>

definition nullif :: "string \<Rightarrow> string option" where
  "nullif s = (if s = '''' then None else Some s)"

definition coalesce :: "'a option \<Rightarrow> 'a option \<Rightarrow> 'a option" where
  "coalesce a b = (case a of Some x \<Rightarrow> Some x | None \<Rightarrow> b)"

definition coalesce_val :: "'a option \<Rightarrow> 'a \<Rightarrow> 'a" where
  "coalesce_val a d = (case a of Some x \<Rightarrow> x | None \<Rightarrow> d)"

lemma coalesce_idem [simp]: "coalesce a (coalesce a b) = coalesce a b"
  by (cases a) (simp_all add: coalesce_def)

lemma coalesce_val_idem [simp]: "coalesce_val a (coalesce_val a d) = coalesce_val a d"
  by (cases a) (simp_all add: coalesce_val_def)

lemma coalesce_simps [simp]:
  "coalesce None b = b" "coalesce (Some x) b = Some x" "coalesce_val None d = d" "coalesce_val (Some x) d = x"
  by (simp_all add: coalesce_def coalesce_val_def)

lemma nullif_simps [simp]: "nullif '''' = None" "nullif (c # s) = Some (c # s)"
  by (simp_all add: nullif_def)

text \<open>
  \<open>ORDER BY key ASC LIMIT n\<close>. Rows with equal keys may come in any order; the
  model keeps the table order, one of the orders the server may choose.
\<close>

definition order_limit :: "('r \<Rightarrow> int) \<Rightarrow> nat \<Rightarrow> 'r list \<Rightarrow> 'r list" where
  "order_limit k n xs = take n (sort_key k xs)"

lemma order_limit_sorted: "sorted (map k (order_limit k n xs))"
  by (simp add: order_limit_def take_map [symmetric] sorted_wrt_take)

lemma order_limit_subset: "set (order_limit k n xs) \<subseteq> set xs"
  unfolding order_limit_def using set_take_subset by fastforce

text \<open>Whatever is left out has a key at least as large as everything returned.\<close>

lemma order_limit_rest:
  assumes "x \<in> set (order_limit k n xs)" "y \<in> set xs" "y \<notin> set (order_limit k n xs)"
  shows "k x \<le> k y"
proof -
  have s: "sorted (map k (take n (sort_key k xs)) @ map k (drop n (sort_key k xs)))"
    by (simp add: take_map [symmetric] drop_map [symmetric])
  have "y \<in> set (drop n (sort_key k xs))"
    using assms(2,3) unfolding order_limit_def by (metis Un_iff append_take_drop_id set_append set_sort)
  with assms(1) s show ?thesis unfolding order_limit_def sorted_append by force
qed

lemma order_limit_length: "length (order_limit k n xs) = min n (length xs)"
  by (simp add: order_limit_def min.commute)

lemma order_limit_all: "length xs \<le> n \<Longrightarrow> set (order_limit k n xs) = set xs"
  by (simp add: order_limit_def)

end
