(* ===== verification/Cursor_Interface.thy ===== *)
theory Cursor_Interface
  imports Store_Schema
begin

text \<open>
  The contract of a cursor query: the rows whose key lies strictly after the
  cursor, by key, up to a limit. The lemmas say what a client that advances the
  cursor to the key of the last row returned has seen, and what it will never see.
\<close>

locale cursor_query =
  fixes query :: "int \<Rightarrow> nat \<Rightarrow> 'r list"
    and rows :: "'r list"
    and key :: "'r \<Rightarrow> int"
  assumes query_eq: "query since n = order_limit key n (filter (\<lambda>r. key r > since) rows)"
begin

lemma query_mem: "r \<in> set (query since n) \<Longrightarrow> r \<in> set rows \<and> key r > since"
  unfolding query_eq using order_limit_subset by fastforce

lemma query_sorted: "sorted (map key (query since n))"
  unfolding query_eq by (rule order_limit_sorted)

lemma query_unlimited: "r \<in> set rows \<Longrightarrow> key r > since \<Longrightarrow> length rows \<le> n \<Longrightarrow> r \<in> set (query since n)"
  unfolding query_eq by (simp add: order_limit_all le_trans [OF length_filter_le])

lemma offered_iff: "(\<exists>n. r \<in> set (query since n)) \<longleftrightarrow> r \<in> set rows \<and> key r > since"
  using query_mem query_unlimited by blast

lemma last_page: "query since n \<noteq> [] \<Longrightarrow> since < key (last (query since n))"
  using query_mem last_in_set by blast

lemma page_max: "r \<in> set (query since n) \<Longrightarrow> key r \<le> key (last (query since n))"
proof -
  assume r: "r \<in> set (query since n)"
  then obtain xs where xs: "query since n = xs @ [last (query since n)]"
    by (metis append_butlast_last_id empty_iff list.set(1))
  have "sorted (map key xs @ [key (last (query since n))])"
    using query_sorted [of since n] by (subst (asm) xs) simp
  then show ?thesis using r by (subst (asm) xs) (auto simp: sorted_append)
qed

text \<open>A row left out of a non-empty page has a key at least that of the page's last row.\<close>

lemma left_out:
  assumes "r \<in> set rows" "key r > since" "r \<notin> set (query since n)" "query since n \<noteq> []"
  shows "key (last (query since n)) \<le> key r"
proof -
  have l: "last (query since n) \<in> set (query since n)" using assms(4) by simp
  show ?thesis
    using order_limit_rest [of "last (query since n)" key n "filter (\<lambda>r. key r > since) rows" r]
      l assms(1-3) unfolding query_eq [symmetric] by simp
qed

text \<open>
  The next page can offer a row left out of this one exactly if the row does not
  share the key of the page's last row.
\<close>

lemma offered_next:
  assumes "r \<in> set rows" "key r > since" "r \<notin> set (query since n)" "query since n \<noteq> []"
  shows "(\<exists>m. r \<in> set (query (key (last (query since n))) m)) \<longleftrightarrow> key r \<noteq> key (last (query since n))"
  using left_out [OF assms] assms(1) unfolding offered_iff by auto

lemma no_tie_no_loss:
  assumes "r \<in> set rows" "key r > since" "query since n \<noteq> []" "inj_on key (set rows)"
  shows "r \<in> set (query since n) \<or> key r > key (last (query since n))"
proof (rule disjCI)
  assume n: "\<not> key r > key (last (query since n))"
  show "r \<in> set (query since n)"
  proof (rule ccontr)
    assume o: "r \<notin> set (query since n)"
    have "key r = key (last (query since n))" using left_out [OF assms(1,2) o assms(3)] n by simp
    moreover have "last (query since n) \<in> set rows" using query_mem last_in_set assms(3) by blast
    ultimately have "r = last (query since n)" using inj_onD [OF assms(4)] assms(1) by blast
    with o assms(3) show False by simp
  qed
qed

end

end
