(* ===== verification/Fwd_Store.thy ===== *)
theory Fwd_Store
  imports Cursor_Interface
begin

text \<open>
  The read side of the store that the forwarder uses, \<open>fwDCS/internal/store/forward.go\<close>:
  the row types of the payload queries, the queries over a cursor and a limit, and
  the cursor table. A join on a device identifier is a lookup, since identifiers
  are primary keys.
\<close>

record FwdDevice =
  fd_ID :: string
  fd_DatacenterID :: string
  fd_FloorID :: string
  fd_Hostname :: string
  fd_DeviceType :: string
  fd_Vendor :: string
  fd_ModelName :: string
  fd_OSName :: string
  fd_OSVersion :: string
  fd_SysOID :: string
  fd_SysDescr :: string
  fd_SysLocation :: string
  fd_MgmtIP :: string
  fd_ProdIP :: string
  fd_LoopbackIP :: string
  fd_OOBIP :: string
  fd_SNMPEnabled :: bool
  fd_GNMIEnabled :: bool
  fd_SNMPPort :: int
  fd_SNMPVersion :: int
  fd_GNMIPort :: int
  fd_CollectorAgent :: string
  fd_IsReachable :: bool
  fd_Country :: string
  fd_DatacenterCity :: string
  fd_Datacenter :: string
  fd_Room :: string
  fd_RackRow :: "int option"
  fd_RackNum :: "int option"
  fd_RackUnit :: "int option"
  fd_PowerDrawW :: "int option"
  fd_PowerState :: "int option"
  fd_DeviceRole :: string
  fd_RoleConfidence :: "rat option"
  fd_RoleSource :: string
  fd_RoleOverridden :: bool
  fd_UpdatedAt :: int

record FwdInterface =
  fi_ID :: string
  fi_DeviceID :: string
  fi_InterfaceName :: string
  fi_InterfaceIndex :: "int option"
  fi_Description :: string
  fi_Type :: string
  fi_MACAddress :: string
  fi_SpeedMbps :: "int option"
  fi_AdminStatus :: int
  fi_OperationalStatus :: int
  fi_AccessVlanID :: "int option"
  fi_MTUBytes :: "int option"

record FwdAddress =
  fa_ID :: string
  fa_InterfaceID :: string
  fa_Address :: string
  fa_AddressFamily :: string
  fa_IsPrimary :: bool
  fa_VRF :: string

record FwdMetric =
  fm_DeviceID :: string
  fm_InterfaceID :: string
  fm_MetricName :: string
  fm_Value :: rat
  fm_Tag :: string
  fm_Attributes :: string
  fm_CollectorAgent :: string
  fm_CollectorProtocol :: string
  fm_InterfaceName :: string
  fm_TS :: int

record FwdEnergy =
  fe_DeviceID :: string
  fe_MetricName :: string
  fe_Value :: rat
  fe_Tag :: string
  fe_Circuit :: string
  fe_Phase :: string
  fe_Scope :: string
  fe_Attributes :: string
  fe_CollectorAgent :: string
  fe_CollectorProtocol :: string
  fe_TS :: int

record FwdTopologyLink =
  ft_ID :: string
  ft_SrcDatacenterID :: string
  ft_SrcFloorID :: string
  ft_Layer :: string
  ft_SrcDeviceID :: string
  ft_SrcInterfaceID :: string
  ft_SrcHostname :: string
  ft_SrcPortName :: string
  ft_DstDeviceID :: string
  ft_DstInterfaceID :: string
  ft_DstHostname :: string
  ft_DstPortName :: string
  ft_LinkSpeedMbps :: "int option"
  ft_LinkType :: string
  ft_Protocol :: string
  ft_Relation :: string
  ft_IsActive :: bool
  ft_UpdatedAt :: int

record FwdEvent =
  fv_ID :: string
  fv_DeviceID :: string
  fv_DatacenterID :: string
  fv_FloorID :: string
  fv_Hostname :: string
  fv_Kind :: string
  fv_EventName :: string
  fv_Severity :: string
  fv_TrapOID :: string
  fv_SourceIP :: string
  fv_CollectorAgent :: string
  fv_SrcPortName :: string
  fv_DstDeviceID :: string
  fv_DstHostname :: string
  fv_DstPortName :: string
  fv_LinkID :: string
  fv_TS :: int
  fv_Payload :: string

text \<open>The zero \<open>time.Time\<close>, before any row.\<close>

definition zero_time :: int where
  "zero_time = - 62135596800000000000"

definition device_by_id :: "db \<Rightarrow> string \<Rightarrow> device_row option" where
  "device_by_id db i = find (\<lambda>d. d_id d = i) (devices db)"

definition iface_by_id :: "db \<Rightarrow> string \<Rightarrow> iface_row option" where
  "iface_by_id db i = find (\<lambda>r. i_id r = i) (interfaces db)"

text \<open>The tenant scope of the queries.\<close>

record scope =
  s_org :: string
  s_net :: string
  s_grp :: string

definition in_scope :: "scope \<Rightarrow> device_row \<Rightarrow> bool" where
  "in_scope s d \<longleftrightarrow> d_org_id d = s_org s \<and> d_network_id d = s_net s \<and> d_group_id d = s_grp s"

definition scanFwdDevice :: "device_row \<Rightarrow> FwdDevice" where
  "scanFwdDevice d =
     \<lparr>fd_ID = d_id d,
      fd_DatacenterID = d_datacenter_id d,
      fd_FloorID = d_floor_id d,
      fd_Hostname = d_hostname d,
      fd_DeviceType = d_device_type d,
      fd_Vendor = coalesce_val (d_vendor d) '''',
      fd_ModelName = coalesce_val (d_model_name d) '''',
      fd_OSName = coalesce_val (d_os_name d) '''',
      fd_OSVersion = coalesce_val (d_os_version d) '''',
      fd_SysOID = coalesce_val (d_sys_oid d) '''',
      fd_SysDescr = coalesce_val (d_sys_description d) '''',
      fd_SysLocation = coalesce_val (d_sys_location d) '''',
      fd_MgmtIP = coalesce_val (d_mgmt_ip d) '''',
      fd_ProdIP = coalesce_val (d_prod_ip d) '''',
      fd_LoopbackIP = coalesce_val (d_loopback_ip d) '''',
      fd_OOBIP = coalesce_val (d_oob_ip d) '''',
      fd_SNMPEnabled = d_snmp_enabled d,
      fd_GNMIEnabled = d_gnmi_enabled d,
      fd_SNMPPort = d_snmp_port d,
      fd_SNMPVersion = d_snmp_version d,
      fd_GNMIPort = d_gnmi_port d,
      fd_CollectorAgent = d_collector_agent d,
      fd_IsReachable = d_is_reachable d,
      fd_Country = coalesce_val (d_country d) '''',
      fd_DatacenterCity = coalesce_val (d_datacenter_city d) '''',
      fd_Datacenter = coalesce_val (d_datacenter d) '''',
      fd_Room = coalesce_val (d_room d) '''',
      fd_RackRow = d_rack_row d,
      fd_RackNum = d_rack_num d,
      fd_RackUnit = d_rack_unit d,
      fd_PowerDrawW = d_power_draw_w d,
      fd_PowerState = d_power_state d,
      fd_DeviceRole = coalesce_val (d_device_role d) '''',
      fd_RoleConfidence = d_role_confidence d,
      fd_RoleSource = coalesce_val (d_role_source d) '''',
      fd_RoleOverridden = d_role_overridden d,
      fd_UpdatedAt = d_updated_at d\<rparr>"

definition DevicesUpdatedSince :: "db \<Rightarrow> scope \<Rightarrow> int \<Rightarrow> nat \<Rightarrow> FwdDevice list" where
  "DevicesUpdatedSince db s since limit =
     order_limit fd_UpdatedAt limit
       (map scanFwdDevice (filter (\<lambda>d. in_scope s d \<and> d_updated_at d > since) (devices db)))"

definition DevicesByIDs :: "db \<Rightarrow> string list \<Rightarrow> FwdDevice list" where
  "DevicesByIDs db ids = map scanFwdDevice (filter (\<lambda>d. d_id d \<in> set ids) (devices db))"

definition DevicesByHostnames :: "db \<Rightarrow> scope \<Rightarrow> string list \<Rightarrow> FwdDevice list" where
  "DevicesByHostnames db s hosts =
     map scanFwdDevice (filter (\<lambda>d. in_scope s d \<and> d_hostname d \<in> set hosts) (devices db))"

definition InterfacesByDeviceIDs :: "db \<Rightarrow> string list \<Rightarrow> FwdInterface list" where
  "InterfacesByDeviceIDs db ids =
     map (\<lambda>i. \<lparr>fi_ID = i_id i,
      fi_DeviceID = i_device_id i,
      fi_InterfaceName = i_interface_name i,
      fi_InterfaceIndex = i_interface_index i,
      fi_Description = coalesce_val (i_description i) '''',
      fi_Type = coalesce_val (i_type i) '''',
      fi_MACAddress = coalesce_val (i_mac_address i) '''',
      fi_SpeedMbps = i_speed_mbps i,
      fi_AdminStatus = i_admin_status i,
      fi_OperationalStatus = i_operational_status i,
      fi_AccessVlanID = i_access_vlan_id i,
      fi_MTUBytes = i_mtu_bytes i\<rparr>)
       (filter (\<lambda>i. i_device_id i \<in> set ids) (interfaces db))"

definition AddressesByInterfaceIDs :: "db \<Rightarrow> string list \<Rightarrow> FwdAddress list" where
  "AddressesByInterfaceIDs db ids =
     map (\<lambda>a. \<lparr>fa_ID = a_id a,
      fa_InterfaceID = a_interface_id a,
      fa_Address = a_address a,
      fa_AddressFamily = a_address_family a,
      fa_IsPrimary = a_is_primary a,
      fa_VRF = coalesce_val (a_vrf a) ''''\<rparr>)
       (filter (\<lambda>a. a_interface_id a \<in> set ids) (interface_addresses db))"

definition scanFwdMetric :: "db \<Rightarrow> metric_row \<Rightarrow> FwdMetric" where
  "scanFwdMetric db m =
     \<lparr>fm_DeviceID = m_device_id m,
      fm_InterfaceID = coalesce_val (m_interface_id m) '''',
      fm_MetricName = m_metric_name m,
      fm_Value = m_value m,
      fm_Tag = m_tag m,
      fm_Attributes = coalesce_val (m_attributes m) ''{}'',
      fm_CollectorAgent = m_collector_agent m,
      fm_CollectorProtocol = m_collector_protocol m,
      fm_InterfaceName = coalesce_val ((map_option i_interface_name (Option.bind (m_interface_id m) (iface_by_id db)))) '''',
      fm_TS = m_ts m\<rparr>"

definition MetricsSince :: "db \<Rightarrow> scope \<Rightarrow> int \<Rightarrow> nat \<Rightarrow> FwdMetric list" where
  "MetricsSince db s since limit =
     order_limit fm_TS limit
       (map (scanFwdMetric db)
         (filter (\<lambda>m. (case device_by_id db (m_device_id m) of None \<Rightarrow> False | Some d \<Rightarrow> in_scope s d) \<and> m_ts m > since)
           (metrics db)))"

definition scanFwdEnergy :: "energy_row \<Rightarrow> FwdEnergy" where
  "scanFwdEnergy g =
     \<lparr>fe_DeviceID = g_device_id g,
      fe_MetricName = g_metric_name g,
      fe_Value = g_value g,
      fe_Tag = g_tag g,
      fe_Circuit = g_circuit g,
      fe_Phase = g_phase g,
      fe_Scope = coalesce_val (g_scope g) '''',
      fe_Attributes = coalesce_val (g_attributes g) ''{}'',
      fe_CollectorAgent = g_collector_agent g,
      fe_CollectorProtocol = g_collector_protocol g,
      fe_TS = g_ts g\<rparr>"

definition EnergySince :: "db \<Rightarrow> scope \<Rightarrow> int \<Rightarrow> nat \<Rightarrow> FwdEnergy list" where
  "EnergySince db s since limit =
     order_limit fe_TS limit
       (map scanFwdEnergy
         (filter (\<lambda>g. (case device_by_id db (g_device_id g) of None \<Rightarrow> False | Some d \<Rightarrow> in_scope s d) \<and> g_ts g > since)
           (energy_metrics db)))"

definition scanFwdLink :: "link_row \<Rightarrow> device_row \<Rightarrow> device_row \<Rightarrow> FwdTopologyLink" where
  "scanFwdLink l sd dd =
     \<lparr>ft_ID = l_id l,
      ft_SrcDatacenterID = d_datacenter_id sd,
      ft_SrcFloorID = d_floor_id sd,
      ft_Layer = l_layer l,
      ft_SrcDeviceID = l_src_device_id l,
      ft_SrcInterfaceID = coalesce_val (l_src_interface_id l) '''',
      ft_SrcHostname = d_hostname sd,
      ft_SrcPortName = l_src_port_name l,
      ft_DstDeviceID = l_dst_device_id l,
      ft_DstInterfaceID = coalesce_val (l_dst_interface_id l) '''',
      ft_DstHostname = d_hostname dd,
      ft_DstPortName = l_dst_port_name l,
      ft_LinkSpeedMbps = l_link_speed_mbps l,
      ft_LinkType = coalesce_val (l_link_type l) '''',
      ft_Protocol = l_protocol l,
      ft_Relation = l_relation l,
      ft_IsActive = l_is_active l,
      ft_UpdatedAt = l_updated_at l\<rparr>"

text \<open>The two inner joins: a link is returned only if both devices exist and the source is in scope.\<close>

definition link_joined :: "db \<Rightarrow> scope \<Rightarrow> link_row \<Rightarrow> FwdTopologyLink option" where
  "link_joined db s l =
     (case (device_by_id db (l_src_device_id l), device_by_id db (l_dst_device_id l)) of
        (Some sd, Some dd) \<Rightarrow> if in_scope s sd then Some (scanFwdLink l sd dd) else None
      | _ \<Rightarrow> None)"

definition TopologyLinksSince :: "db \<Rightarrow> scope \<Rightarrow> int \<Rightarrow> nat \<Rightarrow> FwdTopologyLink list" where
  "TopologyLinksSince db s since limit =
     order_limit ft_UpdatedAt limit
       (List.map_filter (link_joined db s) (filter (\<lambda>l. l_updated_at l > since) (topology_links db)))"

text \<open>The two lateral joins that recover the device of an event without one.\<close>

definition event_by_hostname :: "db \<Rightarrow> scope \<Rightarrow> event_row \<Rightarrow> device_row option" where
  "event_by_hostname db s e =
     (case (e_device_id e, e_source_hostname e) of
        (None, Some h) \<Rightarrow> if h = '''' then None else find (\<lambda>x. d_hostname x = h \<and> in_scope s x) (devices db)
      | _ \<Rightarrow> None)"

definition event_by_ip :: "db \<Rightarrow> scope \<Rightarrow> event_row \<Rightarrow> device_row option" where
  "event_by_ip db s e =
     (case (e_device_id e, event_by_hostname db s e, e_source_ip e) of
        (None, None, Some ip) \<Rightarrow>
          find (\<lambda>x. in_scope s x \<and> Some ip \<in> set [d_mgmt_ip x, d_prod_ip x, d_oob_ip x, d_loopback_ip x]) (devices db)
      | _ \<Rightarrow> None)"

definition scanFwdEvent :: "event_row \<Rightarrow> device_row option \<Rightarrow> device_row option \<Rightarrow> device_row option \<Rightarrow> FwdEvent" where
  "scanFwdEvent e d dh dip =
     \<lparr>fv_ID = e_id e,
      fv_DeviceID = coalesce_val (e_device_id e) (coalesce_val (map_option d_id dh) (coalesce_val (map_option d_id dip) (''''))),
      fv_DatacenterID = coalesce_val (map_option d_datacenter_id d) (coalesce_val (map_option d_datacenter_id dh) (coalesce_val (map_option d_datacenter_id dip) (''''))),
      fv_FloorID = coalesce_val (map_option d_floor_id d) (coalesce_val (map_option d_floor_id dh) (coalesce_val (map_option d_floor_id dip) (''''))),
      fv_Hostname = coalesce_val (e_source_hostname e) (coalesce_val (map_option d_hostname d) (coalesce_val (map_option d_hostname dh) (coalesce_val (map_option d_hostname dip) ('''')))),
      fv_Kind = e_kind e,
      fv_EventName = e_event_name e,
      fv_Severity = e_severity e,
      fv_TrapOID = coalesce_val (e_trap_oid e) '''',
      fv_SourceIP = coalesce_val (e_source_ip e) '''',
      fv_CollectorAgent = e_collector_agent e,
      fv_SrcPortName = coalesce_val (e_src_port_name e) '''',
      fv_DstDeviceID = coalesce_val (e_dst_device_id e) '''',
      fv_DstHostname = coalesce_val (e_dst_hostname e) '''',
      fv_DstPortName = coalesce_val (e_dst_port_name e) '''',
      fv_LinkID = coalesce_val (e_link_id e) '''',
      fv_TS = e_ts e,
      fv_Payload = coalesce_val (e_event_payload e) ''{}''\<rparr>"

definition event_joined :: "db \<Rightarrow> scope \<Rightarrow> event_row \<Rightarrow> FwdEvent option" where
  "event_joined db s e =
     (let d = Option.bind (e_device_id e) (device_by_id db);
          dh = event_by_hostname db s e; dip = event_by_ip db s e
      in if (case d of Some x \<Rightarrow> in_scope s x | None \<Rightarrow> False) \<or> dh \<noteq> None \<or> dip \<noteq> None
         then Some (scanFwdEvent e d dh dip) else None)"

definition EventsSince :: "db \<Rightarrow> scope \<Rightarrow> int \<Rightarrow> nat \<Rightarrow> FwdEvent list" where
  "EventsSince db s since limit =
     order_limit fv_TS limit
       (List.map_filter (event_joined db s) (filter (\<lambda>e. e_ts e > since) (events db)))"

text \<open>
  A failed read of the cursor, like a missing row, yields the zero time and no
  error; \<open>ok\<close> is whether the query succeeded.
\<close>

definition GetForwarderCursor :: "bool \<Rightarrow> db \<Rightarrow> string \<Rightarrow> string \<Rightarrow> int" where
  "GetForwarderCursor ok db nm net =
     (if ok then (case map_of (forwarder_cursors db) (nm, net) of Some t \<Rightarrow> t | None \<Rightarrow> zero_time) else zero_time)"

definition SetForwarderCursor :: "bool \<Rightarrow> db \<Rightarrow> string \<Rightarrow> string \<Rightarrow> int \<Rightarrow> db" where
  "SetForwarderCursor ok db nm net t =
     (if ok then db\<lparr>forwarder_cursors := ((nm, net), t) # filter (\<lambda>e. fst e \<noteq> (nm, net)) (forwarder_cursors db)\<rparr> else db)"

definition DistinctNetworks :: "(string list \<Rightarrow> string list) \<Rightarrow> db \<Rightarrow> string \<Rightarrow> string list" where
  "DistinctNetworks collate db org = collate (remdups (map d_network_id (filter (\<lambda>d. d_org_id d = org) (devices db))))"

section \<open>The queries as cursor queries\<close>

lemma filter_map_key:
  "map f (filter (\<lambda>x. P x \<and> Q (k (f x))) xs) = filter (\<lambda>r. Q (k r)) (map f (filter P xs))"
  by (induction xs) auto

lemma map_filter_key:
  "(\<And>x r. f x = Some r \<Longrightarrow> k r = g x) \<Longrightarrow>
     List.map_filter f (filter (\<lambda>x. Q (g x)) xs) = filter (\<lambda>r. Q (k r)) (List.map_filter f xs)"
  by (induction xs) (auto simp: List.map_filter_simps split: option.split)

lemma scan_keys:
  "fd_UpdatedAt (scanFwdDevice d) = d_updated_at d" "fm_TS (scanFwdMetric db m) = m_ts m"
  "fe_TS (scanFwdEnergy g) = g_ts g" "ft_UpdatedAt (scanFwdLink l sd dd) = l_updated_at l"
  "fv_TS (scanFwdEvent e x y z) = e_ts e"
  by (simp_all add: scanFwdDevice_def scanFwdMetric_def scanFwdEnergy_def scanFwdLink_def scanFwdEvent_def)

definition scoped_devices where
  "scoped_devices db s = map scanFwdDevice (filter (in_scope s) (devices db))"

definition scoped_metrics where
  "scoped_metrics db s = map (scanFwdMetric db)
     (filter (\<lambda>m. case device_by_id db (m_device_id m) of None \<Rightarrow> False | Some d \<Rightarrow> in_scope s d) (metrics db))"

definition scoped_energy where
  "scoped_energy db s = map scanFwdEnergy
     (filter (\<lambda>g. case device_by_id db (g_device_id g) of None \<Rightarrow> False | Some d \<Rightarrow> in_scope s d) (energy_metrics db))"

definition scoped_links where
  "scoped_links db s = List.map_filter (link_joined db s) (topology_links db)"

definition scoped_events where
  "scoped_events db s = List.map_filter (event_joined db s) (events db)"

interpretation dev_page: cursor_query "DevicesUpdatedSince db s" "scoped_devices db s" fd_UpdatedAt for db s
proof
  fix since n
  show "DevicesUpdatedSince db s since n
      = order_limit fd_UpdatedAt n (filter (\<lambda>r. since < fd_UpdatedAt r) (scoped_devices db s))"
    using filter_map_key [of scanFwdDevice "in_scope s" "\<lambda>t. since < t" fd_UpdatedAt "devices db"]
    by (simp add: DevicesUpdatedSince_def scoped_devices_def scan_keys)
qed

interpretation metric_page: cursor_query "MetricsSince db s" "scoped_metrics db s" fm_TS for db s
proof
  fix since n
  show "MetricsSince db s since n = order_limit fm_TS n (filter (\<lambda>r. since < fm_TS r) (scoped_metrics db s))"
    using filter_map_key [of "scanFwdMetric db"
        "\<lambda>m. case device_by_id db (m_device_id m) of None \<Rightarrow> False | Some d \<Rightarrow> in_scope s d" "\<lambda>t. since < t" fm_TS "metrics db"]
    by (simp add: MetricsSince_def scoped_metrics_def scan_keys)
qed

interpretation energy_page: cursor_query "EnergySince db s" "scoped_energy db s" fe_TS for db s
proof
  fix since n
  show "EnergySince db s since n = order_limit fe_TS n (filter (\<lambda>r. since < fe_TS r) (scoped_energy db s))"
    using filter_map_key [of scanFwdEnergy
        "\<lambda>g. case device_by_id db (g_device_id g) of None \<Rightarrow> False | Some d \<Rightarrow> in_scope s d" "\<lambda>t. since < t" fe_TS "energy_metrics db"]
    by (simp add: EnergySince_def scoped_energy_def scan_keys)
qed

interpretation link_page: cursor_query "TopologyLinksSince db s" "scoped_links db s" ft_UpdatedAt for db s
proof
  fix since n
  have "\<And>l r. link_joined db s l = Some r \<Longrightarrow> ft_UpdatedAt r = l_updated_at l"
    by (auto simp: link_joined_def scan_keys split: option.splits if_splits)
  from map_filter_key [where f = "link_joined db s", OF this, where Q = "\<lambda>t. since < t" and xs = "topology_links db"]
  show "TopologyLinksSince db s since n
      = order_limit ft_UpdatedAt n (filter (\<lambda>r. since < ft_UpdatedAt r) (scoped_links db s))"
    by (simp add: TopologyLinksSince_def scoped_links_def)
qed

interpretation event_page: cursor_query "EventsSince db s" "scoped_events db s" fv_TS for db s
proof
  fix since n
  have "\<And>e r. event_joined db s e = Some r \<Longrightarrow> fv_TS r = e_ts e"
    by (auto simp: event_joined_def Let_def scan_keys split: if_splits)
  from map_filter_key [where f = "event_joined db s", OF this, where Q = "\<lambda>t. since < t" and xs = "events db"]
  show "EventsSince db s since n = order_limit fv_TS n (filter (\<lambda>r. since < fv_TS r) (scoped_events db s))"
    by (simp add: EventsSince_def scoped_events_def)
qed

section \<open>Properties\<close>

text \<open>
  C32. Paging through the topology with the key of the last link as the next cursor
  skips links: a link newer than the cursor that did not fit in the page is offered
  by a later page exactly if its \<open>updated_at\<close> differs from the last link's. Links
  updated in one transaction share \<open>now()\<close>, so when more of them change than the
  limit allows, the rest is never forwarded, although the queries are documented to
  page without missing rows.
\<close>

theorem links_sharing_last_timestamp_are_skipped:
  assumes "page = TopologyLinksSince db s since n" "page \<noteq> []"
    and "l \<in> set (TopologyLinksSince db s since m)" "l \<notin> set page"
  shows "since < ft_UpdatedAt (last page) \<and> ft_UpdatedAt (last page) \<le> ft_UpdatedAt l
    \<and> ((\<exists>k. l \<in> set (TopologyLinksSince db s (ft_UpdatedAt (last page)) k)) \<longleftrightarrow> ft_UpdatedAt l \<noteq> ft_UpdatedAt (last page))"
proof -
  have l: "l \<in> set (scoped_links db s)" "ft_UpdatedAt l > since" using link_page.query_mem [OF assms(3)] by auto
  show ?thesis
    using link_page.last_page [of db s since n] link_page.left_out [OF l, of n] link_page.offered_next [OF l, of n]
      assms(1,2,4) by simp
qed

definition sample_device :: "string \<Rightarrow> string \<Rightarrow> device_row" where
  "sample_device i h =
     \<lparr>d_id = i, d_org_id = ''o'', d_datacenter_id = ''dc'', d_floor_id = ''f'', d_network_id = ''n'', d_group_id = ''g'',
      d_hostname = h, d_device_type = ''switch'', d_vendor = None, d_model_name = None, d_os_name = None,
      d_os_version = None, d_sys_oid = None, d_sys_description = None, d_sys_location = None, d_mgmt_ip = None,
      d_prod_ip = None, d_loopback_ip = None, d_oob_ip = None, d_snmp_enabled = True, d_gnmi_enabled = False,
      d_snmp_port = 161, d_snmp_version = 2, d_gnmi_port = 57400, d_collector_agent = ''EDR'', d_country = None,
      d_datacenter_city = None, d_datacenter = None, d_room = None, d_rack_row = None, d_rack_num = None,
      d_rack_unit = None, d_power_draw_w = None, d_power_state = None, d_device_role = None,
      d_role_confidence = None, d_role_source = None, d_role_overridden = False, d_is_reachable = True,
      d_updated_at = 1, d_last_seen_at = None\<rparr>"

definition sample_link :: "string \<Rightarrow> string \<Rightarrow> string \<Rightarrow> string \<Rightarrow> string \<Rightarrow> int \<Rightarrow> link_row" where
  "sample_link i src sp dst dp t =
     \<lparr>l_id = i, l_layer = ''network'', l_src_device_id = src, l_src_port_name = sp, l_src_interface_id = None,
      l_dst_device_id = dst, l_dst_port_name = dp, l_dst_interface_id = None, l_link_speed_mbps = None,
      l_link_type = None, l_protocol = ''lldp'', l_relation = ''peer'', l_is_active = True, l_updated_at = t\<rparr>"

definition sample_db :: db where
  "sample_db = empty_db\<lparr>devices := [sample_device ''a'' ''A'', sample_device ''b'' ''B''],
     topology_links := [sample_link ''l1'' ''a'' ''1'' ''b'' ''1'' 5, sample_link ''l2'' ''a'' ''2'' ''b'' ''2'' 5]\<rparr>"

lemma sample_links:
  "map ft_ID (TopologyLinksSince sample_db \<lparr>s_org = ''o'', s_net = ''n'', s_grp = ''g''\<rparr> 0 1) = [''l1'']"
  "map ft_ID (TopologyLinksSince sample_db \<lparr>s_org = ''o'', s_net = ''n'', s_grp = ''g''\<rparr> 0 2) = [''l1'', ''l2'']"
  "map ft_UpdatedAt (TopologyLinksSince sample_db \<lparr>s_org = ''o'', s_net = ''n'', s_grp = ''g''\<rparr> 0 2) = [5, 5]"
  by code_simp+

theorem links_sharing_last_timestamp_are_skipped_witness:
  "\<exists>l. ft_ID l = ''l2'' \<and> l \<in> set (TopologyLinksSince sample_db \<lparr>s_org = ''o'', s_net = ''n'', s_grp = ''g''\<rparr> 0 2)
     \<and> \<not> (\<exists>k. l \<in> set (TopologyLinksSince sample_db \<lparr>s_org = ''o'', s_net = ''n'', s_grp = ''g''\<rparr> 5 k))"
proof -
  let ?s = "\<lparr>s_org = ''o'', s_net = ''n'', s_grp = ''g''\<rparr>"
  obtain l1 where l1: "TopologyLinksSince sample_db ?s 0 1 = [l1]" "ft_ID l1 = ''l1''"
    using sample_links(1) by auto
  obtain x l2 where l2: "TopologyLinksSince sample_db ?s 0 2 = [x, l2]" "ft_ID l2 = ''l2''"
      "ft_UpdatedAt x = 5" "ft_UpdatedAt l2 = 5"
    using sample_links(2,3) by auto
  have "TopologyLinksSince sample_db ?s 0 1 = take 1 (TopologyLinksSince sample_db ?s 0 2)"
    unfolding TopologyLinksSince_def order_limit_def by simp
  with l1(1) l2(1) have "x = l1" by simp
  moreover have "l2 \<noteq> l1" using l1(2) l2(2) by auto
  ultimately show ?thesis using l1 l2 links_sharing_last_timestamp_are_skipped [OF refl, of sample_db ?s 0 1 l2 2]
    by (intro exI [of _ l2]) auto
qed

end
