(* ===== verification/Payload.thy ===== *)
theory Payload
  imports Fwd_Store
begin

text \<open>
  The payload of the forwarder, \<open>fwDCS/internal/forwarder/forwarder.go\<close>: the
  Aggregator's structures, the default scope keys and \<open>buildPayloads\<close>, which groups
  the query results by (datacenter, floor). Go's map of groups is an association
  list in the order in which groups are created; the code sends groups in any
  order. A timestamp is printed to the second by \<open>time.RFC3339\<close>, so the payload
  keeps whole seconds. A raw JSON field that is omitted is \<open>None\<close>.
\<close>

record aggAddress =
  aa_ID :: string
  aa_InterfaceID :: string
  aa_Address :: string
  aa_AddressFamily :: string
  aa_IsPrimary :: bool
  aa_VRF :: string

record aggInterface =
  ai_ID :: string
  ai_DeviceID :: string
  ai_InterfaceName :: string
  ai_InterfaceIndex :: "int option"
  ai_Description :: string
  ai_Type :: string
  ai_MACAddress :: string
  ai_SpeedMbps :: "int option"
  ai_AdminStatus :: int
  ai_OperationalStatus :: int
  ai_AccessVlanID :: "int option"
  ai_MTUBytes :: "int option"
  ai_Addresses :: "aggAddress list"

record aggMetric =
  am_DeviceID :: string
  am_InterfaceID :: string
  am_MetricName :: string
  am_Value :: rat
  am_Tag :: string
  am_Attributes :: "string option"
  am_CollectorAgent :: string
  am_CollectorProtocol :: string
  am_InterfaceName :: string
  am_TS :: int

record aggEnergyMetric =
  ae_DeviceID :: string
  ae_MetricName :: string
  ae_Value :: rat
  ae_Tag :: string
  ae_Circuit :: string
  ae_Phase :: string
  ae_Attributes :: "string option"
  ae_CollectorAgent :: string
  ae_CollectorProtocol :: string
  ae_TS :: int

record aggDevice =
  ad_ID :: string
  ad_Hostname :: string
  ad_DeviceType :: string
  ad_Vendor :: string
  ad_ModelName :: string
  ad_OSName :: string
  ad_OSVersion :: string
  ad_SysOID :: string
  ad_SysDescription :: string
  ad_SysLocation :: string
  ad_MgmtIP :: string
  ad_ProdIP :: string
  ad_LoopbackIP :: string
  ad_OOBIP :: string
  ad_SNMPEnabled :: bool
  ad_GNMIEnabled :: bool
  ad_SNMPPort :: int
  ad_SNMPVersion :: int
  ad_GNMIPort :: int
  ad_CollectorAgent :: string
  ad_IsReachable :: bool
  ad_Country :: string
  ad_DatacenterCity :: string
  ad_Datacenter :: string
  ad_Room :: string
  ad_RackRow :: "int option"
  ad_RackNum :: "int option"
  ad_RackUnit :: "int option"
  ad_PowerDrawW :: "int option"
  ad_PowerState :: "int option"
  ad_DeviceRole :: string
  ad_RoleConfidence :: "rat option"
  ad_RoleSource :: string
  ad_RoleOverridden :: bool
  ad_Interfaces :: "aggInterface list"
  ad_Metrics :: "aggMetric list"
  ad_EnergyMetrics :: "aggEnergyMetric list"

record aggTopoLink =
  al_ID :: string
  al_Layer :: string
  al_SrcDeviceID :: string
  al_SrcInterfaceID :: string
  al_SrcHostname :: string
  al_SrcPortName :: string
  al_DstDeviceID :: string
  al_DstInterfaceID :: string
  al_DstHostname :: string
  al_DstPortName :: string
  al_LinkSpeedMbps :: "int option"
  al_LinkType :: string
  al_Protocol :: string
  al_Relation :: string
  al_IsActive :: bool

record aggEvent =
  av_ID :: string
  av_DeviceID :: string
  av_Hostname :: string
  av_Kind :: string
  av_EventName :: string
  av_Severity :: string
  av_TrapOID :: string
  av_SourceIP :: string
  av_CollectorAgent :: string
  av_SrcPortName :: string
  av_DstDeviceID :: string
  av_DstHostname :: string
  av_DstPortName :: string
  av_LinkID :: string
  av_TS :: int
  av_Payload :: "string option"

record aggPayload =
  ap_OrgID :: string
  ap_DatacenterID :: string
  ap_FloorID :: string
  ap_NetworkID :: string
  ap_GroupID :: string
  ap_Devices :: "aggDevice list"
  ap_TopologyLinks :: "aggTopoLink list"
  ap_Events :: "aggEvent list"

text \<open>The parts of \<open>AggregatorConfig\<close> that the forwarder reads.\<close>

record AggregatorConfig =
  cfg_OrgID :: string
  cfg_NetworkID :: string
  cfg_GroupID :: string
  cfg_DefaultDatacenterID :: string
  cfg_DefaultFloorID :: string
  cfg_IntervalMs :: int
  cfg_IdleIntervalMs :: int
  cfg_EventDebounceMs :: int
  cfg_BatchLimit :: int

type_synonym scopeKey = "string \<times> string"

definition scopeFallback :: string where
  "scopeFallback = ''unknown''"

definition dcOrDefault :: "AggregatorConfig \<Rightarrow> string \<Rightarrow> string" where
  "dcOrDefault cfg dc =
     (if dc \<noteq> '''' then dc else if cfg_DefaultDatacenterID cfg \<noteq> '''' then cfg_DefaultDatacenterID cfg else scopeFallback)"

definition floorOrDefault :: "AggregatorConfig \<Rightarrow> string \<Rightarrow> string" where
  "floorOrDefault cfg fl =
     (if fl \<noteq> '''' then fl else if cfg_DefaultFloorID cfg \<noteq> '''' then cfg_DefaultFloorID cfg else scopeFallback)"

definition scope_of :: "AggregatorConfig \<Rightarrow> string \<Rightarrow> string \<Rightarrow> scopeKey" where
  "scope_of cfg dc fl = (dcOrDefault cfg dc, floorOrDefault cfg fl)"

definition rfc3339 :: "int \<Rightarrow> int" where
  "rfc3339 ns = ns div 1000000000"

text \<open>\<open>Attributes\<close> and \<open>Payload\<close> are left out when empty or the empty object.\<close>

definition raw_json :: "string \<Rightarrow> string option" where
  "raw_json s = (if s \<noteq> '''' \<and> s \<noteq> ''{}'' then Some s else None)"

section \<open>Rows to payload structures\<close>

definition aggAddress_of :: "FwdAddress \<Rightarrow> aggAddress" where
  "aggAddress_of a =
     \<lparr>aa_ID = fa_ID a,
      aa_InterfaceID = fa_InterfaceID a,
      aa_Address = fa_Address a,
      aa_AddressFamily = fa_AddressFamily a,
      aa_IsPrimary = fa_IsPrimary a,
      aa_VRF = fa_VRF a\<rparr>"

definition aggInterface_of :: "FwdAddress list \<Rightarrow> FwdInterface \<Rightarrow> aggInterface" where
  "aggInterface_of addrs i =
     \<lparr>ai_ID = fi_ID i,
      ai_DeviceID = fi_DeviceID i,
      ai_InterfaceName = fi_InterfaceName i,
      ai_InterfaceIndex = fi_InterfaceIndex i,
      ai_Description = fi_Description i,
      ai_Type = fi_Type i,
      ai_MACAddress = fi_MACAddress i,
      ai_SpeedMbps = fi_SpeedMbps i,
      ai_AdminStatus = fi_AdminStatus i,
      ai_OperationalStatus = fi_OperationalStatus i,
      ai_AccessVlanID = fi_AccessVlanID i,
      ai_MTUBytes = fi_MTUBytes i,
      ai_Addresses = map aggAddress_of (filter (\<lambda>a. fa_InterfaceID a = fi_ID i) addrs)\<rparr>"

definition aggMetric_of :: "FwdMetric \<Rightarrow> aggMetric" where
  "aggMetric_of m =
     \<lparr>am_DeviceID = fm_DeviceID m,
      am_InterfaceID = fm_InterfaceID m,
      am_MetricName = fm_MetricName m,
      am_Value = fm_Value m,
      am_Tag = fm_Tag m,
      am_Attributes = raw_json (fm_Attributes m),
      am_CollectorAgent = fm_CollectorAgent m,
      am_CollectorProtocol = fm_CollectorProtocol m,
      am_InterfaceName = fm_InterfaceName m,
      am_TS = rfc3339 (fm_TS m)\<rparr>"

definition aggEnergyMetric_of :: "FwdEnergy \<Rightarrow> aggEnergyMetric" where
  "aggEnergyMetric_of e =
     \<lparr>ae_DeviceID = fe_DeviceID e,
      ae_MetricName = fe_MetricName e,
      ae_Value = fe_Value e,
      ae_Tag = fe_Tag e,
      ae_Circuit = fe_Circuit e,
      ae_Phase = fe_Phase e,
      ae_Attributes = raw_json (fe_Attributes e),
      ae_CollectorAgent = fe_CollectorAgent e,
      ae_CollectorProtocol = fe_CollectorProtocol e,
      ae_TS = rfc3339 (fe_TS e)\<rparr>"

text \<open>
  One device with its interfaces, metrics and energy metrics: the maps of the code
  from device to rows, built by appending in row order, are filters by device.
\<close>

definition aggDevice_of ::
  "FwdInterface list \<Rightarrow> FwdAddress list \<Rightarrow> FwdMetric list \<Rightarrow> FwdEnergy list \<Rightarrow> FwdDevice \<Rightarrow> aggDevice" where
  "aggDevice_of ifaces addrs ms es d =
     \<lparr>ad_ID = fd_ID d,
      ad_Hostname = fd_Hostname d,
      ad_DeviceType = fd_DeviceType d,
      ad_Vendor = fd_Vendor d,
      ad_ModelName = fd_ModelName d,
      ad_OSName = fd_OSName d,
      ad_OSVersion = fd_OSVersion d,
      ad_SysOID = fd_SysOID d,
      ad_SysDescription = fd_SysDescr d,
      ad_SysLocation = fd_SysLocation d,
      ad_MgmtIP = fd_MgmtIP d,
      ad_ProdIP = fd_ProdIP d,
      ad_LoopbackIP = fd_LoopbackIP d,
      ad_OOBIP = fd_OOBIP d,
      ad_SNMPEnabled = fd_SNMPEnabled d,
      ad_GNMIEnabled = fd_GNMIEnabled d,
      ad_SNMPPort = fd_SNMPPort d,
      ad_SNMPVersion = fd_SNMPVersion d,
      ad_GNMIPort = fd_GNMIPort d,
      ad_CollectorAgent = fd_CollectorAgent d,
      ad_IsReachable = fd_IsReachable d,
      ad_Country = fd_Country d,
      ad_DatacenterCity = fd_DatacenterCity d,
      ad_Datacenter = fd_Datacenter d,
      ad_Room = fd_Room d,
      ad_RackRow = fd_RackRow d,
      ad_RackNum = fd_RackNum d,
      ad_RackUnit = fd_RackUnit d,
      ad_PowerDrawW = fd_PowerDrawW d,
      ad_PowerState = fd_PowerState d,
      ad_DeviceRole = fd_DeviceRole d,
      ad_RoleConfidence = fd_RoleConfidence d,
      ad_RoleSource = fd_RoleSource d,
      ad_RoleOverridden = fd_RoleOverridden d,
      ad_Interfaces = map (aggInterface_of addrs) (filter (\<lambda>i. fi_DeviceID i = fd_ID d) ifaces),
      ad_Metrics = map aggMetric_of (filter (\<lambda>m. fm_DeviceID m = fd_ID d) ms),
      ad_EnergyMetrics = map aggEnergyMetric_of (filter (\<lambda>e. fe_DeviceID e = fd_ID d) es)\<rparr>"

definition aggTopoLink_of :: "FwdTopologyLink \<Rightarrow> aggTopoLink" where
  "aggTopoLink_of l =
     \<lparr>al_ID = ft_ID l,
      al_Layer = ft_Layer l,
      al_SrcDeviceID = ft_SrcDeviceID l,
      al_SrcInterfaceID = ft_SrcInterfaceID l,
      al_SrcHostname = ft_SrcHostname l,
      al_SrcPortName = ft_SrcPortName l,
      al_DstDeviceID = ft_DstDeviceID l,
      al_DstInterfaceID = ft_DstInterfaceID l,
      al_DstHostname = ft_DstHostname l,
      al_DstPortName = ft_DstPortName l,
      al_LinkSpeedMbps = ft_LinkSpeedMbps l,
      al_LinkType = ft_LinkType l,
      al_Protocol = ft_Protocol l,
      al_Relation = ft_Relation l,
      al_IsActive = ft_IsActive l\<rparr>"

definition aggEvent_of :: "FwdEvent \<Rightarrow> aggEvent" where
  "aggEvent_of v =
     \<lparr>av_ID = fv_ID v,
      av_DeviceID = fv_DeviceID v,
      av_Hostname = fv_Hostname v,
      av_Kind = fv_Kind v,
      av_EventName = fv_EventName v,
      av_Severity = fv_Severity v,
      av_TrapOID = fv_TrapOID v,
      av_SourceIP = fv_SourceIP v,
      av_CollectorAgent = fv_CollectorAgent v,
      av_SrcPortName = fv_SrcPortName v,
      av_DstDeviceID = fv_DstDeviceID v,
      av_DstHostname = fv_DstHostname v,
      av_DstPortName = fv_DstPortName v,
      av_LinkID = fv_LinkID v,
      av_TS = rfc3339 (fv_TS v),
      av_Payload = raw_json (fv_Payload v)\<rparr>"

section \<open>Grouping\<close>

type_synonym groups = "(scopeKey \<times> aggPayload) list"

definition new_group :: "AggregatorConfig \<Rightarrow> string \<Rightarrow> scopeKey \<Rightarrow> aggPayload" where
  "new_group cfg netID k =
     \<lparr>ap_OrgID = cfg_OrgID cfg, ap_DatacenterID = fst k, ap_FloorID = snd k, ap_NetworkID = netID,
      ap_GroupID = cfg_GroupID cfg, ap_Devices = [], ap_TopologyLinks = [], ap_Events = []\<rparr>"

text \<open>\<open>g := getGroup(k)\<close> followed by an update of \<open>g\<close>.\<close>

definition with_group ::
  "AggregatorConfig \<Rightarrow> string \<Rightarrow> scopeKey \<Rightarrow> (aggPayload \<Rightarrow> aggPayload) \<Rightarrow> groups \<Rightarrow> groups" where
  "with_group cfg netID k f gs =
     (if k \<in> set (map fst gs) then map (\<lambda>(k', p). (k', if k' = k then f p else p)) gs
      else gs @ [(k, f (new_group cfg netID k))])"

definition add_device :: "aggDevice \<Rightarrow> aggPayload \<Rightarrow> aggPayload" where
  "add_device d p = p\<lparr>ap_Devices := ap_Devices p @ [d]\<rparr>"

definition add_link :: "aggTopoLink \<Rightarrow> aggPayload \<Rightarrow> aggPayload" where
  "add_link l p = p\<lparr>ap_TopologyLinks := ap_TopologyLinks p @ [l]\<rparr>"

definition add_event :: "aggEvent \<Rightarrow> aggPayload \<Rightarrow> aggPayload" where
  "add_event e p = p\<lparr>ap_Events := ap_Events p @ [e]\<rparr>"

definition device_scope :: "AggregatorConfig \<Rightarrow> FwdDevice \<Rightarrow> scopeKey" where
  "device_scope cfg d = scope_of cfg (fd_DatacenterID d) (fd_FloorID d)"

text \<open>The map \<open>hostScope\<close>; of two devices with one hostname the later one counts.\<close>

definition host_scope :: "AggregatorConfig \<Rightarrow> FwdDevice list \<Rightarrow> string \<Rightarrow> scopeKey option" where
  "host_scope cfg ds h = map_of (rev (map (\<lambda>d. (fd_Hostname d, device_scope cfg d)) ds)) h"

definition link_scope :: "AggregatorConfig \<Rightarrow> FwdDevice list \<Rightarrow> FwdTopologyLink \<Rightarrow> scopeKey option" where
  "link_scope cfg ds l =
     (case (host_scope cfg ds (ft_SrcHostname l), host_scope cfg ds (ft_DstHostname l)) of
        (Some s, Some t) \<Rightarrow> if s = t then Some s else None
      | _ \<Rightarrow> None)"

definition place_link :: "AggregatorConfig \<Rightarrow> FwdDevice list \<Rightarrow> groups \<Rightarrow> FwdTopologyLink \<Rightarrow> groups" where
  "place_link cfg ds gs l =
     (case link_scope cfg ds l of
        None \<Rightarrow> gs
      | Some k \<Rightarrow> if k \<in> set (map fst gs)
                  then map (\<lambda>(k', p). (k', if k' = k then add_link (aggTopoLink_of l) p else p)) gs
                  else gs)"

definition build_groups ::
  "AggregatorConfig \<Rightarrow> string \<Rightarrow> FwdDevice list \<Rightarrow> FwdInterface list \<Rightarrow> FwdAddress list \<Rightarrow> FwdMetric list
     \<Rightarrow> FwdEnergy list \<Rightarrow> FwdTopologyLink list \<Rightarrow> FwdEvent list \<Rightarrow> groups" where
  "build_groups cfg netID ds ifaces addrs ms es ls evs =
     (let g1 = foldl (\<lambda>gs d. with_group cfg netID (device_scope cfg d)
                                (add_device (aggDevice_of ifaces addrs ms es d)) gs) [] ds;
          g2 = foldl (place_link cfg ds) g1 ls
      in foldl (\<lambda>gs v. with_group cfg netID (scope_of cfg (fv_DatacenterID v) (fv_FloorID v))
                         (add_event (aggEvent_of v)) gs) g2 evs)"

definition buildPayloads where
  "buildPayloads cfg netID ds ifaces addrs ms es ls evs =
     map snd (build_groups cfg netID ds ifaces addrs ms es ls evs)"

section \<open>What a group holds\<close>

definition event_scope :: "AggregatorConfig \<Rightarrow> FwdEvent \<Rightarrow> scopeKey" where
  "event_scope cfg v = scope_of cfg (fv_DatacenterID v) (fv_FloorID v)"

definition grp :: "AggregatorConfig \<Rightarrow> string \<Rightarrow> groups \<Rightarrow> scopeKey \<Rightarrow> aggPayload" where
  "grp cfg netID gs k = (case map_of gs k of Some p \<Rightarrow> p | None \<Rightarrow> new_group cfg netID k)"

lemma keys_update: "map fst (map (\<lambda>(k', p). (k', if k' = k then f p else p)) gs) = map fst gs"
  by (induction gs) auto

lemma map_of_update:
  "map_of (map (\<lambda>(k', p). (k', if k' = k then f p else p)) gs) j =
     (if j = k then map_option f (map_of gs j) else map_of gs j)"
  by (induction gs) auto

lemma map_of_with_group:
  "map_of (with_group cfg netID k f gs) j = (if j = k then Some (f (grp cfg netID gs k)) else map_of gs j)"
proof (cases "k \<in> set (map fst gs)")
  case True
  then obtain p where "map_of gs k = Some p" by (metis map_of_eq_None_iff not_None_eq set_map)
  with True show ?thesis by (simp only: with_group_def if_True map_of_update) (simp add: grp_def)
next
  case False
  then have "map_of gs k = None" by (simp add: map_of_eq_None_iff)
  with False show ?thesis by (simp add: with_group_def map_of_append grp_def map_add_def split: option.split)
qed

lemma distinct_with_group: "distinct (map fst gs) \<Longrightarrow> distinct (map fst (with_group cfg netID k f gs))"
  unfolding with_group_def by (cases "k \<in> set (map fst gs)") (simp_all only: keys_update if_True if_False, auto)

lemma map_of_fold_groups:
  "map_of (foldl (\<lambda>gs x. with_group cfg netID (\<kappa> x) (u x) gs) gs xs) k =
     (if k \<in> \<kappa> ` set xs \<or> map_of gs k \<noteq> None
      then Some (foldl (\<lambda>p x. u x p) (grp cfg netID gs k) (filter (\<lambda>x. \<kappa> x = k) xs)) else None)"
proof (induction xs arbitrary: gs)
  case Nil
  then show ?case by (auto simp: grp_def)
next
  case (Cons x xs)
  then show ?case by (cases "\<kappa> x = k") (auto simp: map_of_with_group grp_def)
qed

lemma distinct_fold_groups:
  "distinct (map fst gs) \<Longrightarrow> distinct (map fst (foldl (\<lambda>gs x. with_group cfg netID (\<kappa> x) (u x) gs) gs xs))"
  by (induction xs arbitrary: gs) (simp_all add: distinct_with_group)

lemma foldl_add_device:
  "foldl (\<lambda>p d. add_device (f d) p) p ds = p\<lparr>ap_Devices := ap_Devices p @ map f ds\<rparr>"
  by (induction ds arbitrary: p) (simp_all add: add_device_def)

lemma foldl_add_event:
  "foldl (\<lambda>p v. add_event (f v) p) p vs = p\<lparr>ap_Events := ap_Events p @ map f vs\<rparr>"
  by (induction vs arbitrary: p) (simp_all add: add_event_def)

lemma map_of_place_links:
  "map_of (foldl (place_link cfg ds) gs ls) k =
     map_option (\<lambda>p. p\<lparr>ap_TopologyLinks := ap_TopologyLinks p
        @ map aggTopoLink_of (filter (\<lambda>l. link_scope cfg ds l = Some k) ls)\<rparr>) (map_of gs k)"
proof (induction ls arbitrary: gs)
  case Nil
  then show ?case by (cases "map_of gs k") simp_all
next
  case (Cons l ls)
  have step: "map_of (place_link cfg ds gs l) k =
      (if link_scope cfg ds l = Some k then map_option (add_link (aggTopoLink_of l)) (map_of gs k) else map_of gs k)"
  proof (cases "link_scope cfg ds l")
    case (Some j)
    show ?thesis
    proof (cases "j \<in> set (map fst gs)")
      case True
      with Some show ?thesis
        by (simp only: place_link_def option.case if_True map_of_update) auto
    next
      case False
      then have "map_of gs j = None" by (simp add: map_of_eq_None_iff)
      with False Some show ?thesis by (auto simp: place_link_def)
    qed
  qed (simp add: place_link_def)
  show ?case
    by (simp add: Cons step) (cases "map_of gs k"; simp add: add_link_def)
qed

lemma keys_place_links: "map fst (foldl (place_link cfg ds) gs ls) = map fst gs"
proof (induction ls arbitrary: gs)
  case (Cons l ls)
  have "map fst (place_link cfg ds gs l) = map fst gs"
    unfolding place_link_def by (auto split: option.split simp del: map_map simp: keys_update)
  with Cons show ?case by simp
qed simp

text \<open>The payload of one scope, as a filter of the query results.\<close>

definition payload_for ::
  "AggregatorConfig \<Rightarrow> string \<Rightarrow> FwdDevice list \<Rightarrow> FwdInterface list \<Rightarrow> FwdAddress list \<Rightarrow> FwdMetric list
     \<Rightarrow> FwdEnergy list \<Rightarrow> FwdTopologyLink list \<Rightarrow> FwdEvent list \<Rightarrow> scopeKey \<Rightarrow> aggPayload" where
  "payload_for cfg netID ds ifaces addrs ms es ls evs k =
     \<lparr>ap_OrgID = cfg_OrgID cfg, ap_DatacenterID = fst k, ap_FloorID = snd k, ap_NetworkID = netID,
      ap_GroupID = cfg_GroupID cfg,
      ap_Devices = map (aggDevice_of ifaces addrs ms es) (filter (\<lambda>d. device_scope cfg d = k) ds),
      ap_TopologyLinks = map aggTopoLink_of (filter (\<lambda>l. link_scope cfg ds l = Some k) ls),
      ap_Events = map aggEvent_of (filter (\<lambda>v. event_scope cfg v = k) evs)\<rparr>"

lemma link_scope_device: "link_scope cfg ds l = Some k \<Longrightarrow> k \<in> device_scope cfg ` set ds"
proof -
  assume "link_scope cfg ds l = Some k"
  then have "host_scope cfg ds (ft_SrcHostname l) = Some k"
    by (auto simp: link_scope_def split: option.splits if_splits)
  then have "(ft_SrcHostname l, k) \<in> set (rev (map (\<lambda>d. (fd_Hostname d, device_scope cfg d)) ds))"
    unfolding host_scope_def by (rule map_of_SomeD)
  then show ?thesis by auto
qed

lemma map_of_build_groups:
  "map_of (build_groups cfg netID ds ifaces addrs ms es ls evs) k =
     (if k \<in> device_scope cfg ` set ds \<union> event_scope cfg ` set evs
      then Some (payload_for cfg netID ds ifaces addrs ms es ls evs k) else None)"
proof -
  let ?g1 = "foldl (\<lambda>gs d. with_group cfg netID (device_scope cfg d)
      (add_device (aggDevice_of ifaces addrs ms es d)) gs) [] ds"
  let ?g2 = "foldl (place_link cfg ds) ?g1 ls"
  let ?links = "map aggTopoLink_of (filter (\<lambda>l. link_scope cfg ds l = Some k) ls)"
  let ?devs = "map (aggDevice_of ifaces addrs ms es) (filter (\<lambda>d. device_scope cfg d = k) ds)"
  have g1: "map_of ?g1 k = (if k \<in> device_scope cfg ` set ds
      then Some ((new_group cfg netID k)\<lparr>ap_Devices := ?devs\<rparr>) else None)"
    unfolding map_of_fold_groups foldl_add_device by (simp add: grp_def new_group_def)
  have g2: "grp cfg netID ?g2 k = (new_group cfg netID k)\<lparr>ap_Devices := ?devs, ap_TopologyLinks := ?links\<rparr>"
  proof (cases "k \<in> device_scope cfg ` set ds")
    case True
    then show ?thesis by (simp add: grp_def map_of_place_links g1 new_group_def)
  next
    case False
    then have "filter (\<lambda>d. device_scope cfg d = k) ds = []" "filter (\<lambda>l. link_scope cfg ds l = Some k) ls = []"
      using link_scope_device [of cfg ds _ k] unfolding filter_empty_conv by blast+
    with False show ?thesis by (simp add: grp_def map_of_place_links g1 new_group_def)
  qed
  have "map_of ?g2 k \<noteq> None \<longleftrightarrow> k \<in> device_scope cfg ` set ds" by (simp add: map_of_place_links g1)
  then show ?thesis
    unfolding build_groups_def Let_def map_of_fold_groups event_scope_def [symmetric] foldl_add_event g2
    by (simp add: payload_for_def new_group_def)
qed

lemma distinct_build_groups: "distinct (map fst (build_groups cfg netID ds ifaces addrs ms es ls evs))"
  unfolding build_groups_def Let_def
  by (intro distinct_fold_groups) (simp add: keys_place_links distinct_fold_groups)

lemma scope_nonempty: "fst (scope_of cfg dc fl) \<noteq> ''''" "snd (scope_of cfg dc fl) \<noteq> ''''"
  by (simp_all add: scope_of_def dcOrDefault_def floorOrDefault_def scopeFallback_def)

lemma build_groups_mem:
  "(k, p) \<in> set (build_groups cfg netID ds ifaces addrs ms es ls evs) \<longleftrightarrow>
     k \<in> device_scope cfg ` set ds \<union> event_scope cfg ` set evs
     \<and> p = payload_for cfg netID ds ifaces addrs ms es ls evs k"
  using map_of_eq_Some_iff [OF distinct_build_groups, of cfg netID ds ifaces addrs ms es ls evs k p]
    map_of_build_groups [of cfg netID ds ifaces addrs ms es ls evs k] by (auto split: if_splits)

lemma set_buildPayloads:
  "set (buildPayloads cfg netID ds ifaces addrs ms es ls evs) =
     payload_for cfg netID ds ifaces addrs ms es ls evs ` (device_scope cfg ` set ds \<union> event_scope cfg ` set evs)"
    (is "_ = ?pf ` ?K")
proof (intro set_eqI iffI)
  fix p
  assume "p \<in> set (buildPayloads cfg netID ds ifaces addrs ms es ls evs)"
  then obtain k where "(k, p) \<in> set (build_groups cfg netID ds ifaces addrs ms es ls evs)"
    by (auto simp: buildPayloads_def)
  then show "p \<in> ?pf ` ?K" unfolding build_groups_mem by blast
next
  fix p
  assume "p \<in> ?pf ` ?K"
  then obtain k where "k \<in> ?K" "p = ?pf k" by blast
  then have "(k, p) \<in> set (build_groups cfg netID ds ifaces addrs ms es ls evs)" unfolding build_groups_mem by blast
  then show "p \<in> set (buildPayloads cfg netID ds ifaces addrs ms es ls evs)" by (force simp: buildPayloads_def)
qed

section \<open>Properties\<close>

text \<open>
  C10. The payloads of one cycle are exactly one per (datacenter, floor) scope that
  occurs among the devices and events; each holds the devices of its scope in
  query order with their interfaces, addresses, metrics and energy metrics, the
  links whose two endpoints both lie in it, and its events. No scope is sent twice,
  and none with an empty datacenter or floor, so no device and no event is dropped.
\<close>

theorem buildPayloads_by_scope:
  "set (buildPayloads cfg netID ds ifaces addrs ms es ls evs) =
     payload_for cfg netID ds ifaces addrs ms es ls evs ` (device_scope cfg ` set ds \<union> event_scope cfg ` set evs)
   \<and> distinct (map (\<lambda>p. (ap_DatacenterID p, ap_FloorID p)) (buildPayloads cfg netID ds ifaces addrs ms es ls evs))
   \<and> '''' \<notin> ap_DatacenterID ` set (buildPayloads cfg netID ds ifaces addrs ms es ls evs)
   \<and> '''' \<notin> ap_FloorID ` set (buildPayloads cfg netID ds ifaces addrs ms es ls evs)"
proof -
  let ?gs = "build_groups cfg netID ds ifaces addrs ms es ls evs"
  let ?pf = "payload_for cfg netID ds ifaces addrs ms es ls evs"
  let ?K = "device_scope cfg ` set ds \<union> event_scope cfg ` set evs"
  note mem = build_groups_mem [of _ _ cfg netID ds ifaces addrs ms es ls evs]
  have 1: "set (map snd ?gs) = ?pf ` ?K" using set_buildPayloads unfolding buildPayloads_def .
  have "map (\<lambda>p. (ap_DatacenterID p, ap_FloorID p)) (map snd ?gs) = map fst ?gs"
    unfolding map_map
  proof (rule map_cong [OF refl])
    fix kp
    assume "kp \<in> set ?gs"
    then show "((\<lambda>p. (ap_DatacenterID p, ap_FloorID p)) \<circ> snd) kp = fst kp"
      using mem [of "fst kp" "snd kp"] by (simp add: payload_for_def)
  qed
  then have 2: "distinct (map (\<lambda>p. (ap_DatacenterID p, ap_FloorID p)) (map snd ?gs))"
    using distinct_build_groups by metis
  have "\<forall>k \<in> ?K. fst k \<noteq> '''' \<and> snd k \<noteq> ''''"
    using scope_nonempty by (auto simp: device_scope_def event_scope_def)
  then have 3: "'''' \<notin> ap_DatacenterID ` set (map snd ?gs)" "'''' \<notin> ap_FloorID ` set (map snd ?gs)"
    unfolding 1 image_image by (simp_all add: payload_for_def image_iff) metis+
  show ?thesis unfolding buildPayloads_def using 1 2 3 by blast
qed

end
