(* ===== verification/Chunking.thy ===== *)
theory Chunking
  imports Payload
begin

text \<open>
  \<open>chunkPayload\<close>, \<open>splitDevice\<close> and \<open>lastTailFull\<close> of
  \<open>fwDCS/internal/forwarder/forwarder.go\<close>: splitting one scope's payload into POST
  bodies of bounded size. The serialized length of a value is \<open>json.Marshal\<close>'s
  business and enters as the functions of \<open>json_len\<close>. Go's nil slices are the
  empty list.
\<close>

record json_len =
  jl_dev :: "aggDevice \<Rightarrow> int"
  jl_met :: "aggMetric \<Rightarrow> int"
  jl_en :: "aggEnergyMetric \<Rightarrow> int"
  jl_link :: "aggTopoLink \<Rightarrow> int"
  jl_ev :: "aggEvent \<Rightarrow> int"

definition maxPostBytes :: int where
  "maxPostBytes = 512 * 1024"

definition envelope :: int where
  "envelope = 512"

section \<open>Splitting one device\<close>

type_synonym split_state = "aggDevice list \<times> aggDevice \<times> int"

definition head_of :: "aggDevice \<Rightarrow> aggDevice" where
  "head_of d = d\<lparr>ad_Metrics := [], ad_EnergyMetrics := []\<rparr>"

text \<open>The identity stub: every other field has its zero value.\<close>

definition stub_of :: "aggDevice \<Rightarrow> aggDevice" where
  "stub_of d =
     \<lparr>ad_ID = ad_ID d, ad_Hostname = ad_Hostname d, ad_DeviceType = ad_DeviceType d,
      ad_Vendor = '''', ad_ModelName = '''', ad_OSName = '''', ad_OSVersion = '''', ad_SysOID = '''',
      ad_SysDescription = '''', ad_SysLocation = '''', ad_MgmtIP = '''', ad_ProdIP = '''', ad_LoopbackIP = '''',
      ad_OOBIP = '''', ad_SNMPEnabled = False, ad_GNMIEnabled = False, ad_SNMPPort = 0, ad_SNMPVersion = 0,
      ad_GNMIPort = 0, ad_CollectorAgent = '''', ad_IsReachable = ad_IsReachable d, ad_Country = '''',
      ad_DatacenterCity = '''', ad_Datacenter = '''', ad_Room = '''', ad_RackRow = None, ad_RackNum = None,
      ad_RackUnit = None, ad_PowerDrawW = None, ad_PowerState = None, ad_DeviceRole = '''',
      ad_RoleConfidence = None, ad_RoleSource = '''', ad_RoleOverridden = False,
      ad_Interfaces = [], ad_Metrics = [], ad_EnergyMetrics = []\<rparr>"

definition items :: "aggDevice \<Rightarrow> nat" where
  "items d = length (ad_Metrics d) + length (ad_EnergyMetrics d)"

definition split_flush :: "json_len \<Rightarrow> aggDevice \<Rightarrow> split_state \<Rightarrow> split_state" where
  "split_flush jl d st =
     (case st of (frags, cur, curBytes) \<Rightarrow> (frags @ [cur], stub_of d, jl_dev jl (stub_of d)))"

definition split_room :: "json_len \<Rightarrow> aggDevice \<Rightarrow> int \<Rightarrow> int \<Rightarrow> split_state \<Rightarrow> split_state" where
  "split_room jl d budget n st =
     (case st of (frags, cur, curBytes) \<Rightarrow>
        if items cur > 0 \<and> curBytes + n > budget then split_flush jl d st else st)"

definition split_metric :: "json_len \<Rightarrow> aggDevice \<Rightarrow> int \<Rightarrow> split_state \<Rightarrow> aggMetric \<Rightarrow> split_state" where
  "split_metric jl d budget st m =
     (case split_room jl d budget (jl_met jl m) st of (frags, cur, curBytes) \<Rightarrow>
        (frags, cur\<lparr>ad_Metrics := ad_Metrics cur @ [m]\<rparr>, curBytes + jl_met jl m))"

definition split_energy :: "json_len \<Rightarrow> aggDevice \<Rightarrow> int \<Rightarrow> split_state \<Rightarrow> aggEnergyMetric \<Rightarrow> split_state" where
  "split_energy jl d budget st e =
     (case split_room jl d budget (jl_en jl e) st of (frags, cur, curBytes) \<Rightarrow>
        (frags, cur\<lparr>ad_EnergyMetrics := ad_EnergyMetrics cur @ [e]\<rparr>, curBytes + jl_en jl e))"

definition splitDevice :: "json_len \<Rightarrow> aggDevice \<Rightarrow> int \<Rightarrow> aggDevice list" where
  "splitDevice jl d budget =
     (case foldl (split_energy jl d budget)
             (foldl (split_metric jl d budget) ([], head_of d, jl_dev jl (head_of d)) (ad_Metrics d))
             (ad_EnergyMetrics d) of
        (frags, cur, curBytes) \<Rightarrow> frags @ [cur])"

section \<open>Chunks of a payload\<close>

definition base_of :: "aggPayload \<Rightarrow> aggPayload" where
  "base_of p = p\<lparr>ap_Devices := [], ap_TopologyLinks := [], ap_Events := []\<rparr>"

type_synonym pack_state = "aggPayload list \<times> aggPayload \<times> int"

definition pack_flush :: "aggPayload \<Rightarrow> pack_state \<Rightarrow> pack_state" where
  "pack_flush p st = (case st of (chunks, cur, curBytes) \<Rightarrow> (chunks @ [cur], base_of p, envelope))"

definition pack_device :: "json_len \<Rightarrow> aggPayload \<Rightarrow> pack_state \<Rightarrow> aggDevice \<Rightarrow> pack_state" where
  "pack_device jl p st d =
     (case st of (chunks, cur, curBytes) \<Rightarrow>
        if jl_dev jl d > maxPostBytes then
          (case (if ap_Devices cur \<noteq> [] then pack_flush p st else st) of (chunks, cur, curBytes) \<Rightarrow>
             (chunks @ map (\<lambda>frag. (base_of p)\<lparr>ap_Devices := [frag]\<rparr>) (splitDevice jl d (maxPostBytes - envelope)),
              cur, curBytes))
        else
          (case (if ap_Devices cur \<noteq> [] \<and> curBytes + jl_dev jl d > maxPostBytes then pack_flush p st else st) of
             (chunks, cur, curBytes) \<Rightarrow>
               (chunks, cur\<lparr>ap_Devices := ap_Devices cur @ [d]\<rparr>, curBytes + jl_dev jl d)))"

definition device_chunks :: "json_len \<Rightarrow> aggPayload \<Rightarrow> aggPayload list" where
  "device_chunks jl p =
     (case foldl (pack_device jl p) ([], base_of p, envelope) (ap_Devices p) of
        (chunks, cur, curBytes) \<Rightarrow> if ap_Devices cur \<noteq> [] then chunks @ [cur] else chunks)"

definition tail_bytes :: "json_len \<Rightarrow> aggPayload \<Rightarrow> int" where
  "tail_bytes jl c = envelope + sum_list (map (jl_link jl) (ap_TopologyLinks c)) + sum_list (map (jl_ev jl) (ap_Events c))"

definition lastTailFull :: "json_len \<Rightarrow> aggPayload list \<Rightarrow> int \<Rightarrow> bool" where
  "lastTailFull jl chunks addBytes =
     (let c = last chunks
      in if ap_Devices c \<noteq> [] then True
         else (ap_TopologyLinks c \<noteq> [] \<or> ap_Events c \<noteq> []) \<and> tail_bytes jl c + addBytes > maxPostBytes)"

text \<open>The chunk list with a fresh tail chunk appended where the code does so.\<close>

definition tail_ready :: "json_len \<Rightarrow> aggPayload \<Rightarrow> int \<Rightarrow> aggPayload list \<Rightarrow> aggPayload list" where
  "tail_ready jl p n chunks =
     (if chunks = [] \<or> lastTailFull jl chunks n then chunks @ [base_of p] else chunks)"

definition put_link :: "json_len \<Rightarrow> aggPayload \<Rightarrow> aggPayload list \<Rightarrow> aggTopoLink \<Rightarrow> aggPayload list" where
  "put_link jl p chunks l =
     (let cs = tail_ready jl p (jl_link jl l) chunks in butlast cs @ [add_link l (last cs)])"

definition put_event :: "json_len \<Rightarrow> aggPayload \<Rightarrow> aggPayload list \<Rightarrow> aggEvent \<Rightarrow> aggPayload list" where
  "put_event jl p chunks e =
     (let cs = tail_ready jl p (jl_ev jl e) chunks in butlast cs @ [add_event e (last cs)])"

definition chunkPayload :: "json_len \<Rightarrow> aggPayload \<Rightarrow> aggPayload list" where
  "chunkPayload jl p =
     foldl (put_event jl p) (foldl (put_link jl p) (device_chunks jl p) (ap_TopologyLinks p)) (ap_Events p)"

section \<open>A split device\<close>

text \<open>Tracked size of a fragment: its header or stub plus its items.\<close>

definition frag_bytes :: "json_len \<Rightarrow> aggDevice \<Rightarrow> int" where
  "frag_bytes jl f = jl_dev jl (head_of f) + sum_list (map (jl_met jl) (ad_Metrics f))
     + sum_list (map (jl_en jl) (ad_EnergyMetrics f))"

definition split_inv :: "json_len \<Rightarrow> aggDevice \<Rightarrow> int \<Rightarrow> aggMetric list \<Rightarrow> aggEnergyMetric list \<Rightarrow> split_state \<Rightarrow> bool" where
  "split_inv jl d budget ms es st =
     (case st of (frags, cur, curBytes) \<Rightarrow>
        concat (map ad_Metrics (frags @ [cur])) = ms \<and> concat (map ad_EnergyMetrics (frags @ [cur])) = es
        \<and> curBytes = frag_bytes jl cur
        \<and> head_of (hd (frags @ [cur])) = head_of d
        \<and> list_all (\<lambda>f. head_of f = stub_of d) (tl (frags @ [cur]))
        \<and> list_all (\<lambda>f. items f \<le> 1 \<or> frag_bytes jl f \<le> budget) (frags @ [cur]))"

lemma head_stub [simp]: "head_of (stub_of d) = stub_of d" "head_of (head_of d) = head_of d"
  "ad_Metrics (stub_of d) = []" "ad_EnergyMetrics (stub_of d) = []"
  "ad_Metrics (head_of d) = []" "ad_EnergyMetrics (head_of d) = []"
  by (simp_all add: head_of_def stub_of_def)

lemma head_of_updates [simp]:
  "head_of (f\<lparr>ad_Metrics := x\<rparr>) = head_of f" "head_of (f\<lparr>ad_EnergyMetrics := y\<rparr>) = head_of f"
  by (simp_all add: head_of_def)

lemma items_zero: "items f = 0 \<longleftrightarrow> ad_Metrics f = [] \<and> ad_EnergyMetrics f = []"
  by (simp add: items_def)

lemma split_room_inv:
  assumes "split_inv jl d budget ms es st"
  shows "split_inv jl d budget ms es (split_room jl d budget n st)
    \<and> (case split_room jl d budget n st of (frags, cur, b) \<Rightarrow> items cur = 0 \<or> b + n \<le> budget)"
proof -
  obtain frags cur b where st: "st = (frags, cur, b)" by (cases st)
  show ?thesis
  proof (cases "items cur > 0 \<and> b + n > budget")
    case True
    with assms st show ?thesis
      by (cases frags) (auto simp: split_room_def split_flush_def split_inv_def frag_bytes_def items_def)
  next
    case False
    with assms st show ?thesis by (auto simp: split_room_def)
  qed
qed

lemma split_metric_inv:
  assumes "split_inv jl d budget ms es st"
  shows "split_inv jl d budget (ms @ [m]) es (split_metric jl d budget st m)"
proof -
  obtain frags cur b where r: "split_room jl d budget (jl_met jl m) st = (frags, cur, b)"
    by (cases "split_room jl d budget (jl_met jl m) st")
  from split_room_inv [OF assms, of "jl_met jl m"] r
  show ?thesis
    by (cases frags) (auto simp: split_metric_def split_inv_def frag_bytes_def items_def)
qed

lemma split_energy_inv:
  assumes "split_inv jl d budget ms es st"
  shows "split_inv jl d budget ms (es @ [e]) (split_energy jl d budget st e)"
proof -
  obtain frags cur b where r: "split_room jl d budget (jl_en jl e) st = (frags, cur, b)"
    by (cases "split_room jl d budget (jl_en jl e) st")
  from split_room_inv [OF assms, of "jl_en jl e"] r
  show ?thesis
    by (cases frags) (auto simp: split_energy_def split_inv_def frag_bytes_def items_def)
qed

lemma splitDevice_inv:
  "split_inv jl d budget (ad_Metrics d) (ad_EnergyMetrics d)
     (foldl (split_energy jl d budget)
        (foldl (split_metric jl d budget) ([], head_of d, jl_dev jl (head_of d)) (ad_Metrics d)) (ad_EnergyMetrics d))"
proof -
  have 0: "split_inv jl d budget [] [] ([], head_of d, jl_dev jl (head_of d))"
    by (simp add: split_inv_def frag_bytes_def items_def)
  have m: "split_inv jl d budget ms [] (foldl (split_metric jl d budget) ([], head_of d, jl_dev jl (head_of d)) ms)" for ms
    by (induction ms rule: rev_induct) (simp_all add: 0 split_metric_inv)
  have "split_inv jl d budget (ad_Metrics d) es
     (foldl (split_energy jl d budget)
        (foldl (split_metric jl d budget) ([], head_of d, jl_dev jl (head_of d)) (ad_Metrics d)) es)" for es
    by (induction es rule: rev_induct) (simp_all add: m split_energy_inv)
  then show ?thesis .
qed

lemma splitDevice_facts:
  "concat (map ad_Metrics (splitDevice jl d budget)) = ad_Metrics d"
  "concat (map ad_EnergyMetrics (splitDevice jl d budget)) = ad_EnergyMetrics d"
  "splitDevice jl d budget \<noteq> []" "head_of (hd (splitDevice jl d budget)) = head_of d"
  "list_all (\<lambda>f. head_of f = stub_of d) (tl (splitDevice jl d budget))"
  "list_all (\<lambda>f. items f \<le> 1 \<or> frag_bytes jl f \<le> budget) (splitDevice jl d budget)"
  using splitDevice_inv [of jl d budget]
  by (auto simp: splitDevice_def split_inv_def split: prod.splits)

section \<open>The chunks of a payload\<close>

definition pieces :: "json_len \<Rightarrow> aggDevice \<Rightarrow> aggDevice list" where
  "pieces jl d = (if jl_dev jl d > maxPostBytes then splitDevice jl d (maxPostBytes - envelope) else [d])"

definition chunk_bytes :: "json_len \<Rightarrow> aggPayload \<Rightarrow> int" where
  "chunk_bytes jl c = tail_bytes jl c + sum_list (map (jl_dev jl) (ap_Devices c))"

definition chunk_items :: "aggPayload \<Rightarrow> nat" where
  "chunk_items c = length (ap_Devices c) + length (ap_TopologyLinks c) + length (ap_Events c)"

definition dev_chunk_ok :: "json_len \<Rightarrow> aggPayload \<Rightarrow> aggPayload \<Rightarrow> bool" where
  "dev_chunk_ok jl p c \<longleftrightarrow> base_of c = base_of p \<and> ap_TopologyLinks c = [] \<and> ap_Events c = []
     \<and> (chunk_items c \<le> 1 \<or> chunk_bytes jl c \<le> maxPostBytes)"

lemma base_simps [simp]:
  "base_of (base_of p) = base_of p" "ap_Devices (base_of p) = []" "ap_TopologyLinks (base_of p) = []"
  "ap_Events (base_of p) = []" "base_of (c\<lparr>ap_Devices := x\<rparr>) = base_of c"
  "base_of (c\<lparr>ap_TopologyLinks := y\<rparr>) = base_of c" "base_of (c\<lparr>ap_Events := z\<rparr>) = base_of c"
  by (simp_all add: base_of_def)

definition pack_inv :: "json_len \<Rightarrow> aggPayload \<Rightarrow> aggDevice list \<Rightarrow> pack_state \<Rightarrow> bool" where
  "pack_inv jl p ds st =
     (case st of (chunks, cur, curBytes) \<Rightarrow>
        concat (map ap_Devices (chunks @ [cur])) = concat (map (pieces jl) ds)
        \<and> list_all (dev_chunk_ok jl p) (chunks @ [cur]) \<and> list_all (\<lambda>c. ap_Devices c \<noteq> []) chunks
        \<and> curBytes = chunk_bytes jl cur)"

lemma pack_flush_inv:
  "pack_inv jl p ds st \<Longrightarrow> ap_Devices (fst (snd st)) \<noteq> [] \<Longrightarrow>
     pack_inv jl p ds (pack_flush p st) \<and> ap_Devices (fst (snd (pack_flush p st))) = []"
  by (auto simp: pack_inv_def pack_flush_def dev_chunk_ok_def chunk_bytes_def tail_bytes_def chunk_items_def
      split: prod.splits)

lemma pack_device_inv:
  assumes "pack_inv jl p ds st"
  shows "pack_inv jl p (ds @ [d]) (pack_device jl p st d)"
proof -
  obtain chunks cur b where st: "st = (chunks, cur, b)" by (cases st)
  let ?full = "jl_dev jl d > maxPostBytes"
  let ?flush = "ap_Devices cur \<noteq> [] \<and> (?full \<or> b + jl_dev jl d > maxPostBytes)"
  obtain chunks' cur' b' where st': "(if ?flush then pack_flush p st else st) = (chunks', cur', b')"
    by (cases "if ?flush then pack_flush p st else st")
  have inv: "pack_inv jl p ds (chunks', cur', b')"
    and room: "ap_Devices cur' = [] \<or> (\<not> ?full \<and> b' + jl_dev jl d \<le> maxPostBytes)"
  proof -
    show "pack_inv jl p ds (chunks', cur', b')"
      using assms pack_flush_inv [OF assms] st st' by (cases ?flush) auto
    show "ap_Devices cur' = [] \<or> (\<not> ?full \<and> b' + jl_dev jl d \<le> maxPostBytes)"
    proof (cases ?flush)
      case True
      then show ?thesis using pack_flush_inv [OF assms] st st' by auto
    next
      case False
      then have "cur' = cur" "b' = b" using st st' by auto
      with False show ?thesis by auto
    qed
  qed
  show ?thesis
  proof (cases ?full)
    case True
    then have r: "pack_device jl p st d = (chunks' @ map (\<lambda>frag. (base_of p)\<lparr>ap_Devices := [frag]\<rparr>)
        (splitDevice jl d (maxPostBytes - envelope)), cur', b')"
      using st st' by (cases "ap_Devices cur = []") (auto simp: pack_device_def)
    have c: "ap_Devices cur' = []" using room True by simp
    have m: "concat (map (ap_Devices \<circ> (\<lambda>frag. (base_of p)\<lparr>ap_Devices := [frag]\<rparr>)) fs) = fs" for fs
      by (induction fs) simp_all
    show ?thesis
      using inv c True
      by (simp add: r pack_inv_def pieces_def m) (simp add: list_all_iff dev_chunk_ok_def chunk_items_def)
  next
    case False
    then have r: "pack_device jl p st d = (chunks', cur'\<lparr>ap_Devices := ap_Devices cur' @ [d]\<rparr>, b' + jl_dev jl d)"
      using st st' by (cases "ap_Devices cur \<noteq> [] \<and> b + jl_dev jl d > maxPostBytes") (auto simp: pack_device_def)
    show ?thesis
      using inv room False
      by (auto simp: r pack_inv_def pieces_def dev_chunk_ok_def chunk_items_def chunk_bytes_def tail_bytes_def)
  qed
qed

lemma device_chunks_facts:
  "concat (map ap_Devices (device_chunks jl p)) = concat (map (pieces jl) (ap_Devices p))
   \<and> list_all (dev_chunk_ok jl p) (device_chunks jl p) \<and> list_all (\<lambda>c. ap_Devices c \<noteq> []) (device_chunks jl p)"
proof -
  have 0: "pack_inv jl p [] ([], base_of p, envelope)"
    by (simp add: pack_inv_def dev_chunk_ok_def chunk_items_def chunk_bytes_def tail_bytes_def)
  have "pack_inv jl p ds (foldl (pack_device jl p) ([], base_of p, envelope) ds)" for ds
    by (induction ds rule: rev_induct) (simp_all add: 0 pack_device_inv)
  from this [of "ap_Devices p"] show ?thesis
    by (auto simp: device_chunks_def pack_inv_def split: prod.splits)
qed

definition tail_chunk_ok :: "json_len \<Rightarrow> aggPayload \<Rightarrow> aggPayload \<Rightarrow> bool" where
  "tail_chunk_ok jl p c \<longleftrightarrow> base_of c = base_of p \<and> ap_Devices c = []
     \<and> (chunk_items c \<le> 1 \<or> chunk_bytes jl c \<le> maxPostBytes)"

definition tail_inv :: "json_len \<Rightarrow> aggPayload \<Rightarrow> aggTopoLink list \<Rightarrow> aggEvent list \<Rightarrow> aggPayload list \<Rightarrow> bool" where
  "tail_inv jl p ls es cs \<longleftrightarrow> (\<exists>tails. cs = device_chunks jl p @ tails \<and> list_all (tail_chunk_ok jl p) tails
     \<and> concat (map ap_TopologyLinks tails) = ls \<and> concat (map ap_Events tails) = es)"

text \<open>The chunk that takes the next link or event is a tail chunk with room, or a fresh one.\<close>

lemma tail_ready_inv:
  assumes "tail_inv jl p ls es cs"
  obtains tails c where "tail_ready jl p n cs = device_chunks jl p @ tails @ [c]"
    "list_all (tail_chunk_ok jl p) tails" "base_of c = base_of p" "ap_Devices c = []"
    "concat (map ap_TopologyLinks (tails @ [c])) = ls" "concat (map ap_Events (tails @ [c])) = es"
    "chunk_items c = 0 \<or> chunk_bytes jl c + n \<le> maxPostBytes"
proof -
  obtain tails where t: "cs = device_chunks jl p @ tails" "list_all (tail_chunk_ok jl p) tails"
    "concat (map ap_TopologyLinks tails) = ls" "concat (map ap_Events tails) = es"
    using assms by (auto simp: tail_inv_def)
  show ?thesis
  proof (cases "cs = [] \<or> lastTailFull jl cs n")
    case True
    then show ?thesis
      using t by (intro that [of tails "base_of p"]) (auto simp: tail_ready_def chunk_items_def)
  next
    case False
    then have ne: "cs \<noteq> []" and d: "ap_Devices (last cs) = []"
      by (auto simp: lastTailFull_def Let_def split: if_splits)
    have "tails \<noteq> []"
    proof
      assume "tails = []"
      with t(1) ne have "last cs \<in> set (device_chunks jl p)" by simp
      with device_chunks_facts [of jl p] d show False by (auto simp: list_all_iff)
    qed
    then obtain ts c where tc: "tails = ts @ [c]" by (metis append_butlast_last_id)
    with t have c: "base_of c = base_of p" "ap_Devices c = []" "list_all (tail_chunk_ok jl p) ts"
      by (auto simp: tail_chunk_ok_def)
    have "last cs = c" using t(1) tc by simp
    with False d c(2) have "(ap_TopologyLinks c = [] \<and> ap_Events c = []) \<or> tail_bytes jl c + n \<le> maxPostBytes"
      by (auto simp: lastTailFull_def Let_def)
    then have "chunk_items c = 0 \<or> chunk_bytes jl c + n \<le> maxPostBytes"
      using c(2) by (auto simp: chunk_items_def chunk_bytes_def)
    with False t tc c show ?thesis by (intro that [of ts c]) (simp_all add: tail_ready_def)
  qed
qed

lemma put_link_inv: "tail_inv jl p ls es cs \<Longrightarrow> es = [] \<Longrightarrow> tail_inv jl p (ls @ [l]) [] (put_link jl p cs l)"
proof -
  assume i: "tail_inv jl p ls es cs" and e: "es = []"
  obtain tails c where t: "tail_ready jl p (jl_link jl l) cs = device_chunks jl p @ tails @ [c]"
    "list_all (tail_chunk_ok jl p) tails" "base_of c = base_of p" "ap_Devices c = []"
    "concat (map ap_TopologyLinks (tails @ [c])) = ls" "concat (map ap_Events (tails @ [c])) = es"
    "chunk_items c = 0 \<or> chunk_bytes jl c + jl_link jl l \<le> maxPostBytes"
    by (rule tail_ready_inv [OF i])
  have "put_link jl p cs l = device_chunks jl p @ tails @ [add_link l c]"
    by (simp add: put_link_def t(1) butlast_append)
  moreover have "tail_chunk_ok jl p (add_link l c)"
    using t(3,4,7) by (auto simp: tail_chunk_ok_def add_link_def chunk_items_def chunk_bytes_def tail_bytes_def)
  ultimately show ?thesis
    using t(2,5,6) e by (auto simp: tail_inv_def add_link_def intro!: exI [of _ "tails @ [add_link l c]"])
qed

lemma put_event_inv: "tail_inv jl p ls es cs \<Longrightarrow> tail_inv jl p ls (es @ [e]) (put_event jl p cs e)"
proof -
  assume i: "tail_inv jl p ls es cs"
  obtain tails c where t: "tail_ready jl p (jl_ev jl e) cs = device_chunks jl p @ tails @ [c]"
    "list_all (tail_chunk_ok jl p) tails" "base_of c = base_of p" "ap_Devices c = []"
    "concat (map ap_TopologyLinks (tails @ [c])) = ls" "concat (map ap_Events (tails @ [c])) = es"
    "chunk_items c = 0 \<or> chunk_bytes jl c + jl_ev jl e \<le> maxPostBytes"
    by (rule tail_ready_inv [OF i])
  have "put_event jl p cs e = device_chunks jl p @ tails @ [add_event e c]"
    by (simp add: put_event_def t(1) butlast_append)
  moreover have "tail_chunk_ok jl p (add_event e c)"
    using t(3,4,7) by (auto simp: tail_chunk_ok_def add_event_def chunk_items_def chunk_bytes_def tail_bytes_def)
  ultimately show ?thesis
    using t(2,5,6) by (auto simp: tail_inv_def add_event_def intro!: exI [of _ "tails @ [add_event e c]"])
qed

lemma chunkPayload_inv: "tail_inv jl p (ap_TopologyLinks p) (ap_Events p) (chunkPayload jl p)"
proof -
  have 0: "tail_inv jl p [] [] (device_chunks jl p)" by (simp add: tail_inv_def)
  have l: "tail_inv jl p ls [] (foldl (put_link jl p) (device_chunks jl p) ls)" for ls
    by (induction ls rule: rev_induct) (simp_all add: 0 put_link_inv)
  have "tail_inv jl p (ap_TopologyLinks p) es
      (foldl (put_event jl p) (foldl (put_link jl p) (device_chunks jl p) (ap_TopologyLinks p)) es)" for es
    by (induction es rule: rev_induct) (simp_all add: l put_event_inv)
  then show ?thesis by (simp add: chunkPayload_def)
qed

section \<open>Properties\<close>

text \<open>
  What a device is sent as, stated over its fields: itself when it fits, otherwise
  a non-empty list of fragments that share out its metrics and energy metrics in
  order, the first with every other field of the device, the later ones with its
  identity, type and reachability and no interface.
\<close>

definition sent_as :: "json_len \<Rightarrow> aggDevice \<Rightarrow> aggDevice list \<Rightarrow> bool" where
  "sent_as jl d fs \<longleftrightarrow>
     (if jl_dev jl d \<le> maxPostBytes then fs = [d]
      else fs \<noteq> [] \<and> concat (map ad_Metrics fs) = ad_Metrics d \<and> concat (map ad_EnergyMetrics fs) = ad_EnergyMetrics d
        \<and> (hd fs)\<lparr>ad_Metrics := ad_Metrics d, ad_EnergyMetrics := ad_EnergyMetrics d\<rparr> = d
        \<and> list_all (\<lambda>f. ad_ID f = ad_ID d \<and> ad_Hostname f = ad_Hostname d \<and> ad_DeviceType f = ad_DeviceType d
             \<and> ad_IsReachable f = ad_IsReachable d \<and> ad_Interfaces f = []) (tl fs))"

lemma head_of_eq: "head_of f = head_of d \<longleftrightarrow> f\<lparr>ad_Metrics := ad_Metrics d, ad_EnergyMetrics := ad_EnergyMetrics d\<rparr> = d"
  by (cases f; cases d) (auto simp: head_of_def)

lemma head_of_stub:
  assumes "head_of f = stub_of d"
  shows "ad_ID f = ad_ID d \<and> ad_Hostname f = ad_Hostname d \<and> ad_DeviceType f = ad_DeviceType d
    \<and> ad_IsReachable f = ad_IsReachable d \<and> ad_Interfaces f = []"
proof -
  have "ad_ID (head_of f) = ad_ID f" "ad_Hostname (head_of f) = ad_Hostname f" "ad_DeviceType (head_of f) = ad_DeviceType f"
    "ad_IsReachable (head_of f) = ad_IsReachable f" "ad_Interfaces (head_of f) = ad_Interfaces f"
    by (simp_all add: head_of_def)
  then show ?thesis unfolding assms by (simp add: stub_of_def)
qed

lemma pieces_sent_as: "sent_as jl d (pieces jl d)"
proof (cases "jl_dev jl d \<le> maxPostBytes")
  case False
  let ?fs = "splitDevice jl d (maxPostBytes - envelope)"
  note f = splitDevice_facts [where jl = jl and d = d and budget = "maxPostBytes - envelope"]
  have "list_all (\<lambda>f. ad_ID f = ad_ID d \<and> ad_Hostname f = ad_Hostname d \<and> ad_DeviceType f = ad_DeviceType d
      \<and> ad_IsReachable f = ad_IsReachable d \<and> ad_Interfaces f = []) (tl ?fs)"
    using f(5) by (rule list.pred_mono_strong) (rule head_of_stub)
  moreover have "(hd ?fs)\<lparr>ad_Metrics := ad_Metrics d, ad_EnergyMetrics := ad_EnergyMetrics d\<rparr> = d"
    using f(4) by (simp only: head_of_eq)
  ultimately show ?thesis using f(1-3) False by (simp add: sent_as_def pieces_def)
qed (simp add: sent_as_def pieces_def)

text \<open>
  C6. Chunking loses, invents and reorders nothing: the chunks carry the scope of
  the payload and, read in order, its devices (an oversized one as fragments that
  carry all its metrics in order), its links and its events; and first come chunks
  with devices only, then chunks with links and events only, so a link is never
  posted before its endpoints.
\<close>

theorem chunkPayload_lossless:
  "\<exists>dev_chunks tails fss. chunkPayload jl p = dev_chunks @ tails
    \<and> list_all2 (sent_as jl) (ap_Devices p) fss \<and> concat (map ap_Devices dev_chunks) = concat fss
    \<and> concat (map ap_TopologyLinks tails) = ap_TopologyLinks p \<and> concat (map ap_Events tails) = ap_Events p
    \<and> list_all (\<lambda>c. base_of c = base_of p \<and> ap_TopologyLinks c = [] \<and> ap_Events c = []) dev_chunks
    \<and> list_all (\<lambda>c. base_of c = base_of p \<and> ap_Devices c = []) tails"
proof -
  obtain tails where "chunkPayload jl p = device_chunks jl p @ tails" "list_all (tail_chunk_ok jl p) tails"
    "concat (map ap_TopologyLinks tails) = ap_TopologyLinks p" "concat (map ap_Events tails) = ap_Events p"
    using chunkPayload_inv [of jl p] by (auto simp: tail_inv_def)
  moreover have "list_all2 (sent_as jl) (ap_Devices p) (map (pieces jl) (ap_Devices p))"
    by (simp add: list_all2_conv_all_nth pieces_sent_as)
  ultimately show ?thesis
    using device_chunks_facts [of jl p]
    by (intro exI [of _ "device_chunks jl p"] exI [of _ tails] exI [of _ "map (pieces jl) (ap_Devices p)"])
      (auto simp: list_all_iff dev_chunk_ok_def tail_chunk_ok_def)
qed

text \<open>
  Every chunk with more than one device, link or event stays within
  \<open>maxPostBytes\<close> by the code's own accounting (envelope plus the serialized sizes);
  only a chunk with a single item can be larger.
\<close>

theorem chunkPayload_bounded:
  "list_all (\<lambda>c. chunk_items c \<le> 1 \<or> chunk_bytes jl c \<le> maxPostBytes) (chunkPayload jl p)"
  using chunkPayload_inv [of jl p] device_chunks_facts [of jl p]
  by (auto simp: tail_inv_def list_all_iff dev_chunk_ok_def tail_chunk_ok_def)

text \<open>
  A device too large for one POST is cut without loss: the metrics and energy
  metrics of its fragments, in order, are exactly its own; the first fragment is
  the device itself with fewer metrics, every later one an identity stub; and a
  fragment with more than one metric stays within the budget.
\<close>

theorem splitDevice_lossless:
  "concat (map ad_Metrics (splitDevice jl d budget)) = ad_Metrics d
   \<and> concat (map ad_EnergyMetrics (splitDevice jl d budget)) = ad_EnergyMetrics d
   \<and> splitDevice jl d budget \<noteq> [] \<and> head_of (hd (splitDevice jl d budget)) = head_of d
   \<and> list_all (\<lambda>f. head_of f = stub_of d) (tl (splitDevice jl d budget))
   \<and> list_all (\<lambda>f. items f \<le> 1 \<or> frag_bytes jl f \<le> budget) (splitDevice jl d budget)"
  using splitDevice_facts [where jl = jl and d = d and budget = budget] by blast

end
