(* ===== verification/Forwarder.thy ===== *)
theory Forwarder
  imports Chunking
begin

text \<open>
  The push cycle of \<open>fwDCS/internal/forwarder/forwarder.go\<close>: the per-table poll gates,
  the retry of a POST, and \<open>pushNetwork\<close>, which queries the tables behind their
  cursors, builds and posts the chunks and advances the cursors. The environment
  decides which database calls succeed (\<open>ok\<close>, by the name of the call) and how the
  Aggregator answers each attempt for a chunk (\<open>agg\<close>). Scopes are posted by parallel
  goroutines; they share no data, so the model posts them one after the other.
\<close>

section \<open>Poll gates\<close>

record pollGate =
  misses :: nat
  skipLeft :: nat

type_synonym gates = "string \<rightharpoonup> pollGate"

definition gate_key :: "string \<Rightarrow> string \<Rightarrow> string" where
  "gate_key table netID = table @ ''|'' @ netID"

definition gate_of :: "gates \<Rightarrow> string \<Rightarrow> pollGate" where
  "gate_of gs k = (case gs k of Some g \<Rightarrow> g | None \<Rightarrow> \<lparr>misses = 0, skipLeft = 0\<rparr>)"

definition shouldPoll :: "nat \<Rightarrow> string \<Rightarrow> string \<Rightarrow> gates \<Rightarrow> bool \<times> gates" where
  "shouldPoll maxIdleSkips table netID gs =
     (if maxIdleSkips = 0 then (True, gs)
      else let g = gate_of gs (gate_key table netID)
           in if skipLeft g > 0 then (False, gs(gate_key table netID \<mapsto> g\<lparr>skipLeft := skipLeft g - 1\<rparr>))
              else (True, gs(gate_key table netID \<mapsto> g)))"

definition recordPoll :: "nat \<Rightarrow> string \<Rightarrow> string \<Rightarrow> bool \<Rightarrow> gates \<Rightarrow> gates" where
  "recordPoll maxIdleSkips table netID found gs =
     (if maxIdleSkips = 0 then gs
      else let g = gate_of gs (gate_key table netID)
           in if found then gs(gate_key table netID \<mapsto> g\<lparr>misses := 0, skipLeft := 0\<rparr>)
              else gs(gate_key table netID \<mapsto>
                     g\<lparr>misses := Suc (misses g), skipLeft := min (Suc (misses g)) maxIdleSkips\<rparr>))"

text \<open>The cap that \<open>New\<close> derives from the configured intervals, and the debounce (ns).\<close>

definition new_maxIdleSkips :: "AggregatorConfig \<Rightarrow> nat" where
  "new_maxIdleSkips cfg =
     (let interval = (if cfg_IntervalMs cfg \<le> 0 then 5000 else cfg_IntervalMs cfg)
      in if cfg_IdleIntervalMs cfg > interval then nat (cfg_IdleIntervalMs cfg div interval - 1) else 0)"

definition new_debounce :: "AggregatorConfig \<Rightarrow> int" where
  "new_debounce cfg =
     (if cfg_EventDebounceMs cfg \<le> 0 then 300000000 else cfg_EventDebounceMs cfg * 1000000)"

section \<open>Posting with retry\<close>

datatype http_result = CtxDone | NetError | Http int string

record aggResponse =
  Success :: bool
  Message :: string
  IngestedDevices :: int
  IngestedTopologyLinks :: int
  IngestedEvents :: int

datatype post_error = PostCancelled | PostNetwork nat | PostStatus nat int | PostDecode | PostRejected string
  | RetriesExhausted

text \<open>
  The three attempts, with what the network does in each; \<open>decode\<close> is
  \<open>json.Unmarshal\<close> of the response body. The first attempt has no delay, so the
  context is not consulted in front of it.
\<close>

fun post_attempts :: "(string \<Rightarrow> aggResponse option) \<Rightarrow> nat \<Rightarrow> http_result list \<Rightarrow> post_error + aggResponse" where
  "post_attempts decode attempt [] = Inl RetriesExhausted"
| "post_attempts decode attempt (r # rs) =
     (case r of
        CtxDone \<Rightarrow> Inl PostCancelled
      | NetError \<Rightarrow> post_attempts decode (Suc attempt) rs
      | Http status body \<Rightarrow>
          if status < 200 \<or> status \<ge> 300 then
            (if status \<ge> 400 \<and> status < 500 then Inl (PostStatus (Suc attempt) status)
             else post_attempts decode (Suc attempt) rs)
          else (case decode body of
                  None \<Rightarrow> Inl PostDecode
                | Some ar \<Rightarrow> if Success ar then Inr ar else Inl (PostRejected (Message ar))))"

definition postWithRetry :: "(string \<Rightarrow> aggResponse option) \<Rightarrow> http_result list \<Rightarrow> post_error + aggResponse" where
  "postWithRetry decode outcomes = post_attempts decode 0 (take 3 outcomes)"

definition truncate_str :: "string \<Rightarrow> nat \<Rightarrow> string" where
  "truncate_str s mx = (if length s \<le> mx then s else take mx s @ [CHR 0xE2, CHR 0x80, CHR 0xA6])"

section \<open>The push cycle\<close>

record polled =
  p_devices :: "FwdDevice list"
  p_metrics :: "FwdMetric list"
  p_energy :: "FwdEnergy list"
  p_links :: "FwdTopologyLink list"
  p_events :: "FwdEvent list"

text \<open>One gated query: skipped, failed or answered.\<close>

definition poll_table ::
  "bool \<Rightarrow> bool \<Rightarrow> nat \<Rightarrow> string \<Rightarrow> string \<Rightarrow> 'r list \<Rightarrow> gates \<Rightarrow> 'r list option \<times> gates" where
  "poll_table qok force mi table netID answer gs =
     (let (go, gs) = (if force then (True, gs) else shouldPoll mi table netID gs)
      in if \<not> go then (Some [], gs)
         else if \<not> qok then (None, gs)
         else (Some answer, recordPoll mi table netID (answer \<noteq> []) gs))"

definition net_scope :: "AggregatorConfig \<Rightarrow> string \<Rightarrow> scope" where
  "net_scope cfg netID = \<lparr>s_org = cfg_OrgID cfg, s_net = netID, s_grp = cfg_GroupID cfg\<rparr>"

definition batch_limit :: "AggregatorConfig \<Rightarrow> nat" where
  "batch_limit cfg = (if cfg_BatchLimit cfg \<le> 0 then 1000 else nat (cfg_BatchLimit cfg))"

definition cursor_of :: "(string \<Rightarrow> bool) \<Rightarrow> db \<Rightarrow> string \<Rightarrow> string \<Rightarrow> int" where
  "cursor_of ok db table netID = GetForwarderCursor (ok (''get:'' @ table)) db table netID"

definition query_tables ::
  "(string \<Rightarrow> bool) \<Rightarrow> bool \<Rightarrow> nat \<Rightarrow> AggregatorConfig \<Rightarrow> db \<Rightarrow> string \<Rightarrow> gates \<Rightarrow> (string + polled) \<times> gates" where
  "query_tables ok force mi cfg db netID gs =
     (let s = net_scope cfg netID; lim = batch_limit cfg; mlim = lim * 50; cur = (\<lambda>t. cursor_of ok db t netID)
      in case poll_table (ok ''devices'') force mi ''devices'' netID (DevicesUpdatedSince db s (cur ''devices'') lim) gs of
           (None, gs) \<Rightarrow> (Inl ''devices'', gs)
         | (Some ds, gs) \<Rightarrow>
         (case poll_table (ok ''metrics'') force mi ''metrics'' netID (MetricsSince db s (cur ''metrics'') mlim) gs of
           (None, gs) \<Rightarrow> (Inl ''metrics'', gs)
         | (Some ms, gs) \<Rightarrow>
         (case poll_table (ok ''energy'') force mi ''energy'' netID (EnergySince db s (cur ''energy'') mlim) gs of
           (None, gs) \<Rightarrow> (Inl ''energy'', gs)
         | (Some es, gs) \<Rightarrow>
         (case poll_table (ok ''topology'') force mi ''topology'' netID (TopologyLinksSince db s (cur ''topology'') lim) gs of
           (None, gs) \<Rightarrow> (Inl ''topology'', gs)
         | (Some ls, gs) \<Rightarrow>
         (case poll_table (ok ''events'') force mi ''events'' netID (EventsSince db s (cur ''events'') lim) gs of
           (None, gs) \<Rightarrow> (Inl ''events'', gs)
         | (Some vs, gs) \<Rightarrow>
             (Inr \<lparr>p_devices = ds, p_metrics = ms, p_energy = es, p_links = ls, p_events = vs\<rparr>, gs))))))"

text \<open>Devices that occur only in the metric and energy deltas.\<close>

definition extra_ids :: "polled \<Rightarrow> string list" where
  "extra_ids b =
     filter (\<lambda>i. i \<notin> fd_ID ` set (p_devices b))
       (remdups (map fm_DeviceID (p_metrics b) @ map fe_DeviceID (p_energy b)))"

definition link_hosts :: "polled \<Rightarrow> string list" where
  "link_hosts b = remdups (filter (\<lambda>h. h \<noteq> '''') (map ft_SrcHostname (p_links b) @ map ft_DstHostname (p_links b)))"

definition add_unseen :: "FwdDevice list \<Rightarrow> FwdDevice list \<Rightarrow> FwdDevice list" where
  "add_unseen = foldl (\<lambda>all d. if fd_ID d \<in> fd_ID ` set all then all else all @ [d])"

datatype push_error = QueryFailed string | PostFailed post_error

record push_result =
  pr_err :: "push_error option"
  pr_posted :: "aggPayload list"
  pr_gates :: gates
  pr_db :: db

text \<open>The chunks of one scope in sequence, up to the first failure.\<close>

fun post_scope ::
  "(string \<Rightarrow> aggResponse option) \<Rightarrow> (aggPayload \<Rightarrow> http_result list) \<Rightarrow> aggPayload list
     \<Rightarrow> aggPayload list \<times> post_error option" where
  "post_scope decode agg [] = ([], None)"
| "post_scope decode agg (c # cs) =
     (case postWithRetry decode (agg c) of
        Inl e \<Rightarrow> ([c], Some e)
      | Inr r \<Rightarrow> (case post_scope decode agg cs of (posted, err) \<Rightarrow> (c # posted, err)))"

fun post_scopes where
  "post_scopes decode agg jl [] = ([], None)"
| "post_scopes decode agg jl (p # ps) =
     (case (post_scope decode agg (chunkPayload jl p), post_scopes decode agg jl ps) of
        ((posted, err), (posted', err')) \<Rightarrow> (posted @ posted', if err = None then err' else err))"

definition advance :: "(string \<Rightarrow> bool) \<Rightarrow> string \<Rightarrow> string \<Rightarrow> int list \<Rightarrow> db \<Rightarrow> db" where
  "advance ok table netID keys db =
     (if keys = [] then db else SetForwarderCursor (ok (''set:'' @ table)) db table netID (last keys))"

definition advance_cursors :: "(string \<Rightarrow> bool) \<Rightarrow> string \<Rightarrow> polled \<Rightarrow> db \<Rightarrow> db" where
  "advance_cursors ok netID b db =
     advance ok ''events'' netID (map fv_TS (p_events b))
       (advance ok ''topology'' netID (map ft_UpdatedAt (p_links b))
         (advance ok ''energy'' netID (map fe_TS (p_energy b))
           (advance ok ''metrics'' netID (map fm_TS (p_metrics b))
             (advance ok ''devices'' netID (map fd_UpdatedAt (p_devices b)) db))))"

text \<open>
  Posting the payloads, and advancing the cursors if every chunk was accepted; without a
  payload the cycle ends before the cursors.
\<close>

definition post_and_advance ::
  "(string \<Rightarrow> bool) \<Rightarrow> (string \<Rightarrow> aggResponse option) \<Rightarrow> (aggPayload \<Rightarrow> http_result list) \<Rightarrow> json_len
     \<Rightarrow> db \<Rightarrow> string \<Rightarrow> polled \<Rightarrow> aggPayload list \<Rightarrow> push_error option \<times> aggPayload list \<times> db" where
  "post_and_advance ok decode agg jl db netID b payloads =
     (if payloads = [] then (None, [], db)
      else case post_scopes decode agg jl payloads of
        (posted, Some e) \<Rightarrow> (Some (PostFailed e), posted, db)
      | (posted, None) \<Rightarrow> (None, posted, advance_cursors ok netID b db))"

text \<open>Interfaces and addresses of the devices in scope, then the payloads.\<close>

definition ship_devices ::
  "(string \<Rightarrow> bool) \<Rightarrow> (string \<Rightarrow> aggResponse option) \<Rightarrow> (aggPayload \<Rightarrow> http_result list) \<Rightarrow> json_len
     \<Rightarrow> AggregatorConfig \<Rightarrow> db \<Rightarrow> string \<Rightarrow> polled \<Rightarrow> FwdDevice list \<Rightarrow> push_error option \<times> aggPayload list \<times> db" where
  "ship_devices ok decode agg jl cfg db netID b all =
     (let ifaces = InterfacesByDeviceIDs db (map fd_ID all);
          addrs = AddressesByInterfaceIDs db (map fi_ID ifaces)
      in if all \<noteq> [] \<and> \<not> ok ''interfaces'' then (Some (QueryFailed ''interfaces''), [], db)
         else if ifaces \<noteq> [] \<and> \<not> ok ''addresses'' then (Some (QueryFailed ''addresses''), [], db)
         else post_and_advance ok decode agg jl db netID b
                (buildPayloads cfg netID all ifaces addrs (p_metrics b) (p_energy b) (p_links b) (p_events b)))"

text \<open>Everything after the queries: the extra devices, the endpoints of links, the rest.\<close>

definition ship ::
  "(string \<Rightarrow> bool) \<Rightarrow> (string \<Rightarrow> aggResponse option) \<Rightarrow> (aggPayload \<Rightarrow> http_result list) \<Rightarrow> json_len
     \<Rightarrow> AggregatorConfig \<Rightarrow> db \<Rightarrow> string \<Rightarrow> polled \<Rightarrow> push_error option \<times> aggPayload list \<times> db" where
  "ship ok decode agg jl cfg db netID b =
     (if extra_ids b \<noteq> [] \<and> \<not> ok ''extra'' then (Some (QueryFailed ''extra''), [], db)
      else
        let all = p_devices b @ DevicesByIDs db (extra_ids b)
        in if all = [] \<and> p_links b = [] \<and> p_events b = [] then (None, [], db)
           else if p_links b = [] then ship_devices ok decode agg jl cfg db netID b all
           else if link_hosts b \<noteq> [] \<and> \<not> ok ''endpoints'' then (Some (QueryFailed ''endpoints''), [], db)
           else ship_devices ok decode agg jl cfg db netID b
                  (add_unseen all (DevicesByHostnames db (net_scope cfg netID) (link_hosts b))))"

definition pushNetwork ::
  "(string \<Rightarrow> bool) \<Rightarrow> (string \<Rightarrow> aggResponse option) \<Rightarrow> (aggPayload \<Rightarrow> http_result list) \<Rightarrow> json_len
     \<Rightarrow> nat \<Rightarrow> AggregatorConfig \<Rightarrow> db \<Rightarrow> gates \<Rightarrow> string \<Rightarrow> bool \<Rightarrow> push_result" where
  "pushNetwork ok decode agg jl mi cfg db gs netID force =
     (case query_tables ok force mi cfg db netID gs of
        (Inl t, gs) \<Rightarrow> \<lparr>pr_err = Some (QueryFailed t), pr_posted = [], pr_gates = gs, pr_db = db\<rparr>
      | (Inr b, gs) \<Rightarrow>
          (case ship ok decode agg jl cfg db netID b of
             (err, posted, db') \<Rightarrow> \<lparr>pr_err = err, pr_posted = posted, pr_gates = gs, pr_db = db'\<rparr>))"

text \<open>\<open>push\<close> over the networks of the organisation, without the UI command pull.\<close>

fun push_networks where
  "push_networks ok decode agg jl mi cfg force [] st = st"
| "push_networks ok decode agg jl mi cfg force (n # ns) (db, gs, err) =
     (let r = pushNetwork (ok n) decode agg jl mi cfg db gs n force
      in push_networks ok decode agg jl mi cfg force ns
           (pr_db r, pr_gates r, if err = None then pr_err r else err))"

definition push where
  "push collate ok decode agg jl mi cfg force db gs =
     (if \<not> ok '''' ''networks'' then (db, gs, Some (QueryFailed ''networks''))
      else let nets = DistinctNetworks collate db (cfg_OrgID cfg)
           in push_networks ok decode agg jl mi cfg force (if nets = [] then [cfg_NetworkID cfg] else nets) (db, gs, None))"

section \<open>The chunks that are posted\<close>

lemma post_scope_ok: "post_scope decode agg cs = (posted, None) \<Longrightarrow> posted = cs"
  by (induction cs arbitrary: posted) (auto split: sum.splits prod.splits)

lemma post_scopes_ok:
  "post_scopes decode agg jl ps = (posted, None) \<Longrightarrow> posted = concat (map (chunkPayload jl) ps)"
  by (induction ps arbitrary: posted) (auto split: prod.splits if_splits dest!: post_scope_ok)

lemma chunk_events: "concat (map ap_Events (chunkPayload jl p)) = ap_Events p"
proof -
  obtain dev_chunks tails where c: "chunkPayload jl p = dev_chunks @ tails"
    "concat (map ap_Events tails) = ap_Events p"
    "list_all (\<lambda>c. base_of c = base_of p \<and> ap_TopologyLinks c = [] \<and> ap_Events c = []) dev_chunks"
    using chunkPayload_inv [of jl p] device_chunks_facts [of jl p]
    by (auto simp: tail_inv_def list_all_iff dev_chunk_ok_def)
  have "concat (map ap_Events dev_chunks) = []" using c(3) by (simp add: list_all_iff)
  with c(1,2) show ?thesis by simp
qed

lemma posted_events:
  "concat (map ap_Events (concat (map (chunkPayload jl) ps))) = concat (map ap_Events ps)"
  by (induction ps) (simp_all add: chunk_events)

lemma built_events:
  "set (concat (map ap_Events (buildPayloads cfg netID ds ifaces addrs ms es ls vs))) = aggEvent_of ` set vs"
proof -
  have "set (buildPayloads cfg netID ds ifaces addrs ms es ls vs)
      = payload_for cfg netID ds ifaces addrs ms es ls vs ` (device_scope cfg ` set ds \<union> event_scope cfg ` set vs)"
    by (rule set_buildPayloads)
  then show ?thesis by (auto simp: payload_for_def)
qed

definition retryable :: "http_result \<Rightarrow> bool" where
  "retryable r = (case r of NetError \<Rightarrow> True | CtxDone \<Rightarrow> False
     | Http s _ \<Rightarrow> (s < 200 \<or> s \<ge> 300) \<and> \<not> (s \<ge> 400 \<and> s < 500))"

definition accepts :: "(string \<Rightarrow> aggResponse option) \<Rightarrow> http_result \<Rightarrow> aggResponse \<Rightarrow> bool" where
  "accepts decode r ar = (case r of Http s body \<Rightarrow> 200 \<le> s \<and> s < 300 \<and> decode body = Some ar \<and> Success ar | _ \<Rightarrow> False)"

lemma ex_nat_split: "(\<exists>i :: nat. P i) \<longleftrightarrow> P 0 \<or> (\<exists>i. P (Suc i))"
  by (metis not0_implies_Suc)

lemma post_attempts_iff:
  "post_attempts decode n rs = Inr ar \<longleftrightarrow>
     (\<exists>i. i < length rs \<and> list_all retryable (take i rs) \<and> accepts decode (rs ! i) ar)"
proof (induction rs arbitrary: n)
  case (Cons r rs)
  have "(\<exists>i. i < length (r # rs) \<and> list_all retryable (take i (r # rs)) \<and> accepts decode ((r # rs) ! i) ar)
      \<longleftrightarrow> accepts decode r ar \<or> (retryable r \<and> (\<exists>i. i < length rs \<and> list_all retryable (take i rs) \<and> accepts decode (rs ! i) ar))"
    by (subst ex_nat_split) auto
  moreover have "post_attempts decode n (r # rs) = Inr ar \<longleftrightarrow>
      accepts decode r ar \<or> (retryable r \<and> post_attempts decode (Suc n) rs = Inr ar)"
    by (cases r) (auto simp: retryable_def accepts_def split: option.splits)
  ultimately show ?case using Cons.IH by blast
qed simp

section \<open>The gates\<close>

datatype gate_op = GShould string string | GRecord string string bool

fun gate_run :: "nat \<Rightarrow> gates \<Rightarrow> gate_op \<Rightarrow> gates" where
  "gate_run mi gs (GShould t n) = snd (shouldPoll mi t n gs)"
| "gate_run mi gs (GRecord t n found) = recordPoll mi t n found gs"

text \<open>Successive ticks on a table whose query stays empty: whether each one queried it.\<close>

fun drained_ticks :: "nat \<Rightarrow> nat \<Rightarrow> string \<Rightarrow> string \<Rightarrow> gates \<Rightarrow> bool list" where
  "drained_ticks 0 mi t n gs = []"
| "drained_ticks (Suc k) mi t n gs =
     (case shouldPoll mi t n gs of (go, gs) \<Rightarrow>
        go # drained_ticks k mi t n (if go then recordPoll mi t n False gs else gs))"

definition gates_ok :: "nat \<Rightarrow> gates \<Rightarrow> bool" where
  "gates_ok mi gs \<longleftrightarrow> (\<forall>k. skipLeft (gate_of gs k) \<le> mi)"

lemma gate_of_upd [simp]: "gate_of (gs(k \<mapsto> g)) k' = (if k' = k then g else gate_of gs k')"
  by (simp add: gate_of_def)

lemma gate_run_ok: "gates_ok mi gs \<Longrightarrow> gates_ok mi (gate_run mi gs op)"
proof (cases op)
  case (GShould t n)
  assume ok: "gates_ok mi gs"
  then have "skipLeft (gate_of gs k) - 1 \<le> mi" for k
    unfolding gates_ok_def using diff_le_self le_trans by blast
  with ok GShould show ?thesis by (cases "mi = 0") (simp_all add: gates_ok_def shouldPoll_def Let_def)
next
  case (GRecord t n found)
  assume "gates_ok mi gs"
  with GRecord show ?thesis by (cases "mi = 0") (simp_all add: gates_ok_def recordPoll_def Let_def)
qed

lemma drained_polls:
  "skipLeft (gate_of gs (gate_key t n)) < k \<Longrightarrow> True \<in> set (drained_ticks k mi t n gs)"
proof (induction k arbitrary: gs)
  case (Suc k)
  show ?case
  proof (cases "mi = 0 \<or> skipLeft (gate_of gs (gate_key t n)) = 0")
    case True
    then show ?thesis by (auto simp: shouldPoll_def Let_def)
  next
    case False
    let ?g = "gate_of gs (gate_key t n)"
    have "True \<in> set (drained_ticks k mi t n (gs(gate_key t n \<mapsto> ?g\<lparr>skipLeft := skipLeft ?g - 1\<rparr>)))"
      by (rule Suc.IH) (use Suc.prems False in \<open>auto simp del: fun_upd_apply\<close>)
    with False show ?thesis by (auto simp: shouldPoll_def Let_def)
  qed
qed simp

section \<open>Cursors after a push\<close>

lemma cursor_set:
  "GetForwarderCursor True (SetForwarderCursor c db t n x) t' n' =
     (if c \<and> (t', n') = (t, n) then x else GetForwarderCursor True db t' n')"
proof -
  have "map_of (filter (\<lambda>e. fst e \<noteq> k) xs) k' = (if k' = k then None else map_of xs k')" for k k' :: "string \<times> string" and xs :: "((string \<times> string) \<times> int) list"
    by (induction xs) auto
  then show ?thesis by (simp add: GetForwarderCursor_def SetForwarderCursor_def)
qed

lemma cursor_advance:
  "GetForwarderCursor True (advance ok t n keys db) t' n' =
     (if keys \<noteq> [] \<and> ok (''set:'' @ t) \<and> (t', n') = (t, n) then last keys else GetForwarderCursor True db t' n')"
  by (simp add: advance_def cursor_set)

lemma post_and_advance_cases:
  "(\<exists>e posted. post_and_advance ok decode agg jl db netID b ps = (Some (PostFailed e), posted, db))
   \<or> ps = [] \<and> post_and_advance ok decode agg jl db netID b ps = (None, [], db)
   \<or> (post_scopes decode agg jl ps = (concat (map (chunkPayload jl) ps), None)
      \<and> post_and_advance ok decode agg jl db netID b ps
          = (None, concat (map (chunkPayload jl) ps), advance_cursors ok netID b db))"
proof (cases "post_scopes decode agg jl ps")
  case (Pair posted err)
  then show ?thesis using post_scopes_ok [of decode agg jl ps posted]
    by (cases err) (simp_all add: post_and_advance_def)
qed

lemma ship_cases:
  "(\<exists>e posted. ship ok decode agg jl cfg db netID b = (Some e, posted, db))
   \<or> (p_events b = [] \<and> ship ok decode agg jl cfg db netID b = (None, [], db))
   \<or> (\<exists>ds ifaces addrs. ship ok decode agg jl cfg db netID b =
        (None, concat (map (chunkPayload jl) (buildPayloads cfg netID ds ifaces addrs (p_metrics b) (p_energy b) (p_links b) (p_events b))),
         advance_cursors ok netID b db))"
    (is "?F \<or> ?E \<or> ?S")
proof -
  have sd: "(\<exists>e posted. ship_devices ok decode agg jl cfg db netID b all = (Some e, posted, db))
    \<or> (p_events b = [] \<and> ship_devices ok decode agg jl cfg db netID b all = (None, [], db))
    \<or> (\<exists>ifaces addrs. ship_devices ok decode agg jl cfg db netID b all =
        (None, concat (map (chunkPayload jl) (buildPayloads cfg netID all ifaces addrs (p_metrics b) (p_energy b) (p_links b) (p_events b))),
         advance_cursors ok netID b db))" for all
  proof -
    let ?ifaces = "InterfacesByDeviceIDs db (map fd_ID all)"
    let ?ps = "buildPayloads cfg netID all ?ifaces (AddressesByInterfaceIDs db (map fi_ID ?ifaces))
      (p_metrics b) (p_energy b) (p_links b) (p_events b)"
    have "(\<exists>e. ship_devices ok decode agg jl cfg db netID b all = (Some e, [], db))
      \<or> ship_devices ok decode agg jl cfg db netID b all = post_and_advance ok decode agg jl db netID b ?ps"
      unfolding ship_devices_def Let_def by (simp split: if_split)
    moreover have "p_events b = []" if "?ps = []"
      using built_events [of cfg netID all ?ifaces "AddressesByInterfaceIDs db (map fi_ID ?ifaces)"
        "p_metrics b" "p_energy b" "p_links b" "p_events b"] that by simp
    ultimately show ?thesis using post_and_advance_cases [of ok decode agg jl db netID b ?ps] by metis
  qed
  let ?all = "p_devices b @ DevicesByIDs db (extra_ids b)"
  let ?hosts = "DevicesByHostnames db (net_scope cfg netID) (link_hosts b)"
  have "(\<exists>e. ship ok decode agg jl cfg db netID b = (Some e, [], db)) \<or> ?E
    \<or> ship ok decode agg jl cfg db netID b = ship_devices ok decode agg jl cfg db netID b ?all
    \<or> ship ok decode agg jl cfg db netID b = ship_devices ok decode agg jl cfg db netID b (add_unseen ?all ?hosts)"
    unfolding ship_def Let_def by (simp split: if_split)
  then show ?thesis using sd [of ?all] sd [of "add_unseen ?all ?hosts"] by metis
qed

section \<open>Properties\<close>

text \<open>
  C1. At least once: a cycle that reports any error, a failed query, a network
  failure after three attempts, a rejection or a cancelled context, leaves every
  cursor as it was, so the next cycle starts from the same rows.
\<close>

theorem failed_push_keeps_cursors:
  "pr_err (pushNetwork ok decode agg jl mi cfg db gs netID force) = None
   \<or> pr_db (pushNetwork ok decode agg jl mi cfg db gs netID force) = db"
proof (cases "query_tables ok force mi cfg db netID gs")
  case (Pair r gs')
  show ?thesis
  proof (cases r)
    case (Inl t)
    with Pair show ?thesis by (simp add: pushNetwork_def)
  next
    case (Inr b)
    from ship_cases [of ok decode agg jl cfg db netID b]
    have "fst (ship ok decode agg jl cfg db netID b) = None \<or> snd (snd (ship ok decode agg jl cfg db netID b)) = db"
      by auto
    with Pair Inr show ?thesis by (auto simp: pushNetwork_def split: prod.splits)
  qed
qed

text \<open>
  A cycle that succeeds has posted every event it queried, in a chunk of the
  event's scope, and moves the event cursor exactly to the last of them; the other
  cursors move to the last row of their query, or stay when it returned nothing.
\<close>

theorem successful_push_ships_events:
  assumes "query_tables ok force mi cfg db netID gs = (Inr b, gs')"
    and "pr_err (pushNetwork ok decode agg jl mi cfg db gs netID force) = None"
    and "ok ''set:events''" and "p_events b \<noteq> []"
  shows "set (concat (map ap_Events (pr_posted (pushNetwork ok decode agg jl mi cfg db gs netID force))))
      = aggEvent_of ` set (p_events b)
    \<and> GetForwarderCursor True (pr_db (pushNetwork ok decode agg jl mi cfg db gs netID force)) ''events'' netID
      = fv_TS (last (p_events b))"
proof -
  obtain posted db' where s: "ship ok decode agg jl cfg db netID b = (None, posted, db')"
    using assms(1,2) by (cases "ship ok decode agg jl cfg db netID b") (auto simp: pushNetwork_def)
  then have r: "pr_posted (pushNetwork ok decode agg jl mi cfg db gs netID force) = posted"
    "pr_db (pushNetwork ok decode agg jl mi cfg db gs netID force) = db'"
    using assms(1) by (simp_all add: pushNetwork_def)
  obtain ds ifaces addrs where p: "posted = concat (map (chunkPayload jl)
      (buildPayloads cfg netID ds ifaces addrs (p_metrics b) (p_energy b) (p_links b) (p_events b)))"
    and db': "db' = advance_cursors ok netID b db"
    using s assms(4) ship_cases [of ok decode agg jl cfg db netID b] by auto
  have "set (concat (map ap_Events posted)) = aggEvent_of ` set (p_events b)"
    unfolding p posted_events by (rule built_events)
  moreover have "GetForwarderCursor True db' ''events'' netID = fv_TS (last (p_events b))"
    using assms(3,4) by (simp add: db' advance_cursors_def cursor_advance last_map)
  ultimately show ?thesis by (simp add: r)
qed

definition sample_event :: "string \<Rightarrow> string option \<Rightarrow> int \<Rightarrow> event_row" where
  "sample_event i d t =
     \<lparr>e_id = i, e_device_id = d, e_source_hostname = None, e_src_port_name = None, e_dst_device_id = None,
      e_dst_hostname = None, e_dst_port_name = None, e_link_id = None, e_ts = t, e_kind = ''trap'',
      e_event_name = ''coldStart'', e_severity = ''minor'', e_trap_oid = None, e_source_ip = None,
      e_event_payload = None, e_collector_agent = ''EDR''\<rparr>"

definition sample_push_db :: db where
  "sample_push_db = empty_db\<lparr>devices := [sample_device ''a'' ''A''], events := [sample_event ''e1'' (Some ''a'') 7]\<rparr>"

definition sample_cfg :: AggregatorConfig where
  "sample_cfg = \<lparr>cfg_OrgID = ''o'', cfg_NetworkID = ''n'', cfg_GroupID = ''g'', cfg_DefaultDatacenterID = '''',
     cfg_DefaultFloorID = '''', cfg_IntervalMs = 5000, cfg_IdleIntervalMs = 60000, cfg_EventDebounceMs = 0,
     cfg_BatchLimit = 2\<rparr>"

definition sample_len :: json_len where
  "sample_len = \<lparr>jl_dev = (\<lambda>_. 100), jl_met = (\<lambda>_. 10), jl_en = (\<lambda>_. 10), jl_link = (\<lambda>_. 10), jl_ev = (\<lambda>_. 10)\<rparr>"

definition sample_ok :: "string \<Rightarrow> aggResponse option" where
  "sample_ok s = Some \<lparr>Success = True, Message = '''', IngestedDevices = 1, IngestedTopologyLinks = 0, IngestedEvents = 1\<rparr>"

theorem successful_push_ships_events_witness:
  "GetForwarderCursor True (pr_db (pushNetwork (\<lambda>_. True) sample_ok (\<lambda>_. [NetError, Http 200 ''{}'']) sample_len 11
      sample_cfg sample_push_db Map.empty ''n'' False)) ''events'' ''n'' = 7"
proof -
  let ?q = "query_tables (\<lambda>_. True) False 11 sample_cfg sample_push_db ''n'' Map.empty"
  have "case fst ?q of Inl _ \<Rightarrow> False | Inr b \<Rightarrow> map fv_TS (p_events b) = [7]" by code_simp
  then obtain b gs where b: "?q = (Inr b, gs)" "map fv_TS (p_events b) = [7]"
    by (cases ?q) (auto split: sum.splits)
  have e: "pr_err (pushNetwork (\<lambda>_. True) sample_ok (\<lambda>_. [NetError, Http 200 ''{}'']) sample_len 11
      sample_cfg sample_push_db Map.empty ''n'' False) = None" by code_simp
  have "p_events b \<noteq> []" using b(2) by auto
  from successful_push_ships_events [OF b(1) e _ this] have
    "GetForwarderCursor True (pr_db (pushNetwork (\<lambda>_. True) sample_ok (\<lambda>_. [NetError, Http 200 ''{}'']) sample_len 11
      sample_cfg sample_push_db Map.empty ''n'' False)) ''events'' ''n'' = fv_TS (last (p_events b))" by simp
  also have "\<dots> = last (map fv_TS (p_events b))" using \<open>p_events b \<noteq> []\<close> by (simp add: last_map)
  finally show ?thesis by (simp add: b(2))
qed

text \<open>
  The back-off of a drained table is bounded: whatever happened before, among
  any \<open>maxIdleSkips + 1\<close> consecutive ticks at least one queries it, and the cap that
  \<open>New\<close> derives keeps that many ticks within the idle interval.
\<close>

theorem drained_table_is_polled:
  "True \<in> set (drained_ticks (Suc (new_maxIdleSkips cfg)) (new_maxIdleSkips cfg) table netID
      (foldl (gate_run (new_maxIdleSkips cfg)) Map.empty ops))
   \<and> (new_maxIdleSkips cfg = 0 \<or>
      int (Suc (new_maxIdleSkips cfg)) * (if cfg_IntervalMs cfg \<le> 0 then 5000 else cfg_IntervalMs cfg) \<le> cfg_IdleIntervalMs cfg)"
proof
  let ?mi = "new_maxIdleSkips cfg"
  have "gates_ok ?mi Map.empty" by (simp add: gates_ok_def gate_of_def)
  then have "gates_ok ?mi (foldl (gate_run ?mi) Map.empty ops)"
    by (induction ops rule: rev_induct) (simp_all add: gate_run_ok)
  then show "True \<in> set (drained_ticks (Suc ?mi) ?mi table netID (foldl (gate_run ?mi) Map.empty ops))"
    by (intro drained_polls) (simp add: gates_ok_def less_Suc_eq_le)
  let ?i = "if cfg_IntervalMs cfg \<le> 0 then 5000 else cfg_IntervalMs cfg"
  show "?mi = 0 \<or> int (Suc ?mi) * ?i \<le> cfg_IdleIntervalMs cfg"
  proof (cases "cfg_IdleIntervalMs cfg > ?i")
    case True
    have pos: "0 < ?i" by simp
    then have "1 \<le> cfg_IdleIntervalMs cfg div ?i" using True by (simp only: pos_imp_zdiv_pos_iff int_one_le_iff_zero_less)
    then have "int (Suc ?mi) = cfg_IdleIntervalMs cfg div ?i"
      using True by (simp only: new_maxIdleSkips_def Let_def if_True)
    moreover have "cfg_IdleIntervalMs cfg div ?i * ?i \<le> cfg_IdleIntervalMs cfg"
      using div_mult_mod_eq [of "cfg_IdleIntervalMs cfg" ?i] pos_mod_sign [OF pos, of "cfg_IdleIntervalMs cfg"] by linarith
    ultimately show ?thesis by (simp only: disjI2)
  next
    case False
    then show ?thesis by (simp only: new_maxIdleSkips_def Let_def if_False simp_thms)
  qed
qed

text \<open>
  A POST succeeds exactly if one of its first three attempts gets a 2xx answer
  that decodes and reports success, with only network errors and retryable statuses
  (not 4xx, no cancellation) in front of it.
\<close>

theorem postWithRetry_iff:
  "postWithRetry decode outcomes = Inr ar \<longleftrightarrow>
     (\<exists>i. i < 3 \<and> i < length outcomes \<and> list_all retryable (take i outcomes) \<and> accepts decode (outcomes ! i) ar)"
proof -
  have "i < length (take 3 outcomes) \<and> list_all retryable (take i (take 3 outcomes)) \<and> accepts decode (take 3 outcomes ! i) ar
    \<longleftrightarrow> i < 3 \<and> i < length outcomes \<and> list_all retryable (take i outcomes) \<and> accepts decode (outcomes ! i) ar" for i
    by (auto simp: min_def)
  then show ?thesis unfolding postWithRetry_def post_attempts_iff by simp
qed

end
