(* ===== verification/Device_Store.thy ===== *)
theory Device_Store
  imports Store_Schema
begin

text \<open>
  Device rows in \<open>fwDCS/internal/store/timescale.go\<close>: \<open>UpsertDevice\<close> with its two
  statements, the rename event, and the lookups by source, host name and address.
  \<open>inet\<close> is the server's INET parser (\<open>None\<close>: the cast fails), \<open>marshal_map\<close> is
  \<open>json.Marshal\<close> of a map, \<open>now\<close> the statement time, \<open>newid\<close> and \<open>evid\<close> the identifiers
  the server generates. The unique index on the identity columns is checked after
  an UPDATE.
\<close>

datatype db_error = ErrCast | ErrUnique | ErrForeignKey | ErrIO

section \<open>Helpers\<close>

definition nilIfEmpty :: "string \<Rightarrow> string option" where
  "nilIfEmpty s = (if s = '''' then None else Some s)"

definition atoi :: "string \<Rightarrow> int" where
  "atoi s = (if s = '''' then 0 else atoi_or s)"

definition nilIfZeroInt :: "int \<Rightarrow> int option" where
  "nilIfZeroInt v = (if v = 0 then None else Some v)"

definition collectorAgentFromReaderID :: "string \<Rightarrow> string" where
  "collectorAgentFromReaderID r =
     (if has_prefix r ''idr-'' then ''IDR'' else if has_prefix r ''edr-'' then ''EDR'' else ''EDR'')"

section \<open>The arguments of the statements\<close>

record dev_args =
  x_org_id :: string
  x_datacenter_id :: string
  x_floor_id :: string
  x_network_id :: string
  x_group_id :: string
  x_hostname :: string
  x_device_type :: string
  x_vendor :: string
  x_model_name :: string
  x_os_name :: string
  x_os_version :: string
  x_sys_description :: string
  x_mgmt_ip :: "string option"
  x_prod_ip :: "string option"
  x_loopback_ip :: "string option"
  x_oob_ip :: "string option"
  x_snmp_enabled :: bool
  x_gnmi_enabled :: bool
  x_collector_agent :: string
  x_country :: string
  x_datacenter_city :: string
  x_datacenter :: string
  x_room :: string
  x_rack_row :: "int option"
  x_rack_num :: "int option"
  x_rack_unit :: "int option"

text \<open>\<open>NULLIF(x,'')::INET\<close> and \<open>x::SMALLINT\<close>; the outer \<open>None\<close> is a failed cast.\<close>

definition cast_inet :: "(string \<Rightarrow> string option) \<Rightarrow> string \<Rightarrow> string option option" where
  "cast_inet inet s = (if s = '''' then Some None else map_option Some (inet s))"

definition smallint_ok :: "int option \<Rightarrow> bool" where
  "smallint_ok v = (case v of None \<Rightarrow> True | Some x \<Rightarrow> - 32768 \<le> x \<and> x \<le> 32767)"

definition int4_ok :: "int \<Rightarrow> bool" where
  "int4_ok v \<longleftrightarrow> - 2147483648 \<le> v \<and> v \<le> 2147483647"

definition int4_opt :: "int option \<Rightarrow> bool" where
  "int4_opt v = (case v of None \<Rightarrow> True | Some x \<Rightarrow> int4_ok x)"

definition upsert_hostname :: "TelemetryPacket \<Rightarrow> string" where
  "upsert_hostname pkt = or_default (get (Meta pkt) ''hostname'') (SourceId pkt)"

definition dev_args_of :: "(string \<Rightarrow> string option) \<Rightarrow> TelemetryPacket \<Rightarrow> dev_args option" where
  "dev_args_of inet pkt =
     (let m = get (Meta pkt); proto = m ''collector_protocol'';
          row = nilIfZeroInt (atoi (m ''rack_row'')); num = nilIfZeroInt (atoi (m ''rack_num''));
          unit = nilIfZeroInt (atoi (m ''rack_unit''))
      in case (cast_inet inet (m ''mgmt_ip''), cast_inet inet (m ''prod_ip''),
               cast_inet inet (m ''loopback_ip''), cast_inet inet (m ''oob_ip'')) of
           (Some mg, Some pr, Some lo, Some oob) \<Rightarrow>
             if smallint_ok row \<and> smallint_ok num \<and> smallint_ok unit then
               Some \<lparr>x_org_id = OrgId pkt, x_datacenter_id = DatacenterId pkt, x_floor_id = FloorId pkt,
                     x_network_id = NetworkId pkt, x_group_id = GroupId pkt, x_hostname = upsert_hostname pkt,
                     x_device_type = or_default (m ''device_type'') ''server'', x_vendor = m ''vendor'',
                     x_model_name = m ''model_name'', x_os_name = m ''os_name'', x_os_version = m ''platform_version'',
                     x_sys_description = m ''sys_description'', x_mgmt_ip = mg, x_prod_ip = pr, x_loopback_ip = lo,
                     x_oob_ip = oob, x_snmp_enabled = (proto = ''SNMP'' \<or> m ''snmp_enabled'' = ''true''),
                     x_gnmi_enabled = (proto = ''GNMI'' \<or> m ''gnmi_enabled'' = ''true''),
                     x_collector_agent = or_default (m ''collector_agent'') (collectorAgentFromReaderID (ReaderId pkt)),
                     x_country = m ''country'', x_datacenter_city = m ''datacenter_city'', x_datacenter = m ''datacenter'',
                     x_room = m ''room'', x_rack_row = row, x_rack_num = num, x_rack_unit = unit\<rparr>
             else None
         | _ \<Rightarrow> None)"

section \<open>UPDATE by management address\<close>

text \<open>The columns that the statement assigns and tracks, with their new values.\<close>

definition update_tracked :: "dev_args \<Rightarrow> device_row \<Rightarrow> device_row" where
  "update_tracked a d = d\<lparr>d_hostname := x_hostname a,
     d_device_type := x_device_type a,
     d_vendor := coalesce (nullif (x_vendor a)) (d_vendor d),
     d_model_name := coalesce (nullif (x_model_name a)) (d_model_name d),
     d_os_name := coalesce (nullif (x_os_name a)) (d_os_name d),
     d_os_version := coalesce (nullif (x_os_version a)) (d_os_version d),
     d_sys_description := coalesce (nullif (x_sys_description a)) (d_sys_description d),
     d_prod_ip := coalesce (x_prod_ip a) (d_prod_ip d),
     d_loopback_ip := coalesce (x_loopback_ip a) (d_loopback_ip d),
     d_oob_ip := coalesce (x_oob_ip a) (d_oob_ip d),
     d_snmp_enabled := (x_snmp_enabled a \<or> d_snmp_enabled d),
     d_gnmi_enabled := (x_gnmi_enabled a \<or> d_gnmi_enabled d),
     d_collector_agent := x_collector_agent a,
     d_country := coalesce (nullif (x_country a)) (d_country d),
     d_datacenter_city := coalesce (nullif (x_datacenter_city a)) (d_datacenter_city d),
     d_datacenter := coalesce (nullif (x_datacenter a)) (d_datacenter d),
     d_room := coalesce (nullif (x_room a)) (d_room d),
     d_rack_row := coalesce (x_rack_row a) (d_rack_row d),
     d_rack_num := coalesce (x_rack_num a) (d_rack_num d),
     d_rack_unit := coalesce (x_rack_unit a) (d_rack_unit d),
     d_datacenter_id := or_default (x_datacenter_id a) (d_datacenter_id d),
     d_floor_id := or_default (x_floor_id a) (d_floor_id d),
     d_network_id := or_default (x_network_id a) (d_network_id d),
     d_group_id := or_default (x_group_id a) (d_group_id d)\<rparr>"

text \<open>The condition of the CASE on \<open>updated_at\<close>.\<close>

definition update_changes :: "dev_args \<Rightarrow> device_row \<Rightarrow> bool" where
  "update_changes a d \<longleftrightarrow>
     d_hostname d \<noteq> x_hostname a \<or>
     d_device_type d \<noteq> x_device_type a \<or>
     d_vendor d \<noteq> coalesce (nullif (x_vendor a)) (d_vendor d) \<or>
     d_model_name d \<noteq> coalesce (nullif (x_model_name a)) (d_model_name d) \<or>
     d_os_name d \<noteq> coalesce (nullif (x_os_name a)) (d_os_name d) \<or>
     d_os_version d \<noteq> coalesce (nullif (x_os_version a)) (d_os_version d) \<or>
     d_sys_description d \<noteq> coalesce (nullif (x_sys_description a)) (d_sys_description d) \<or>
     d_prod_ip d \<noteq> coalesce (x_prod_ip a) (d_prod_ip d) \<or>
     d_loopback_ip d \<noteq> coalesce (x_loopback_ip a) (d_loopback_ip d) \<or>
     d_oob_ip d \<noteq> coalesce (x_oob_ip a) (d_oob_ip d) \<or>
     d_snmp_enabled d \<noteq> (x_snmp_enabled a \<or> d_snmp_enabled d) \<or>
     d_gnmi_enabled d \<noteq> (x_gnmi_enabled a \<or> d_gnmi_enabled d) \<or>
     d_collector_agent d \<noteq> x_collector_agent a \<or>
     d_country d \<noteq> coalesce (nullif (x_country a)) (d_country d) \<or>
     d_datacenter_city d \<noteq> coalesce (nullif (x_datacenter_city a)) (d_datacenter_city d) \<or>
     d_datacenter d \<noteq> coalesce (nullif (x_datacenter a)) (d_datacenter d) \<or>
     d_room d \<noteq> coalesce (nullif (x_room a)) (d_room d) \<or>
     d_rack_row d \<noteq> coalesce (x_rack_row a) (d_rack_row d) \<or>
     d_rack_num d \<noteq> coalesce (x_rack_num a) (d_rack_num d) \<or>
     d_rack_unit d \<noteq> coalesce (x_rack_unit a) (d_rack_unit d) \<or>
     d_datacenter_id d \<noteq> or_default (x_datacenter_id a) (d_datacenter_id d) \<or>
     d_floor_id d \<noteq> or_default (x_floor_id a) (d_floor_id d) \<or>
     d_network_id d \<noteq> or_default (x_network_id a) (d_network_id d) \<or>
     d_group_id d \<noteq> or_default (x_group_id a) (d_group_id d)"

definition update_device :: "int \<Rightarrow> dev_args \<Rightarrow> device_row \<Rightarrow> device_row" where
  "update_device now a d =
     (update_tracked a d)\<lparr>d_is_reachable := True, d_last_seen_at := Some now,
        d_updated_at := (if update_changes a d then now else d_updated_at d)\<rparr>"

section \<open>INSERT ... ON CONFLICT\<close>

definition insert_device :: "int \<Rightarrow> string \<Rightarrow> dev_args \<Rightarrow> device_row" where
  "insert_device now newid a =
     \<lparr>d_id = newid, d_org_id = x_org_id a, d_datacenter_id = x_datacenter_id a, d_floor_id = x_floor_id a, d_network_id = x_network_id a, d_group_id = x_group_id a,
      d_hostname = x_hostname a, d_device_type = x_device_type a,
      d_vendor = Some (x_vendor a), d_model_name = Some (x_model_name a), d_os_name = Some (x_os_name a),
      d_os_version = Some (x_os_version a), d_sys_oid = None, d_sys_description = Some (x_sys_description a), d_sys_location = None,
      d_mgmt_ip = x_mgmt_ip a, d_prod_ip = x_prod_ip a, d_loopback_ip = x_loopback_ip a, d_oob_ip = x_oob_ip a,
      d_snmp_enabled = x_snmp_enabled a, d_gnmi_enabled = x_gnmi_enabled a, d_snmp_port = 161, d_snmp_version = 2,
      d_gnmi_port = 57400, d_collector_agent = x_collector_agent a,
      d_country = nullif (x_country a), d_datacenter_city = nullif (x_datacenter_city a), d_datacenter = nullif (x_datacenter a), d_room = nullif (x_room a),
      d_rack_row = x_rack_row a, d_rack_num = x_rack_num a, d_rack_unit = x_rack_unit a,
      d_power_draw_w = None, d_power_state = None, d_device_role = None, d_role_confidence = None,
      d_role_source = None, d_role_overridden = False, d_is_reachable = True,
      d_updated_at = now, d_last_seen_at = Some now\<rparr>"

definition conflict_tracked :: "dev_args \<Rightarrow> device_row \<Rightarrow> device_row" where
  "conflict_tracked a d = d\<lparr>d_device_type := x_device_type a,
     d_os_name := coalesce (nullif (x_os_name a)) (d_os_name d),
     d_os_version := coalesce (nullif (x_os_version a)) (d_os_version d),
     d_sys_description := coalesce (nullif (x_sys_description a)) (d_sys_description d),
     d_model_name := coalesce (nullif (x_model_name a)) (d_model_name d),
     d_vendor := coalesce (nullif (x_vendor a)) (d_vendor d),
     d_mgmt_ip := coalesce (x_mgmt_ip a) (d_mgmt_ip d),
     d_prod_ip := coalesce (x_prod_ip a) (d_prod_ip d),
     d_loopback_ip := coalesce (x_loopback_ip a) (d_loopback_ip d),
     d_oob_ip := coalesce (x_oob_ip a) (d_oob_ip d),
     d_country := coalesce (nullif (x_country a)) (d_country d),
     d_datacenter_city := coalesce (nullif (x_datacenter_city a)) (d_datacenter_city d),
     d_datacenter := coalesce (nullif (x_datacenter a)) (d_datacenter d),
     d_room := coalesce (nullif (x_room a)) (d_room d),
     d_rack_row := coalesce (x_rack_row a) (d_rack_row d),
     d_rack_num := coalesce (x_rack_num a) (d_rack_num d),
     d_rack_unit := coalesce (x_rack_unit a) (d_rack_unit d),
     d_collector_agent := x_collector_agent a,
     d_snmp_enabled := (x_snmp_enabled a \<or> d_snmp_enabled d),
     d_gnmi_enabled := (x_gnmi_enabled a \<or> d_gnmi_enabled d)\<rparr>"

definition conflict_changes :: "dev_args \<Rightarrow> device_row \<Rightarrow> bool" where
  "conflict_changes a d \<longleftrightarrow>
     d_device_type d \<noteq> x_device_type a \<or>
     d_os_name d \<noteq> coalesce (nullif (x_os_name a)) (d_os_name d) \<or>
     d_os_version d \<noteq> coalesce (nullif (x_os_version a)) (d_os_version d) \<or>
     d_sys_description d \<noteq> coalesce (nullif (x_sys_description a)) (d_sys_description d) \<or>
     d_model_name d \<noteq> coalesce (nullif (x_model_name a)) (d_model_name d) \<or>
     d_vendor d \<noteq> coalesce (nullif (x_vendor a)) (d_vendor d) \<or>
     d_mgmt_ip d \<noteq> coalesce (x_mgmt_ip a) (d_mgmt_ip d) \<or>
     d_prod_ip d \<noteq> coalesce (x_prod_ip a) (d_prod_ip d) \<or>
     d_loopback_ip d \<noteq> coalesce (x_loopback_ip a) (d_loopback_ip d) \<or>
     d_oob_ip d \<noteq> coalesce (x_oob_ip a) (d_oob_ip d) \<or>
     d_country d \<noteq> coalesce (nullif (x_country a)) (d_country d) \<or>
     d_datacenter_city d \<noteq> coalesce (nullif (x_datacenter_city a)) (d_datacenter_city d) \<or>
     d_datacenter d \<noteq> coalesce (nullif (x_datacenter a)) (d_datacenter d) \<or>
     d_room d \<noteq> coalesce (nullif (x_room a)) (d_room d) \<or>
     d_rack_row d \<noteq> coalesce (x_rack_row a) (d_rack_row d) \<or>
     d_rack_num d \<noteq> coalesce (x_rack_num a) (d_rack_num d) \<or>
     d_rack_unit d \<noteq> coalesce (x_rack_unit a) (d_rack_unit d) \<or>
     d_collector_agent d \<noteq> x_collector_agent a \<or>
     d_snmp_enabled d \<noteq> (x_snmp_enabled a \<or> d_snmp_enabled d) \<or>
     d_gnmi_enabled d \<noteq> (x_gnmi_enabled a \<or> d_gnmi_enabled d)"

definition conflict_device :: "int \<Rightarrow> dev_args \<Rightarrow> device_row \<Rightarrow> device_row" where
  "conflict_device now a d =
     (conflict_tracked a d)\<lparr>d_is_reachable := True, d_last_seen_at := Some now,
        d_updated_at := (if conflict_changes a d then now else d_updated_at d)\<rparr>"

definition identity :: "device_row \<Rightarrow> string list" where
  "identity d = [d_org_id d, d_datacenter_id d, d_floor_id d, d_network_id d, d_group_id d, d_hostname d]"

definition args_identity :: "dev_args \<Rightarrow> string list" where
  "args_identity a = [x_org_id a, x_datacenter_id a, x_floor_id a, x_network_id a, x_group_id a, x_hostname a]"

definition insert_or_update :: "int \<Rightarrow> string \<Rightarrow> dev_args \<Rightarrow> device_row list \<Rightarrow> device_row list" where
  "insert_or_update now newid a ds =
     (if args_identity a \<in> set (map identity ds)
      then map (\<lambda>d. if identity d = args_identity a then conflict_device now a d else d) ds
      else ds @ [insert_device now newid a])"

section \<open>UpsertDevice\<close>

definition mgmt_match :: "dev_args \<Rightarrow> device_row \<Rightarrow> bool" where
  "mgmt_match a d \<longleftrightarrow> d_org_id d = x_org_id a \<and> x_mgmt_ip a \<noteq> None \<and> d_mgmt_ip d = x_mgmt_ip a"

text \<open>\<open>recordHostnameChange\<close>; \<open>ok\<close> is whether the INSERT succeeds. The flag is the event hook.\<close>

definition recordHostnameChange ::
  "((string \<times> string) list \<Rightarrow> string) \<Rightarrow> bool \<Rightarrow> int \<Rightarrow> string \<Rightarrow> string \<Rightarrow> string \<Rightarrow> string \<Rightarrow> string option
     \<Rightarrow> string \<Rightarrow> db \<Rightarrow> db \<times> bool" where
  "recordHostnameChange marshal_map ok now evid deviceID oldName newName mgmtIP agent db =
     (if ok then
        (db\<lparr>events := events db @ [\<lparr>e_id = evid, e_device_id = Some deviceID, e_source_hostname = Some newName,
            e_src_port_name = None, e_dst_device_id = None, e_dst_hostname = None, e_dst_port_name = None,
            e_link_id = None, e_ts = now, e_kind = ''device_change'', e_event_name = ''hostname_changed'',
            e_severity = ''informational'', e_trap_oid = None, e_source_ip = mgmtIP,
            e_event_payload = Some (marshal_map [(''field'', ''hostname''), (''old'', oldName), (''new'', newName)]),
            e_collector_agent = agent\<rparr>]\<rparr>, True)
      else (db, False))"

definition UpsertDevice ::
  "(string \<Rightarrow> string option) \<Rightarrow> ((string \<times> string) list \<Rightarrow> string) \<Rightarrow> bool \<Rightarrow> int \<Rightarrow> string \<Rightarrow> string
     \<Rightarrow> TelemetryPacket \<Rightarrow> db \<Rightarrow> db_error option \<times> db \<times> bool" where
  "UpsertDevice inet marshal_map ev_ok now newid evid pkt db =
     (case dev_args_of inet pkt of
        None \<Rightarrow> (Some ErrCast, db, False)
      | Some a \<Rightarrow>
          (case find (mgmt_match a) (devices db) of
             Some old \<Rightarrow>
               let ds = map (\<lambda>d. if mgmt_match a d then update_device now a d else d) (devices db);
                   db' = db\<lparr>devices := ds\<rparr>
               in if \<not> distinct (map identity ds) then (Some ErrUnique, db, False)
                  else if d_id old \<noteq> '''' \<and> d_hostname old \<noteq> '''' \<and> x_hostname a \<noteq> '''' \<and> d_hostname old \<noteq> x_hostname a
                  then (None, recordHostnameChange marshal_map ev_ok now evid (d_id old) (d_hostname old)
                                (x_hostname a) (x_mgmt_ip a) (x_collector_agent a) db')
                  else (None, db', False)
           | None \<Rightarrow> (None, db\<lparr>devices := insert_or_update now newid a (devices db)\<rparr>, False)))"

section \<open>Lookups\<close>

definition DeviceIDBySource :: "db \<Rightarrow> string \<Rightarrow> string \<Rightarrow> string \<Rightarrow> string \<Rightarrow> string \<Rightarrow> string \<Rightarrow> string" where
  "DeviceIDBySource db org dc fl net grp src =
     (case find (\<lambda>d. identity d = [org, dc, fl, net, grp, src]) (devices db) of Some d \<Rightarrow> d_id d | None \<Rightarrow> '''')"

definition DeviceIDByOrgAndHostname :: "db \<Rightarrow> string \<Rightarrow> string \<Rightarrow> string \<Rightarrow> string \<Rightarrow> string" where
  "DeviceIDByOrgAndHostname db org net grp host =
     (case find (\<lambda>d. d_org_id d = org \<and> (net = '''' \<or> d_network_id d = net) \<and> d_group_id d = grp
                     \<and> d_hostname d = host) (devices db) of
        Some d \<Rightarrow> d_id d | None \<Rightarrow> '''')"

text \<open>
  The rank in the ORDER BY of \<open>DeviceByIP\<close>: a comparison with NULL is NULL, and in a
  descending order NULL comes before true.
\<close>

definition sql_eq_rank :: "string \<Rightarrow> string option \<Rightarrow> nat" where
  "sql_eq_rank ip col = (case col of None \<Rightarrow> 0 | Some x \<Rightarrow> if x = ip then 1 else 2)"

definition ip_rank :: "string \<Rightarrow> device_row \<Rightarrow> nat" where
  "ip_rank ip d =
     ((sql_eq_rank ip (d_mgmt_ip d) * 3 + sql_eq_rank ip (d_prod_ip d)) * 3
       + sql_eq_rank ip (d_loopback_ip d)) * 3 + sql_eq_rank ip (d_oob_ip d)"

definition DeviceByIP ::
  "(string \<Rightarrow> string option) \<Rightarrow> db \<Rightarrow> string \<Rightarrow> string \<Rightarrow> string \<Rightarrow> string \<Rightarrow> string \<Rightarrow> string \<Rightarrow> (string \<times> string) option" where
  "DeviceByIP inet db org dc fl net grp ip =
     (if ip = '''' then None
      else case inet ip of
        None \<Rightarrow> None
      | Some addr \<Rightarrow>
          (case sort_key (ip_rank addr)
                  (filter (\<lambda>d. d_org_id d = org \<and> (net = '''' \<or> d_network_id d = net) \<and> d_group_id d = grp
                      \<and> (dc = '''' \<or> d_datacenter_id d = dc) \<and> (fl = '''' \<or> d_floor_id d = fl)
                      \<and> Some addr \<in> set [d_mgmt_ip d, d_prod_ip d, d_loopback_ip d, d_oob_ip d]) (devices db)) of
             [] \<Rightarrow> None
           | d # _ \<Rightarrow> Some (d_id d, d_hostname d)))"

definition DeviceIDByIP where
  "DeviceIDByIP inet db org dc fl net grp ip =
     (case DeviceByIP inet db org dc fl net grp ip of Some (i, _) \<Rightarrow> i | None \<Rightarrow> '''')"

end
