(* ===== verification/Device_Proofs.thy ===== *)
theory Device_Proofs
  imports Device_Store
begin

text \<open>
  What the writes and lookups of device rows guarantee: a repeated packet is no
  change, a rename keeps the row, and which row \<open>DeviceByIP\<close> picks.
\<close>

section \<open>A second write of the same packet\<close>

lemma or_default_idem [simp]: "or_default v (or_default v d) = or_default v d" "or_default v v = v"
  by (simp_all add: or_default_def)

lemma coalesce_nullif_raw [simp]:
  "coalesce (nullif v) (Some v) = Some v" "coalesce (nullif v) (nullif v) = nullif v" "coalesce x x = x"
  by (simp_all add: nullif_def coalesce_def split: option.split)

lemma update_settled: "\<not> update_changes a (update_device now a d)"
  by (simp add: update_changes_def update_device_def update_tracked_def)

lemma conflict_settled: "\<not> conflict_changes a (conflict_device now a d)"
  by (simp add: conflict_changes_def conflict_device_def conflict_tracked_def)

lemma insert_settled: "\<not> update_changes a (insert_device now i a)" "\<not> conflict_changes a (insert_device now i a)"
  by (simp_all add: update_changes_def conflict_changes_def insert_device_def)

lemma conflict_then_update:
  "identity d = args_identity a \<Longrightarrow> \<not> update_changes a (conflict_device now a d)"
  by (simp add: update_changes_def conflict_device_def conflict_tracked_def identity_def args_identity_def)

lemma update_unchanged:
  "\<not> update_changes a d \<Longrightarrow> d_is_reachable d \<Longrightarrow> update_device now a d = d\<lparr>d_last_seen_at := Some now\<rparr>"
  by (cases d) (simp add: update_changes_def update_device_def update_tracked_def)

lemma conflict_unchanged:
  "\<not> conflict_changes a d \<Longrightarrow> d_is_reachable d \<Longrightarrow> conflict_device now a d = d\<lparr>d_last_seen_at := Some now\<rparr>"
  by (cases d) (simp add: conflict_changes_def conflict_device_def conflict_tracked_def)

lemma row_facts [simp]:
  "d_id (update_device now a d) = d_id d" "d_is_reachable (update_device now a d)"
  "mgmt_match a (update_device now a d) = mgmt_match a d"
  "d_hostname (update_device now a d) = x_hostname a"
  "d_id (conflict_device now a d) = d_id d" "d_is_reachable (conflict_device now a d)"
  "identity (conflict_device now a d) = identity d"
  "d_is_reachable (insert_device now i a)" "identity (insert_device now i a) = args_identity a"
  "mgmt_match a (insert_device now i a) = (x_mgmt_ip a \<noteq> None)"
  "identity (d\<lparr>d_last_seen_at := t\<rparr>) = identity d"
  by (auto simp: update_device_def update_tracked_def conflict_device_def conflict_tracked_def insert_device_def
      mgmt_match_def identity_def args_identity_def)

lemma conflict_mgmt:
  "identity d = args_identity a \<Longrightarrow> x_mgmt_ip a \<noteq> None \<Longrightarrow> mgmt_match a (conflict_device now a d)"
  by (auto simp: mgmt_match_def conflict_device_def conflict_tracked_def identity_def args_identity_def)

text \<open>
  A table is settled for the arguments of a packet when writing the packet again
  can only touch the rows that already agree with it.
\<close>

definition settled :: "dev_args \<Rightarrow> device_row list \<Rightarrow> bool" where
  "settled a ds \<longleftrightarrow> distinct (map identity ds) \<and>
     (if x_mgmt_ip a = None then args_identity a \<in> set (map identity ds) else find (mgmt_match a) ds \<noteq> None) \<and>
     (\<forall>d \<in> set ds. mgmt_match a d \<longrightarrow> \<not> update_changes a d \<and> d_is_reachable d) \<and>
     (\<forall>d \<in> set ds. x_mgmt_ip a = None \<longrightarrow> identity d = args_identity a \<longrightarrow> \<not> conflict_changes a d \<and> d_is_reachable d)"

definition strip_seen :: "device_row \<Rightarrow> device_row" where
  "strip_seen d = d\<lparr>d_last_seen_at := None\<rparr>"

lemma touch_rows:
  assumes "\<forall>d \<in> set ds. P d \<longrightarrow> f d = d\<lparr>d_last_seen_at := Some now\<rparr>"
  shows "map strip_seen (map (\<lambda>d. if P d then f d else d) ds) = map strip_seen ds"
    "map identity (map (\<lambda>d. if P d then f d else d) ds) = map identity ds"
  using assms by (auto simp: strip_seen_def)

lemma settled_again:
  assumes "settled a (devices db)" "dev_args_of inet pkt = Some a"
  shows "\<exists>db2. UpsertDevice inet mj ok now newid evid pkt db = (None, db2, False)
    \<and> map strip_seen (devices db2) = map strip_seen (devices db) \<and> events db2 = events db"
proof (cases "find (mgmt_match a) (devices db)")
  case None
  with assms(1) have m: "x_mgmt_ip a = None" "args_identity a \<in> set (map identity (devices db))"
    by (auto simp: settled_def split: if_splits)
  have r: "\<forall>d \<in> set (devices db). identity d = args_identity a \<longrightarrow>
      conflict_device now a d = d\<lparr>d_last_seen_at := Some now\<rparr>"
    using assms(1) m(1) by (auto simp: settled_def conflict_unchanged)
  let ?ds = "insert_or_update now newid a (devices db)"
  have "map strip_seen ?ds = map strip_seen (devices db)"
    using m(2) touch_rows(1) [OF r] by (simp add: insert_or_update_def)
  then show ?thesis
    by (intro exI [of _ "db\<lparr>devices := ?ds\<rparr>"]) (simp add: UpsertDevice_def assms(2) None)
next
  case (Some old)
  have old: "old \<in> set (devices db)" "mgmt_match a old"
    using Some by (auto simp: find_Some_iff)
  have u: "\<forall>d \<in> set (devices db). mgmt_match a d \<longrightarrow> update_device now a d = d\<lparr>d_last_seen_at := Some now\<rparr>"
    using assms(1) by (auto simp: settled_def update_unchanged)
  let ?ds = "map (\<lambda>d. if mgmt_match a d then update_device now a d else d) (devices db)"
  have "distinct (map identity ?ds)"
    unfolding touch_rows(2) [OF u] using assms(1) by (simp add: settled_def)
  moreover have "d_hostname old = x_hostname a"
    using assms(1) old by (auto simp: settled_def update_changes_def)
  ultimately show ?thesis
    using touch_rows(1) [OF u]
    by (intro exI [of _ "db\<lparr>devices := ?ds\<rparr>"])
      (simp only: UpsertDevice_def assms(2) Some option.case Let_def, simp)
qed

lemma conflict_identities:
  "map identity (map (\<lambda>d. if identity d = k then conflict_device now a d else d) ds) = map identity ds"
  by (induction ds) auto

lemma insert_or_update_identities:
  "map identity (insert_or_update now newid a ds) =
     (if args_identity a \<in> set (map identity ds) then map identity ds else map identity ds @ [args_identity a])"
  unfolding insert_or_update_def by (simp only: conflict_identities row_facts map_append list.map split: if_split) simp

lemma upsert_settles:
  assumes "UpsertDevice inet mj ok now newid evid pkt db = (None, db1, e)" "distinct (map identity (devices db))"
  shows "\<exists>a. dev_args_of inet pkt = Some a \<and> settled a (devices db1)"
proof -
  obtain a where a: "dev_args_of inet pkt = Some a"
    using assms(1) by (auto simp: UpsertDevice_def split: option.splits)
  have "settled a (devices db1)"
  proof (cases "find (mgmt_match a) (devices db)")
    case (Some old)
    let ?ds = "map (\<lambda>d. if mgmt_match a d then update_device now a d else d) (devices db)"
    have d: "distinct (map identity ?ds)" and db1: "devices db1 = ?ds"
      using assms(1) a Some
      by (auto simp: UpsertDevice_def Let_def recordHostnameChange_def split: if_splits)
    have "old \<in> set (devices db)" "mgmt_match a old" using Some by (auto simp: find_Some_iff)
    then have "update_device now a old \<in> set ?ds" "mgmt_match a (update_device now a old)"
      by (auto intro: image_eqI [of _ _ old])
    then have "\<exists>d \<in> set ?ds. mgmt_match a d" by blast
    then have "find (mgmt_match a) ?ds \<noteq> None" by (auto simp: find_None_iff)
    moreover have "x_mgmt_ip a \<noteq> None" using \<open>mgmt_match a old\<close> by (simp add: mgmt_match_def)
    moreover have "\<forall>d \<in> set ?ds. mgmt_match a d \<longrightarrow> \<not> update_changes a d \<and> d_is_reachable d"
      by (auto simp: update_settled)
    ultimately show ?thesis using d unfolding settled_def db1 by metis
  next
    case None
    let ?ds = "insert_or_update now newid a (devices db)"
    have db1: "devices db1 = ?ds" using assms(1) a None by (auto simp: UpsertDevice_def)
    have nomatch: "\<forall>d \<in> set (devices db). \<not> mgmt_match a d" using None by (auto simp: find_None_iff)
    have mem: "d \<in> set (devices db) \<and> identity d \<noteq> args_identity a
        \<or> identity d = args_identity a \<and> d_is_reachable d \<and> \<not> update_changes a d \<and> \<not> conflict_changes a d
          \<and> (x_mgmt_ip a \<noteq> None \<longrightarrow> mgmt_match a d)" if "d \<in> set ?ds" for d
    proof (cases "args_identity a \<in> set (map identity (devices db))")
      case True
      with that obtain r where r: "r \<in> set (devices db)"
        "d = (if identity r = args_identity a then conflict_device now a r else r)"
        by (auto simp: insert_or_update_def)
      show ?thesis
      proof (cases "identity r = args_identity a")
        case True
        then have d: "d = conflict_device now a r" using r(2) by simp
        show ?thesis
          using conflict_settled [of a now r] conflict_then_update [OF True, of now] conflict_mgmt [OF True, of now] True
          unfolding d by simp
      qed (use r in simp)
    next
      case False
      then have "d \<in> set (devices db) \<or> d = insert_device now newid a"
        using that by (auto simp: insert_or_update_def)
      then show ?thesis
      proof
        assume d: "d \<in> set (devices db)"
        then have "identity d \<noteq> args_identity a" using False by (metis image_eqI set_map)
        with d show ?thesis by simp
      next
        assume d: "d = insert_device now newid a"
        show ?thesis unfolding d using insert_settled [of a now newid] by simp
      qed
    qed
    have "distinct (map identity ?ds)" and "args_identity a \<in> set (map identity ?ds)"
      using assms(2) unfolding insert_or_update_identities by (simp_all only: distinct_append split: if_split) auto
    then obtain r where r: "distinct (map identity ?ds)" "r \<in> set ?ds" "identity r = args_identity a"
      by auto
    then have "find (mgmt_match a) ?ds \<noteq> None" if "x_mgmt_ip a \<noteq> None"
      using mem [OF r(2)] that by (metis find_None_iff)
    then show ?thesis
      using mem nomatch r unfolding settled_def db1 by (metis image_eqI set_map)
  qed
  with a show ?thesis by blast
qed

section \<open>Properties\<close>

definition sample_host :: "string \<Rightarrow> TelemetryPacket" where
  "sample_host h = pktA\<lparr>SourceId := ''srv-1'', Meta := [''hostname'' \<mapsto> h, ''mgmt_ip'' \<mapsto> ''10.0.0.5'',
     ''vendor'' \<mapsto> ''acme'', ''rack_unit'' \<mapsto> ''12'']\<rparr>"

definition sample_devices :: db where
  "sample_devices = fst (snd (UpsertDevice Some (\<lambda>_. ''{}'') True 5 ''u1'' ''v1'' (sample_host ''alpha'') empty_db))"

text \<open>
  C9. The forwarder's change cursor is stable: after a packet was stored, storing the
  same packet again succeeds, raises no event, keeps every row, and changes no column
  but \<open>last_seen_at\<close>; in particular no \<open>updated_at\<close> moves.
\<close>

theorem same_packet_is_no_change:
  assumes "UpsertDevice inet mj ok now newid evid pkt db = (None, db1, fired)"
    and "distinct (map identity (devices db))"
  shows "\<exists>db2. UpsertDevice inet mj ok2 now2 newid2 evid2 pkt db1 = (None, db2, False)
    \<and> map strip_seen (devices db2) = map strip_seen (devices db1) \<and> events db2 = events db1"
  using upsert_settles [OF assms] settled_again by blast

theorem same_packet_is_no_change_witness:
  "\<exists>db2. UpsertDevice Some (\<lambda>_. ''{}'') True 9 ''u2'' ''v2'' (sample_host ''alpha'') sample_devices = (None, db2, False)
    \<and> map strip_seen (devices db2) = map strip_seen (devices sample_devices) \<and> events db2 = events sample_devices"
proof (rule same_packet_is_no_change)
  show "UpsertDevice Some (\<lambda>_. ''{}'') True 5 ''u1'' ''v1'' (sample_host ''alpha'') empty_db = (None, sample_devices, False)"
    by (code_simp)
  show "distinct (map identity (devices empty_db))" by (simp add: empty_db_def)
qed

text \<open>
  A device keeps its identity across renames: a packet whose tenant and management
  address match a stored device updates that row in place, no row appears, vanishes
  or changes its id, the row carries the new host name, and exactly one
  \<open>hostname_changed\<close> event is stored (and the event hook fires) when the name differs
  and the insert succeeds, none otherwise.
\<close>

theorem rename_keeps_identity:
  assumes "UpsertDevice inet mj ok now newid evid pkt db = (None, db', fired)"
    and "dev_args_of inet pkt = Some a"
    and "find (mgmt_match a) (devices db) = Some old"
  shows "map d_id (devices db') = map d_id (devices db)
    \<and> (d_id old, upsert_hostname pkt) \<in> (\<lambda>d. (d_id d, d_hostname d)) ` set (devices db')
    \<and> fired = (ok \<and> d_id old \<noteq> '''' \<and> d_hostname old \<noteq> '''' \<and> upsert_hostname pkt \<noteq> ''''
               \<and> d_hostname old \<noteq> upsert_hostname pkt)
    \<and> map e_event_name (events db') = map e_event_name (events db) @ (if fired then [''hostname_changed''] else [])"
proof -
  have h: "x_hostname a = upsert_hostname pkt"
    using assms(2) by (auto simp: dev_args_of_def Let_def split: option.splits if_splits)
  let ?ds = "map (\<lambda>d. if mgmt_match a d then update_device now a d else d) (devices db)"
  have old: "old \<in> set (devices db)" "mgmt_match a old" using assms(3) by (auto simp: find_Some_iff)
  have ds: "devices db' = ?ds"
    using assms by (auto simp: UpsertDevice_def Let_def recordHostnameChange_def split: if_splits)
  have ids: "map d_id ?ds = map d_id (devices db)" by (induction "devices db") auto
  have "update_device now a old \<in> set ?ds" using old by (auto intro: image_eqI [of _ _ old])
  then have "(d_id (update_device now a old), d_hostname (update_device now a old))
      \<in> (\<lambda>d. (d_id d, d_hostname d)) ` set ?ds" by (rule imageI)
  then have "(d_id old, upsert_hostname pkt) \<in> (\<lambda>d. (d_id d, d_hostname d)) ` set ?ds"
    by (simp only: row_facts h)
  moreover have "fired = (ok \<and> d_id old \<noteq> '''' \<and> d_hostname old \<noteq> '''' \<and> upsert_hostname pkt \<noteq> ''''
        \<and> d_hostname old \<noteq> upsert_hostname pkt)
      \<and> map e_event_name (events db') = map e_event_name (events db) @ (if fired then [''hostname_changed''] else [])"
    using assms h by (auto simp: UpsertDevice_def Let_def recordHostnameChange_def split: if_splits)
  ultimately show ?thesis unfolding ds ids by simp
qed

theorem rename_keeps_identity_witness:
  "(''u1'', ''beta'') \<in> (\<lambda>d. (d_id d, d_hostname d)) ` set (devices
      (fst (snd (UpsertDevice Some (\<lambda>_. ''{}'') True 9 ''u2'' ''v2'' (sample_host ''beta'') sample_devices))))"
proof -
  let ?r = "UpsertDevice Some (\<lambda>_. ''{}'') True 9 ''u2'' ''v2'' (sample_host ''beta'') sample_devices"
  let ?a = "the (dev_args_of Some (sample_host ''beta''))"
  let ?old = "hd (devices sample_devices)"
  have 1: "?r = (None, fst (snd ?r), snd (snd ?r))" by (rule prod_eqI) (code_simp, simp)
  have 2: "dev_args_of Some (sample_host ''beta'') = Some ?a" by code_simp
  have 3: "find (mgmt_match ?a) (devices sample_devices) = Some ?old" by code_simp
  have "d_id ?old = ''u1''" "upsert_hostname (sample_host ''beta'') = ''beta''" by code_simp+
  then show ?thesis using rename_keeps_identity [OF 1 2 3] by simp
qed

text \<open>
  \<open>DeviceByIP\<close> does not favour the management address as it promises: in a
  descending order SQL puts NULL first, so as soon as some matching device has no
  management address, a device that has one is never returned, even when it is
  exactly the address asked for.
\<close>

theorem null_mgmt_ip_wins:
  assumes "DeviceByIP inet db org dc fl net grp ip = Some (i, h)" and "inet ip = Some addr"
    and "distinct (map d_id (devices db))"
    and "d \<in> set (devices db)" "d_org_id d = org" "net = '''' \<or> d_network_id d = net" "d_group_id d = grp"
    and "dc = '''' \<or> d_datacenter_id d = dc" "fl = '''' \<or> d_floor_id d = fl"
    and "d_mgmt_ip d = None" "Some addr \<in> set [d_prod_ip d, d_loopback_ip d, d_oob_ip d]"
  shows "i \<notin> d_id ` {r \<in> set (devices db). d_mgmt_ip r \<noteq> None}"
proof -
  let ?P = "\<lambda>d. d_org_id d = org \<and> (net = '''' \<or> d_network_id d = net) \<and> d_group_id d = grp
    \<and> (dc = '''' \<or> d_datacenter_id d = dc) \<and> (fl = '''' \<or> d_floor_id d = fl)
    \<and> Some addr \<in> set [d_mgmt_ip d, d_prod_ip d, d_loopback_ip d, d_oob_ip d]"
  let ?xs = "sort_key (ip_rank addr) (filter ?P (devices db))"
  obtain r rs where xs: "?xs = r # rs" and i: "i = d_id r"
    using assms(1,2) by (auto simp: DeviceByIP_def split: if_splits list.splits)
  have r: "r \<in> set (devices db)"
  proof -
    have "r \<in> set ?xs" unfolding xs by simp
    then show ?thesis by simp
  qed
  have "sorted (map (ip_rank addr) (r # rs))" unfolding xs [symmetric] by simp
  moreover have "d \<in> set (r # rs)" unfolding xs [symmetric] using assms(4-) by simp
  ultimately have "ip_rank addr r \<le> ip_rank addr d" by auto
  moreover have "ip_rank addr d < 27"
    using assms(10) by (auto simp: ip_rank_def sql_eq_rank_def split: option.split)
  ultimately have n: "d_mgmt_ip r = None"
    by (auto simp: ip_rank_def sql_eq_rank_def split: option.splits if_splits)
  show ?thesis
  proof
    assume "i \<in> d_id ` {r \<in> set (devices db). d_mgmt_ip r \<noteq> None}"
    then obtain q where q: "q \<in> set (devices db)" "d_mgmt_ip q \<noteq> None" "d_id q = d_id r" unfolding i by auto
    then have "q = r" using assms(3) r by (metis distinct_map inj_onD)
    with q n show False by simp
  qed
qed

definition two_devices :: db where
  "two_devices = empty_db\<lparr>devices := [
     (hd (devices sample_devices))\<lparr>d_id := ''exact'', d_hostname := ''exact''\<rparr>,
     (hd (devices sample_devices))\<lparr>d_id := ''other'', d_hostname := ''other'', d_mgmt_ip := None, d_prod_ip := Some ''10.0.0.5''\<rparr>]\<rparr>"

theorem null_mgmt_ip_wins_witness:
  "DeviceByIP Some two_devices ''org'' '''' '''' '''' '''' ''10.0.0.5'' = Some (''other'', ''other'')
    \<and> ''other'' \<notin> d_id ` {r \<in> set (devices two_devices). d_mgmt_ip r \<noteq> None}"
proof -
  have 1: "DeviceByIP Some two_devices ''org'' '''' '''' '''' '''' ''10.0.0.5'' = Some (''other'', ''other'')"
    by code_simp
  let ?d = "devices two_devices ! 1"
  have "?d \<in> set (devices two_devices)" by (simp add: two_devices_def)
  moreover have "distinct (map d_id (devices two_devices))" by (simp add: two_devices_def)
  moreover have "d_org_id ?d = ''org''" "d_group_id ?d = ''''" "d_mgmt_ip ?d = None" "d_prod_ip ?d = Some ''10.0.0.5''"
    by code_simp+
  ultimately have "''other'' \<notin> d_id ` {r \<in> set (devices two_devices). d_mgmt_ip r \<noteq> None}"
    using null_mgmt_ip_wins [OF 1, of "''10.0.0.5''" ?d] by simp
  with 1 show ?thesis by simp
qed

end
