(* ===== verification/Iface_Link_Store.thy ===== *)
theory Iface_Link_Store
  imports Device_Store
begin

text \<open>
  Interfaces, their addresses and topology links in
  \<open>fwDCS/internal/store/timescale.go\<close>: the upserts with the constraints of the
  tables (unique keys, foreign keys, column widths), the LLDP edge writer, the
  correlation of a link trap with a link, and the link state. A statement that
  fails changes nothing; a loop of statements keeps what the earlier ones wrote.
  \<open>now\<close> is the statement time and \<open>fresh\<close> gives the identifiers the server generates.
\<close>

definition positive :: "int \<Rightarrow> int option" where
  "positive v = (if 0 < v then Some v else None)"

section \<open>UpsertInterface\<close>

text \<open>The two unique constraints of the table: the name and the (non-null) index within the device.\<close>

definition name_key :: "iface_row \<Rightarrow> string \<times> string" where
  "name_key i = (i_device_id i, i_interface_name i)"

definition index_key :: "iface_row \<Rightarrow> string \<times> int option" where
  "index_key i = (i_device_id i, i_interface_index i)"

definition iface_unique :: "iface_row list \<Rightarrow> bool" where
  "iface_unique is \<longleftrightarrow> distinct (map name_key is) \<and> distinct (map index_key (filter (\<lambda>i. i_interface_index i \<noteq> None) is))"

definition iface_match :: "string \<Rightarrow> string \<Rightarrow> int option \<Rightarrow> iface_row \<Rightarrow> bool" where
  "iface_match dev name idx i \<longleftrightarrow>
     i_device_id i = dev \<and> (i_interface_name i = name \<or> (i_interface_index i \<noteq> None \<and> i_interface_index i = idx))"

definition update_iface :: "int \<Rightarrow> string \<Rightarrow> int option \<Rightarrow> int option \<Rightarrow> int \<Rightarrow> int \<Rightarrow> iface_row \<Rightarrow> iface_row" where
  "update_iface now name idx speed oper admin i =
     i\<lparr>i_interface_name := name,
       i_interface_index := coalesce idx (i_interface_index i),
       i_speed_mbps := coalesce speed (i_speed_mbps i),
       i_operational_status := (if 0 < oper then oper else i_operational_status i),
       i_admin_status := (if 0 < admin then admin else i_admin_status i),
       i_updated_at := now\<rparr>"

definition insert_iface :: "int \<Rightarrow> string \<Rightarrow> string \<Rightarrow> string \<Rightarrow> int option \<Rightarrow> int option \<Rightarrow> int \<Rightarrow> int \<Rightarrow> iface_row" where
  "insert_iface now newid dev name idx speed oper admin =
     \<lparr>i_id = newid, i_device_id = dev, i_interface_name = name, i_interface_index = idx,
      i_description = None, i_type = None, i_mac_address = None, i_speed_mbps = speed,
      i_admin_status = (if 0 < admin then admin else 1), i_operational_status = (if 0 < oper then oper else 1),
      i_access_vlan_id = None, i_mtu_bytes = None, i_updated_at = now\<rparr>"

definition iface_args_ok :: "int \<Rightarrow> int \<Rightarrow> int \<Rightarrow> int \<Rightarrow> bool" where
  "iface_args_ok idx speed oper admin \<longleftrightarrow>
     int4_opt (positive idx) \<and> int4_opt (positive speed) \<and> int4_ok oper \<and> int4_ok admin
     \<and> oper \<le> 32767 \<and> admin \<le> 32767"

definition UpsertInterface ::
  "int \<Rightarrow> string \<Rightarrow> db \<Rightarrow> string \<Rightarrow> string \<Rightarrow> int \<Rightarrow> int \<Rightarrow> int \<Rightarrow> int \<Rightarrow> db_error option \<times> db \<times> string" where
  "UpsertInterface now newid db deviceID interfaceName interfaceIndex speedMbps operationalStatus adminStatus =
     (if deviceID = '''' \<or> interfaceName = '''' then (None, db, '''')
      else if \<not> iface_args_ok interfaceIndex speedMbps operationalStatus adminStatus then (Some ErrCast, db, '''')
      else let idxArg = positive interfaceIndex; speedArg = positive speedMbps in
        (case find (iface_match deviceID interfaceName idxArg) (interfaces db) of
           Some old \<Rightarrow>
             let is = map (\<lambda>i. if i_id i = i_id old
                       then update_iface now interfaceName idxArg speedArg operationalStatus adminStatus i else i) (interfaces db)
             in if iface_unique is then (None, db\<lparr>interfaces := is\<rparr>, i_id old) else (Some ErrUnique, db, '''')
         | None \<Rightarrow>
             if deviceID \<notin> d_id ` set (devices db) then (Some ErrForeignKey, db, '''')
             else (None, db\<lparr>interfaces := interfaces db
                     @ [insert_iface now newid deviceID interfaceName idxArg speedArg operationalStatus adminStatus]\<rparr>, newid)))"

definition InterfaceIDByDeviceAndName :: "db \<Rightarrow> string \<Rightarrow> string \<Rightarrow> string" where
  "InterfaceIDByDeviceAndName db deviceID interfaceName =
     (if deviceID = '''' \<or> interfaceName = '''' then ''''
      else case find (\<lambda>i. i_device_id i = deviceID \<and> i_interface_name i = interfaceName) (interfaces db) of
        Some i \<Rightarrow> i_id i | None \<Rightarrow> '''')"

definition InterfaceIDByDeviceAndIndex :: "db \<Rightarrow> string \<Rightarrow> int \<Rightarrow> string" where
  "InterfaceIDByDeviceAndIndex db deviceID interfaceIndex =
     (if deviceID = '''' \<or> interfaceIndex \<le> 0 then ''''
      else case find (\<lambda>i. i_device_id i = deviceID \<and> i_interface_index i = Some interfaceIndex) (interfaces db) of
        Some i \<Rightarrow> i_id i | None \<Rightarrow> '''')"

section \<open>UpsertInterfaceAddress\<close>

definition UpsertInterfaceAddress ::
  "(string \<Rightarrow> string option) \<Rightarrow> int \<Rightarrow> string \<Rightarrow> db \<Rightarrow> string \<Rightarrow> string \<Rightarrow> string \<Rightarrow> bool \<Rightarrow> db_error option \<times> db" where
  "UpsertInterfaceAddress inet now newid db interfaceID address addressFamily isPrimary =
     (if interfaceID = '''' \<or> address = '''' then (None, db)
      else let family = or_default addressFamily ''ipv4'' in
        (case inet address of
           None \<Rightarrow> (Some ErrCast, db)
         | Some addr \<Rightarrow>
             if (interfaceID, addr) \<in> set (map (\<lambda>a. (a_interface_id a, a_address a)) (interface_addresses db)) then
               (None, db\<lparr>interface_addresses := map (\<lambda>a.
                  if a_interface_id a = interfaceID \<and> a_address a = addr
                  then a\<lparr>a_address_family := family, a_is_primary := isPrimary, a_updated_at := now\<rparr> else a)
                  (interface_addresses db)\<rparr>)
             else if interfaceID \<notin> i_id ` set (interfaces db) then (Some ErrForeignKey, db)
             else (None, db\<lparr>interface_addresses := interface_addresses db @
                [\<lparr>a_id = newid, a_interface_id = interfaceID, a_address = addr, a_address_family = family,
                  a_is_primary = isPrimary, a_vrf = None, a_updated_at = now\<rparr>]\<rparr>)))"

section \<open>Topology links\<close>

record TopologyLink =
  t_Layer :: string
  t_SrcDeviceID :: string
  t_SrcPortName :: string
  t_SrcInterfaceID :: string
  t_DstDeviceID :: string
  t_DstPortName :: string
  t_DstInterfaceID :: string
  t_LinkSpeedMbps :: "int option"
  t_LinkType :: string
  t_Protocol :: string
  t_Relation :: string

definition link_key :: "link_row \<Rightarrow> string list" where
  "link_key l = [l_layer l, l_src_device_id l, l_src_port_name l, l_dst_device_id l]"

definition edge_key :: "TopologyLink \<Rightarrow> string list" where
  "edge_key l = [t_Layer l, t_SrcDeviceID l, t_SrcPortName l, t_DstDeviceID l]"

definition link_proto :: "TopologyLink \<Rightarrow> string" where
  "link_proto l = or_default (t_Protocol l) ''lldp''"

definition link_tracked :: "TopologyLink \<Rightarrow> link_row \<Rightarrow> link_row" where
  "link_tracked l r = r\<lparr>l_dst_port_name := t_DstPortName l,
     l_src_interface_id := coalesce (nilIfEmpty (t_SrcInterfaceID l)) (l_src_interface_id r),
     l_dst_interface_id := coalesce (nilIfEmpty (t_DstInterfaceID l)) (l_dst_interface_id r),
     l_link_speed_mbps := coalesce (t_LinkSpeedMbps l) (l_link_speed_mbps r),
     l_link_type := coalesce (nilIfEmpty (t_LinkType l)) (l_link_type r),
     l_protocol := link_proto l\<rparr>"

definition link_changes :: "TopologyLink \<Rightarrow> link_row \<Rightarrow> bool" where
  "link_changes l r \<longleftrightarrow>
     l_dst_port_name r \<noteq> t_DstPortName l \<or>
     l_src_interface_id r \<noteq> coalesce (nilIfEmpty (t_SrcInterfaceID l)) (l_src_interface_id r) \<or>
     l_dst_interface_id r \<noteq> coalesce (nilIfEmpty (t_DstInterfaceID l)) (l_dst_interface_id r) \<or>
     l_link_speed_mbps r \<noteq> coalesce (t_LinkSpeedMbps l) (l_link_speed_mbps r) \<or>
     l_link_type r \<noteq> coalesce (nilIfEmpty (t_LinkType l)) (l_link_type r) \<or>
     l_protocol r \<noteq> link_proto l"

definition update_link :: "int \<Rightarrow> TopologyLink \<Rightarrow> link_row \<Rightarrow> link_row" where
  "update_link now l r = (link_tracked l r)\<lparr>l_updated_at := (if link_changes l r then now else l_updated_at r)\<rparr>"

definition insert_link :: "int \<Rightarrow> string \<Rightarrow> TopologyLink \<Rightarrow> link_row" where
  "insert_link now newid l =
     \<lparr>l_id = newid, l_layer = t_Layer l, l_src_device_id = t_SrcDeviceID l, l_src_port_name = t_SrcPortName l,
      l_src_interface_id = nilIfEmpty (t_SrcInterfaceID l), l_dst_device_id = t_DstDeviceID l,
      l_dst_port_name = t_DstPortName l, l_dst_interface_id = nilIfEmpty (t_DstInterfaceID l),
      l_link_speed_mbps = t_LinkSpeedMbps l, l_link_type = nilIfEmpty (t_LinkType l), l_protocol = link_proto l,
      l_relation = or_default (t_Relation l) ''peer'', l_is_active = True, l_updated_at = now\<rparr>"

text \<open>The foreign keys of an edge: both devices, and the interfaces that are not NULL.\<close>

definition edge_refs_ok :: "db \<Rightarrow> TopologyLink \<Rightarrow> bool" where
  "edge_refs_ok db l \<longleftrightarrow>
     {t_SrcDeviceID l, t_DstDeviceID l} \<subseteq> d_id ` set (devices db) \<and>
     {t_SrcInterfaceID l, t_DstInterfaceID l} - {''''} \<subseteq> i_id ` set (interfaces db)"

definition upsert_link :: "int \<Rightarrow> string \<Rightarrow> TopologyLink \<Rightarrow> db \<Rightarrow> db_error option \<times> db" where
  "upsert_link now newid l db =
     (if \<not> int4_opt (t_LinkSpeedMbps l) then (Some ErrCast, db)
      else if \<not> edge_refs_ok db l then (Some ErrForeignKey, db)
      else (None, db\<lparr>topology_links :=
        (if edge_key l \<in> set (map link_key (topology_links db))
         then map (\<lambda>r. if link_key r = edge_key l then update_link now l r else r) (topology_links db)
         else topology_links db @ [insert_link now newid l])\<rparr>))"

fun UpsertLinks :: "int \<Rightarrow> (nat \<Rightarrow> string) \<Rightarrow> nat \<Rightarrow> TopologyLink list \<Rightarrow> db \<Rightarrow> db_error option \<times> db" where
  "UpsertLinks now fresh n [] db = (None, db)"
| "UpsertLinks now fresh n (l # ls) db =
     (case upsert_link now (fresh n) l db of
        (Some e, db') \<Rightarrow> (Some e, db')
      | (None, db') \<Rightarrow> UpsertLinks now fresh (Suc n) ls db')"

text \<open>
  \<open>WriteTopologyLink\<close>: the edge a packet stands for, if both ends resolve. The
  index fallback of an interface runs when the name is unknown.
\<close>

definition iface_of :: "db \<Rightarrow> string \<Rightarrow> string \<Rightarrow> string \<Rightarrow> string" where
  "iface_of db dev name index =
     (let byName = InterfaceIDByDeviceAndName db dev name
      in if byName \<noteq> '''' then byName
         else case atoi_err index of
           Some idx \<Rightarrow> if 0 < idx then InterfaceIDByDeviceAndIndex db dev idx else ''''
         | None \<Rightarrow> '''')"

definition edge_of :: "(string \<Rightarrow> string option) \<Rightarrow> TelemetryPacket \<Rightarrow> db \<Rightarrow> TopologyLink option" where
  "edge_of inet pkt db =
     (let m = get (Meta pkt);
          byIP = (if m ''mgmt_ip'' \<noteq> '''' then DeviceIDByIP inet db (OrgId pkt) '''' '''' (NetworkId pkt) (GroupId pkt) (m ''mgmt_ip'')
                  else '''');
          srcID = (if byIP \<noteq> '''' then byIP
                   else DeviceIDBySource db (OrgId pkt) (DatacenterId pkt) (FloorId pkt) (NetworkId pkt) (GroupId pkt) (SourceId pkt));
          remIP = (if m ''remote_mgmt_ip'' \<noteq> ''''
                   then DeviceIDByIP inet db (OrgId pkt) '''' '''' '''' (GroupId pkt) (m ''remote_mgmt_ip'') else '''');
          dstID = (if remIP \<noteq> '''' then remIP
                   else if m ''remote_sys_name'' \<noteq> ''''
                   then DeviceIDByOrgAndHostname db (OrgId pkt) '''' (GroupId pkt) (m ''remote_sys_name'') else '''')
      in if srcID = '''' \<or> dstID = '''' then None
         else Some \<lparr>t_Layer = or_default (m ''layer'') ''network'', t_SrcDeviceID = srcID, t_SrcPortName = Tag pkt,
                t_SrcInterfaceID = iface_of db srcID (Tag pkt) (m ''local_port_index''),
                t_DstDeviceID = dstID, t_DstPortName = m ''remote_port_id'',
                t_DstInterfaceID = iface_of db dstID (m ''remote_port_id'') (m ''remote_port_index''),
                t_LinkSpeedMbps = (if m ''link_speed_mbps'' \<noteq> '''' then atoi_err (m ''link_speed_mbps'') else None),
                t_LinkType = '''', t_Protocol = ''lldp'', t_Relation = ''''\<rparr>)"

definition WriteTopologyLink ::
  "(string \<Rightarrow> string option) \<Rightarrow> int \<Rightarrow> (nat \<Rightarrow> string) \<Rightarrow> TelemetryPacket \<Rightarrow> db \<Rightarrow> db_error option \<times> db" where
  "WriteTopologyLink inet now fresh pkt db =
     (case edge_of inet pkt db of None \<Rightarrow> (None, db) | Some l \<Rightarrow> UpsertLinks now fresh 0 [l] db)"

section \<open>Link traps\<close>

record LinkRow =
  k_LinkID :: string
  k_Layer :: string
  k_SrcDeviceID :: string
  k_SrcHostname :: string
  k_SrcPort :: string
  k_DstDeviceID :: string
  k_DstHostname :: string
  k_DstPort :: string

definition trailingDigits :: "string \<Rightarrow> string" where
  "trailingDigits s = rev (takeWhile is_digit (rev s))"

definition portCandidates :: "int \<Rightarrow> string \<Rightarrow> string list" where
  "portCandidates ifIndex ifName =
     (let add = (\<lambda>s out. if s \<noteq> '''' \<and> s \<notin> set out then out @ [s] else out);
          out = add (trailingDigits ifName) []
      in if 1 \<le> ifIndex then add (itoa (ifIndex - 1)) out else out)"

definition port_match :: "string \<Rightarrow> string \<Rightarrow> link_row \<Rightarrow> bool" where
  "port_match dev port l \<longleftrightarrow> l_layer l = ''network'' \<and>
     ((l_src_device_id l = dev \<and> l_src_port_name l = port) \<or> (l_dst_device_id l = dev \<and> l_dst_port_name l = port))"

definition host_of :: "db \<Rightarrow> string \<Rightarrow> string" where
  "host_of db dev = (case find (\<lambda>d. d_id d = dev) (devices db) of Some d \<Rightarrow> d_hostname d | None \<Rightarrow> '''')"

fun first_match :: "db \<Rightarrow> string \<Rightarrow> string list \<Rightarrow> link_row option" where
  "first_match db dev [] = None"
| "first_match db dev (p # ps) =
     (if p = '''' then first_match db dev ps
      else case find (port_match dev p) (topology_links db) of
        Some l \<Rightarrow> if l_id l \<noteq> '''' then Some l else first_match db dev ps
      | None \<Rightarrow> first_match db dev ps)"

definition CorrelateLinkByPort :: "db \<Rightarrow> string \<Rightarrow> int \<Rightarrow> string \<Rightarrow> LinkRow option" where
  "CorrelateLinkByPort db deviceID ifIndex ifName =
     map_option (\<lambda>l. \<lparr>k_LinkID = l_id l, k_Layer = l_layer l, k_SrcDeviceID = l_src_device_id l,
         k_SrcHostname = host_of db (l_src_device_id l), k_SrcPort = l_src_port_name l,
         k_DstDeviceID = l_dst_device_id l, k_DstHostname = host_of db (l_dst_device_id l),
         k_DstPort = l_dst_port_name l\<rparr>)
       (first_match db deviceID (portCandidates ifIndex ifName))"

definition link_layer :: "LinkRow \<Rightarrow> string" where
  "link_layer row = or_default (k_Layer row) ''network''"

definition same_pair :: "LinkRow \<Rightarrow> link_row \<Rightarrow> bool" where
  "same_pair row l \<longleftrightarrow> l_layer l = link_layer row \<and>
     ((l_src_device_id l = k_SrcDeviceID row \<and> l_dst_device_id l = k_DstDeviceID row)
      \<or> (l_src_device_id l = k_DstDeviceID row \<and> l_dst_device_id l = k_SrcDeviceID row))"

definition link_hit :: "LinkRow \<Rightarrow> bool \<Rightarrow> link_row \<Rightarrow> bool" where
  "link_hit row down l \<longleftrightarrow> l_is_active l \<noteq> (\<not> down) \<and> same_pair row l"

definition flip_link :: "int \<Rightarrow> LinkRow \<Rightarrow> bool \<Rightarrow> link_row \<Rightarrow> link_row" where
  "flip_link now row down l =
     (if link_hit row down l then l\<lparr>l_is_active := (\<not> down), l_updated_at := now\<rparr> else l)"

definition SetLinkActive :: "int \<Rightarrow> LinkRow \<Rightarrow> bool \<Rightarrow> db \<Rightarrow> bool \<times> db" where
  "SetLinkActive now row down db =
     (list_ex (link_hit row down) (topology_links db),
      db\<lparr>topology_links := map (flip_link now row down) (topology_links db)\<rparr>)"

section \<open>Device state\<close>

definition UpsertDeviceState :: "(string \<Rightarrow> bool) \<Rightarrow> string \<Rightarrow> string \<Rightarrow> string \<Rightarrow> db \<Rightarrow> db_error option \<times> db" where
  "UpsertDeviceState json_ok deviceID category jsonData db =
     (if \<not> json_ok jsonData then (Some ErrCast, db)
      else if (deviceID, category) \<in> fst ` set (device_state db) then
        (None, db\<lparr>device_state := map (\<lambda>(k, v). (k, if k = (deviceID, category) then jsonData else v)) (device_state db)\<rparr>)
      else if deviceID \<notin> d_id ` set (devices db) then (Some ErrForeignKey, db)
      else (None, db\<lparr>device_state := device_state db @ [((deviceID, category), jsonData)]\<rparr>))"

section \<open>Interfaces keep their keys\<close>

lemma update_iface_simps [simp]:
  "i_id (update_iface now name idx speed oper admin i) = i_id i"
  "i_device_id (update_iface now name idx speed oper admin i) = i_device_id i"
  "i_interface_name (update_iface now name idx speed oper admin i) = name"
  "i_interface_index (update_iface now name idx speed oper admin i) = coalesce idx (i_interface_index i)"
  by (simp_all add: update_iface_def)

lemma insert_iface_simps [simp]:
  "i_id (insert_iface now newid dev name idx speed oper admin) = newid"
  "i_device_id (insert_iface now newid dev name idx speed oper admin) = dev"
  "i_interface_name (insert_iface now newid dev name idx speed oper admin) = name"
  "i_interface_index (insert_iface now newid dev name idx speed oper admin) = idx"
  by (simp_all add: insert_iface_def)

lemma iface_uniqueD:
  assumes "iface_unique is" "i \<in> set is" "j \<in> set is" "i_device_id i = i_device_id j"
  shows "i_interface_name i = i_interface_name j \<Longrightarrow> i = j"
    "i_interface_index i = i_interface_index j \<Longrightarrow> i_interface_index i \<noteq> None \<Longrightarrow> i = j"
proof -
  assume n: "i_interface_name i = i_interface_name j"
  from assms(1) have "inj_on name_key (set is)" by (simp add: iface_unique_def distinct_map)
  then show "i = j" using assms(2-) n by (auto simp: inj_on_def name_key_def)
next
  assume x: "i_interface_index i = i_interface_index j" "i_interface_index i \<noteq> None"
  from assms(1) have "inj_on index_key {k \<in> set is. i_interface_index k \<noteq> None}"
    by (simp add: iface_unique_def distinct_map)
  then show "i = j" using assms(2-) x by (auto simp: inj_on_def index_key_def)
qed

lemma iface_unique_iff:
  assumes "distinct is"
  shows "iface_unique is \<longleftrightarrow> (\<forall>i \<in> set is. \<forall>j \<in> set is. i_device_id i = i_device_id j \<longrightarrow>
     i_interface_name i = i_interface_name j \<or> (i_interface_index i \<noteq> None \<and> i_interface_index i = i_interface_index j)
     \<longrightarrow> i = j)"
proof
  assume "iface_unique is"
  then show "\<forall>i \<in> set is. \<forall>j \<in> set is. i_device_id i = i_device_id j \<longrightarrow>
     i_interface_name i = i_interface_name j \<or> (i_interface_index i \<noteq> None \<and> i_interface_index i = i_interface_index j)
     \<longrightarrow> i = j"
    using iface_uniqueD by blast
next
  assume "\<forall>i \<in> set is. \<forall>j \<in> set is. i_device_id i = i_device_id j \<longrightarrow>
     i_interface_name i = i_interface_name j \<or> (i_interface_index i \<noteq> None \<and> i_interface_index i = i_interface_index j)
     \<longrightarrow> i = j"
  then have R: "i = j" if "i \<in> set is" "j \<in> set is" "i_device_id i = i_device_id j"
      "i_interface_name i = i_interface_name j \<or> (i_interface_index i \<noteq> None \<and> i_interface_index i = i_interface_index j)"
    for i j using that by blast
  have "inj_on name_key (set is)"
    by (rule inj_onI) (simp add: R name_key_def)
  moreover have "inj_on index_key (set (filter (\<lambda>i. i_interface_index i \<noteq> None) is))"
    by (rule inj_onI) (use R in \<open>simp add: index_key_def\<close>)
  ultimately show "iface_unique is"
    using assms by (simp add: iface_unique_def distinct_map)
qed

text \<open>Two rows of the device hold the two keys of the call.\<close>

definition iface_clash :: "iface_row list \<Rightarrow> string \<Rightarrow> string \<Rightarrow> int option \<Rightarrow> bool" where
  "iface_clash is dev name idx \<longleftrightarrow>
     (\<exists>i \<in> set is. \<exists>j \<in> set is. i \<noteq> j \<and> i_device_id i = dev \<and> i_device_id j = dev \<and>
        i_interface_name i = name \<and> idx \<noteq> None \<and> i_interface_index j = idx)"

lemma update_iface_unique:
  assumes u: "iface_unique is" and d: "distinct (map i_id is)" and old: "old \<in> set is" "iface_match dev name idx old"
  shows "iface_unique (map (\<lambda>i. if i_id i = i_id old then update_iface now name idx sp op ad i else i) is)
    \<longleftrightarrow> \<not> iface_clash is dev name idx"
proof -
  define f where "f = (\<lambda>i. if i_id i = i_id old then update_iface now name idx sp op ad i else i)"
  have dis: "distinct is" using d by (simp add: distinct_map)
  have inj: "i = j" if "i \<in> set is" "j \<in> set is" "i_id i = i_id j" for i j
    using d that by (auto simp: distinct_map inj_on_def)
  have fo: "f old = update_iface now name idx sp op ad old" by (simp add: f_def)
  have fn: "f j = j" if "j \<in> set is" "j \<noteq> old" for j
    using inj [OF that(1) old(1)] that(2) by (auto simp: f_def)
  have fi: "i_id (f j) = i_id j" for j by (simp add: f_def)
  have "map i_id (map f is) = map i_id is" by (induction "is") (auto simp: f_def)
  then have "distinct (map i_id (map f is))" using d by (simp only:)
  then have dis': "distinct (map f is)" unfolding distinct_map [of i_id] by (rule conjunct1)
  have old_dev: "i_device_id old = dev" using old(2) by (simp add: iface_match_def)
  note uD = iface_uniqueD [OF u]
  have "iface_unique (map f is) \<longleftrightarrow> \<not> iface_clash is dev name idx"
  proof
    assume "iface_unique (map f is)"
    then have U: "f i = f j" if "i \<in> set is" "j \<in> set is" "i_device_id (f i) = i_device_id (f j)"
      "i_interface_name (f i) = i_interface_name (f j)
        \<or> (i_interface_index (f i) \<noteq> None \<and> i_interface_index (f i) = i_interface_index (f j))" for i j
      using that unfolding iface_unique_iff [OF dis'] set_map by blast
    show "\<not> iface_clash is dev name idx"
    proof
      assume "iface_clash is dev name idx"
      then obtain i j where ij: "i \<in> set is" "j \<in> set is" "i \<noteq> j" "i_device_id i = dev" "i_device_id j = dev"
        "i_interface_name i = name" "idx \<noteq> None" "i_interface_index j = idx"
        by (auto simp: iface_clash_def)
      have "f old = f i"
        by (rule U) (use old(1) old_dev ij(1,4,6) fn [of i] fo in \<open>cases "i = old"; simp\<close>)+
      moreover have "f old = f j"
        by (rule U) (use old(1) old_dev ij(2,5,7,8) fn [of j] fo in \<open>cases "j = old"; auto\<close>)+
      ultimately have "i_id i = i_id j" by (metis fi)
      with inj ij show False by blast
    qed
  next
    assume n: "\<not> iface_clash is dev name idx"
    have other: "j = old" if "j \<in> set is" "i_device_id j = dev"
      "i_interface_name j = name \<or> (coalesce idx (i_interface_index old) \<noteq> None
         \<and> i_interface_index j = coalesce idx (i_interface_index old))" for j
    proof (cases idx)
      case None
      then have "i_interface_name old = name" using old(2) by (auto simp: iface_match_def)
      then show ?thesis using that None uD(1) [of j old] uD(2) [of j old] old old_dev by auto
    next
      case (Some x)
      then have "i_interface_name j = name \<or> i_interface_index j = idx" using that(3) by simp
      moreover have "i_interface_name old = name \<or> i_interface_index old = idx"
        using old(2) by (auto simp: iface_match_def)
      moreover have "idx \<noteq> None" using Some by simp
      ultimately show ?thesis
        using n that(1,2) old(1) old_dev uD(1) [of j old] uD(2) [of j old]
        unfolding iface_clash_def by metis
    qed
    have hit: "j = old" if "j \<in> set is" "i_device_id (f j) = i_device_id (f old)"
      "i_interface_name (f j) = i_interface_name (f old)
        \<or> (i_interface_index (f j) \<noteq> None \<and> i_interface_index (f j) = i_interface_index (f old))" for j
    proof (rule ccontr)
      assume j: "j \<noteq> old"
      show False
        using that(2,3) other [OF that(1)] j unfolding fn [OF that(1) j] fo update_iface_simps old_dev by metis
    qed
    have key: "i = j" if ij: "i \<in> set is" "j \<in> set is" "i_device_id (f i) = i_device_id (f j)"
      "i_interface_name (f i) = i_interface_name (f j)
        \<or> (i_interface_index (f i) \<noteq> None \<and> i_interface_index (f i) = i_interface_index (f j))" for i j
    proof (cases "i = old")
      case True
      then have "j = old" using hit [OF ij(2)] ij(3,4) by metis
      with True show ?thesis by simp
    next
      case i: False
      show ?thesis
      proof (cases "j = old")
        case True
        then show ?thesis using hit [OF ij(1)] ij(3,4) by metis
      next
        case False
        then show ?thesis
          using uD(1) [OF ij(1,2)] uD(2) [OF ij(1,2)] ij(3,4) unfolding fn [OF ij(1) i] fn [OF ij(2) False] by metis
      qed
    qed
    show "iface_unique (map f is)"
      unfolding iface_unique_iff [OF dis'] set_map using key by blast
  qed
  then show ?thesis unfolding f_def .
qed

lemma insert_iface_unique:
  assumes "iface_unique is" and "find (iface_match dev name idx) is = None"
  shows "iface_unique (is @ [insert_iface now newid dev name idx sp op ad])"
proof -
  have "\<forall>i \<in> set is. \<not> iface_match dev name idx i" using assms(2) by (auto simp: find_None_iff)
  then show ?thesis using assms(1)
    by (auto simp: iface_unique_def name_key_def index_key_def iface_match_def)
qed

lemma lookup_name:
  assumes "iface_unique (interfaces db)" "i \<in> set (interfaces db)" "i_device_id i = dev" "i_interface_name i = name"
    "dev \<noteq> ''''" "name \<noteq> ''''"
  shows "InterfaceIDByDeviceAndName db dev name = i_id i"
proof -
  obtain j where "find (\<lambda>i. i_device_id i = dev \<and> i_interface_name i = name) (interfaces db) = Some j"
    using assms(2-4) by (metis (mono_tags, lifting) find_None_iff not_None_eq)
  moreover from this have "j = i" using iface_uniqueD(1) [OF assms(1), of j i] assms(2-4) by (auto simp: find_Some_iff)
  ultimately show ?thesis using assms(5,6) by (simp add: InterfaceIDByDeviceAndName_def)
qed

lemma lookup_index:
  assumes "iface_unique (interfaces db)" "i \<in> set (interfaces db)" "i_device_id i = dev" "i_interface_index i = Some idx"
    "dev \<noteq> ''''" "0 < idx"
  shows "InterfaceIDByDeviceAndIndex db dev idx = i_id i"
proof -
  obtain j where "find (\<lambda>i. i_device_id i = dev \<and> i_interface_index i = Some idx) (interfaces db) = Some j"
    using assms(2-4) by (metis (mono_tags, lifting) find_None_iff not_None_eq)
  moreover from this have "j = i" using iface_uniqueD(2) [OF assms(1), of j i] assms(2-4) by (auto simp: find_Some_iff)
  ultimately show ?thesis using assms(5,6) by (simp add: InterfaceIDByDeviceAndIndex_def)
qed

text \<open>
  \<open>UpsertInterface\<close> on a known device: both unique keys of the table survive, and
  the call either stores the row so that the lookups by name and by index return the
  identifier it reports, or fails with a unique violation and stores nothing. It fails
  exactly when the name and the index are held by two different rows of the device,
  the case the select-first statement was meant to rule out.
\<close>

theorem UpsertInterface_outcome:
  assumes "iface_unique (interfaces db)" and "distinct (map i_id (interfaces db))"
    and "dev \<in> d_id ` set (devices db)" and "dev \<noteq> ''''" and "name \<noteq> ''''" and "iface_args_ok idx sp op ad"
  shows "case UpsertInterface now newid db dev name idx sp op ad of (e, db', i) \<Rightarrow>
      iface_unique (interfaces db') \<and>
      (if iface_clash (interfaces db) dev name (positive idx)
       then e = Some ErrUnique \<and> db' = db
       else e = None \<and> InterfaceIDByDeviceAndName db' dev name = i
         \<and> (idx \<le> 0 \<or> InterfaceIDByDeviceAndIndex db' dev idx = i))"
proof (cases "find (iface_match dev name (positive idx)) (interfaces db)")
  case (Some old)
  let ?u = "update_iface now name (positive idx) (positive sp) op ad"
  let ?is = "map (\<lambda>i. if i_id i = i_id old then ?u i else i) (interfaces db)"
  let ?clash = "iface_clash (interfaces db) dev name (positive idx)"
  have old: "old \<in> set (interfaces db)" "iface_match dev name (positive idx) old"
    using Some by (auto simp: find_Some_iff)
  have u: "iface_unique ?is \<longleftrightarrow> \<not> ?clash"
    by (rule update_iface_unique [OF assms(1,2) old])
  have r: "UpsertInterface now newid db dev name idx sp op ad =
      (if ?clash then (Some ErrUnique, db, '''') else (None, db\<lparr>interfaces := ?is\<rparr>, i_id old))"
    using assms(4-6) Some u by (simp add: UpsertInterface_def Let_def)
  show ?thesis
  proof (cases ?clash)
    case True
    then show ?thesis unfolding r using assms(1) by simp
  next
    case False
    let ?db = "db\<lparr>interfaces := ?is\<rparr>"
    have iu: "iface_unique (interfaces ?db)" using u False by simp
    have m: "?u old \<in> set (interfaces ?db)" using old(1) by (auto intro: image_eqI [of _ _ old])
    have d: "i_device_id (?u old) = dev" using old(2) by (simp add: iface_match_def)
    have "InterfaceIDByDeviceAndName ?db dev name = i_id old"
      using lookup_name [OF iu m d] assms(4,5) by simp
    moreover have "InterfaceIDByDeviceAndIndex ?db dev idx = i_id old" if "0 < idx"
      using lookup_index [OF iu m d, of idx] assms(4) that by (simp add: positive_def)
    ultimately show ?thesis unfolding r using iu False by (simp add: linorder_not_le [symmetric] disj_commute) linarith
  qed
next
  case None
  let ?n = "insert_iface now newid dev name (positive idx) (positive sp) op ad"
  let ?db = "db\<lparr>interfaces := interfaces db @ [?n]\<rparr>"
  have noclash: "\<not> iface_clash (interfaces db) dev name (positive idx)"
    using None by (auto simp: iface_clash_def iface_match_def find_None_iff)
  have r: "UpsertInterface now newid db dev name idx sp op ad = (None, ?db, newid)"
    using assms(3-6) None by (simp add: UpsertInterface_def Let_def)
  have iu: "iface_unique (interfaces ?db)" using insert_iface_unique [OF assms(1) None] by simp
  have m: "?n \<in> set (interfaces ?db)" by simp
  have "InterfaceIDByDeviceAndName ?db dev name = newid"
    using lookup_name [OF iu m] assms(4,5) by simp
  moreover have "idx \<le> 0 \<or> InterfaceIDByDeviceAndIndex ?db dev idx = newid"
    using lookup_index [OF iu m, of dev idx] assms(4) by (cases "0 < idx") (simp_all add: positive_def)
  ultimately show ?thesis unfolding r using iu noclash by simp
qed

definition sample_ifaces :: db where
  "sample_ifaces = empty_db\<lparr>devices := [insert_device 1 ''d1'' (the (dev_args_of Some pktA))],
     interfaces := [insert_iface 1 ''i1'' ''d1'' ''eth0'' (Some 1) None 1 1, insert_iface 1 ''i2'' ''d1'' ''eth1'' (Some 2) None 1 1]\<rparr>"

theorem UpsertInterface_outcome_witness:
  "fst (UpsertInterface 5 ''i3'' sample_ifaces ''d1'' ''eth0'' 2 0 1 1) = Some ErrUnique
    \<and> (case UpsertInterface 5 ''i3'' sample_ifaces ''d1'' ''if3'' 2 0 1 1 of (e, db', i) \<Rightarrow>
         e = None \<and> InterfaceIDByDeviceAndName db' ''d1'' ''if3'' = i)"
proof -
  have 1: "iface_unique (interfaces sample_ifaces)" "distinct (map i_id (interfaces sample_ifaces))"
    "''d1'' \<in> d_id ` set (devices sample_ifaces)"
    by (simp_all add: sample_ifaces_def iface_unique_def name_key_def index_key_def insert_device_def)
  have 2: "iface_args_ok 2 0 1 1" by code_simp
  have 3: "iface_clash (interfaces sample_ifaces) ''d1'' ''eth0'' (positive 2)"
    "\<not> iface_clash (interfaces sample_ifaces) ''d1'' ''if3'' (positive 2)"
    by code_simp+
  show ?thesis
    using UpsertInterface_outcome [OF 1 _ _ 2, of "''eth0''" 5 "''i3''"]
      UpsertInterface_outcome [OF 1 _ _ 2, of "''if3''" 5 "''i3''"] 3
    by (auto split: prod.splits)
qed

section \<open>Links\<close>

lemma nilIfEmpty_settled [simp]: "coalesce (nilIfEmpty v) (nilIfEmpty v) = nilIfEmpty v"
  by (simp add: nilIfEmpty_def)

lemma link_settled: "\<not> link_changes l (update_link now l r)" "\<not> link_changes l (insert_link now newid l)"
  by (simp_all add: link_changes_def update_link_def link_tracked_def insert_link_def coalesce_def split: option.split)

lemma link_unchanged: "\<not> link_changes l r \<Longrightarrow> update_link now l r = r"
  by (cases r) (simp add: link_changes_def update_link_def link_tracked_def)

lemma link_keys [simp]:
  "link_key (update_link now l r) = link_key r" "link_key (insert_link now newid l) = edge_key l"
  "l_id (update_link now l r) = l_id r" "l_is_active (update_link now l r) = l_is_active r"
  "l_relation (update_link now l r) = l_relation r" "l_is_active (insert_link now newid l)"
  by (simp_all add: update_link_def link_tracked_def link_key_def insert_link_def edge_key_def)

lemma upsert_link_again:
  assumes "upsert_link now newid l db = (None, db1)"
  shows "upsert_link now2 newid2 l db1 = (None, db1)"
proof -
  let ?ls = "topology_links db1"
  have ok: "int4_opt (t_LinkSpeedMbps l)" "edge_refs_ok db1 l"
    using assms by (auto simp: upsert_link_def edge_refs_ok_def split: if_splits)
  have "edge_key l \<in> set (map link_key ?ls) \<and> (\<forall>r \<in> set ?ls. link_key r = edge_key l \<longrightarrow> \<not> link_changes l r)"
  proof (cases "edge_key l \<in> set (map link_key (topology_links db))")
    case True
    then have ls: "?ls = map (\<lambda>r. if link_key r = edge_key l then update_link now l r else r) (topology_links db)"
      using assms by (auto simp: upsert_link_def split: if_splits)
    have "map link_key ?ls = map link_key (topology_links db)" unfolding ls by simp
    then show ?thesis using True unfolding ls by (auto simp: link_settled)
  next
    case False
    then have "?ls = topology_links db @ [insert_link now newid l]"
      using assms by (auto simp: upsert_link_def split: if_splits)
    then show ?thesis using False by (auto simp: link_settled image_iff)
  qed
  then have "map (\<lambda>r. if link_key r = edge_key l then update_link now2 l r else r) ?ls = ?ls"
    "edge_key l \<in> set (map link_key ?ls)"
    by (auto simp: link_unchanged intro: map_idI)
  with ok show ?thesis by (simp add: upsert_link_def)
qed

lemma links_only:
  "devices (db\<lparr>topology_links := x\<rparr>) = devices db" "interfaces (db\<lparr>topology_links := x\<rparr>) = interfaces db"
  by simp_all

lemma lookups_ignore_links [simp]:
  "DeviceIDByIP inet (db\<lparr>topology_links := x\<rparr>) org dc fl net grp ip = DeviceIDByIP inet db org dc fl net grp ip"
  "DeviceIDBySource (db\<lparr>topology_links := x\<rparr>) org dc fl net grp src = DeviceIDBySource db org dc fl net grp src"
  "DeviceIDByOrgAndHostname (db\<lparr>topology_links := x\<rparr>) org net grp src = DeviceIDByOrgAndHostname db org net grp src"
  "iface_of (db\<lparr>topology_links := x\<rparr>) dev name index = iface_of db dev name index"
  unfolding iface_of_def DeviceIDByIP_def DeviceByIP_def DeviceIDBySource_def DeviceIDByOrgAndHostname_def
    InterfaceIDByDeviceAndName_def InterfaceIDByDeviceAndIndex_def links_only by (rule refl)+

lemma edge_of_links [simp]: "edge_of inet pkt (db\<lparr>topology_links := x\<rparr>) = edge_of inet pkt db"
  unfolding edge_of_def lookups_ignore_links ..

text \<open>
  The periodic topology re-emit is silent: once \<open>WriteTopologyLink\<close> stored the
  edge of a packet, writing the same packet again, at any later time, succeeds and
  leaves the whole database as it is, the forwarder's change cursor included.
\<close>

theorem reemitted_edge_is_no_change:
  assumes "WriteTopologyLink inet now fresh pkt db = (None, db1)"
  shows "WriteTopologyLink inet now2 fresh2 pkt db1 = (None, db1)"
proof (cases "edge_of inet pkt db")
  case None
  then show ?thesis using assms by (simp add: WriteTopologyLink_def)
next
  case (Some l)
  then have u: "upsert_link now (fresh 0) l db = (None, db1)"
    using assms by (auto simp: WriteTopologyLink_def split: prod.splits option.splits)
  then obtain x where "db1 = db\<lparr>topology_links := x\<rparr>"
    by (auto simp: upsert_link_def split: if_splits)
  then have "edge_of inet pkt db1 = Some l" using Some by simp
  then show ?thesis using upsert_link_again [OF u] by (simp add: WriteTopologyLink_def)
qed

definition lldp_packet :: TelemetryPacket where
  "lldp_packet = pktA\<lparr>SourceId := ''sw1'', Tag := ''1'', Meta := [''remote_sys_name'' \<mapsto> ''sw2'', ''remote_port_id'' \<mapsto> ''7'',
     ''link_speed_mbps'' \<mapsto> ''1000'']\<rparr>"

definition two_switches :: db where
  "two_switches = empty_db\<lparr>devices :=
     [insert_device 1 ''d1'' (the (dev_args_of Some pktA)),
      insert_device 1 ''d2'' (the (dev_args_of Some (pktA\<lparr>SourceId := ''sw2''\<rparr>)))]\<rparr>"

definition one_link :: db where
  "one_link = snd (WriteTopologyLink Some 5 (\<lambda>_. ''l1'') lldp_packet two_switches)"

theorem reemitted_edge_is_no_change_witness:
  "map (\<lambda>l. (l_id l, l_src_device_id l, l_dst_device_id l)) (topology_links one_link) = [(''l1'', ''d1'', ''d2'')]
    \<and> WriteTopologyLink Some 99 (\<lambda>_. ''l2'') lldp_packet one_link = (None, one_link)"
proof -
  have "fst (WriteTopologyLink Some 5 (\<lambda>_. ''l1'') lldp_packet two_switches) = None"
    by code_simp
  then have "WriteTopologyLink Some 5 (\<lambda>_. ''l1'') lldp_packet two_switches = (None, one_link)"
    unfolding one_link_def by (metis prod.collapse)
  moreover have "map (\<lambda>l. (l_id l, l_src_device_id l, l_dst_device_id l)) (topology_links one_link) = [(''l1'', ''d1'', ''d2'')]"
    by code_simp
  ultimately show ?thesis using reemitted_edge_is_no_change by blast
qed

definition owned_elsewhere :: "link_row \<Rightarrow> string \<times> string list \<times> string \<times> bool" where
  "owned_elsewhere l = (l_id l, link_key l, l_relation l, l_is_active l)"

lemma upsert_link_keeps:
  "\<exists>new. map owned_elsewhere (topology_links (snd (upsert_link now newid l db)))
      = map owned_elsewhere (topology_links db) @ map owned_elsewhere new \<and> list_all l_is_active new"
proof -
  have "map owned_elsewhere (map (\<lambda>r. if link_key r = edge_key l then update_link now l r else r) ls)
      = map owned_elsewhere ls" for ls
    by (simp add: owned_elsewhere_def)
  then show ?thesis unfolding upsert_link_def
    by (auto simp: owned_elsewhere_def simp del: map_map intro: exI [of _ "[]"] exI [of _ "[insert_link now newid l]"])
qed

text \<open>
  Storing edges never touches what other components own: whatever batch is
  upserted, and even when it fails in the middle, every link row keeps its id, key,
  hierarchy relation and link state, and rows are only appended, as active links.
\<close>

theorem UpsertLinks_keeps:
  "\<exists>new. map owned_elsewhere (topology_links (snd (UpsertLinks now fresh n ls db)))
      = map owned_elsewhere (topology_links db) @ map owned_elsewhere new \<and> list_all l_is_active new"
proof (induction ls arbitrary: db n)
  case Nil
  show ?case by (auto intro: exI [of _ "[]"])
next
  case (Cons l ls)
  obtain new where 1: "map owned_elsewhere (topology_links (snd (upsert_link now (fresh n) l db)))
      = map owned_elsewhere (topology_links db) @ map owned_elsewhere new" "list_all l_is_active new"
    using upsert_link_keeps by blast
  obtain e db' where u: "upsert_link now (fresh n) l db = (e, db')" by fastforce
  show ?case
  proof (cases e)
    case (Some x)
    then show ?thesis using 1 u by auto
  next
    case None
    obtain new2 where "map owned_elsewhere (topology_links (snd (UpsertLinks now fresh (Suc n) ls db')))
      = map owned_elsewhere (topology_links db') @ map owned_elsewhere new2" "list_all l_is_active new2"
      using Cons.IH by blast
    then show ?thesis using 1 u None by (intro exI [of _ "new @ new2"]) simp
  qed
qed

section \<open>Link traps and the link state\<close>

lemma digit_val_char: "d < 10 \<Longrightarrow> digit_val (digit_char d) = d"
proof -
  assume "d < 10"
  then have "d \<in> {0, 1, 2, 3, 4, 5, 6, 7, 8, 9}" by auto
  then show ?thesis by (auto simp: digit_val_def digit_char_def)
qed

lemma digits_val_snoc: "digits_val (s @ [c]) = digits_val s * 10 + digit_val c"
  by (simp add: digits_val_def)

lemma digits_val_nat_digits [simp]: "digits_val (nat_digits n) = n"
proof (induction n rule: nat_digits.induct)
  case (1 n)
  show ?case
  proof (cases "n < 10")
    case True
    then show ?thesis by (simp add: nat_digits.simps [of n] digits_val_def digit_val_char)
  next
    case False
    then show ?thesis using 1 by (simp add: nat_digits.simps [of n] digits_val_snoc digit_val_char)
  qed
qed

lemma digit_char_digit: "is_digit (digit_char d)"
proof -
  define e where "e = d mod 10"
  then have "e < 10" by simp
  then have "e \<in> {0, 1, 2, 3, 4, 5, 6, 7, 8, 9}" by auto
  then show ?thesis unfolding digit_char_def e_def [symmetric] by (auto simp: is_digit_def)
qed

lemma nat_digits_digits: "list_all is_digit (nat_digits n) \<and> nat_digits n \<noteq> ''''"
proof (induction n rule: nat_digits.induct)
  case (1 n)
  then show ?case
    by (cases "n < 10") (simp_all add: nat_digits.simps [of n] digit_char_digit)
qed

lemma nat_digits_inj: "nat_digits m = nat_digits n \<longleftrightarrow> m = n"
  by (metis digits_val_nat_digits)

text \<open>
  The raw \<open>ifIndex\<close> of a trap is tried as a port exactly when the interface
  name happens to end in it, although it is documented never to be a candidate: a
  trap for \<open>if4\<close> with index 4 first looks for port 4, the neighbouring link.
\<close>

theorem raw_index_candidate:
  "itoa (int n) \<in> set (portCandidates (int n) s) \<longleftrightarrow> trailingDigits s = itoa (int n)"
  using nat_digits_digits [of n]
  by (auto simp: portCandidates_def Let_def itoa_def nat_digits_inj)

lemma port_candidates_ne: "p \<in> set (portCandidates i s) \<Longrightarrow> p \<noteq> ''''"
  by (auto simp: portCandidates_def Let_def split: if_splits)

lemma first_match_Some:
  "first_match db dev ps = Some l \<Longrightarrow> l \<in> set (topology_links db) \<and> l_id l \<noteq> '''' \<and> (\<exists>p \<in> set ps. port_match dev p l)"
  by (induction ps) (auto simp: find_Some_iff split: if_splits option.splits)

lemma first_match_None:
  assumes "first_match db dev ps = None" "p \<in> set ps" "p \<noteq> ''''"
    "l \<in> set (topology_links db)" "port_match dev p l" "'''' \<notin> l_id ` set (topology_links db)"
  shows False
  using assms
proof (induction ps)
  case (Cons q ps)
  show ?case
  proof (cases "q = p")
    case True
    have "find (port_match dev p) (topology_links db) \<noteq> None" using Cons.prems(4,5) by (auto simp: find_None_iff)
    then obtain k where k: "find (port_match dev p) (topology_links db) = Some k" by auto
    then have "k \<in> set (topology_links db)" by (auto simp: find_Some_iff)
    then have "l_id k \<noteq> ''''" using Cons.prems(6) by (metis imageI)
    then show False using Cons.prems(1,3) True k by simp
  next
    case False
    then show False using Cons by (auto split: if_splits option.splits)
  qed
qed simp

text \<open>
  Correlating a link trap never guesses: a link that is returned is a network
  link one of whose ends is the sending device on one of the candidate ports, and its
  two ends are reported as stored; nothing is returned only if no network link has the
  device on a candidate port (link ids being generated, none is empty).
\<close>

theorem CorrelateLinkByPort_exact:
  assumes "'''' \<notin> l_id ` set (topology_links db)"
  shows "case CorrelateLinkByPort db dev i s of
      Some row \<Rightarrow> (\<exists>l \<in> set (topology_links db). \<exists>p \<in> set (portCandidates i s). port_match dev p l
        \<and> (k_LinkID row, k_Layer row) = (l_id l, ''network'')
        \<and> (k_SrcDeviceID row, k_SrcPort row) = (l_src_device_id l, l_src_port_name l)
        \<and> (k_DstDeviceID row, k_DstPort row) = (l_dst_device_id l, l_dst_port_name l))
    | None \<Rightarrow> {l \<in> set (topology_links db). \<exists>p \<in> set (portCandidates i s). port_match dev p l} = {}"
proof (cases "first_match db dev (portCandidates i s)")
  case None
  then have "{l \<in> set (topology_links db). \<exists>p \<in> set (portCandidates i s). port_match dev p l} = {}"
    using first_match_None [OF None _ _ _ _ assms] port_candidates_ne by blast
  then show ?thesis using None by (simp add: CorrelateLinkByPort_def)
next
  case (Some l)
  then obtain p where "l \<in> set (topology_links db)" "p \<in> set (portCandidates i s)" "port_match dev p l"
    using first_match_Some by blast
  then show ?thesis
    by (simp add: CorrelateLinkByPort_def Some)
      (intro bexI [of _ l] conjI bexI [of _ p], auto simp: port_match_def)
qed

theorem CorrelateLinkByPort_exact_witness:
  "map_option k_LinkID (CorrelateLinkByPort one_link ''d1'' 2 ''eth1'') = Some ''l1''"
proof -
  have links: "'''' \<notin> l_id ` set (topology_links one_link)" by code_simp
  have "map_option k_LinkID (CorrelateLinkByPort one_link ''d1'' 2 ''eth1'') \<noteq> None" by code_simp
  moreover have "l_id ` set (topology_links one_link) = {''l1''}" by code_simp
  ultimately show ?thesis
    using CorrelateLinkByPort_exact [OF links, where dev = "''d1''" and i = 2 and s = "''eth1''"]
    by (cases "CorrelateLinkByPort one_link ''d1'' 2 ''eth1''") auto
qed

definition peer_view :: "LinkRow \<Rightarrow> LinkRow" where
  "peer_view row = row\<lparr>k_SrcDeviceID := k_DstDeviceID row, k_DstDeviceID := k_SrcDeviceID row\<rparr>"

lemma same_pair_simps [simp]:
  "same_pair row (l\<lparr>l_is_active := a, l_updated_at := t\<rparr>) = same_pair row l"
  "same_pair (peer_view row) l = same_pair row l"
  by (auto simp: same_pair_def peer_view_def link_layer_def)

text \<open>
  A link trap flips the whole device pair, at most once: afterwards every link of
  the layer between the two devices, in either direction and on any port, has the new
  state (parallel links of the pair included); links of other pairs are untouched; and
  the same trap from either end then reports no change and writes nothing.
\<close>

theorem SetLinkActive_whole_pair:
  "case SetLinkActive now row down db of (changed, db1) \<Rightarrow>
     {l_is_active l | l. l \<in> set (topology_links db1) \<and> same_pair row l} \<subseteq> {\<not> down}
     \<and> filter (\<lambda>l. \<not> same_pair row l) (topology_links db1) = filter (\<lambda>l. \<not> same_pair row l) (topology_links db)
     \<and> changed = (topology_links db1 \<noteq> topology_links db)
     \<and> SetLinkActive now2 row down db1 = (False, db1)
     \<and> SetLinkActive now2 (peer_view row) down db1 = (False, db1)"
proof -
  let ?ls = "map (flip_link now row down) (topology_links db)"
  have p: "same_pair row (flip_link now row down l) = same_pair row l" for l
    by (simp add: flip_link_def)
  have nohit: "\<not> link_hit row down (flip_link t row down l)" for t l
    by (simp add: flip_link_def link_hit_def)
  have stay: "flip_link t row down l = l" if "\<not> link_hit row down l" for t l
    using that by (simp add: flip_link_def)
  have move: "flip_link t row down l \<noteq> l" if "link_hit row down l" for t l
    using that by (cases l) (auto simp: flip_link_def link_hit_def)
  have peer: "link_hit (peer_view row) down = link_hit row down"
    "flip_link t (peer_view row) down = flip_link t row down" for t
    by (auto simp: fun_eq_iff flip_link_def link_hit_def)
  have none: "\<not> list_ex (link_hit row down) ?ls" "map (flip_link t row down) ?ls = ?ls" for t
    by (auto simp: list_ex_iff nohit stay)
  have "filter (\<lambda>l. \<not> same_pair row l) (map (flip_link now row down) ls) = filter (\<lambda>l. \<not> same_pair row l) ls" for ls
    by (induction ls) (auto simp: p flip_link_def link_hit_def)
  moreover have "list_ex (link_hit row down) ls = (map (flip_link now row down) ls \<noteq> ls)" for ls
    by (induction ls) (use stay move in auto)
  moreover have "{l_is_active l | l. l \<in> set ?ls \<and> same_pair row l} \<subseteq> {\<not> down}"
    using nohit by (auto simp: p link_hit_def)
  ultimately show ?thesis
    using none unfolding SetLinkActive_def peer by simp
qed

end
