(* ===== verification/Telemetry_Store.thy ===== *)
theory Telemetry_Store
  imports Device_Store
begin

text \<open>
  Metrics, energy readings and events in \<open>fwDCS/internal/store/timescale.go\<close>: the
  hand-written JSON encoder, the two COPY batches and the event insert. \<open>json_ok\<close> is
  the server's JSONB parser, \<open>inet\<close> and \<open>uuid\<close> its address and identifier parsers;
  a value is a rational number, so NaN and infinities are left out.
\<close>

section \<open>JSON\<close>

definition esc_char :: "char \<Rightarrow> string" where
  "esc_char c =
     (if c = CHR 0x22 then [CHR 0x5C, CHR 0x22]
      else if c = CHR 0x5C then [CHR 0x5C, CHR 0x5C]
      else if c = CHR 0x0A then [CHR 0x5C, CHR ''n'']
      else if c = CHR 0x0D then [CHR 0x5C, CHR ''r'']
      else if c = CHR 0x09 then [CHR 0x5C, CHR ''t'']
      else [c])"

definition jsonEscape :: "string \<Rightarrow> string" where
  "jsonEscape s = concat (map esc_char s)"

definition json_member :: "string \<times> string \<Rightarrow> string" where
  "json_member kv = CHR 0x22 # jsonEscape (fst kv) @ [CHR 0x22, CHR '':'', CHR 0x22] @ jsonEscape (snd kv) @ [CHR 0x22]"

text \<open>The members in the order in which the loop over the Go map meets them.\<close>

fun json_members :: "(string \<times> string) list \<Rightarrow> string" where
  "json_members [] = ''''"
| "json_members [kv] = json_member kv"
| "json_members (kv # kvs) = json_member kv @ CHR '','' # json_members kvs"

definition mapToJSON :: "(string \<times> string) list \<Rightarrow> string" where
  "mapToJSON kvs = (if kvs = [] then ''{}'' else CHR ''{'' # json_members kvs @ ''}'')"

definition AttributesJSON :: "(string \<times> string) list \<Rightarrow> string" where
  "AttributesJSON m = mapToJSON m"

definition MapWithout :: "(string \<times> string) list \<Rightarrow> string list \<Rightarrow> (string \<times> string) list" where
  "MapWithout m keys = (if m = [] then m else filter (\<lambda>kv. fst kv \<notin> set keys) m)"

text \<open>
  The grammar of RFC 8259 restricted to what the encoder emits: a string may not hold
  a control character, and the escapes are the two-character ones. \<open>json_string\<close>
  reads up to the closing quote, \<open>json_object\<close> an object with string members.
\<close>

definition unesc :: "char \<Rightarrow> char option" where
  "unesc c = map_of [(CHR 0x22, CHR 0x22), (CHR 0x5C, CHR 0x5C), (CHR ''/'', CHR ''/''), (CHR ''b'', CHR 0x08),
     (CHR ''f'', CHR 0x0C), (CHR ''n'', CHR 0x0A), (CHR ''r'', CHR 0x0D), (CHR ''t'', CHR 0x09)] c"

definition control :: "char \<Rightarrow> bool" where
  "control c \<longleftrightarrow> of_char c < (32 :: nat)"

fun json_string :: "string \<Rightarrow> (string \<times> string) option" where
  "json_string [] = None"
| "json_string (c # cs) =
     (if c = CHR 0x22 then Some ('''', cs)
      else if control c then None
      else if c = CHR 0x5C then
        (case cs of [] \<Rightarrow> None
         | e # es \<Rightarrow> (case unesc e of None \<Rightarrow> None
                     | Some d \<Rightarrow> map_option (\<lambda>(s, r). (d # s, r)) (json_string es)))
      else map_option (\<lambda>(s, r). (c # s, r)) (json_string cs))"

definition json_pair :: "string \<Rightarrow> ((string \<times> string) \<times> string) option" where
  "json_pair cs = (case cs of
     q # r1 \<Rightarrow> if q \<noteq> CHR 0x22 then None else
       (case json_string r1 of
          Some (k, c # q2 # r2) \<Rightarrow>
            if c = CHR '':'' \<and> q2 = CHR 0x22 then map_option (\<lambda>(v, r). ((k, v), r)) (json_string r2) else None
        | _ \<Rightarrow> None)
   | [] \<Rightarrow> None)"

fun json_pairs :: "nat \<Rightarrow> string \<Rightarrow> (string \<times> string) list option" where
  "json_pairs 0 cs = None"
| "json_pairs (Suc n) cs =
     (case json_pair cs of
        Some (kv, c # r) \<Rightarrow>
          if c = CHR '','' then map_option ((#) kv) (json_pairs n r)
          else if c = CHR ''}'' \<and> r = '''' then Some [kv] else None
      | _ \<Rightarrow> None)"

definition json_object :: "string \<Rightarrow> (string \<times> string) list option" where
  "json_object cs = (if cs = ''{}'' then Some []
     else case cs of [] \<Rightarrow> None | c # r \<Rightarrow> if c = CHR ''{'' then json_pairs (length r) r else None)"

section \<open>Metrics and energy readings\<close>

record MetricRow =
  mr_DeviceID :: string
  mr_TS :: int
  mr_MetricName :: string
  mr_Tag :: string
  mr_Value :: rat
  mr_Attributes :: string
  mr_CollectorAgent :: string
  mr_CollectorProtocol :: string
  mr_InterfaceID :: string

record EnergyRow =
  er_DeviceID :: string
  er_TS :: int
  er_MetricName :: string
  er_Tag :: string
  er_Circuit :: string
  er_Phase :: string
  er_Value :: rat
  er_Scope :: string
  er_Attributes :: string
  er_CollectorAgent :: string
  er_CollectorProtocol :: string

definition metric_stage :: "MetricRow \<Rightarrow> metric_row" where
  "metric_stage r = \<lparr>m_device_id = mr_DeviceID r, m_ts = mr_TS r, m_metric_name = mr_MetricName r, m_tag = mr_Tag r,
     m_value = mr_Value r, m_attributes = Some (or_default (mr_Attributes r) ''{}''),
     m_collector_agent = or_default (mr_CollectorAgent r) ''EDR'',
     m_collector_protocol = or_default (mr_CollectorProtocol r) ''SNMP'',
     m_interface_id = nilIfEmpty (mr_InterfaceID r)\<rparr>"

definition energy_stage :: "EnergyRow \<Rightarrow> energy_row" where
  "energy_stage r = \<lparr>g_device_id = er_DeviceID r, g_ts = er_TS r, g_metric_name = er_MetricName r, g_tag = er_Tag r,
     g_circuit = er_Circuit r, g_phase = er_Phase r, g_value = er_Value r, g_scope = Some (er_Scope r),
     g_attributes = Some (or_default (er_Attributes r) ''{}''),
     g_collector_agent = or_default (er_CollectorAgent r) ''EDR'',
     g_collector_protocol = or_default (er_CollectorProtocol r) ''BACNET''\<rparr>"

type_synonym series_key = "string \<times> string \<times> string \<times> int"

definition metric_key :: "metric_row \<Rightarrow> series_key" where
  "metric_key r = (m_device_id r, m_metric_name r, m_tag r, m_ts r)"

definition energy_key :: "energy_row \<Rightarrow> series_key" where
  "energy_key r = (g_device_id r, g_metric_name r, g_tag r, g_ts r)"

text \<open>\<open>ON CONFLICT (key) DO NOTHING\<close>, row by row: a row also conflicts with an earlier one of the batch.\<close>

fun insert_new :: "('r \<Rightarrow> 'k) \<Rightarrow> 'r list \<Rightarrow> 'r list \<Rightarrow> 'r list" where
  "insert_new k tbl [] = tbl"
| "insert_new k tbl (r # rs) = insert_new k (if k r \<in> set (map k tbl) then tbl else tbl @ [r]) rs"

definition metric_stage_ok :: "(string \<Rightarrow> bool) \<Rightarrow> metric_row \<Rightarrow> bool" where
  "metric_stage_ok json_ok r = (case m_attributes r of None \<Rightarrow> True | Some a \<Rightarrow> json_ok a)"

text \<open>
  The transaction: a temporary table, COPY, insert, commit. COPY fails as a whole when
  one value does not convert; the insert checks the foreign key of the rows it adds.
\<close>

definition WriteMetricsBatch :: "(string \<Rightarrow> bool) \<Rightarrow> MetricRow list \<Rightarrow> db \<Rightarrow> db_error option \<times> db" where
  "WriteMetricsBatch json_ok rows db =
     (if rows = [] then (None, db)
      else let stage = map metric_stage rows; tbl = insert_new metric_key (metrics db) stage in
        if \<not> list_all (metric_stage_ok json_ok) stage then (Some ErrCast, db)
        else if \<not> list_all (\<lambda>r. case m_interface_id r of None \<Rightarrow> True | Some i \<Rightarrow> i \<in> i_id ` set (interfaces db))
                  (drop (length (metrics db)) tbl)
        then (Some ErrForeignKey, db)
        else (None, db\<lparr>metrics := tbl\<rparr>))"

definition WriteEnergyBatch :: "(string \<Rightarrow> bool) \<Rightarrow> EnergyRow list \<Rightarrow> db \<Rightarrow> db_error option \<times> db" where
  "WriteEnergyBatch json_ok rows db =
     (if rows = [] then (None, db)
      else let stage = map energy_stage rows in
        if \<not> list_all (\<lambda>r. case g_attributes r of None \<Rightarrow> True | Some a \<Rightarrow> json_ok a) stage then (Some ErrCast, db)
        else (None, db\<lparr>energy_metrics := insert_new energy_key (energy_metrics db) stage\<rparr>))"

section \<open>Events\<close>

definition null_cast :: "(string \<Rightarrow> string option) \<Rightarrow> string \<Rightarrow> string option option" where
  "null_cast parse s = (if s = '''' then Some None else map_option Some (parse s))"

text \<open>\<open>kvs\<close> are the entries of \<open>pkt.Meta\<close> in iteration order; the flag is the event hook.\<close>

definition WriteEvent ::
  "(string \<Rightarrow> string option) \<Rightarrow> (string \<Rightarrow> string option) \<Rightarrow> (string \<Rightarrow> bool) \<Rightarrow> string \<Rightarrow> (string \<times> string) list
     \<Rightarrow> string \<Rightarrow> string \<Rightarrow> TelemetryPacket \<Rightarrow> db \<Rightarrow> db_error option \<times> db \<times> bool" where
  "WriteEvent inet uuid json_ok newid kvs deviceID sourceHostname pkt db =
     (let m = get (Meta pkt) in
      case (null_cast uuid deviceID, null_cast uuid (m ''dst_device_id''), null_cast uuid (m ''link_id''),
            null_cast inet (m ''source_ip'')) of
        (Some dev, Some dst, Some link, Some ip) \<Rightarrow>
          if \<not> json_ok (mapToJSON kvs) then (Some ErrCast, db, False)
          else (None, db\<lparr>events := events db @
             [\<lparr>e_id = newid, e_device_id = dev, e_source_hostname = nilIfEmpty sourceHostname,
               e_src_port_name = nullif (m ''src_port_name''), e_dst_device_id = dst,
               e_dst_hostname = nullif (m ''dst_hostname''), e_dst_port_name = nullif (m ''dst_port_name''),
               e_link_id = link, e_ts = TimestampNs pkt, e_kind = Kind pkt, e_event_name = Name pkt,
               e_severity = Severity pkt, e_trap_oid = nilIfEmpty (m ''trap_oid''), e_source_ip = ip,
               e_event_payload = Some (mapToJSON kvs),
               e_collector_agent = or_default (m ''collector_agent'') (collectorAgentFromReaderID (ReaderId pkt))\<rparr>]\<rparr>, True)
      | _ \<Rightarrow> (Some ErrCast, db, False))"

section \<open>The encoder against the grammar\<close>

text \<open>A text without control characters other than newline, carriage return and tab.\<close>

definition clean_char :: "char \<Rightarrow> bool" where
  "clean_char c \<longleftrightarrow> \<not> control c \<or> c \<in> {CHR 0x0A, CHR 0x0D, CHR 0x09}"

definition clean :: "string \<Rightarrow> bool" where
  "clean s = list_all clean_char s"

lemma control_simps [simp]:
  "\<not> control (CHR 0x22)" "\<not> control (CHR 0x5C)" "control (CHR 0x0A)" "control (CHR 0x0D)" "control (CHR 0x09)"
  by (simp_all add: control_def)

lemma unesc_simps [simp]:
  "unesc (CHR 0x22) = Some (CHR 0x22)" "unesc (CHR 0x5C) = Some (CHR 0x5C)" "unesc (CHR ''n'') = Some (CHR 0x0A)"
  "unesc (CHR ''r'') = Some (CHR 0x0D)" "unesc (CHR ''t'') = Some (CHR 0x09)"
  by (simp_all add: unesc_def)

lemma clean_simps [simp]:
  "clean ''''" "clean (c # s) \<longleftrightarrow> clean_char c \<and> clean s"
  by (simp_all add: clean_def)

lemma jsonEscape_simps [simp]:
  "jsonEscape '''' = ''''" "jsonEscape (c # s) = esc_char c @ jsonEscape s"
  by (simp_all add: jsonEscape_def)

lemma json_string_step:
  "json_string (esc_char c @ r) =
     (if clean_char c then map_option (\<lambda>(s, r). (c # s, r)) (json_string r) else None)"
  by (auto simp: esc_char_def clean_char_def)

lemma json_string_escape:
  "json_string (jsonEscape s @ CHR 0x22 # rest) = (if clean s then Some (s, rest) else None)"
  by (induction s) (simp_all add: json_string_step)

definition clean_pair :: "string \<times> string \<Rightarrow> bool" where
  "clean_pair kv \<longleftrightarrow> clean (fst kv) \<and> clean (snd kv)"

lemma json_pair_member:
  "json_pair (json_member kv @ rest) = (if clean_pair kv then Some (kv, rest) else None)"
  using json_string_escape [of "snd kv" rest]
    json_string_escape [of "fst kv" "CHR '':'' # CHR 0x22 # jsonEscape (snd kv) @ CHR 0x22 # rest"]
  by (cases kv) (simp add: json_pair_def json_member_def clean_pair_def)

lemma json_members_Cons:
  "json_members (kv # kvs) = json_member kv @ (if kvs = [] then '''' else CHR '','' # json_members kvs)"
  by (cases kvs) simp_all

lemma json_pairs_members:
  "kvs \<noteq> [] \<Longrightarrow> length kvs \<le> n \<Longrightarrow>
   json_pairs n (json_members kvs @ ''}'') = (if list_all clean_pair kvs then Some kvs else None)"
proof (induction kvs arbitrary: n)
  case (Cons kv kvs)
  obtain m where n: "n = Suc m" "length kvs \<le> m" using Cons.prems(2) by (cases n) auto
  show ?case
  proof (cases "kvs = []")
    case True
    then show ?thesis using n by (simp add: json_members_Cons json_pair_member)
  next
    case False
    have "json_pair (json_members (kv # kvs) @ ''}'')
        = (if clean_pair kv then Some (kv, CHR '','' # json_members kvs @ ''}'') else None)"
      using False json_pair_member [of kv "CHR '','' # json_members kvs @ ''}''"] by (simp add: json_members_Cons)
    then show ?thesis using Cons.IH [OF False n(2)] n(1) by simp
  qed
qed simp

lemma json_members_len: "length kvs \<le> length (json_members kvs)"
proof (induction kvs)
  case (Cons kv kvs)
  then show ?case by (cases kvs) (simp_all add: json_members_Cons json_member_def)
qed simp

text \<open>
  The attribute and event encoder is faithful exactly on clean texts: a strict JSON
  reader gets the same members back, in the order written, if no key or value holds
  a control character other than newline, carriage return and tab, and rejects the
  text otherwise (those are the only ones the encoder escapes).
\<close>

theorem mapToJSON_roundtrip:
  "json_object (mapToJSON kvs) = (if list_all clean_pair kvs then Some kvs else None)"
proof (cases "kvs = []")
  case False
  then obtain kv r where kvs: "kvs = kv # r" by (cases kvs) auto
  have "length kvs \<le> length (json_members kvs @ ''}'')" using json_members_len [of kvs] by simp
  from json_pairs_members [OF False this] show ?thesis
    by (simp add: json_object_def mapToJSON_def kvs json_members_Cons json_member_def)
qed (simp add: json_object_def mapToJSON_def)

section \<open>Batches\<close>

lemma insert_new_shape: "\<exists>new. insert_new k tbl rs = tbl @ new"
  by (induction k tbl rs rule: insert_new.induct) auto

lemma insert_new_keys: "k ` set (insert_new k tbl rs) = k ` set tbl \<union> k ` set rs"
  by (induction k tbl rs rule: insert_new.induct) auto

lemma insert_new_distinct: "distinct (map k tbl) \<Longrightarrow> distinct (map k (insert_new k tbl rs))"
  by (induction k tbl rs rule: insert_new.induct) auto

lemma insert_new_known: "k ` set rs \<subseteq> k ` set tbl \<Longrightarrow> insert_new k tbl rs = tbl"
  by (induction k tbl rs rule: insert_new.induct) auto

lemma insert_new_again: "insert_new k (insert_new k tbl rs) rs = insert_new k tbl rs"
  by (rule insert_new_known) (simp add: insert_new_keys)

text \<open>
  A metrics batch is all or nothing and safe to repeat: an error stores nothing;
  otherwise every row of the batch is present under its key, nothing stored before
  changes, the series keys stay unique, and writing the batch again changes nothing.
\<close>

theorem metrics_batch_atomic:
  assumes "WriteMetricsBatch json_ok rows db = (e, db')" and "distinct (map metric_key (metrics db))"
  shows "if e \<noteq> None then db' = db
    else (\<exists>new. metrics db' = metrics db @ new) \<and> distinct (map metric_key (metrics db'))
      \<and> metric_key ` set (metrics db') = metric_key ` set (metrics db) \<union> (metric_key \<circ> metric_stage) ` set rows
      \<and> WriteMetricsBatch json_ok rows db' = (None, db')"
proof (cases "rows = []")
  case True
  then show ?thesis using assms by (auto simp: WriteMetricsBatch_def)
next
  case False
  let ?tbl = "insert_new metric_key (metrics db) (map metric_stage rows)"
  show ?thesis
  proof (cases e)
    case None
    have db': "db' = db\<lparr>metrics := ?tbl\<rparr>" and ok: "list_all (metric_stage_ok json_ok) (map metric_stage rows)"
      using assms(1) False None by (simp_all add: WriteMetricsBatch_def Let_def split: if_splits)
    have "WriteMetricsBatch json_ok rows db' = (None, db')"
      using False ok by (simp add: WriteMetricsBatch_def Let_def db' insert_new_again)
    then show ?thesis
      using None insert_new_shape [of metric_key "metrics db"] insert_new_distinct [OF assms(2)]
      by (auto simp: db' insert_new_keys image_comp)
  next
    case (Some x)
    then show ?thesis using assms(1) False by (simp add: WriteMetricsBatch_def Let_def split: if_splits)
  qed
qed

definition sample_metric :: MetricRow where
  "sample_metric = \<lparr>mr_DeviceID = ''d1'', mr_TS = 5, mr_MetricName = ''cpu'', mr_Tag = '''', mr_Value = 1,
     mr_Attributes = '''', mr_CollectorAgent = '''', mr_CollectorProtocol = '''', mr_InterfaceID = ''''\<rparr>"

theorem metrics_batch_atomic_witness:
  "WriteMetricsBatch (\<lambda>_. True) [sample_metric, sample_metric]
      (empty_db\<lparr>metrics := [metric_stage sample_metric]\<rparr>) = (None, empty_db\<lparr>metrics := [metric_stage sample_metric]\<rparr>)"
proof -
  have "WriteMetricsBatch (\<lambda>_. True) [sample_metric, sample_metric] empty_db
      = (None, empty_db\<lparr>metrics := [metric_stage sample_metric]\<rparr>)"
    by (simp add: WriteMetricsBatch_def empty_db_def metric_stage_ok_def metric_stage_def sample_metric_def
        or_default_def nilIfEmpty_def)
  from metrics_batch_atomic [OF this] show ?thesis by (simp add: empty_db_def)
qed

lemma esc_dirty: "\<not> clean_char c \<Longrightarrow> esc_char c = [c]"
  by (auto simp: esc_char_def clean_char_def)

lemma escape_dirty: "\<not> clean s \<Longrightarrow> \<not> clean (jsonEscape s)"
proof (induction s)
  case (Cons c s)
  then show ?case by (cases "clean_char c") (auto simp: clean_def esc_dirty)
qed simp

lemma members_dirty: "\<not> list_all clean_pair kvs \<Longrightarrow> \<not> clean (json_members kvs)"
proof (induction kvs)
  case (Cons kv kvs)
  have "clean (a @ b) \<longleftrightarrow> clean a \<and> clean b" for a b by (simp add: clean_def)
  then show ?case using Cons escape_dirty [of "fst kv"] escape_dirty [of "snd kv"]
    by (auto simp: json_members_Cons json_member_def clean_pair_def split: if_splits)
qed simp

text \<open>
  One bad label loses a whole metrics batch: since JSON forbids raw control
  characters, a row whose attributes the encoder built from a text with such a
  character makes the COPY fail, and no row of the batch is stored.
\<close>

theorem dirty_attribute_loses_batch:
  assumes "\<And>s. json_ok s \<Longrightarrow> clean s"
    and "r \<in> set rows" and "mr_Attributes r = AttributesJSON kvs" and "\<not> list_all clean_pair kvs"
  shows "WriteMetricsBatch json_ok rows db = (Some ErrCast, db)"
proof -
  have "kvs \<noteq> []" using assms(4) by auto
  then have ne: "AttributesJSON kvs \<noteq> ''''" by (simp add: AttributesJSON_def mapToJSON_def)
  have "\<not> clean (AttributesJSON kvs)"
    using members_dirty [OF assms(4)] \<open>kvs \<noteq> []\<close> by (simp add: AttributesJSON_def mapToJSON_def clean_def)
  then have "\<not> metric_stage_ok json_ok (metric_stage r)"
    using assms(1,3) ne by (auto simp: metric_stage_ok_def metric_stage_def)
  then have "\<not> list_all (metric_stage_ok json_ok) (map metric_stage rows)"
    using assms(2) by (auto simp: list_all_iff)
  then show ?thesis using assms(2) by (auto simp: WriteMetricsBatch_def Let_def)
qed

theorem dirty_attribute_loses_batch_witness:
  "WriteMetricsBatch clean
     [sample_metric, sample_metric\<lparr>mr_TS := 6, mr_Attributes := AttributesJSON [(''label'', [CHR 0x07])]\<rparr>] empty_db
     = (Some ErrCast, empty_db)"
proof (rule dirty_attribute_loses_batch)
  show "sample_metric\<lparr>mr_TS := 6, mr_Attributes := AttributesJSON [(''label'', [CHR 0x07])]\<rparr>
    \<in> set [sample_metric, sample_metric\<lparr>mr_TS := 6, mr_Attributes := AttributesJSON [(''label'', [CHR 0x07])]\<rparr>]"
    by simp
  show "\<not> list_all clean_pair [(''label'', [CHR 0x07])]"
    by (simp add: clean_pair_def clean_char_def control_def)
qed simp_all

end
