(* ===== verification/Target.thy ===== *)
theory Target
  imports Prelude
begin

text \<open>
  One polled device, \<open>fwEDR/internal/target/target.go\<close>: its construction from the
  configuration, its capability flags and its mutable name and asset fields. The
  lock makes every operation atomic.
\<close>

record TargetConfig =
  tc_IP :: string
  tc_MgmtIP :: string
  tc_ProdIP :: string
  tc_LoopbackIP :: string
  tc_OOBIP :: string
  tc_GNMIIP :: string
  tc_Hostname :: string
  tc_DeviceType :: string
  tc_SNMPVersion :: int
  tc_Community :: string
  tc_GNMIEnabled :: bool
  tc_BACnetEnabled :: bool
  tc_ActiveCircuits :: int
  tc_Vendor :: string
  tc_Labels :: smap
  tc_DatacenterID :: string
  tc_FloorID :: string
  tc_ModelName :: string
  tc_Country :: string
  tc_DatacenterName :: string
  tc_DatacenterCity :: string
  tc_Room :: string
  tc_Floor :: string
  tc_RackRow :: int
  tc_RackNum :: int
  tc_RackUnit :: int

record IdentityConfig =
  idc_OrgID :: string
  idc_DatacenterID :: string
  idc_FloorID :: string
  idc_NetworkID :: string
  idc_GroupID :: string
  idc_ReaderID :: string

record Target =
  tg_IP :: string
  tg_MgmtIP :: string
  tg_ProdIP :: string
  tg_LoopbackIP :: string
  tg_OOBIP :: string
  tg_GNMIIP :: string
  tg_Hostname :: string
  tg_DeviceType :: string
  tg_Vendor :: string
  tg_Labels :: smap
  tg_SNMPVersion :: int
  tg_Community :: string
  tg_Caps :: byte
  tg_ActiveCircuits :: int
  tg_DatacenterID :: string
  tg_FloorID :: string
  tg_ModelName :: string
  tg_Country :: string
  tg_DatacenterName :: string
  tg_DatacenterCity :: string
  tg_Room :: string
  tg_Floor :: string
  tg_RackRow :: int
  tg_RackNum :: int
  tg_RackUnit :: int

definition CapSNMP :: byte where "CapSNMP = 1"
definition CapGNMI :: byte where "CapGNMI = 2"
definition CapBACnet :: byte where "CapBACnet = 4"

text \<open>The global SNMP settings enter as their version and community.\<close>

definition FromConfig :: "TargetConfig \<Rightarrow> int \<Rightarrow> string \<Rightarrow> Target" where
  "FromConfig tc version community =
     (let mgmt = or_default (tc_MgmtIP tc) (tc_IP tc);
          caps = CapSNMP OR (if tc_GNMIEnabled tc then CapGNMI else 0) OR (if tc_BACnetEnabled tc then CapBACnet else 0)
      in \<lparr>tg_IP = tc_IP tc, tg_MgmtIP = mgmt, tg_ProdIP = tc_ProdIP tc, tg_LoopbackIP = tc_LoopbackIP tc,
          tg_OOBIP = tc_OOBIP tc, tg_GNMIIP = or_default (tc_GNMIIP tc) mgmt, tg_Hostname = tc_Hostname tc,
          tg_DeviceType = tc_DeviceType tc, tg_Vendor = or_default (tc_Vendor tc) ''generic'', tg_Labels = tc_Labels tc,
          tg_SNMPVersion = (if tc_SNMPVersion tc = 0 then version else tc_SNMPVersion tc),
          tg_Community = or_default (tc_Community tc) community, tg_Caps = caps,
          tg_ActiveCircuits = tc_ActiveCircuits tc, tg_DatacenterID = tc_DatacenterID tc, tg_FloorID = tc_FloorID tc,
          tg_ModelName = tc_ModelName tc, tg_Country = tc_Country tc, tg_DatacenterName = tc_DatacenterName tc,
          tg_DatacenterCity = tc_DatacenterCity tc, tg_Room = tc_Room tc, tg_Floor = tc_Floor tc,
          tg_RackRow = tc_RackRow tc, tg_RackNum = tc_RackNum tc, tg_RackUnit = tc_RackUnit tc\<rparr>)"

definition Has :: "Target \<Rightarrow> byte \<Rightarrow> bool" where
  "Has t c \<longleftrightarrow> tg_Caps t AND c \<noteq> 0"

definition ClearCap :: "byte \<Rightarrow> Target \<Rightarrow> Target" where
  "ClearCap c t = t\<lparr>tg_Caps := tg_Caps t AND NOT c\<rparr>"

definition SourceID :: "Target \<Rightarrow> string" where
  "SourceID t = (if tg_Hostname t \<noteq> '''' then tg_Hostname t else tg_IP t)"

definition SetHostname :: "string \<Rightarrow> Target \<Rightarrow> Target" where
  "SetHostname name t = (if name = '''' then t else t\<lparr>tg_Hostname := name\<rparr>)"

record AssetSnapshot =
  as_ModelName :: string
  as_Country :: string
  as_DatacenterName :: string
  as_DatacenterCity :: string
  as_Room :: string
  as_RackRow :: int
  as_RackNum :: int
  as_RackUnit :: int

definition Asset :: "Target \<Rightarrow> AssetSnapshot" where
  "Asset t = \<lparr>as_ModelName = tg_ModelName t, as_Country = tg_Country t, as_DatacenterName = tg_DatacenterName t,
     as_DatacenterCity = tg_DatacenterCity t, as_Room = tg_Room t, as_RackRow = tg_RackRow t,
     as_RackNum = tg_RackNum t, as_RackUnit = tg_RackUnit t\<rparr>"

text \<open>An integer field keeps its value when the text is not a number.\<close>

definition PatchAsset :: "string \<Rightarrow> string \<Rightarrow> Target \<Rightarrow> bool \<times> Target" where
  "PatchAsset field v t =
     (let f = to_lower (trim_space field); n = atoi_err (trim_space v)
      in if f = ''country'' then (True, t\<lparr>tg_Country := v\<rparr>)
         else if f = ''datacenter'' then (True, t\<lparr>tg_DatacenterName := v\<rparr>)
         else if f = ''datacenter_city'' \<or> f = ''city'' then (True, t\<lparr>tg_DatacenterCity := v\<rparr>)
         else if f = ''room'' then (True, t\<lparr>tg_Room := v\<rparr>)
         else if f = ''floor'' then (True, t\<lparr>tg_Floor := v\<rparr>)
         else if f = ''model'' \<or> f = ''model_name'' then (True, t\<lparr>tg_ModelName := v\<rparr>)
         else if f = ''rack_row'' then (True, case n of Some i \<Rightarrow> t\<lparr>tg_RackRow := i\<rparr> | None \<Rightarrow> t)
         else if f = ''rack_num'' then (True, case n of Some i \<Rightarrow> t\<lparr>tg_RackNum := i\<rparr> | None \<Rightarrow> t)
         else if f = ''rack_unit'' then (True, case n of Some i \<Rightarrow> t\<lparr>tg_RackUnit := i\<rparr> | None \<Rightarrow> t)
         else (False, t))"

section \<open>The network of a location\<close>

text \<open>\<open>network.go\<close>; names are ASCII. A run of other characters between words becomes one dash.\<close>

definition countryCode :: "string \<Rightarrow> string" where
  "countryCode country =
     (let c = to_upper (trim_space country)
      in if c \<in> {''USA'', ''US'', ''UNITED STATES'', ''UNITED STATES OF AMERICA''} then ''usa''
         else if c \<in> {''INDIA'', ''IN''} then ''in'' else '''')"

definition is_lower :: "char \<Rightarrow> bool" where
  "is_lower c \<longleftrightarrow> c \<in> set ''abcdefghijklmnopqrstuvwxyz''"

fun city_loop :: "bool \<Rightarrow> bool \<Rightarrow> string \<Rightarrow> string \<Rightarrow> string" where
  "city_loop atWordStart prevDash b [] = b"
| "city_loop atWordStart prevDash b (r # rs) =
     (if is_lower r \<or> is_digit r
      then city_loop False False (b @ [if atWordStart \<and> is_lower r then upper_char r else r]) rs
      else if \<not> prevDash \<and> b \<noteq> [] then city_loop True True (b @ ''-'') rs
      else city_loop True prevDash b rs)"

definition trim_right_dash :: "string \<Rightarrow> string" where
  "trim_right_dash s = rev (dropWhile (\<lambda>c. c = CHR ''-'') (rev s))"

definition cityTitle :: "string \<Rightarrow> string" where
  "cityTitle city = trim_right_dash (city_loop True False '''' (to_lower (trim_space city)))"

definition NetworkIDForLocation :: "string \<Rightarrow> string \<Rightarrow> string \<Rightarrow> string \<Rightarrow> string" where
  "NetworkIDForLocation datacenter country city fallback =
     (let dc = to_upper (trim_space datacenter); cc = to_upper (countryCode country); ct = cityTitle city
      in if dc = '''' \<or> cc = '''' then fallback
         else if ct \<noteq> '''' then dc @ ''-'' @ cc @ ''-'' @ ct
         else dc @ ''-'' @ cc)"

definition NetworkID :: "Target \<Rightarrow> string \<Rightarrow> string" where
  "NetworkID t fallback = NetworkIDForLocation (tg_DatacenterName t) (tg_Country t) (tg_DatacenterCity t) fallback"

section \<open>Properties\<close>

lemma has_from_config:
  "Has (FromConfig tc v c) CapSNMP"
  "Has (FromConfig tc v c) CapGNMI = tc_GNMIEnabled tc"
  "Has (FromConfig tc v c) CapBACnet = tc_BACnetEnabled tc"
  by (auto simp: Has_def FromConfig_def Let_def CapSNMP_def CapGNMI_def CapBACnet_def)

text \<open>The identity of a target never depends on what the asset edits touch.\<close>

lemma patch_identity:
  "SourceID (snd (PatchAsset f v t)) = SourceID t" "tg_MgmtIP (snd (PatchAsset f v t)) = tg_MgmtIP t"
  "tg_Caps (snd (PatchAsset f v t)) = tg_Caps t"
  by (auto simp: PatchAsset_def Let_def SourceID_def split: option.split)

end
