(* ===== verification/Command_Store.thy ===== *)
theory Command_Store
  imports Device_Store
begin

text \<open>
  The command queue of \<open>fwDCS/internal/store/commands.go\<close> and its REST front
  \<open>fwDCS/internal/api/rest/commands.go\<close>: edits become pending rows, the edge reader
  pulls them and acknowledges each. \<open>now\<close> is the statement time, \<open>ok\<close> whether the
  database answers, \<open>quote\<close> is \<open>strconv.Quote\<close> and \<open>json_ok\<close> the JSONB parser.
\<close>

section \<open>InsertCommands\<close>

definition pending_for :: "string \<Rightarrow> string \<Rightarrow> DeviceCommand \<Rightarrow> bool" where
  "pending_for ip field c \<longleftrightarrow> dc_DeviceIP c = ip \<and> dc_Field c = field \<and> dc_Status c = ''pending''"

text \<open>One queued statement; the sequence moves even when the row exists.\<close>

definition insert_command :: "int \<Rightarrow> DeviceCommand \<Rightarrow> db \<Rightarrow> db" where
  "insert_command now c db =
     (let hit = pending_for (dc_DeviceIP c) (dc_Field c)
      in db\<lparr>command_seq := Suc (command_seq db),
            device_commands :=
              (if list_ex hit (device_commands db)
               then map (\<lambda>r. if hit r then r\<lparr>dc_Value := dc_Value c, dc_Hostname := dc_Hostname c, dc_UpdatedAt := now\<rparr> else r)
                      (device_commands db)
               else device_commands db @
                 [\<lparr>dc_ID = Suc (command_seq db), dc_OrgID = dc_OrgID c, dc_NetworkID = dc_NetworkID c,
                   dc_DeviceIP = dc_DeviceIP c, dc_Hostname = dc_Hostname c, dc_Field = dc_Field c, dc_Value = dc_Value c,
                   dc_Status = ''pending'', dc_Attempts = 0, dc_LastError = '''', dc_CreatedAt = now, dc_UpdatedAt = now\<rparr>])\<rparr>)"

text \<open>
  The batch is one implicit transaction: a statement that fails undoes it, and the count
  returned with the error, here 0, is the number of statements in front of it.
\<close>

definition InsertCommands :: "bool \<Rightarrow> int \<Rightarrow> DeviceCommand list \<Rightarrow> db \<Rightarrow> db_error option \<times> nat \<times> db" where
  "InsertCommands ok now cmds db =
     (let batch = filter (\<lambda>c. \<not> (dc_DeviceIP c = '''' \<or> dc_Field c = '''')) cmds
      in if batch = [] then (None, 0, db)
         else if \<not> ok then (Some ErrIO, 0, db)
         else (None, length batch, fold (insert_command now) batch db))"

definition PendingCommands :: "int \<Rightarrow> db \<Rightarrow> DeviceCommand list" where
  "PendingCommands limit db =
     take (if limit \<le> 0 then 100 else nat limit)
       (sort_key dc_ID (filter (\<lambda>c. dc_Status c = ''pending'') (device_commands db)))"

definition CommandsUpdatedSince :: "db \<Rightarrow> int \<Rightarrow> int \<Rightarrow> DeviceCommand list" where
  "CommandsUpdatedSince db since limit =
     order_limit dc_UpdatedAt (if limit \<le> 0 then 200 else nat limit)
       (filter (\<lambda>c. dc_Status c \<in> {''applied'', ''failed''} \<and> dc_UpdatedAt c > since) (device_commands db))"

section \<open>MarkCommand\<close>

definition truncErr :: "string \<Rightarrow> string" where
  "truncErr s = (if length s > 512 then take 512 s else s)"

definition maxCommandAttempts :: int where
  "maxCommandAttempts = 5"

definition field_labels :: "(string \<times> string) list" where
  "field_labels =
     [(''country'', ''Country''), (''datacenter_city'', ''City''), (''city'', ''City''), (''datacenter'', ''Datacenter''),
      (''room'', ''Room''), (''floor'', ''Floor''), (''rack_row'', ''Rack row''), (''rack_num'', ''Rack number''),
      (''rack_unit'', ''Rack unit''), (''model'', ''Model''), (''model_name'', ''Model''), (''name'', ''Name''),
      (''sys_contact'', ''Contact''), (''sys_location'', ''Location''), (''power_draw_w'', ''Power draw''),
      (''power_action'', ''Power''), (''power_state'', ''Power''), (''indicator_led'', ''Indicator LED'')]"

definition configEventName :: "string \<Rightarrow> string \<Rightarrow> string" where
  "configEventName field v =
     (let name = (case map_of field_labels (to_lower field) of Some l \<Rightarrow> l | None \<Rightarrow> field @ '' threshold'')
      in if v = '''' then name @ '' changed'' else name @ '' changed to '' @ v)"

text \<open>A failed lookup leaves both identifier and host name empty; the flag is the event hook.\<close>

definition insertConfigEvent ::
  "bool \<Rightarrow> (string \<Rightarrow> string option) \<Rightarrow> (string \<Rightarrow> string) \<Rightarrow> (string \<Rightarrow> bool) \<Rightarrow> int \<Rightarrow> string
     \<Rightarrow> string \<Rightarrow> string \<Rightarrow> string \<Rightarrow> db \<Rightarrow> db \<times> bool" where
  "insertConfigEvent ok inet quote json_ok now evid deviceIP field v db =
     (let ip = before_slash deviceIP;
          hit = (case inet ip of None \<Rightarrow> None | Some a \<Rightarrow> find (\<lambda>d. d_mgmt_ip d = Some a) (devices db));
          payload = ''{'' @ [CHR 0x22] @ ''field'' @ [CHR 0x22] @ '':'' @ quote field @ '','' @ [CHR 0x22] @ ''value''
                    @ [CHR 0x22] @ '':'' @ quote v @ ''}''
      in if \<not> ok \<or> \<not> json_ok payload then (db, False)
         else (db\<lparr>events := events db @
           [\<lparr>e_id = evid, e_device_id = (case hit of None \<Rightarrow> None | Some d \<Rightarrow> nilIfEmpty (d_id d)),
             e_source_hostname = Some (case hit of None \<Rightarrow> '''' | Some d \<Rightarrow> d_hostname d),
             e_src_port_name = None, e_dst_device_id = None, e_dst_hostname = None, e_dst_port_name = None,
             e_link_id = None, e_ts = now, e_kind = ''event'', e_event_name = configEventName field v,
             e_severity = ''informational'', e_trap_oid = None, e_source_ip = None, e_event_payload = Some payload,
             e_collector_agent = ''EDR''\<rparr>]\<rparr>, True))"

definition mark_applied :: "int \<Rightarrow> nat \<Rightarrow> DeviceCommand \<Rightarrow> DeviceCommand" where
  "mark_applied now i c =
     (if dc_ID c = i then c\<lparr>dc_Status := ''applied'', dc_LastError := '''', dc_Attempts := dc_Attempts c + 1, dc_UpdatedAt := now\<rparr>
      else c)"

definition mark_failed :: "int \<Rightarrow> nat \<Rightarrow> string \<Rightarrow> DeviceCommand \<Rightarrow> DeviceCommand" where
  "mark_failed now i msg c =
     (if dc_ID c = i then
        c\<lparr>dc_Attempts := dc_Attempts c + 1, dc_LastError := truncErr msg,
          dc_Status := (if dc_Attempts c + 1 \<ge> maxCommandAttempts then ''failed'' else dc_Status c), dc_UpdatedAt := now\<rparr>
      else c)"

text \<open>
  The event is best effort: its insert fails when \<open>json_ok\<close> refuses the payload and its
  lookup when \<open>inet\<close> gives nothing, each also after an update that succeeded.
\<close>

definition MarkCommand ::
  "bool \<Rightarrow> (string \<Rightarrow> string option) \<Rightarrow> (string \<Rightarrow> string) \<Rightarrow> (string \<Rightarrow> bool) \<Rightarrow> int \<Rightarrow> string
     \<Rightarrow> nat \<Rightarrow> bool \<Rightarrow> string \<Rightarrow> db \<Rightarrow> db_error option \<times> db" where
  "MarkCommand ok inet quote json_ok now evid i applied msg db =
     (if \<not> ok then (Some ErrIO, db)
      else if applied then
        (case find (\<lambda>c. dc_ID c = i) (device_commands db) of
           None \<Rightarrow> (Some ErrIO, db)
         | Some c \<Rightarrow>
             (None, fst (insertConfigEvent ok inet quote json_ok now evid (dc_DeviceIP c) (dc_Field c) (dc_Value c)
                (db\<lparr>device_commands := map (mark_applied now i) (device_commands db)\<rparr>))))
      else (None, db\<lparr>device_commands := map (mark_failed now i msg) (device_commands db)\<rparr>))"

section \<open>The REST handlers\<close>

definition authorized :: "string \<Rightarrow> string \<Rightarrow> bool" where
  "authorized key header \<longleftrightarrow> key = '''' \<or> header = key"

text \<open>Status code and body of \<open>GET /admin/commands?limit=...\<close>.\<close>

definition handlePull :: "bool \<Rightarrow> string \<Rightarrow> string \<Rightarrow> string \<Rightarrow> string \<Rightarrow> db \<Rightarrow> nat \<times> DeviceCommand list" where
  "handlePull ok key meth header limitParam db =
     (if meth \<noteq> ''GET'' then (405, [])
      else if \<not> authorized key header then (401, [])
      else let limit = (case atoi_err limitParam of Some n \<Rightarrow> if limitParam \<noteq> '''' \<and> 0 < n then n else 100 | None \<Rightarrow> 100)
           in if ok then (200, PendingCommands limit db) else (500, []))"

text \<open>\<open>req\<close> is the decoded body, \<open>None\<close> when it does not decode.\<close>

definition handleAck where
  "handleAck ok inet quote json_ok now evid key meth header req db =
     (if meth \<noteq> ''POST'' then (405, db)
      else if \<not> authorized key header then (401, db)
      else case req of
        None \<Rightarrow> (400, db)
      | Some (i, applied, msg) \<Rightarrow>
          if i = 0 then (400, db)
          else (case MarkCommand ok inet quote json_ok now evid i applied msg db of
                  (Some e, db') \<Rightarrow> (500, db')
                | (None, db') \<Rightarrow> (204 :: nat, db')))"

section \<open>The queue invariant\<close>

text \<open>
  Identifiers come from the sequence and are distinct, and a device field has at
  most one pending row (the partial unique index).
\<close>

definition cmds_ok :: "db \<Rightarrow> bool" where
  "cmds_ok db \<longleftrightarrow> distinct (map dc_ID (device_commands db))
     \<and> list_all (\<lambda>c. 0 < dc_ID c \<and> dc_ID c \<le> command_seq db) (device_commands db)
     \<and> distinct (map (\<lambda>c. (dc_DeviceIP c, dc_Field c)) (filter (\<lambda>c. dc_Status c = ''pending'') (device_commands db)))"

lemma pending_map_keep:
  assumes "\<And>c. c \<in> set cs \<Longrightarrow> dc_DeviceIP (f c) = dc_DeviceIP c \<and> dc_Field (f c) = dc_Field c
      \<and> (dc_Status (f c) = ''pending'' \<longrightarrow> dc_Status c = ''pending'')"
    and "distinct (map (\<lambda>c. (dc_DeviceIP c, dc_Field c)) (filter (\<lambda>c. dc_Status c = ''pending'') cs))"
  shows "distinct (map (\<lambda>c. (dc_DeviceIP c, dc_Field c)) (filter (\<lambda>c. dc_Status c = ''pending'') (map f cs)))"
  using assms
proof (induction cs)
  case (Cons c cs)
  have "set (map (\<lambda>c. (dc_DeviceIP c, dc_Field c)) (filter (\<lambda>c. dc_Status c = ''pending'') (map f cs)))
      \<subseteq> set (map (\<lambda>c. (dc_DeviceIP c, dc_Field c)) (filter (\<lambda>c. dc_Status c = ''pending'') cs))"
    using Cons.prems(1) by force
  then show ?case using Cons by (cases "dc_Status c = ''pending''") auto
qed simp

lemma insert_command_ok:
  assumes "cmds_ok db"
  shows "cmds_ok (insert_command now c db)"
proof (cases "list_ex (pending_for (dc_DeviceIP c) (dc_Field c)) (device_commands db)")
  case True
  let ?f = "\<lambda>r. if pending_for (dc_DeviceIP c) (dc_Field c) r
    then r\<lparr>dc_Value := dc_Value c, dc_Hostname := dc_Hostname c, dc_UpdatedAt := now\<rparr> else r"
  have "map dc_ID (map ?f (device_commands db)) = map dc_ID (device_commands db)" by simp
  moreover have "distinct (map (\<lambda>c. (dc_DeviceIP c, dc_Field c))
      (filter (\<lambda>c. dc_Status c = ''pending'') (map ?f (device_commands db))))"
    by (rule pending_map_keep) (use assms in \<open>auto simp: cmds_ok_def\<close>)
  ultimately show ?thesis using assms True
    by (auto simp: cmds_ok_def insert_command_def Let_def list_all_iff simp del: map_map filter_map)
next
  case False
  then show ?thesis using assms
    by (auto simp: cmds_ok_def insert_command_def Let_def list_all_iff list_ex_iff pending_for_def)
qed

lemma InsertCommands_ok: "cmds_ok db \<Longrightarrow> cmds_ok (snd (snd (InsertCommands ok now cmds db)))"
proof -
  have "cmds_ok db \<Longrightarrow> cmds_ok (fold (insert_command now) cs db)" for cs
    by (induction cs arbitrary: db) (simp_all add: insert_command_ok)
  then show "cmds_ok db \<Longrightarrow> cmds_ok (snd (snd (InsertCommands ok now cmds db)))"
    by (simp add: InsertCommands_def Let_def)
qed

lemma mark_keeps [simp]:
  "dc_ID (mark_applied now i c) = dc_ID c" "dc_ID (mark_failed now i m c) = dc_ID c"
  "dc_DeviceIP (mark_applied now i c) = dc_DeviceIP c" "dc_DeviceIP (mark_failed now i m c) = dc_DeviceIP c"
  "dc_Field (mark_applied now i c) = dc_Field c" "dc_Field (mark_failed now i m c) = dc_Field c"
  "dc_Value (mark_applied now i c) = dc_Value c" "dc_Value (mark_failed now i m c) = dc_Value c"
  by (simp_all add: mark_applied_def mark_failed_def)

lemma config_event_commands [simp]:
  "device_commands (fst (insertConfigEvent ok inet quote jok now evid ip f v db)) = device_commands db"
  "command_seq (fst (insertConfigEvent ok inet quote jok now evid ip f v db)) = command_seq db"
  by (simp_all add: insertConfigEvent_def Let_def)

lemma MarkCommand_commands:
  assumes "MarkCommand ok inet quote jok now evid i applied msg db = (e, db')"
  shows "command_seq db' = command_seq db"
    "device_commands db' = (if e \<noteq> None then device_commands db
       else if applied then map (mark_applied now i) (device_commands db)
       else map (mark_failed now i msg) (device_commands db))"
  using assms by (auto simp: MarkCommand_def split: if_splits option.splits)

lemma MarkCommand_ok:
  assumes "cmds_ok db"
  shows "cmds_ok (snd (MarkCommand ok inet quote jok now evid i applied msg db))"
proof -
  obtain e db' where m: "MarkCommand ok inet quote jok now evid i applied msg db = (e, db')" by fastforce
  note d = MarkCommand_commands [OF m]
  have a: "cmds_ok db'" if "device_commands db' = map f (device_commands db)"
    "\<And>c. dc_ID (f c) = dc_ID c" "\<And>c. dc_DeviceIP (f c) = dc_DeviceIP c \<and> dc_Field (f c) = dc_Field c
      \<and> (dc_Status (f c) = ''pending'' \<longrightarrow> dc_Status c = ''pending'')" for f
  proof -
    have "map dc_ID (map f (device_commands db)) = map dc_ID (device_commands db)" by (simp add: that(2))
    moreover have "distinct (map (\<lambda>c. (dc_DeviceIP c, dc_Field c))
        (filter (\<lambda>c. dc_Status c = ''pending'') (map f (device_commands db))))"
      by (rule pending_map_keep) (use assms that(3) in \<open>auto simp: cmds_ok_def\<close>)
    ultimately show ?thesis
      using assms unfolding cmds_ok_def that(1) d(1) by (auto simp: list_all_iff that(2) simp del: map_map filter_map)
  qed
  have "cmds_ok db'"
  proof (cases "e \<noteq> None")
    case True
    then show ?thesis using assms d by (simp add: cmds_ok_def)
  next
    case False
    show ?thesis
    proof (cases applied)
      case True
      then show ?thesis using d(2) False by (intro a [of "mark_applied now i"]) (auto simp: mark_applied_def)
    next
      case f: False
      then show ?thesis using d(2) False by (intro a [of "mark_failed now i msg"]) (auto simp: mark_failed_def split: if_splits)
    qed
  qed
  then show ?thesis by (simp add: m)
qed

end
