(* ===== verification/Command_Apply.thy ===== *)
theory Command_Apply
  imports Target Command_Store
begin

text \<open>
  The edge side of the command queue, \<open>fwEDR/internal/command\<close>: \<open>apply.go\<close> turns a
  command into one device write, \<open>loop.go\<close> pulls the pending commands, applies each
  and acknowledges it (\<open>client.go\<close>). The SNMP and HTTP libraries answer through the
  record \<open>apply_env\<close>; what they were asked to write is a \<open>device_write\<close>.
\<close>

section \<open>The writable fields\<close>

record oidSpec =
  os_oid :: string
  os_isInt :: bool

definition snmpFieldMap :: "(string \<times> oidSpec) list" where
  "snmpFieldMap =
     [(''sys_contact'', \<lparr>os_oid = ''1.3.6.1.2.1.1.4.0'', os_isInt = False\<rparr>),
      (''contact'', \<lparr>os_oid = ''1.3.6.1.2.1.1.4.0'', os_isInt = False\<rparr>),
      (''name'', \<lparr>os_oid = ''1.3.6.1.2.1.1.5.0'', os_isInt = False\<rparr>),
      (''sysname'', \<lparr>os_oid = ''1.3.6.1.2.1.1.5.0'', os_isInt = False\<rparr>),
      (''hostname'', \<lparr>os_oid = ''1.3.6.1.2.1.1.5.0'', os_isInt = False\<rparr>),
      (''sys_location'', \<lparr>os_oid = ''1.3.6.1.2.1.1.6.0'', os_isInt = False\<rparr>),
      (''location'', \<lparr>os_oid = ''1.3.6.1.2.1.1.6.0'', os_isInt = False\<rparr>),
      (''country'', \<lparr>os_oid = ''1.3.6.1.4.1.99999.4.1.0'', os_isInt = False\<rparr>),
      (''datacenter_city'', \<lparr>os_oid = ''1.3.6.1.4.1.99999.4.2.0'', os_isInt = False\<rparr>),
      (''city'', \<lparr>os_oid = ''1.3.6.1.4.1.99999.4.2.0'', os_isInt = False\<rparr>),
      (''datacenter'', \<lparr>os_oid = ''1.3.6.1.4.1.99999.4.3.0'', os_isInt = False\<rparr>),
      (''floor'', \<lparr>os_oid = ''1.3.6.1.4.1.99999.4.4.0'', os_isInt = False\<rparr>),
      (''room'', \<lparr>os_oid = ''1.3.6.1.4.1.99999.4.5.0'', os_isInt = False\<rparr>),
      (''rack_row'', \<lparr>os_oid = ''1.3.6.1.4.1.99999.4.6.0'', os_isInt = True\<rparr>),
      (''rack_num'', \<lparr>os_oid = ''1.3.6.1.4.1.99999.4.7.0'', os_isInt = True\<rparr>),
      (''rack_unit'', \<lparr>os_oid = ''1.3.6.1.4.1.99999.4.8.0'', os_isInt = True\<rparr>),
      (''model'', \<lparr>os_oid = ''1.3.6.1.4.1.99999.4.9.0'', os_isInt = False\<rparr>),
      (''model_name'', \<lparr>os_oid = ''1.3.6.1.4.1.99999.4.9.0'', os_isInt = False\<rparr>),
      (''power_draw_w'', \<lparr>os_oid = ''1.3.6.1.4.1.99999.4.10.0'', os_isInt = True\<rparr>),
      (''highcpu'', \<lparr>os_oid = ''1.3.6.1.4.1.99999.3.1.0'', os_isInt = True\<rparr>),
      (''highcpusustained'', \<lparr>os_oid = ''1.3.6.1.4.1.99999.3.2.0'', os_isInt = True\<rparr>),
      (''cpunormal'', \<lparr>os_oid = ''1.3.6.1.4.1.99999.3.3.0'', os_isInt = True\<rparr>),
      (''highmemory'', \<lparr>os_oid = ''1.3.6.1.4.1.99999.3.4.0'', os_isInt = True\<rparr>),
      (''hightemperature'', \<lparr>os_oid = ''1.3.6.1.4.1.99999.3.6.0'', os_isInt = True\<rparr>),
      (''rackfailuremin'', \<lparr>os_oid = ''1.3.6.1.4.1.99999.3.9.0'', os_isInt = True\<rparr>),
      (''sensorambienttemphigh'', \<lparr>os_oid = ''1.3.6.1.4.1.99999.3.10.0'', os_isInt = True\<rparr>),
      (''sensorambienttempcritical'', \<lparr>os_oid = ''1.3.6.1.4.1.99999.3.11.0'', os_isInt = True\<rparr>),
      (''sensorambienttempnormal'', \<lparr>os_oid = ''1.3.6.1.4.1.99999.3.12.0'', os_isInt = True\<rparr>),
      (''sensorhighhumidity'', \<lparr>os_oid = ''1.3.6.1.4.1.99999.3.13.0'', os_isInt = True\<rparr>),
      (''sensorcriticalhumidity'', \<lparr>os_oid = ''1.3.6.1.4.1.99999.3.14.0'', os_isInt = True\<rparr>),
      (''sensorlowhumidity'', \<lparr>os_oid = ''1.3.6.1.4.1.99999.3.15.0'', os_isInt = True\<rparr>),
      (''sensorhumiditynormallow'', \<lparr>os_oid = ''1.3.6.1.4.1.99999.3.16.1.0'', os_isInt = True\<rparr>),
      (''sensorhumiditynormalhigh'', \<lparr>os_oid = ''1.3.6.1.4.1.99999.3.16.2.0'', os_isInt = True\<rparr>),
      (''sensorhighdewpoint'', \<lparr>os_oid = ''1.3.6.1.4.1.99999.3.17.0'', os_isInt = True\<rparr>),
      (''sensordewpointnormal'', \<lparr>os_oid = ''1.3.6.1.4.1.99999.3.18.0'', os_isInt = True\<rparr>),
      (''sensorhighairflow'', \<lparr>os_oid = ''1.3.6.1.4.1.99999.3.19.0'', os_isInt = True\<rparr>),
      (''sensorlowairflow'', \<lparr>os_oid = ''1.3.6.1.4.1.99999.3.20.0'', os_isInt = True\<rparr>),
      (''sensorairflownormallow'', \<lparr>os_oid = ''1.3.6.1.4.1.99999.3.21.1.0'', os_isInt = True\<rparr>),
      (''sensorairflownormalhigh'', \<lparr>os_oid = ''1.3.6.1.4.1.99999.3.21.2.0'', os_isInt = True\<rparr>),
      (''sensortemphigh'', \<lparr>os_oid = ''1.3.6.1.4.1.99999.3.10.0'', os_isInt = True\<rparr>),
      (''sensortempcritical'', \<lparr>os_oid = ''1.3.6.1.4.1.99999.3.11.0'', os_isInt = True\<rparr>),
      (''sensorhumidityhigh'', \<lparr>os_oid = ''1.3.6.1.4.1.99999.3.13.0'', os_isInt = True\<rparr>),
      (''sensorhumiditycritical'', \<lparr>os_oid = ''1.3.6.1.4.1.99999.3.14.0'', os_isInt = True\<rparr>),
      (''sensorhumiditylow'', \<lparr>os_oid = ''1.3.6.1.4.1.99999.3.15.0'', os_isInt = True\<rparr>),
      (''sensordewpointhigh'', \<lparr>os_oid = ''1.3.6.1.4.1.99999.3.17.0'', os_isInt = True\<rparr>),
      (''sensorairflowhigh'', \<lparr>os_oid = ''1.3.6.1.4.1.99999.3.19.0'', os_isInt = True\<rparr>),
      (''sensorairflowlow'', \<lparr>os_oid = ''1.3.6.1.4.1.99999.3.20.0'', os_isInt = True\<rparr>)]"

definition airflowX10OIDs :: "string list" where
  "airflowX10OIDs =
     [''1.3.6.1.4.1.99999.3.19.0'', ''1.3.6.1.4.1.99999.3.20.0'',
      ''1.3.6.1.4.1.99999.3.21.1.0'', ''1.3.6.1.4.1.99999.3.21.2.0'']"

definition powerFields :: "string list" where
  "powerFields = [''power_state'', ''power'', ''power_action'']"

definition normalizeLED :: "string \<Rightarrow> string" where
  "normalizeLED v =
     (let s = to_lower (trim_space v)
      in if s \<in> {''on'', ''lit'', ''true'', ''1''} then ''Lit''
         else if s \<in> {''off'', ''false'', ''0''} then ''Off''
         else if s \<in> {''blink'', ''blinking''} then ''Blinking''
         else if v \<in> {''Lit'', ''Off'', ''Blinking''} then v else '''')"

definition reset_types :: "string list" where
  "reset_types =
     [''On'', ''ForceOn'', ''ForceOff'', ''GracefulShutdown'',
      ''GracefulRestart'', ''ForceRestart'', ''PowerCycle'', ''PushPowerButton'']"

definition normalizeResetType :: "string \<Rightarrow> string" where
  "normalizeResetType v =
     (let s = to_lower (trim_space v)
      in if s \<in> {''on'', ''poweron'', ''power_on'', ''forceon''} then ''On''
         else if s \<in> {''off'', ''poweroff'', ''power_off'', ''forceoff'', ''shutdown'', ''gracefulshutdown''} then ''ForceOff''
         else if s \<in> {''restart'', ''reboot'', ''reset'', ''powercycle'', ''forcerestart'', ''gracefulrestart''} then ''ForceRestart''
         else if v \<in> set reset_types then v else '''')"

section \<open>Double precision numbers\<close>

text \<open>
  \<open>strconv.ParseFloat\<close> on the decimal notation (digits, point, exponent), correctly
  rounded; \<open>DBL m e\<close> is \<open>m * 2 ^ e\<close>. Not read: the words for infinity and not-a-number
  and the hexadecimal notation, which are errors here.
\<close>

datatype dbl = DBL int int

fun bit_len :: "int \<Rightarrow> int" where
  "bit_len n = (if n \<le> 0 then 0 else 1 + bit_len (n div 2))"

declare bit_len.simps [simp del]

definition div_even :: "int \<Rightarrow> int \<Rightarrow> int" where
  "div_even n d =
     (let q = n div d; r = n mod d
      in if 2 * r < d then q else if d < 2 * r then q + 1 else if even q then q else q + 1)"

text \<open>The double nearest to \<open>n / d\<close>, ties to even, with an exponent of any size.\<close>

definition round_dbl :: "int \<Rightarrow> int \<Rightarrow> int \<times> int" where
  "round_dbl n d =
     (if n = 0 then (0, 0)
      else let s = bit_len n - bit_len d - 53;
               quo = (\<lambda>e. if 0 \<le> e then div_even n (d * 2 ^ nat e) else div_even (n * 2 ^ nat (- e)) d);
               q = quo s
           in if q < 9007199254740992 then (q, s) else (quo (s + 1), s + 1))"

definition split_at :: "(char \<Rightarrow> bool) \<Rightarrow> string \<Rightarrow> string \<times> string option" where
  "split_at p s = (takeWhile (\<lambda>c. \<not> p c) s, (case dropWhile (\<lambda>c. \<not> p c) s of [] \<Rightarrow> None | _ # r \<Rightarrow> Some r))"

definition ParseFloat :: "string \<Rightarrow> dbl option" where
  "ParseFloat s =
     (let neg = (case s of c # _ \<Rightarrow> c = CHR ''-'' | [] \<Rightarrow> False);
          body = (case s of c # r \<Rightarrow> if c = CHR ''-'' \<or> c = CHR ''+'' then r else s | [] \<Rightarrow> s);
          (mant, expo) = split_at (\<lambda>c. c = CHR ''e'' \<or> c = CHR ''E'') body;
          (ip, fp) = split_at (\<lambda>c. c = CHR ''.'') mant;
          ds = ip @ (case fp of None \<Rightarrow> [] | Some f \<Rightarrow> f);
          x = (case expo of None \<Rightarrow> Some 0 | Some t \<Rightarrow> if list_ex is_digit t then atoi_err t else None)
      in case x of
           None \<Rightarrow> None
         | Some k \<Rightarrow>
             if ds = [] \<or> \<not> list_all is_digit ds then None
             else let k' = k - int (case fp of None \<Rightarrow> 0 | Some f \<Rightarrow> length f);
                      (m, e) = (if 0 \<le> k' then round_dbl (int (digits_val ds) * 10 ^ nat k') 1
                                else round_dbl (int (digits_val ds)) (10 ^ nat (- k')))
                  in if 971 < e then None else Some (DBL (if neg then - m else m) e))"

definition dbl_integral :: "dbl \<Rightarrow> bool" where
  "dbl_integral f = (case f of DBL m e \<Rightarrow> 0 \<le> e \<or> 2 ^ nat (- e) dvd m)"

definition dbl_trunc :: "dbl \<Rightarrow> int" where
  "dbl_trunc f = (case f of DBL m e \<Rightarrow> if 0 \<le> e then m * 2 ^ nat e else sgn m * (\<bar>m\<bar> div 2 ^ nat (- e)))"

text \<open>\<open>math.Round\<close>: halves away from zero.\<close>

definition dbl_round :: "dbl \<Rightarrow> int" where
  "dbl_round f =
     (case f of DBL m e \<Rightarrow>
        if 0 \<le> e then m * 2 ^ nat e else sgn m * ((2 * \<bar>m\<bar> + 2 ^ nat (- e)) div (2 * 2 ^ nat (- e))))"

definition times10 :: "dbl \<Rightarrow> dbl" where
  "times10 f =
     (case f of DBL m e \<Rightarrow> case round_dbl \<bar>10 * m\<bar> 1 of (m', e') \<Rightarrow> DBL (sgn m * m') (e + e'))"

text \<open>\<open>int(f)\<close> outside the range is the least integer, the conversion of amd64.\<close>

definition to_int64 :: "int \<Rightarrow> int" where
  "to_int64 n = (if - (2 ^ 63) \<le> n \<and> n < 2 ^ 63 then n else - (2 ^ 63))"

definition airflow_value :: "dbl \<Rightarrow> int" where
  "airflow_value f =
     to_int64 (if dbl_integral f then dbl_trunc f else dbl_round (times10 f))"

section \<open>Apply\<close>

datatype pdu = PInt int | POctets string

datatype device_write =
    SnmpSet (dw_host: string) (dw_community: string) (dw_oid: string) (dw_pdu: pdu)
  | RedfishPost (dw_url: string) (dw_value: string)
  | RedfishPatch (dw_url: string) (dw_value: string)

datatype apply_error =
    EmptyIP
  | UnsupportedField string
  | ContextDone
  | SnmpConnect
  | NotNumber string
  | NotInteger string
  | SnmpSetFailed
  | SnmpAgentError int
  | UnsupportedPower string
  | UnsupportedLED string
  | SystemsFailed
  | NoSystems
  | RequestFailed
  | HttpStatus nat

record CommandApplyConfig =
  ca_BatchLimit :: int
  ca_SNMPSetAgent :: string
  ca_SNMPSetCommunity :: string

record RedfishConfig =
  rf_Port :: int
  rf_TLSInsecure :: bool

text \<open>
  \<open>en_socket\<close>: a slot was acquired; \<open>en_connect\<close>: the socket opened; \<open>en_set\<close>: no answer
  or the error status of the answer; \<open>en_systems\<close>: the members of the collection, or
  the failed request; \<open>en_send\<close>: the status of a POST or PATCH, or its failure.
\<close>

record apply_env =
  en_socket :: bool
  en_connect :: bool
  en_set :: "device_write \<Rightarrow> int option"
  en_systems :: "string \<Rightarrow> string list option"
  en_send :: "device_write \<Rightarrow> nat option"

record Command =
  cm_ID :: nat
  cm_DeviceIP :: string
  cm_Field :: string
  cm_Value :: string

text \<open>Error, if any, and the write that reached the wire, if any.\<close>

type_synonym apply_result = "apply_error option \<times> device_write option"

definition snmp_pdu :: "oidSpec \<Rightarrow> string \<Rightarrow> apply_error + pdu" where
  "snmp_pdu spec v =
     (if os_isInt spec then
        (if List.member airflowX10OIDs (os_oid spec)
         then (case ParseFloat (trim_space v) of None \<Rightarrow> Inl (NotNumber v) | Some f \<Rightarrow> Inr (PInt (airflow_value f)))
         else (case atoi_err (trim_space v) of None \<Rightarrow> Inl (NotInteger v) | Some n \<Rightarrow> Inr (PInt n)))
      else Inr (POctets v))"

definition applySNMPSet :: "apply_env \<Rightarrow> CommandApplyConfig \<Rightarrow> string \<Rightarrow> oidSpec \<Rightarrow> string \<Rightarrow> apply_result" where
  "applySNMPSet en cfg ip spec v =
     (let host = or_default (ca_SNMPSetAgent cfg) ip; community = or_default (ca_SNMPSetCommunity cfg) ip
      in if \<not> en_socket en then (Some ContextDone, None)
         else if \<not> en_connect en then (Some SnmpConnect, None)
         else case snmp_pdu spec v of
             Inl e \<Rightarrow> (Some e, None)
           | Inr p \<Rightarrow>
               let w = SnmpSet host community (os_oid spec) p
               in case en_set en w of
                    None \<Rightarrow> (Some SnmpSetFailed, Some w)
                  | Some st \<Rightarrow> (if st \<noteq> 0 then Some (SnmpAgentError st) else None, Some w))"

definition redfishBase :: "RedfishConfig \<Rightarrow> string \<Rightarrow> string" where
  "redfishBase rf ip =
     (if rf_TLSInsecure rf then ''https'' else ''http'') @ ''://'' @ ip @ '':''
       @ itoa (if rf_Port rf \<le> 0 then 443 else rf_Port rf)"

definition trim_right_slash :: "string \<Rightarrow> string" where
  "trim_right_slash s = rev (dropWhile (\<lambda>c. c = CHR ''/'') (rev s))"

text \<open>The shared tail of the two Redfish writes.\<close>

definition redfish_send :: "apply_env \<Rightarrow> string \<Rightarrow> (string \<Rightarrow> device_write) \<Rightarrow> apply_result" where
  "redfish_send en base mk =
     (case en_systems en (base @ ''/redfish/v1/Systems'') of
        None \<Rightarrow> (Some SystemsFailed, None)
      | Some [] \<Rightarrow> (Some NoSystems, None)
      | Some (m # _) \<Rightarrow>
          let w = mk (base @ trim_right_slash m)
          in case en_send en w of
               None \<Rightarrow> (Some RequestFailed, Some w)
             | Some st \<Rightarrow> (if st < 200 \<or> 300 \<le> st then Some (HttpStatus st) else None, Some w))"

definition applyRedfishPower :: "apply_env \<Rightarrow> RedfishConfig \<Rightarrow> string \<Rightarrow> string \<Rightarrow> apply_result" where
  "applyRedfishPower en rf ip v =
     (let rt = normalizeResetType v
      in if rt = '''' then (Some (UnsupportedPower v), None)
         else redfish_send en (redfishBase rf ip) (\<lambda>u. RedfishPost (u @ ''/Actions/ComputerSystem.Reset'') rt))"

definition applyRedfishLED :: "apply_env \<Rightarrow> RedfishConfig \<Rightarrow> string \<Rightarrow> string \<Rightarrow> apply_result" where
  "applyRedfishLED en rf ip v =
     (let led = normalizeLED v
      in if led = '''' then (Some (UnsupportedLED v), None)
         else redfish_send en (redfishBase rf ip) (\<lambda>u. RedfishPatch u led))"

definition Apply :: "apply_env \<Rightarrow> CommandApplyConfig \<Rightarrow> RedfishConfig \<Rightarrow> Command \<Rightarrow> apply_result" where
  "Apply en cfg rf c =
     (let ip = trim_space (before_slash (cm_DeviceIP c)); field = to_lower (trim_space (cm_Field c))
      in if ip = '''' then (Some EmptyIP, None)
         else if List.member powerFields field then applyRedfishPower en rf ip (cm_Value c)
         else if field = ''indicator_led'' \<or> field = ''led'' then applyRedfishLED en rf ip (cm_Value c)
         else case map_of snmpFieldMap field of
             None \<Rightarrow> (Some (UnsupportedField (cm_Field c)), None)
           | Some spec \<Rightarrow> applySNMPSet en cfg ip spec (cm_Value c))"

section \<open>The runner\<close>

text \<open>Two addresses may lead to one target, so the map goes to its index.\<close>

record runner =
  rn_cfg :: CommandApplyConfig
  rn_redfish :: RedfishConfig
  rn_targets :: "Target list"
  rn_byIP :: "string \<rightharpoonup> nat"

definition index_target :: "nat \<times> Target \<Rightarrow> (string \<rightharpoonup> nat) \<Rightarrow> (string \<rightharpoonup> nat)" where
  "index_target it m =
     (case it of (i, t) \<Rightarrow>
        let m1 = (if tg_MgmtIP t \<noteq> '''' then m(tg_MgmtIP t \<mapsto> i) else m)
        in if tg_IP t \<noteq> '''' then m1(tg_IP t \<mapsto> i) else m1)"

definition NewRunner :: "CommandApplyConfig \<Rightarrow> RedfishConfig \<Rightarrow> Target list \<Rightarrow> runner" where
  "NewRunner cfg rf ts =
     \<lparr>rn_cfg = cfg, rn_redfish = rf, rn_targets = ts,
      rn_byIP = fold index_target (zip [0..<length ts] ts) Map.empty\<rparr>"

definition patch_target :: "Command \<Rightarrow> runner \<Rightarrow> runner" where
  "patch_target c r =
     (case rn_byIP r (before_slash (cm_DeviceIP c)) of
        None \<Rightarrow> r
      | Some i \<Rightarrow> r\<lparr>rn_targets := (rn_targets r)[i := snd (PatchAsset (cm_Field c) (cm_Value c) (rn_targets r ! i))]\<rparr>)"

text \<open>One turn of the loop of \<open>tick\<close> up to the acknowledgement it sends.\<close>

definition run_command :: "apply_env \<Rightarrow> Command \<Rightarrow> runner \<Rightarrow> apply_result \<times> runner" where
  "run_command en c r =
     (let res = Apply en (rn_cfg r) (rn_redfish r) c
      in (res, if fst res = None then patch_target c r else r))"

definition to_command :: "DeviceCommand \<Rightarrow> Command" where
  "to_command c = \<lparr>cm_ID = dc_ID c, cm_DeviceIP = dc_DeviceIP c, cm_Field = dc_Field c, cm_Value = dc_Value c\<rparr>"

text \<open>
  \<open>pull\<close>: the request of the client answered by the service; \<open>net\<close> whether request and
  answer get through, \<open>ok\<close> whether the database answers.
\<close>

definition pull :: "bool \<Rightarrow> bool \<Rightarrow> string \<Rightarrow> string \<Rightarrow> int \<Rightarrow> db \<Rightarrow> Command list option" where
  "pull net ok serverKey clientKey limit db =
     (if \<not> net then None
      else case handlePull ok serverKey ''GET'' clientKey (itoa limit) db of
        (st, cs) \<Rightarrow> if st \<noteq> 200 then None else Some (map to_command cs))"

section \<open>The queue between the two programs\<close>

text \<open>
  The service's tables, the runner, the commands it has pulled and not yet worked
  on, and the log of the writes a device accepted. An edit may arrive between any
  two turns of the loop; requests and acknowledgements may be lost.
\<close>

record cmd_sys =
  cs_db :: db
  cs_runner :: runner
  cs_batch :: "Command list"
  cs_log :: "Command list"

text \<open>The acknowledgement of one turn; \<open>msg\<close> renders an error.\<close>

definition ack ::
  "bool \<Rightarrow> bool \<Rightarrow> (string \<Rightarrow> string option) \<Rightarrow> (string \<Rightarrow> string) \<Rightarrow> (string \<Rightarrow> bool) \<Rightarrow> int \<Rightarrow> string
     \<Rightarrow> string \<Rightarrow> string \<Rightarrow> Command \<Rightarrow> apply_error option \<Rightarrow> (apply_error \<Rightarrow> string) \<Rightarrow> db \<Rightarrow> db" where
  "ack net ok inet quote json_ok now evid serverKey clientKey c e msg db =
     (if net then snd (handleAck ok inet quote json_ok now evid serverKey ''POST'' clientKey
                        (Some (cm_ID c, e = None, case e of None \<Rightarrow> '''' | Some x \<Rightarrow> msg x)) db)
      else db)"

inductive cmd_step :: "cmd_sys \<Rightarrow> cmd_sys \<Rightarrow> bool" where
  Edit: "cmd_step s (s\<lparr>cs_db := snd (snd (InsertCommands ok now cmds (cs_db s)))\<rparr>)"
| Pull: "cs_batch s = [] \<Longrightarrow> pull net ok key ckey (ca_BatchLimit (rn_cfg (cs_runner s))) (cs_db s) = Some cs
    \<Longrightarrow> cmd_step s (s\<lparr>cs_batch := cs\<rparr>)"
| Work: "cs_batch s = c # cs \<Longrightarrow> run_command en c (cs_runner s) = ((e, w), r)
    \<Longrightarrow> cmd_step s (s\<lparr>cs_db := ack net ok inet quote json_ok now evid key ckey c e msg (cs_db s),
          cs_runner := r, cs_batch := (if cancelled then [] else cs),
          cs_log := cs_log s @ (if e = None then [c] else [])\<rparr>)"

inductive_cases cmd_stepE: "cmd_step s s'"

definition cmd_init :: "db \<Rightarrow> runner \<Rightarrow> cmd_sys" where
  "cmd_init db r = \<lparr>cs_db = db, cs_runner = r, cs_batch = [], cs_log = []\<rparr>"

text \<open>
  What the queue promises of a row: a status of the table, at most five attempts,
  fewer while it is pending, and a write of this very command behind \<open>applied\<close>.
\<close>

definition row_inv :: "Command list \<Rightarrow> DeviceCommand \<Rightarrow> bool" where
  "row_inv done_log c \<longleftrightarrow>
     (dc_Status c = ''pending'' \<and> 0 \<le> dc_Attempts c \<and> dc_Attempts c < maxCommandAttempts)
     \<or> (dc_Status c = ''failed'' \<and> dc_Attempts c = maxCommandAttempts)
     \<or> (dc_Status c = ''applied'' \<and> 0 < dc_Attempts c \<and> dc_Attempts c \<le> maxCommandAttempts
        \<and> list_ex (\<lambda>k. cm_ID k = dc_ID c \<and> cm_DeviceIP k = dc_DeviceIP c \<and> cm_Field k = dc_Field c) done_log)"

definition pulled_ok :: "Command list \<Rightarrow> db \<Rightarrow> bool" where
  "pulled_ok cs db \<longleftrightarrow> distinct (map cm_ID cs) \<and>
     list_all (\<lambda>k. list_ex (\<lambda>c. dc_ID c = cm_ID k \<and> dc_DeviceIP c = cm_DeviceIP k \<and> dc_Field c = cm_Field k
       \<and> dc_Status c = ''pending'') (device_commands db)) cs"

definition cmd_inv :: "cmd_sys \<Rightarrow> bool" where
  "cmd_inv s \<longleftrightarrow> cmds_ok (cs_db s) \<and> list_all (row_inv (cs_log s)) (device_commands (cs_db s))
     \<and> pulled_ok (cs_batch s) (cs_db s)"

lemma row_inv_log: "row_inv done_log c \<Longrightarrow> row_inv (done_log @ later) c"
  by (auto simp: row_inv_def)

text \<open>A new edit changes the value of a pending row or adds one with no attempt.\<close>

lemma insert_command_rows:
  "\<exists>f new. device_commands (insert_command now c db) = map f (device_commands db) @ new
    \<and> (\<forall>r. dc_ID (f r) = dc_ID r \<and> dc_DeviceIP (f r) = dc_DeviceIP r \<and> dc_Field (f r) = dc_Field r
         \<and> dc_Status (f r) = dc_Status r \<and> dc_Attempts (f r) = dc_Attempts r)
    \<and> list_all (\<lambda>r. dc_Status r = ''pending'' \<and> dc_Attempts r = 0) new"
proof (cases "list_ex (pending_for (dc_DeviceIP c) (dc_Field c)) (device_commands db)")
  case True
  then show ?thesis
    by (intro exI [of _ "\<lambda>r. if pending_for (dc_DeviceIP c) (dc_Field c) r
          then r\<lparr>dc_Value := dc_Value c, dc_Hostname := dc_Hostname c, dc_UpdatedAt := now\<rparr> else r"] exI [of _ "[]"])
      (auto simp: insert_command_def Let_def)
next
  case False
  then show ?thesis by (intro exI [of _ "\<lambda>r. r"]) (auto simp: insert_command_def Let_def)
qed

lemma insert_command_inv:
  assumes "list_all (row_inv done_log) (device_commands db)" and "pulled_ok cs db"
  shows "list_all (row_inv done_log) (device_commands (insert_command now c db)) \<and> pulled_ok cs (insert_command now c db)"
proof -
  from insert_command_rows [of now c db] obtain f new
    where *: "device_commands (insert_command now c db) = map f (device_commands db) @ new
      \<and> (\<forall>r. dc_ID (f r) = dc_ID r \<and> dc_DeviceIP (f r) = dc_DeviceIP r \<and> dc_Field (f r) = dc_Field r
           \<and> dc_Status (f r) = dc_Status r \<and> dc_Attempts (f r) = dc_Attempts r)
      \<and> list_all (\<lambda>r. dc_Status r = ''pending'' \<and> dc_Attempts r = 0) new"
    by (elim exE)
  note rows = * [THEN conjunct1] and f = * [THEN conjunct2, THEN conjunct1, rule_format]
    and new = * [THEN conjunct2, THEN conjunct2]
  have "row_inv done_log (f r) = row_inv done_log r" for r by (simp add: row_inv_def f)
  moreover have "list_all (row_inv done_log) new"
    using new by (auto simp: list_all_iff row_inv_def maxCommandAttempts_def)
  ultimately have "list_all (row_inv done_log) (device_commands (insert_command now c db))"
    using assms(1) by (auto simp: rows list_all_iff)
  moreover have "pulled_ok cs (insert_command now c db)"
    using assms(2) by (simp add: pulled_ok_def rows list_all_iff list_ex_iff f bex_Un)
      (meson f)?
  ultimately show ?thesis ..
qed

lemma InsertCommands_inv:
  assumes "list_all (row_inv done_log) (device_commands db)" and "pulled_ok cs db"
  shows "list_all (row_inv done_log) (device_commands (snd (snd (InsertCommands ok now cmds db))))
    \<and> pulled_ok cs (snd (snd (InsertCommands ok now cmds db)))"
proof -
  have "list_all (row_inv done_log) (device_commands (fold (insert_command now) xs db))
      \<and> pulled_ok cs (fold (insert_command now) xs db)" for xs
    using assms by (induction xs arbitrary: db) (simp_all add: insert_command_inv)
  then show ?thesis using assms by (simp add: InsertCommands_def Let_def)
qed

lemma distinct_take_sorted:
  assumes "distinct (map f cs)"
  shows "distinct (map f (take n (sort_key f (filter P cs))))"
proof -
  have "distinct (map f (filter P cs))" using assms by (simp add: distinct_map_filter)
  then have "distinct (map f (sort_key f (filter P cs)))"
    by (simp add: distinct_map)
  then show ?thesis by (simp add: take_map [symmetric])
qed

lemma pending_subset: "set (PendingCommands limit db) \<subseteq> {c \<in> set (device_commands db). dc_Status c = ''pending''}"
  by (auto simp: PendingCommands_def dest!: in_set_takeD)

lemma pull_ok:
  assumes "pull net ok key ckey n db = Some cs" and "cmds_ok db"
  shows "pulled_ok cs db"
proof -
  obtain limit where cs: "cs = map to_command (PendingCommands limit db)"
    using assms(1) by (auto simp: pull_def handlePull_def Let_def split: if_splits)
  have "distinct (map dc_ID (PendingCommands limit db))"
    using assms(2) unfolding PendingCommands_def cmds_ok_def by (intro distinct_take_sorted) blast
  moreover have "map cm_ID cs = map dc_ID (PendingCommands limit db)" by (simp add: cs to_command_def)
  moreover note pending_subset [of limit db]
  ultimately show ?thesis
    by (auto simp: pulled_ok_def cs list_all_iff list_ex_iff to_command_def comp_def)
qed

text \<open>An acknowledgement touches the row of its command, and the pulled rest is still pending.\<close>

lemma ack_as_mark:
  "ack net ok inet quote jok now evid key ckey c e msg db =
     (if net \<and> authorized key ckey \<and> cm_ID c \<noteq> 0
      then snd (MarkCommand ok inet quote jok now evid (cm_ID c) (e = None) (case e of None \<Rightarrow> '''' | Some x \<Rightarrow> msg x) db)
      else db)"
  by (cases "MarkCommand ok inet quote jok now evid (cm_ID c) (e = None) (case e of None \<Rightarrow> '''' | Some x \<Rightarrow> msg x) db")
    (simp add: ack_def handleAck_def split: option.splits)

lemma ack_rows:
  assumes "cm_ID c \<noteq> 0"
  obtains "ack net ok inet quote jok now evid key ckey c e msg db = db"
  | "device_commands (ack net ok inet quote jok now evid key ckey c e msg db) =
       map (mark_applied now (cm_ID c)) (device_commands db)" "e = None"
  | m where "device_commands (ack net ok inet quote jok now evid key ckey c e msg db) =
       map (mark_failed now (cm_ID c) m) (device_commands db)"
proof -
  let ?msg = "case e of None \<Rightarrow> '''' | Some x \<Rightarrow> msg x"
  obtain err db' where m: "MarkCommand ok inet quote jok now evid (cm_ID c) (e = None) ?msg db = (err, db')"
    by fastforce
  note d = MarkCommand_commands [OF m]
  have io: "db' = db" if "err \<noteq> None" using m that by (auto simp: MarkCommand_def split: if_splits option.splits)
  have "ack net ok inet quote jok now evid key ckey c e msg db = (if net \<and> authorized key ckey then db' else db)"
    using assms m by (simp add: ack_as_mark)
  moreover have "e = None \<and> device_commands db' = map (mark_applied now (cm_ID c)) (device_commands db)
      \<or> device_commands db' = map (mark_failed now (cm_ID c) ?msg) (device_commands db)" if "err = None"
    using d(2) that by (cases e) simp_all
  ultimately show ?thesis using that io by metis
qed

lemma ack_ok: "cmds_ok db \<Longrightarrow> cmds_ok (ack net ok inet quote jok now evid key ckey c e msg db)"
  by (simp add: ack_as_mark MarkCommand_ok)

lemma unique_row:
  assumes "cmds_ok db" and "r \<in> set (device_commands db)" and "r' \<in> set (device_commands db)" and "dc_ID r = dc_ID r'"
  shows "r = r'"
  using assms by (auto simp: cmds_ok_def distinct_map inj_on_def)

lemma mark_other:
  "dc_ID r \<noteq> i \<Longrightarrow> mark_applied now i r = r" "dc_ID r \<noteq> i \<Longrightarrow> mark_failed now i m r = r"
  by (simp_all add: mark_applied_def mark_failed_def)

lemma work_inv:
  assumes inv: "cmds_ok db" "list_all (row_inv done_log) (device_commands db)" "pulled_ok (c # cs) db"
  shows "list_all (row_inv (done_log @ (if e = None then [c] else [])))
           (device_commands (ack net ok inet quote jok now evid key ckey c e msg db))
    \<and> pulled_ok cs (ack net ok inet quote jok now evid key ckey c e msg db)"
    (is "list_all (row_inv ?log) (device_commands ?db) \<and> _")
proof -
  obtain r0 where r0: "r0 \<in> set (device_commands db)" "dc_ID r0 = cm_ID c" "dc_DeviceIP r0 = cm_DeviceIP c"
    "dc_Field r0 = cm_Field c" "dc_Status r0 = ''pending''"
    using inv(3) by (auto simp: pulled_ok_def list_ex_iff)
  have nz: "cm_ID c \<noteq> 0" using inv(1) r0(1) r0(2) [symmetric] by (auto simp: cmds_ok_def list_all_iff)
  have old: "list_all (row_inv ?log) (device_commands db)"
    using inv(2) by (auto simp: list_all_iff row_inv_log)
  have rest: "pulled_ok cs db" using inv(3) by (simp add: pulled_ok_def)
  have same: "r = r0" if "r \<in> set (device_commands db)" "dc_ID r = cm_ID c" for r
    using unique_row [OF inv(1) that(1) r0(1)] that(2) r0(2) by simp
  have att: "0 \<le> dc_Attempts r0" "dc_Attempts r0 < maxCommandAttempts"
    using inv(2) r0(1,5) by (auto simp: list_all_iff row_inv_def)
  have *: "pulled_ok cs ?db" if "device_commands ?db = map f (device_commands db)"
    "\<And>r. dc_ID (f r) = dc_ID r \<and> dc_DeviceIP (f r) = dc_DeviceIP r \<and> dc_Field (f r) = dc_Field r"
    "\<And>r. dc_ID r \<noteq> cm_ID c \<Longrightarrow> f r = r" for f
  proof -
    have "\<exists>r \<in> set (device_commands ?db). dc_ID r = cm_ID k \<and> dc_DeviceIP r = cm_DeviceIP k \<and> dc_Field r = cm_Field k
        \<and> dc_Status r = ''pending''" if k: "k \<in> set cs" for k
    proof -
      obtain r where r: "r \<in> set (device_commands db)" "dc_ID r = cm_ID k" "dc_DeviceIP r = cm_DeviceIP k"
        "dc_Field r = cm_Field k" "dc_Status r = ''pending''"
        using rest k by (auto simp: pulled_ok_def list_all_iff list_ex_iff)
      have "cm_ID k \<noteq> cm_ID c" using inv(3) k by (auto simp: pulled_ok_def) (metis image_eqI)
      then have "f r = r" using \<open>\<And>r. dc_ID r \<noteq> cm_ID c \<Longrightarrow> f r = r\<close> r(2) by simp
      then show ?thesis using r \<open>device_commands ?db = _\<close> by (metis image_eqI set_map)
    qed
    then show ?thesis using rest by (auto simp: pulled_ok_def list_all_iff list_ex_iff)
  qed
  show ?thesis
  proof (rule ack_rows [OF nz, of net ok inet quote jok now evid key ckey e msg db])
    assume "?db = db"
    then show ?thesis using old rest by simp
  next
    assume a: "device_commands ?db = map (mark_applied now (cm_ID c)) (device_commands db)" "e = None"
    have "row_inv ?log (mark_applied now (cm_ID c) r)" if "r \<in> set (device_commands db)" for r
    proof (cases "dc_ID r = cm_ID c")
      case True
      then have "r = r0" by (rule same [OF that])
      then show ?thesis using r0 att a(2) by (simp add: row_inv_def mark_applied_def)
    next
      case False
      then show ?thesis using old that by (simp add: mark_other list_all_iff)
    qed
    then have "list_all (row_inv ?log) (device_commands ?db)" by (simp add: a(1) list_all_iff)
    moreover have "pulled_ok cs ?db" by (rule * [OF a(1)]) (simp_all add: mark_other)
    ultimately show ?thesis ..
  next
    fix m
    assume a: "device_commands ?db = map (mark_failed now (cm_ID c) m) (device_commands db)"
    have "row_inv ?log (mark_failed now (cm_ID c) m r)" if "r \<in> set (device_commands db)" for r
    proof (cases "dc_ID r = cm_ID c")
      case True
      then have "r = r0" by (rule same [OF that])
      then show ?thesis using r0 att by (simp add: row_inv_def mark_failed_def)
    next
      case False
      then show ?thesis using old that by (simp add: mark_other list_all_iff)
    qed
    then have "list_all (row_inv ?log) (device_commands ?db)" by (simp add: a list_all_iff)
    moreover have "pulled_ok cs ?db" by (rule * [OF a]) (simp_all add: mark_other)
    ultimately show ?thesis ..
  qed
qed

lemma cmd_step_inv: "cmd_step s s' \<Longrightarrow> cmd_inv s \<Longrightarrow> cmd_inv s'"
proof (induction rule: cmd_step.induct)
  case (Edit s ok now cmds)
  then show ?case
    using InsertCommands_inv [of "cs_log s" "cs_db s" "cs_batch s" ok now cmds] by (simp add: cmd_inv_def InsertCommands_ok)
next
  case (Pull s net ok key ckey cs)
  then show ?case by (simp add: cmd_inv_def pull_ok)
next
  case (Work s c cs en e w r cancelled net ok inet quote json_ok now evid key ckey msg)
  then show ?case
    using work_inv [of "cs_db s" "cs_log s" c cs e net ok inet quote json_ok now evid key ckey msg]
    by (auto simp: cmd_inv_def ack_ok pulled_ok_def)
qed

section \<open>Properties\<close>

lemma cmd_reach_inv: "cmd_step\<^sup>*\<^sup>* s s' \<Longrightarrow> cmd_inv s \<Longrightarrow> cmd_inv s'"
  by (induction rule: rtranclp_induct) (simp_all add: cmd_step_inv)

definition country_edit :: "string \<Rightarrow> DeviceCommand" where
  "country_edit v =
     \<lparr>dc_ID = 0, dc_OrgID = ''org'', dc_NetworkID = ''net'', dc_DeviceIP = ''10.0.0.1'', dc_Hostname = '''',
      dc_Field = ''country'', dc_Value = v, dc_Status = '''', dc_Attempts = 0, dc_LastError = '''',
      dc_CreatedAt = 0, dc_UpdatedAt = 0\<rparr>"

definition idle_runner :: runner where
  "idle_runner = NewRunner \<lparr>ca_BatchLimit = 100, ca_SNMPSetAgent = '''', ca_SNMPSetCommunity = ''''\<rparr>
     \<lparr>rf_Port = 0, rf_TLSInsecure = False\<rparr> []"

definition willing_env :: apply_env where
  "willing_env = \<lparr>en_socket = True, en_connect = True, en_set = (\<lambda>_. Some 0), en_systems = (\<lambda>_. Some [''/s/1/'']), en_send = (\<lambda>_. Some 204)\<rparr>"

lemma country_apply:
  "run_command willing_env (to_command ((country_edit v)\<lparr>dc_ID := 1\<rparr>)) idle_runner =
     ((None, Some (SnmpSet ''10.0.0.1'' ''10.0.0.1'' ''1.3.6.1.4.1.99999.4.1.0'' (POctets v))), idle_runner)"
proof -
  have f: "to_lower (trim_space ''country'') = ''country''" "trim_space (before_slash ''10.0.0.1'') = ''10.0.0.1''"
    "before_slash ''10.0.0.1'' = ''10.0.0.1''" "''country'' \<notin> set powerFields" "trim_space ''10.0.0.1'' = ''10.0.0.1''"
    "map_of snmpFieldMap ''country'' = Some \<lparr>os_oid = ''1.3.6.1.4.1.99999.4.1.0'', os_isInt = False\<rparr>"
    by code_simp+
  have "Apply willing_env (rn_cfg idle_runner) (rn_redfish idle_runner) (to_command ((country_edit v)\<lparr>dc_ID := 1\<rparr>)) =
      (None, Some (SnmpSet ''10.0.0.1'' ''10.0.0.1'' ''1.3.6.1.4.1.99999.4.1.0'' (POctets v)))"
    unfolding Apply_def Let_def
    by (simp add: to_command_def country_edit_def idle_runner_def NewRunner_def f)
       (simp add: applySNMPSet_def snmp_pdu_def willing_env_def or_default_def)
  then show ?thesis
    by (simp add: run_command_def patch_target_def idle_runner_def NewRunner_def)
qed

definition edited_db :: "string \<Rightarrow> db" where
  "edited_db v = snd (snd (InsertCommands True 1 [country_edit v] empty_db))"

lemma edited_rows:
  "device_commands (edited_db v) = [(country_edit v)\<lparr>dc_ID := 1, dc_Status := ''pending'', dc_CreatedAt := 1, dc_UpdatedAt := 1\<rparr>]"
  "device_commands (snd (snd (InsertCommands True 1 [country_edit w] (edited_db v)))) =
     [(country_edit w)\<lparr>dc_ID := 1, dc_Status := ''pending'', dc_CreatedAt := 1, dc_UpdatedAt := 1\<rparr>]"
  by (simp_all add: edited_db_def InsertCommands_def insert_command_def country_edit_def empty_db_def pending_for_def)

text \<open>
  An edit that arrives between the pull and the acknowledgement of an earlier
  edit of the same field is lost: its row is marked applied with the new value, and
  the only write a device ever accepted carries the old one.
\<close>

theorem overwritten_edit_is_lost:
  "\<exists>s. cmd_step\<^sup>*\<^sup>* (cmd_init empty_db idle_runner) s
     \<and> map (\<lambda>c. (dc_Status c, dc_Value c)) (device_commands (cs_db s)) = [(''applied'', new)]
     \<and> map cm_Value (cs_log s) = [old] \<and> PendingCommands 100 (cs_db s) = []"
proof -
  let ?cmd = "to_command ((country_edit old)\<lparr>dc_ID := 1\<rparr>)"
  let ?new = "snd (snd (InsertCommands True 1 [country_edit new] (edited_db old)))"
  let ?done = "ack True True (\<lambda>_. None) id (\<lambda>_. True) 2 ''ev'' '''' '''' ?cmd None (\<lambda>_. '''') ?new"
  define s0 where "s0 = cmd_init empty_db idle_runner"
  define s1 where "s1 = s0\<lparr>cs_db := edited_db old\<rparr>"
  define s2 where "s2 = s1\<lparr>cs_batch := [?cmd]\<rparr>"
  define s3 where "s3 = s2\<lparr>cs_db := ?new\<rparr>"
  define s4 where "s4 = s3\<lparr>cs_db := ?done, cs_runner := idle_runner, cs_batch := [], cs_log := cs_log s3 @ [?cmd]\<rparr>"
  have step1: "cmd_step s0 s1" unfolding s1_def edited_db_def
    using cmd_step.Edit [of s0 True 1 "[country_edit old]"] by (simp add: s0_def cmd_init_def)
  have num: "atoi_err (itoa 100) = Some 100" "itoa 100 \<noteq> []" by code_simp+
  have "pull True True '''' '''' 100 (edited_db old) = Some [?cmd]"
    by (simp add: pull_def handlePull_def authorized_def PendingCommands_def edited_rows to_command_def country_edit_def num)
  then have step2: "cmd_step s1 s2" unfolding s2_def
    by (intro cmd_step.Pull [of s1 True True "''''" "''''"])
      (simp_all add: s1_def s0_def cmd_init_def idle_runner_def NewRunner_def)
  have step3: "cmd_step s2 s3" unfolding s3_def
    using cmd_step.Edit [of s2 True 1 "[country_edit new]"] by (simp add: s2_def s1_def)
  have step4: "cmd_step s3 s4" unfolding s4_def
    using cmd_step.Work [where s = s3 and c = ?cmd and cs = "[]" and en = willing_env and e = None and r = idle_runner
        and cancelled = False and net = True and ok = True and inet = "\<lambda>_. None" and quote = id
        and json_ok = "\<lambda>_. True" and now = 2 and evid = "''ev''" and key = "''''" and ckey = "''''" and msg = "\<lambda>_. ''''"]
    by (simp add: s3_def s2_def s1_def s0_def cmd_init_def country_apply [unfolded One_nat_def])
  have "device_commands ?done = map (mark_applied 2 1) (device_commands ?new)"
    by (simp add: ack_as_mark authorized_def MarkCommand_def edited_rows to_command_def)
  also have "\<dots> = [(country_edit new)\<lparr>dc_ID := 1, dc_Status := ''applied'', dc_Attempts := 1, dc_LastError := '''', dc_CreatedAt := 1, dc_UpdatedAt := 2\<rparr>]"
    unfolding edited_rows by (simp add: mark_applied_def country_edit_def)
  finally have "device_commands (cs_db s4) = \<dots>" by (simp add: s4_def)
  then have "map (\<lambda>c. (dc_Status c, dc_Value c)) (device_commands (cs_db s4)) = [(''applied'', new)]"
    "PendingCommands 100 (cs_db s4) = []"
    by (simp_all add: country_edit_def PendingCommands_def)
  moreover have "map cm_Value (cs_log s4) = [old]"
    by (simp add: s4_def s3_def s2_def s1_def s0_def cmd_init_def to_command_def country_edit_def)
  moreover have "cmd_step\<^sup>*\<^sup>* s0 s4"
    by (rule converse_rtranclp_into_rtranclp [of cmd_step, OF step1 converse_rtranclp_into_rtranclp [of cmd_step, OF step2
          converse_rtranclp_into_rtranclp [of cmd_step, OF step3 r_into_rtranclp [of cmd_step, OF step4]]]])
  ultimately show ?thesis unfolding s0_def by (intro exI [of _ s4] conjI)
qed

text \<open>
  C2. Whatever edits, pulls, device answers and lost messages are interleaved, the
  queue keeps its keys, a row has at most five attempts and fewer while it is
  pending, and a row marked applied has a write of that command a device accepted.
\<close>

theorem command_queue_invariant:
  assumes "cmd_step\<^sup>*\<^sup>* (cmd_init db r) s" and "device_commands db = []"
  shows "cmds_ok (cs_db s) \<and> list_all (row_inv (cs_log s)) (device_commands (cs_db s)) \<and> pulled_ok (cs_batch s) (cs_db s)"
proof -
  have "cmd_inv (cmd_init db r)" using assms(2) by (simp add: cmd_inv_def cmd_init_def cmds_ok_def pulled_ok_def)
  then have "cmd_inv s" using assms(1) by (rule cmd_reach_inv [rotated])
  then show ?thesis by (simp add: cmd_inv_def)
qed

theorem command_queue_invariant_witness:
  "list_all (row_inv []) (device_commands (edited_db ''France'')) \<and> cmds_ok (edited_db ''France'')
    \<and> length (device_commands (edited_db ''France'')) = 1"
proof -
  have "cmd_step\<^sup>*\<^sup>* (cmd_init empty_db idle_runner) ((cmd_init empty_db idle_runner)\<lparr>cs_db := edited_db ''France''\<rparr>)"
    unfolding edited_db_def using cmd_step.Edit [of "cmd_init empty_db idle_runner" True 1 "[country_edit ''France'']"]
    by (simp add: cmd_init_def r_into_rtranclp)
  then show ?thesis
    using command_queue_invariant [of empty_db idle_runner "(cmd_init empty_db idle_runner)\<lparr>cs_db := edited_db ''France''\<rparr>"]
    by (simp add: cmd_init_def empty_db_def [THEN arg_cong [of _ _ device_commands]] edited_rows)
qed

text \<open>
  A command that cannot be applied is tried five times: after five acknowledged
  failures its row is no longer served to the edge reader.
\<close>

theorem five_failures_end_the_retries:
  assumes "list_all (\<lambda>c. 0 \<le> dc_Attempts c) (device_commands db)"
  shows "\<not> List.member (map dc_ID (PendingCommands limit
    (((\<lambda>d. snd (MarkCommand True inet quote jok now evid i False msg d)) ^^ 5) db))) i"
proof -
  have step: "device_commands (((\<lambda>d. snd (MarkCommand True inet quote jok now evid i False msg d)) ^^ n) db) =
      map (mark_failed now i msg ^^ n) (device_commands db)" for n
    by (induction n) (simp_all add: MarkCommand_def)
  have att: "dc_ID ((mark_failed now i msg ^^ n) c) = dc_ID c
      \<and> (dc_ID c = i \<longrightarrow> dc_Attempts ((mark_failed now i msg ^^ n) c) = dc_Attempts c + int n)" for n c
    by (induction n) (simp_all add: mark_failed_def)
  have five: "dc_Status ((mark_failed now i msg ^^ 5) c) \<noteq> ''pending''" if "dc_ID c = i" "0 \<le> dc_Attempts c" for c
  proof -
    have "(mark_failed now i msg ^^ 5) c = mark_failed now i msg ((mark_failed now i msg ^^ 4) c)"
      by (simp add: eval_nat_numeral)
    then show ?thesis using att [of 4 c] that by (simp add: mark_failed_def maxCommandAttempts_def)
  qed
  have gone: "dc_Status c' \<noteq> ''pending''"
    if c': "c' \<in> set (map (mark_failed now i msg ^^ 5) (device_commands db))" "dc_ID c' = i" for c'
  proof -
    obtain c where c: "c \<in> set (device_commands db)" "c' = (mark_failed now i msg ^^ 5) c" using c'(1) by auto
    have "dc_ID c = i" using att [of 5 c] c(2) c'(2) by simp
    moreover have "0 \<le> dc_Attempts c" using assms c(1) by (simp add: list_all_iff)
    ultimately show ?thesis using five unfolding c(2) by blast
  qed
  show ?thesis
  proof
    assume "List.member (map dc_ID (PendingCommands limit
        (((\<lambda>d. snd (MarkCommand True inet quote jok now evid i False msg d)) ^^ 5) db))) i"
    then obtain c' where c': "c' \<in> set (PendingCommands limit
        (((\<lambda>d. snd (MarkCommand True inet quote jok now evid i False msg d)) ^^ 5) db))" "dc_ID c' = i"
      by auto
    have "c' \<in> set (map (mark_failed now i msg ^^ 5) (device_commands db))" "dc_Status c' = ''pending''"
      using subsetD [OF pending_subset c'(1)] unfolding step by blast+
    then show False using gone c'(2) by blast
  qed
qed

theorem five_failures_end_the_retries_witness:
  "\<not> List.member (map dc_ID (PendingCommands 100
    (((\<lambda>d. snd (MarkCommand True (\<lambda>_. None) id (\<lambda>_. True) 2 ''ev'' 1 False ''no route'' d)) ^^ 5) (edited_db ''France'')))) 1
   \<and> map dc_ID (PendingCommands 100 (edited_db ''France'')) = [1]"
proof
  show "\<not> List.member (map dc_ID (PendingCommands 100
    (((\<lambda>d. snd (MarkCommand True (\<lambda>_. None) id (\<lambda>_. True) 2 ''ev'' 1 False ''no route'' d)) ^^ 5) (edited_db ''France'')))) 1"
    by (rule five_failures_end_the_retries) (simp add: edited_rows country_edit_def)
  show "map dc_ID (PendingCommands 100 (edited_db ''France'')) = [1]"
    by (simp add: PendingCommands_def edited_rows country_edit_def)
qed

text \<open>
  Only four of the eight reset types of the standard reach the server as they
  were asked for; every other accepted word becomes one of these four, so a
  graceful shutdown is sent as a forced power off and a power cycle as a restart.
\<close>

theorem reset_types_sent:
  "filter (\<lambda>v. normalizeResetType v = v) reset_types = [''On'', ''ForceOff'', ''ForceRestart'', ''PushPowerButton'']
   \<and> normalizeResetType v \<in> {'''', ''On'', ''ForceOff'', ''ForceRestart'', ''PushPowerButton''}
   \<and> map normalizeResetType [''GracefulShutdown'', ''GracefulRestart'', ''PowerCycle''] = [''ForceOff'', ''ForceRestart'', ''ForceRestart'']"
proof (intro conjI)
  show "normalizeResetType v \<in> {'''', ''On'', ''ForceOff'', ''ForceRestart'', ''PushPowerButton''}"
  proof (cases "v \<in> set reset_types")
    case True
    have "list_all (\<lambda>v. normalizeResetType v \<in> {'''', ''On'', ''ForceOff'', ''ForceRestart'', ''PushPowerButton''}) reset_types"
      by code_simp
    then show ?thesis using True by (simp only: list_all_iff)
  next
    case False
    then show ?thesis unfolding normalizeResetType_def Let_def by simp
  qed
qed code_simp+

text \<open>
  An airflow threshold written as a decimal fraction is scaled by ten, but one
  written as a whole number is not, so a larger threshold can be written as a
  smaller one: 3.5 reaches the device as 35 and 4.0 as 4.
\<close>

theorem airflow_scaling_not_monotone:
  "map (\<lambda>v. snmp_pdu \<lparr>os_oid = ''1.3.6.1.4.1.99999.3.19.0'', os_isInt = True\<rparr> v) [''0.1'', ''3.5'', ''4.0'', ''4'', ''12.25'', ''-1.5'']
     = map (\<lambda>n. Inr (PInt n)) [1, 35, 4, 4, 123, -15]
   \<and> snmp_pdu \<lparr>os_oid = ''1.3.6.1.4.1.99999.3.19.0'', os_isInt = True\<rparr> ''fast'' = Inl (NotNumber ''fast'')"
  by code_simp

lemma atoi_err_range: "atoi_err s = Some n \<Longrightarrow> - (2 ^ 63) \<le> n \<and> n < 2 ^ 63"
  unfolding atoi_err_def Let_def by (simp split: prod.split_asm if_split_asm)

lemma snmp_pdu_range: "snmp_pdu spec v = Inr (PInt n) \<Longrightarrow> - (2 ^ 63) \<le> n \<and> n < 2 ^ 63"
  by (auto simp: snmp_pdu_def airflow_value_def to_int64_def split: if_splits option.splits dest!: atoi_err_range)

lemma Apply_snmp_spec:
  assumes "Apply en cfg rf c = (e, Some (SnmpSet h k ob p))"
  shows "\<exists>spec. map_of snmpFieldMap (to_lower (trim_space (cm_Field c))) = Some spec \<and> ob = os_oid spec
     \<and> snmp_pdu spec (cm_Value c) = Inr p"
proof -
  have rs: "snd (redfish_send en base mk) \<noteq> Some (SnmpSet h k ob p)" if "\<And>u. mk u \<noteq> SnmpSet h k ob p" for base mk
    using that by (auto simp: redfish_send_def Let_def split: option.splits list.splits)
  show ?thesis
    using assms rs [of "\<lambda>u. RedfishPost (u @ ''/Actions/ComputerSystem.Reset'') (normalizeResetType (cm_Value c))"]
      rs [of "\<lambda>u. RedfishPatch u (normalizeLED (cm_Value c))"]
    by (auto simp: Apply_def Let_def applyRedfishPower_def applyRedfishLED_def applySNMPSet_def
        split: if_splits option.splits sum.splits) (metis snd_conv)+
qed

text \<open>
  A write by SNMP always comes from the table of writable fields: it goes to the
  field's own identifier with the field's type, and a text is sent unchanged.
\<close>

theorem Apply_writes_the_field:
  assumes "Apply en cfg rf c = (e, Some (SnmpSet h k ob p))"
  shows "\<exists>spec. map_of snmpFieldMap (to_lower (trim_space (cm_Field c))) = Some spec \<and> ob = os_oid spec
     \<and> (case p of PInt _ \<Rightarrow> os_isInt spec | POctets v \<Rightarrow> \<not> os_isInt spec \<and> v = cm_Value c)"
  using Apply_snmp_spec [OF assms] by (auto simp: snmp_pdu_def split: if_splits option.splits)

theorem Apply_writes_the_field_witness:
  "\<exists>spec. map_of snmpFieldMap (to_lower (trim_space ''country'')) = Some spec \<and> ''1.3.6.1.4.1.99999.4.1.0'' = os_oid spec"
  using Apply_writes_the_field [of willing_env "rn_cfg idle_runner" "rn_redfish idle_runner"
      "to_command ((country_edit ''France'')\<lparr>dc_ID := 1\<rparr>)" None "''10.0.0.1''" "''10.0.0.1''" "''1.3.6.1.4.1.99999.4.1.0''" "POctets ''France''"]
    country_apply [of "''France''"]
  by (auto simp: run_command_def Let_def to_command_def country_edit_def)

end
