(* ===== verification/Threshold_Store.thy ===== *)
theory Threshold_Store
  imports Fwd_Store Device_Store
begin

text \<open>
  \<open>fwDCS/internal/store/thresholds.go\<close>: alert thresholds and the chassis power state.
  \<open>now\<close> is the statement time.
\<close>

record FwdThreshold =
  fh_DeviceIP :: string
  fh_Hostname :: string
  fh_Rule :: string
  fh_Value :: int
  fh_UpdatedAt :: int

definition threshold_joined :: "db \<Rightarrow> string \<Rightarrow> string \<Rightarrow> threshold_row \<Rightarrow> FwdThreshold option" where
  "threshold_joined db org net t =
     (case device_by_id db (h_device_id t) of
        None \<Rightarrow> None
      | Some d \<Rightarrow>
          if d_org_id d = org \<and> d_network_id d = net
          then Some \<lparr>fh_DeviceIP = coalesce_val (d_mgmt_ip d) '''', fh_Hostname = d_hostname d, fh_Rule = h_rule t,
                     fh_Value = h_value t, fh_UpdatedAt = h_updated_at t\<rparr>
          else None)"

definition ThresholdsUpdatedSince :: "db \<Rightarrow> string \<Rightarrow> string \<Rightarrow> int \<Rightarrow> int \<Rightarrow> FwdThreshold list" where
  "ThresholdsUpdatedSince db org net since limit =
     order_limit fh_UpdatedAt (if limit \<le> 0 then 500 else nat limit)
       (List.map_filter (threshold_joined db org net) (filter (\<lambda>t. h_updated_at t > since) (device_thresholds db)))"

definition UpsertThreshold :: "int \<Rightarrow> string \<Rightarrow> string \<Rightarrow> int \<Rightarrow> db \<Rightarrow> db_error option \<times> db" where
  "UpsertThreshold now deviceID rule v db =
     (if \<not> int4_ok v then (Some ErrCast, db)
      else if (deviceID, rule) \<in> set (map (\<lambda>t. (h_device_id t, h_rule t)) (device_thresholds db)) then
        (None, db\<lparr>device_thresholds := map (\<lambda>t.
           if h_device_id t = deviceID \<and> h_rule t = rule
           then t\<lparr>h_value := v, h_updated_at := (if h_value t \<noteq> v then now else h_updated_at t)\<rparr> else t)
           (device_thresholds db)\<rparr>)
      else if deviceID \<notin> d_id ` set (devices db) then (Some ErrForeignKey, db)
      else (None, db\<lparr>device_thresholds := device_thresholds db @
             [\<lparr>h_device_id = deviceID, h_rule = rule, h_value = v, h_updated_at = now\<rparr>]\<rparr>))"

definition SetDevicePowerState :: "string \<Rightarrow> int \<Rightarrow> db \<Rightarrow> db_error option \<times> db" where
  "SetDevicePowerState deviceID st db =
     (if \<not> smallint_ok (Some st) then (Some ErrCast, db)
      else (None, db\<lparr>devices := map (\<lambda>d. if d_id d = deviceID then d\<lparr>d_power_state := Some st\<rparr> else d) (devices db)\<rparr>))"

section \<open>Properties\<close>

lemma upsert_threshold_again:
  assumes "UpsertThreshold now dev rule v db = (None, db1)"
  shows "UpsertThreshold now2 dev rule v db1 = (None, db1)"
proof -
  let ?ts = "device_thresholds db1" and ?key = "\<lambda>t. (h_device_id t, h_rule t)"
  have ok: "int4_ok v" using assms by (auto simp: UpsertThreshold_def split: if_splits)
  have "(dev, rule) \<in> set (map ?key ?ts) \<and> (\<forall>t \<in> set ?ts. ?key t = (dev, rule) \<longrightarrow> h_value t = v)"
  proof (cases "(dev, rule) \<in> set (map ?key (device_thresholds db))")
    case True
    then have ts: "?ts = map (\<lambda>t. if h_device_id t = dev \<and> h_rule t = rule
        then t\<lparr>h_value := v, h_updated_at := (if h_value t \<noteq> v then now else h_updated_at t)\<rparr> else t) (device_thresholds db)"
      using assms ok by (simp add: UpsertThreshold_def) auto
    have "map ?key ?ts = map ?key (device_thresholds db)" unfolding ts by simp
    then show ?thesis using True unfolding ts by auto
  next
    case False
    then have "?ts = device_thresholds db @ [\<lparr>h_device_id = dev, h_rule = rule, h_value = v, h_updated_at = now\<rparr>]"
      using assms ok by (simp add: UpsertThreshold_def split: if_splits) auto
    then show ?thesis using False by (auto simp: image_iff)
  qed
  then have k: "(dev, rule) \<in> set (map ?key ?ts)"
    and "map (\<lambda>t. if h_device_id t = dev \<and> h_rule t = rule
      then t\<lparr>h_value := v, h_updated_at := (if h_value t \<noteq> v then now2 else h_updated_at t)\<rparr> else t) ?ts = ?ts"
    by (auto intro: map_idI)
  then show ?thesis using ok by (simp add: UpsertThreshold_def)
qed

end
