(* ===== verification/Ui_Commands.thy ===== *)
theory Ui_Commands
  imports Threshold_Store Command_Store Payload Cursor_Interface
begin

text \<open>
  The pull of user edits, \<open>fwDCS/internal/forwarder/uicommands.go\<close>: one request per
  network reports finished commands and thresholds and brings edits back, which
  become pending commands. The endpoint is the function \<open>post\<close>; \<open>ok\<close> says which of
  the database calls succeed.
\<close>

section \<open>Data\<close>

definition uiCursorName :: string where "uiCursorName = ''ui_devices''"
definition uiCmdStatusCursor :: string where "uiCmdStatusCursor = ''ui_cmd_status''"
definition uiThresholdsCursor :: string where "uiThresholdsCursor = ''ui_thresholds''"

record uiCommandStatus =
  us_DeviceIP :: string
  us_Field :: string
  us_Status :: string
  us_Error :: string

record uiThresholdChange =
  ut_DeviceIP :: string
  ut_Hostname :: string
  ut_Rule :: string
  ut_Value :: int

text \<open>\<open>rq_UIChangesSince\<close> is the instant the text denotes.\<close>

record uiPullRequest =
  rq_OrgID :: string
  rq_DatacenterID :: string
  rq_FloorID :: string
  rq_NetworkID :: string
  rq_GroupID :: string
  rq_UIChangesSince :: int
  rq_CommandStatus :: "uiCommandStatus list"
  rq_ThresholdChanges :: "uiThresholdChange list"

record uiDeviceChange =
  uc_MgmtIP :: string
  uc_Field :: string
  uc_NewValue :: string

text \<open>No answer, a status outside 2xx, a body that does not decode, or the edits with the parsed cursor.\<close>

datatype ui_answer =
    NoAnswer
  | NonOk nat
  | Undecodable
  | Answer "uiDeviceChange list" "int option"

datatype ui_call =
    ReadCursor | ReadStatusCursor | ReadCommands | ReadThresholdCursor | ReadThresholds
  | WriteStatusCursor | WriteThresholdCursor | WriteCursor | InsertEdits

section \<open>pullUICommands\<close>

definition latest :: "('a \<Rightarrow> int) \<Rightarrow> 'a list \<Rightarrow> int" where
  "latest t xs = fold (\<lambda>x m. if t x > m then t x else m) xs zero_time"

definition ui_request :: "AggregatorConfig \<Rightarrow> string \<Rightarrow> int \<Rightarrow> DeviceCommand list \<Rightarrow> FwdThreshold list \<Rightarrow> uiPullRequest" where
  "ui_request cfg net cursor done_cmds thrs =
     \<lparr>rq_OrgID = cfg_OrgID cfg, rq_DatacenterID = or_default (cfg_DefaultDatacenterID cfg) ''unknown'',
      rq_FloorID = or_default (cfg_DefaultFloorID cfg) ''unknown'', rq_NetworkID = net, rq_GroupID = cfg_GroupID cfg,
      rq_UIChangesSince = (if cursor = zero_time then 0 else cursor),
      rq_CommandStatus = map (\<lambda>c. \<lparr>us_DeviceIP = dc_DeviceIP c, us_Field = dc_Field c, us_Status = dc_Status c,
                                     us_Error = dc_LastError c\<rparr>) done_cmds,
      rq_ThresholdChanges = map (\<lambda>t. \<lparr>ut_DeviceIP = fh_DeviceIP t, ut_Hostname = fh_Hostname t, ut_Rule = fh_Rule t,
                                        ut_Value = fh_Value t\<rparr>) thrs\<rparr>"

definition ui_commands :: "AggregatorConfig \<Rightarrow> string \<Rightarrow> uiDeviceChange list \<Rightarrow> DeviceCommand list" where
  "ui_commands cfg net chs =
     map (\<lambda>ch. \<lparr>dc_ID = 0, dc_OrgID = cfg_OrgID cfg, dc_NetworkID = net, dc_DeviceIP = uc_MgmtIP ch, dc_Hostname = '''',
                dc_Field = uc_Field ch, dc_Value = uc_NewValue ch, dc_Status = '''', dc_Attempts = 0, dc_LastError = '''',
                dc_CreatedAt = zero_time, dc_UpdatedAt = zero_time\<rparr>)
       (filter (\<lambda>ch. \<not> (uc_MgmtIP ch = '''' \<or> uc_Field ch = '''')) chs)"

definition pullUICommands ::
  "(ui_call \<Rightarrow> bool) \<Rightarrow> (uiPullRequest \<Rightarrow> ui_answer) \<Rightarrow> int \<Rightarrow> AggregatorConfig \<Rightarrow> string \<Rightarrow> db \<Rightarrow> db" where
  "pullUICommands ok post now cfg net db =
     (let cursor = GetForwarderCursor (ok ReadCursor) db uiCursorName net;
          cmdCursor = GetForwarderCursor (ok ReadStatusCursor) db uiCmdStatusCursor net;
          doneCmds = (if ok ReadCommands then CommandsUpdatedSince db cmdCursor 200 else []);
          thrCursor = GetForwarderCursor (ok ReadThresholdCursor) db uiThresholdsCursor net;
          thrs = (if ok ReadThresholds then ThresholdsUpdatedSince db (cfg_OrgID cfg) net thrCursor 500 else []);
          cmdMax = latest dc_UpdatedAt doneCmds; thrMax = latest fh_UpdatedAt thrs
      in case post (ui_request cfg net cursor doneCmds thrs) of
           Answer chs ans \<Rightarrow>
             let db1 = (if cmdMax \<noteq> zero_time then SetForwarderCursor (ok WriteStatusCursor) db uiCmdStatusCursor net cmdMax else db);
                 db2 = (if thrMax \<noteq> zero_time then SetForwarderCursor (ok WriteThresholdCursor) db1 uiThresholdsCursor net thrMax
                        else db1);
                 db3 = (case ans of Some c \<Rightarrow> SetForwarderCursor (ok WriteCursor) db2 uiCursorName net c | None \<Rightarrow> db2)
             in if chs = [] then db3
                else snd (snd (InsertCommands (ok InsertEdits) now (ui_commands cfg net chs) db3))
         | _ \<Rightarrow> db)"

section \<open>The pending edits as a map\<close>

text \<open>What the queue stands for: per device and field, the value still to be written.\<close>

definition pending_edits :: "db \<Rightarrow> (string \<times> string \<rightharpoonup> string)" where
  "pending_edits db = (\<lambda>(ip, f). map_option dc_Value (find (pending_for ip f) (device_commands db)))"

lemma find_map_same:
  "(\<And>x. x \<in> set xs \<Longrightarrow> P (f x) = P x) \<Longrightarrow> find P (map f xs) = map_option f (find P xs)"
  by (induction xs) auto

lemma find_append: "find P (xs @ ys) = (case find P xs of None \<Rightarrow> find P ys | r \<Rightarrow> r)"
  by (induction xs) auto

lemma insert_command_pending:
  "pending_edits (insert_command now c db) = (pending_edits db)((dc_DeviceIP c, dc_Field c) \<mapsto> dc_Value c)"
proof
  fix k :: "string \<times> string"
  obtain ip f where k: "k = (ip, f)" by fastforce
  let ?hit = "pending_for (dc_DeviceIP c) (dc_Field c)"
  show "pending_edits (insert_command now c db) k = ((pending_edits db)((dc_DeviceIP c, dc_Field c) \<mapsto> dc_Value c)) k"
  proof (cases "list_ex ?hit (device_commands db)")
    case True
    let ?g = "\<lambda>r. if ?hit r then r\<lparr>dc_Value := dc_Value c, dc_Hostname := dc_Hostname c, dc_UpdatedAt := now\<rparr> else r"
    have found: "find (pending_for ip f) (map ?g (device_commands db)) = map_option ?g (find (pending_for ip f) (device_commands db))"
      by (rule find_map_same) (simp add: pending_for_def)
    have rows: "pending_edits (insert_command now c db) k = map_option dc_Value (find (pending_for ip f) (map ?g (device_commands db)))"
      using True by (simp add: k pending_edits_def insert_command_def Let_def)
    show ?thesis
    proof (cases "(ip, f) = (dc_DeviceIP c, dc_Field c)")
      case same: True
      then have "find (pending_for ip f) (device_commands db) \<noteq> None"
        using True by (auto simp: list_ex_iff find_None_iff)
      then obtain r where r: "find (pending_for ip f) (device_commands db) = Some r" by blast
      then have "?hit r" using same by (auto simp: find_Some_iff)
      then show ?thesis using r same unfolding rows found by (simp add: k)
    next
      case other: False
      have "dc_Value (?g r) = dc_Value r" if "find (pending_for ip f) (device_commands db) = Some r" for r
        using that other by (auto simp: find_Some_iff pending_for_def)
      then show ?thesis using other
        by (cases "find (pending_for ip f) (device_commands db)") (simp_all only: rows found, auto simp: k pending_edits_def)
    qed
  next
    case False
    then have "find ?hit (device_commands db) = None" by (auto simp: list_ex_iff find_None_iff)
    then show ?thesis using False
      by (auto simp: k pending_edits_def insert_command_def Let_def find_append pending_for_def split: option.split)
  qed
qed

lemma mark_applied_pending:
  assumes "cmds_ok db" and "find (\<lambda>c. dc_ID c = i) (device_commands db) = Some r" and "dc_Status r = ''pending''"
    and "device_commands db' = map (mark_applied now i) (device_commands db)"
  shows "pending_edits db' = (pending_edits db)((dc_DeviceIP r, dc_Field r) := None)"
proof
  fix k :: "string \<times> string"
  obtain ip f where k: "k = (ip, f)" by fastforce
  have r: "r \<in> set (device_commands db)" "dc_ID r = i" using assms(2) by (auto simp: find_Some_iff)
  have one: "c = r" if "c \<in> set (device_commands db)" "pending_for (dc_DeviceIP r) (dc_Field r) c" for c
  proof -
    have "inj_on (\<lambda>c. (dc_DeviceIP c, dc_Field c)) (set (filter (\<lambda>c. dc_Status c = ''pending'') (device_commands db)))"
      using assms(1) by (simp add: cmds_ok_def distinct_map)
    then show ?thesis using that r(1) assms(3) by (auto simp: inj_on_def pending_for_def)
  qed
  have id: "c = r" if "c \<in> set (device_commands db)" "dc_ID c = i" for c
    using assms(1) that r by (auto simp: cmds_ok_def distinct_map inj_on_def)
  show "pending_edits db' k = ((pending_edits db)((dc_DeviceIP r, dc_Field r) := None)) k"
  proof (cases "(ip, f) = (dc_DeviceIP r, dc_Field r)")
    case True
    have "\<not> pending_for ip f (mark_applied now i c)" if "c \<in> set (device_commands db)" for c
      using one [OF that] True r(2) by (auto simp: pending_for_def mark_applied_def)
    then have "find (pending_for ip f) (map (mark_applied now i) (device_commands db)) = None"
      by (auto simp: find_None_iff)
    then show ?thesis using True by (simp add: k pending_edits_def assms(4))
  next
    case False
    have "pending_for ip f (mark_applied now i c) = pending_for ip f c" if "c \<in> set (device_commands db)" for c
      using id [OF that] False by (auto simp: pending_for_def mark_applied_def)
    then have "find (pending_for ip f) (map (mark_applied now i) (device_commands db)) =
        map_option (mark_applied now i) (find (pending_for ip f) (device_commands db))"
      by (rule find_map_same)
    then show ?thesis using False by (simp add: k pending_edits_def assms(4) option.map_comp comp_def) (auto simp: k)
  qed
qed

section \<open>Properties\<close>

text \<open>
  C37. The queue implements a map from device field to pending value: storing a batch
  of edits updates the map with each of them in order, so the last edit of a field is
  the one to be written.
\<close>

theorem InsertCommands_refines_map:
  "pending_edits (snd (snd (InsertCommands True now cmds db))) =
     fold (\<lambda>c m. m((dc_DeviceIP c, dc_Field c) \<mapsto> dc_Value c))
       (filter (\<lambda>c. \<not> (dc_DeviceIP c = '''' \<or> dc_Field c = '''')) cmds) (pending_edits db)"
proof -
  have "pending_edits (fold (insert_command now) cs db) =
      fold (\<lambda>c m. m((dc_DeviceIP c, dc_Field c) \<mapsto> dc_Value c)) cs (pending_edits db)" for cs
    by (induction cs arbitrary: db) (simp_all add: insert_command_pending)
  then show ?thesis by (simp add: InsertCommands_def Let_def)
qed

text \<open>
  An acknowledged success removes exactly the edit it is about from the map of
  pending edits.
\<close>

theorem applied_ack_removes_the_edit:
  assumes "cmds_ok db" and "find (\<lambda>c. dc_ID c = i) (device_commands db) = Some r" and "dc_Status r = ''pending''"
  shows "pending_edits (snd (MarkCommand True inet quote jok now evid i True msg db)) =
    (pending_edits db)((dc_DeviceIP r, dc_Field r) := None)"
  using MarkCommand_commands(2) [of True inet quote jok now evid i True msg db None]
  by (intro mark_applied_pending [OF assms, of _ now]) (simp add: MarkCommand_def assms(2))

definition one_edit :: db where
  "one_edit = insert_command 1 (hd (ui_commands
     \<lparr>cfg_OrgID = ''org'', cfg_NetworkID = ''net'', cfg_GroupID = ''g'', cfg_DefaultDatacenterID = '''', cfg_DefaultFloorID = '''',
      cfg_IntervalMs = 0, cfg_IdleIntervalMs = 0, cfg_EventDebounceMs = 0, cfg_BatchLimit = 0\<rparr> ''net''
     [\<lparr>uc_MgmtIP = ''10.0.0.1'', uc_Field = ''country'', uc_NewValue = ''France''\<rparr>])) empty_db"

theorem applied_ack_removes_the_edit_witness:
  "pending_edits (snd (MarkCommand True (\<lambda>_. None) id (\<lambda>_. True) 2 ''ev'' 1 True '''' one_edit)) = Map.empty
   \<and> pending_edits one_edit (''10.0.0.1'', ''country'') = Some ''France''"
proof
  define r where "r = hd (device_commands one_edit)"
  have rows: "device_commands one_edit = [r]" "dc_ID r = 1" "dc_Status r = ''pending''" "dc_DeviceIP r = ''10.0.0.1''"
    "dc_Field r = ''country''" "dc_Value r = ''France''" "command_seq one_edit = 1"
    by (simp_all add: r_def one_edit_def insert_command_def ui_commands_def empty_db_def)
  have "cmds_ok one_edit" unfolding cmds_ok_def rows(1,7) using rows(2) by simp
  moreover have "find (\<lambda>c. dc_ID c = 1) (device_commands one_edit) = Some r" by (simp add: rows(1,2))
  ultimately have "pending_edits (snd (MarkCommand True (\<lambda>_. None) id (\<lambda>_. True) 2 ''ev'' 1 True '''' one_edit)) =
      (pending_edits one_edit)((dc_DeviceIP r, dc_Field r) := None)"
    using rows(3) by (rule applied_ack_removes_the_edit)
  moreover have pend: "pending_edits one_edit = [(''10.0.0.1'', ''country'') \<mapsto> ''France'']"
    using rows(3-6) by (auto simp: pending_edits_def rows(1) pending_for_def fun_eq_iff)
  ultimately show "pending_edits (snd (MarkCommand True (\<lambda>_. None) id (\<lambda>_. True) 2 ''ev'' 1 True '''' one_edit)) = Map.empty"
    by (simp add: rows(4,5))
  show "pending_edits one_edit (''10.0.0.1'', ''country'') = Some ''France''" by (simp add: pend)
qed

text \<open>
  The edits of an answer are lost when the database refuses them: the cursor of
  the edits has moved past them, no command was queued, and the request of the next
  round asks only for what came later, although the routine's contract is that the
  cursor moves on success only.
\<close>

theorem failed_insert_loses_edits:
  "let db' = pullUICommands (\<lambda>k. k \<noteq> InsertEdits) (\<lambda>_. Answer (ch # chs) (Some c)) now cfg net db
   in device_commands db' = device_commands db
    \<and> GetForwarderCursor True db' uiCursorName net = c
    \<and> rq_UIChangesSince (ui_request cfg net (GetForwarderCursor True db' uiCursorName net) [] []) = (if c = zero_time then 0 else c)"
  by (simp add: pullUICommands_def Let_def InsertCommands_def SetForwarderCursor_def GetForwarderCursor_def ui_request_def)

text \<open>
  A round whose answer does not arrive, has a bad status or does not decode
  changes nothing, so its reports and its edits are repeated by the next round.
\<close>

theorem failed_pull_changes_nothing:
  "pullUICommands ok (\<lambda>_. NoAnswer) now cfg net db = db
   \<and> pullUICommands ok (\<lambda>_. NonOk st) now cfg net db = db
   \<and> pullUICommands ok (\<lambda>_. Undecodable) now cfg net db = db"
  by (simp add: pullUICommands_def Let_def)

text \<open>
  A round that succeeds makes each edit of the answer with an address and a field
  pending, the last one of a field winning, and touches no other pending edit.
\<close>

theorem pull_queues_the_edits:
  "pending_edits (pullUICommands (\<lambda>_. True) (\<lambda>_. Answer chs ans) now cfg net db) =
     fold (\<lambda>ch m. m((uc_MgmtIP ch, uc_Field ch) \<mapsto> uc_NewValue ch))
       (filter (\<lambda>ch. \<not> (uc_MgmtIP ch = '''' \<or> uc_Field ch = '''')) chs) (pending_edits db)"
proof -
  have set: "pending_edits (SetForwarderCursor b d n m t) = pending_edits d" for b d n m t
    by (simp add: SetForwarderCursor_def pending_edits_def)
  have all: "filter (\<lambda>c. \<not> (dc_DeviceIP c = '''' \<or> dc_Field c = '''')) (ui_commands cfg net chs) = ui_commands cfg net chs"
    by (auto simp: ui_commands_def filter_id_conv)
  have "fold (\<lambda>c m. m((dc_DeviceIP c, dc_Field c) \<mapsto> dc_Value c)) (ui_commands cfg net chs) m =
      fold (\<lambda>ch m. m((uc_MgmtIP ch, uc_Field ch) \<mapsto> uc_NewValue ch))
        (filter (\<lambda>ch. \<not> (uc_MgmtIP ch = '''' \<or> uc_Field ch = '''')) chs) m" for m
    unfolding ui_commands_def fold_map by (simp add: comp_def)
  then show ?thesis
    by (auto simp: pullUICommands_def Let_def InsertCommands_refines_map all set ui_commands_def split: option.split)
qed

end
