(* ===== verification/Ingest_Worker.thy ===== *)
theory Ingest_Worker
  imports Lru_Cache Iface_Link_Store Telemetry_Store Threshold_Store
begin

text \<open>
  The ingest pipeline of the collection service, \<open>fwDCS/internal/ingest\<close>: duplicate
  detection (\<open>dedup.go\<close>), normalisation (\<open>normalizer.go\<close>) and the packet handlers
  and worker loop of \<open>worker.go\<close>. A record \<open>ing_env\<close> holds what the packet meets:
  whether the database and Redis answer, the clock, the server's parsers, the
  identifiers it generates and the iteration order of maps. Workers share the
  database and the two caches and are interleaved packet by packet.
\<close>

section \<open>Duplicates\<close>

text \<open>Keys with their instant of expiry, in nanoseconds.\<close>

record redis =
  rd_pkt :: "string \<rightharpoonup> int"
  rd_nonce :: "string \<rightharpoonup> i64 \<times> int"

definition hour :: int where "hour = 3600000000000"
definition minute :: int where "minute = 60000000000"

definition seen_id :: "int \<Rightarrow> redis \<Rightarrow> string \<Rightarrow> bool" where
  "seen_id now r i = (case rd_pkt r i of Some x \<Rightarrow> now < x | None \<Rightarrow> False)"

definition last_nonce :: "int \<Rightarrow> redis \<Rightarrow> string \<Rightarrow> i64" where
  "last_nonce now r s = (case rd_nonce r s of Some (n, x) \<Rightarrow> if now < x then n else 0 | None \<Rightarrow> 0)"

text \<open>
  The Redis commands of a check, each atomic in the server: \<open>SETNX\<close> of the identifier and
  \<open>SET\<close> of the nonce (\<open>GET\<close> only reads, \<open>last_nonce\<close>), and the commands of other workers
  in the order in which the server takes them.
\<close>

definition SetNX :: "int \<Rightarrow> string \<Rightarrow> redis \<Rightarrow> bool \<times> redis" where
  "SetNX now i r =
     (if seen_id now r i then (False, r) else (True, r\<lparr>rd_pkt := (rd_pkt r)(i \<mapsto> now + hour)\<rparr>))"

definition SetNonce :: "int \<Rightarrow> string \<Rightarrow> i64 \<Rightarrow> redis \<Rightarrow> redis" where
  "SetNonce now src n r = r\<lparr>rd_nonce := (rd_nonce r)(src \<mapsto> (n, now + 24 * hour))\<rparr>"

datatype redis_cmd = CSetNX int string | CSetNonce int string i64

fun redis_run :: "redis_cmd list \<Rightarrow> redis \<Rightarrow> redis" where
  "redis_run [] r = r"
| "redis_run (CSetNX now i # cs) r = redis_run cs (snd (SetNX now i r))"
| "redis_run (CSetNonce now src n # cs) r = redis_run cs (SetNonce now src n r)"

text \<open>
  One check with its three calls at their own times and the commands of other workers between
  them. \<open>ok\<close>: the three calls succeed; the answer is an error or the verdict.
\<close>

definition check_steps :: "bool \<times> bool \<times> bool \<Rightarrow> int \<times> int \<times> int \<Rightarrow> redis_cmd list \<times> redis_cmd list \<Rightarrow>
    string \<Rightarrow> string \<Rightarrow> i64 \<Rightarrow> redis \<Rightarrow> bool option \<times> redis" where
  "check_steps ok ts others packetID src n r =
     (case (ok, ts, others) of ((okSet, okGet, okPut), (t1, t2, t3), (cs1, cs2)) \<Rightarrow>
        if \<not> okSet then (None, r)
        else case SetNX t1 packetID r of
               (False, r1) \<Rightarrow> (Some True, r1)
             | (True, r1) \<Rightarrow>
                 let r2 = redis_run cs1 r1
                 in if \<not> okGet then (None, r2)
                    else if n \<le> last_nonce t2 r2 src then (Some True, r2)
                    else let r3 = redis_run cs2 r2
                         in (Some False, if okPut then SetNonce t3 src n r3 else r3))"

text \<open>A check that no other overlaps.\<close>

definition IsDuplicate :: "bool \<times> bool \<times> bool \<Rightarrow> int \<Rightarrow> string \<Rightarrow> string \<Rightarrow> i64 \<Rightarrow> redis \<Rightarrow> bool option \<times> redis" where
  "IsDuplicate ok now packetID src n r = check_steps ok (now, now, now) ([], []) packetID src n r"

lemma IsDuplicate_eq:
  "IsDuplicate ok now packetID src n r =
     (case ok of (okSet, okGet, okPut) \<Rightarrow>
        if \<not> okSet then (None, r)
        else if seen_id now r packetID then (Some True, r)
        else let r1 = r\<lparr>rd_pkt := (rd_pkt r)(packetID \<mapsto> now + hour)\<rparr>
             in if \<not> okGet then (None, r1)
                else if n \<le> last_nonce now r1 src then (Some True, r1)
                else (Some False,
                      if okPut then r1\<lparr>rd_nonce := (rd_nonce r1)(src \<mapsto> (n, now + 24 * hour))\<rparr> else r1))"
  by (auto simp: IsDuplicate_def check_steps_def SetNX_def SetNonce_def Let_def split: prod.split)

section \<open>Normalisation\<close>

definition Normalize :: "int \<Rightarrow> TelemetryPacket \<Rightarrow> TelemetryPacket" where
  "Normalize now pkt =
     (let p1 = pkt\<lparr>Tag := trim_space (Tag pkt)\<rparr>;
          p2 = (if TimestampNs p1 > now + 5 * minute then p1\<lparr>TimestampNs := now\<rparr> else p1)
      in if TimestampNs p2 < now - 24 * hour then p2\<lparr>TimestampNs := now\<rparr> else p2)"

section \<open>State and environment\<close>

record pipe =
  p_db :: db
  p_dev :: LRU
  p_if :: LRU
  p_redis :: redis
  p_seq :: nat

record ing_env =
  iv_up :: bool
  iv_ev_ok :: bool
  iv_redis :: "bool \<times> bool \<times> bool"
  iv_now :: int
  iv_inet :: "string \<Rightarrow> string option"
  iv_uuid :: "string \<Rightarrow> string option"
  iv_json_ok :: "string \<Rightarrow> bool"
  iv_marshal :: "(string \<times> string) list \<Rightarrow> string"
  iv_ids :: "nat \<Rightarrow> string"
  iv_kvs :: "smap \<Rightarrow> (string \<times> string) list"

record IngestConfig =
  ic_hasDedup :: bool
  ic_DedupEvents :: bool
  ic_DedupMetrics :: bool
  ic_BufferRows :: int
  ic_ChannelSize :: nat

text \<open>\<open>int(pkt.Value)\<close>, with the conversion of amd64 outside the range.\<close>

definition go_int :: "rat \<Rightarrow> int" where
  "go_int v = (let n = (if 0 \<le> v then \<lfloor>v\<rfloor> else \<lceil>v\<rceil>) in if - (2 ^ 63) \<le> n \<and> n < 2 ^ 63 then n else - (2 ^ 63))"

definition devKey :: "TelemetryPacket \<Rightarrow> string" where
  "devKey pkt = OrgId pkt @ ''|'' @ DatacenterId pkt @ ''|'' @ FloorId pkt @ ''|'' @ NetworkId pkt @ ''|''
     @ GroupId pkt @ ''|'' @ SourceId pkt"

section \<open>Devices and interfaces\<close>

text \<open>The statements of the store as the pipeline meets them: without the database they fail.\<close>

definition source_id :: "ing_env \<Rightarrow> TelemetryPacket \<Rightarrow> pipe \<Rightarrow> string" where
  "source_id e pkt st =
     (if iv_up e then DeviceIDBySource (p_db st) (OrgId pkt) (DatacenterId pkt) (FloorId pkt) (NetworkId pkt) (GroupId pkt) (SourceId pkt)
      else '''')"

definition upsert_dev :: "ing_env \<Rightarrow> TelemetryPacket \<Rightarrow> pipe \<Rightarrow> bool \<times> pipe" where
  "upsert_dev e pkt st =
     (if \<not> iv_up e then (False, st)
      else case UpsertDevice (iv_inet e) (iv_marshal e) (iv_ev_ok e) (iv_now e) (iv_ids e (p_seq st)) (iv_ids e (Suc (p_seq st)))
                  pkt (p_db st) of
        (err, db', _) \<Rightarrow> (err = None, st\<lparr>p_db := db', p_seq := p_seq st + 2\<rparr>))"

definition refresh_dev :: "ing_env \<Rightarrow> TelemetryPacket \<Rightarrow> pipe \<Rightarrow> pipe" where
  "refresh_dev e pkt st = (if Name pkt = ''system.uptime_centiseconds'' then snd (upsert_dev e pkt st) else st)"

definition lookupOrRegister :: "ing_env \<Rightarrow> TelemetryPacket \<Rightarrow> pipe \<Rightarrow> string \<times> pipe" where
  "lookupOrRegister e pkt st =
     (case Get (iv_now e) (p_dev st) (devKey pkt) of
        (Some v, dc) \<Rightarrow> (v, refresh_dev e pkt (st\<lparr>p_dev := dc\<rparr>))
      | (None, dc) \<Rightarrow>
          let st1 = st\<lparr>p_dev := dc\<rparr>; i = source_id e pkt st1
          in if i \<noteq> '''' then (i, refresh_dev e pkt (st1\<lparr>p_dev := Put (iv_now e) dc (devKey pkt) i\<rparr>))
             else if Kind pkt \<noteq> ''metric'' then ('''', st1)
             else case upsert_dev e pkt st1 of
               (False, st2) \<Rightarrow> ('''', st2)
             | (True, st2) \<Rightarrow>
                 let i2 = source_id e pkt st2
                 in (i2, if i2 \<noteq> '''' then st2\<lparr>p_dev := Put (iv_now e) (p_dev st2) (devKey pkt) i2\<rparr> else st2))"

text \<open>Speed, operational and administrative status as one packet carries them.\<close>

definition iface_columns :: "TelemetryPacket \<Rightarrow> int \<times> int \<times> int" where
  "iface_columns pkt =
     (let v = go_int (Value pkt)
      in (if Name pkt = ''interface.speed_mbps'' then v else 0,
          if Name pkt = ''interface.operational_status'' then v else 0,
          if Name pkt = ''interface.admin_status'' then v else 0))"

definition upsert_if :: "ing_env \<Rightarrow> string \<Rightarrow> string \<Rightarrow> int \<Rightarrow> int \<times> int \<times> int \<Rightarrow> pipe \<Rightarrow> string \<times> pipe" where
  "upsert_if e dev name ifIdx cols st =
     (if \<not> iv_up e then ('''', st)
      else case cols of (spd, oper, adm) \<Rightarrow>
        case UpsertInterface (iv_now e) (iv_ids e (p_seq st)) (p_db st) dev name ifIdx spd oper adm of
          (err, db', i) \<Rightarrow> (if err = None then i else '''', st\<lparr>p_db := db', p_seq := Suc (p_seq st)\<rparr>))"

definition lookupOrUpsertInterface :: "ing_env \<Rightarrow> string \<Rightarrow> TelemetryPacket \<Rightarrow> pipe \<Rightarrow> string \<times> pipe" where
  "lookupOrUpsertInterface e dev pkt st =
     (let m = get (Meta pkt); ifName = or_default (m ''interface_name'') (Tag pkt); k = dev @ ''|'' @ ifName;
          ifIdx = atoi_or (m ''interface_index'')
      in case Get (iv_now e) (p_if st) k of
           (Some v, ic) \<Rightarrow>
             let st1 = st\<lparr>p_if := ic\<rparr>
             in (v, if Name pkt \<in> {''interface.speed_mbps'', ''interface.operational_status'', ''interface.admin_status''}
                    then snd (upsert_if e dev ifName ifIdx (iface_columns pkt) st1) else st1)
         | (None, ic) \<Rightarrow>
             case upsert_if e dev ifName ifIdx (iface_columns pkt) (st\<lparr>p_if := ic\<rparr>) of
               (i, st1) \<Rightarrow> if i = '''' then ('''', st1)
                          else (i, st1\<lparr>p_if := Put (iv_now e) (p_if st1) k i\<rparr>))"

text \<open>The address candidates of a packet whose source is not a known host name.\<close>

fun by_ip :: "ing_env \<Rightarrow> TelemetryPacket \<Rightarrow> pipe \<Rightarrow> string list \<Rightarrow> (string \<times> string) option" where
  "by_ip e pkt st [] = None"
| "by_ip e pkt st (ip # ips) =
     (if ip = '''' \<or> \<not> iv_up e then by_ip e pkt st ips
      else case DeviceByIP (iv_inet e) (p_db st) (OrgId pkt) (DatacenterId pkt) (FloorId pkt) (NetworkId pkt) (GroupId pkt) ip of
        Some hit \<Rightarrow> Some hit
      | None \<Rightarrow> by_ip e pkt st ips)"

definition resolveDeviceID :: "ing_env \<Rightarrow> TelemetryPacket \<Rightarrow> pipe \<Rightarrow> string \<times> pipe" where
  "resolveDeviceID e pkt st =
     (case lookupOrRegister e pkt st of (i, st1) \<Rightarrow>
        if i \<noteq> '''' then (i, st1)
        else let m = get (Meta pkt)
             in ((case by_ip e pkt st1 [SourceId pkt, m ''mgmt_ip'', m ''device_ip'', m ''source_ip''] of
                    Some (d, _) \<Rightarrow> d | None \<Rightarrow> ''''), st1))"

section \<open>The packet handlers\<close>

definition writeInterfaceAddress :: "ing_env \<Rightarrow> TelemetryPacket \<Rightarrow> pipe \<Rightarrow> pipe" where
  "writeInterfaceAddress e pkt st =
     (case lookupOrRegister e pkt st of (dev, st1) \<Rightarrow>
        let m = get (Meta pkt); i = atoi_or (m ''interface_index'')
        in if dev = '''' \<or> i \<le> 0 then st1
           else let known = (if iv_up e then InterfaceIDByDeviceAndIndex (p_db st1) dev i else '''')
                in case (if known \<noteq> '''' then (known, st1) else upsert_if e dev (''if'' @ itoa i) i (0, 0, 0) st1) of
                     (ifID, st2) \<Rightarrow>
                       if ifID = '''' \<or> \<not> iv_up e then st2
                       else st2\<lparr>p_db := snd (UpsertInterfaceAddress (iv_inet e) (iv_now e) (iv_ids e (p_seq st2)) (p_db st2) ifID
                                  (m ''address'') (or_default (m ''address_family'') ''ipv4'') True), p_seq := Suc (p_seq st2)\<rparr>)"

definition writeDeviceState :: "ing_env \<Rightarrow> TelemetryPacket \<Rightarrow> pipe \<Rightarrow> pipe" where
  "writeDeviceState e pkt st =
     (case resolveDeviceID e pkt st of (dev, st1) \<Rightarrow>
        if dev = '''' \<or> Name pkt \<noteq> ''power_state'' \<or> \<not> iv_up e then st1
        else st1\<lparr>p_db := snd (SetDevicePowerState dev (go_int (Value pkt)) (p_db st1))\<rparr>)"

definition writeThreshold :: "ing_env \<Rightarrow> TelemetryPacket \<Rightarrow> pipe \<Rightarrow> pipe" where
  "writeThreshold e pkt st =
     (case resolveDeviceID e pkt st of (dev, st1) \<Rightarrow>
        if dev = '''' \<or> \<not> iv_up e then st1
        else st1\<lparr>p_db := snd (UpsertThreshold (iv_now e) dev (Name pkt) (go_int (Value pkt)) (p_db st1))\<rparr>)"

definition write_event :: "ing_env \<Rightarrow> string \<Rightarrow> string \<Rightarrow> TelemetryPacket \<Rightarrow> pipe \<Rightarrow> pipe" where
  "write_event e dev host pkt st =
     (if \<not> iv_up e then st
      else case WriteEvent (iv_inet e) (iv_uuid e) (iv_json_ok e) (iv_ids e (p_seq st)) (iv_kvs e (Meta pkt)) dev host pkt (p_db st) of
        (_, db', _) \<Rightarrow> st\<lparr>p_db := db', p_seq := Suc (p_seq st)\<rparr>)"

text \<open>The interface a link trap names: the index, -1 without one, and the name.\<close>

definition trap_port :: "TelemetryPacket \<Rightarrow> int \<times> string" where
  "trap_port pkt =
     (let v = get (Meta pkt) ''vb.1.3.6.1.2.1.2.2.1.1.1''
      in (if v = '''' then - 1 else case atoi_err (trim_space v) of Some n \<Rightarrow> n | None \<Rightarrow> - 1,
          get (Meta pkt) ''vb.1.3.6.1.2.1.2.2.1.2.1''))"

definition link_event :: "string \<Rightarrow> LinkRow \<Rightarrow> TelemetryPacket \<Rightarrow> TelemetryPacket" where
  "link_event reporter row pkt =
     pkt\<lparr>Meta := (Meta pkt)(''reported_by'' \<mapsto> reporter, ''src_port_name'' \<mapsto> k_SrcPort row,
        ''dst_device_id'' \<mapsto> k_DstDeviceID row, ''dst_hostname'' \<mapsto> k_DstHostname row,
        ''dst_port_name'' \<mapsto> k_DstPort row, ''link_id'' \<mapsto> k_LinkID row)\<rparr>"

definition handleLinkTrap :: "ing_env \<Rightarrow> string \<Rightarrow> string \<Rightarrow> TelemetryPacket \<Rightarrow> pipe \<Rightarrow> bool \<times> pipe" where
  "handleLinkTrap e dev host pkt st =
     (let down = (Name pkt = ''linkDown''); (ifIndex, ifName) = trap_port pkt
      in if \<not> iv_up e then (False, st)
         else case CorrelateLinkByPort (p_db st) dev ifIndex ifName of
             None \<Rightarrow> (False, st)
           | Some row \<Rightarrow>
               (case SetLinkActive (iv_now e) row down (p_db st) of
                  (changed, db') \<Rightarrow>
                    let st1 = st\<lparr>p_db := db'\<rparr>
                    in if \<not> changed then (True, st1)
                       else (True, write_event e (k_SrcDeviceID row) (k_SrcHostname row) (link_event host row pkt) st1)))"

definition handle_event :: "ing_env \<Rightarrow> TelemetryPacket \<Rightarrow> pipe \<Rightarrow> pipe" where
  "handle_event e pkt st =
     (case lookupOrRegister e pkt st of (dev0, st1) \<Rightarrow>
        let m = get (Meta pkt);
            (dev, host) =
              (if dev0 \<noteq> '''' then (dev0, m ''hostname'')
               else case by_ip e pkt st1 [SourceId pkt, m ''source_ip'', m ''device_ip'', m ''mgmt_ip''] of
                 Some (d, h) \<Rightarrow> (d, or_default (m ''hostname'') h)
               | None \<Rightarrow> ('''', m ''hostname''))
        in if dev \<noteq> '''' \<and> (Name pkt = ''linkDown'' \<or> Name pkt = ''linkUp'') then
             (case handleLinkTrap e dev host pkt st1 of
                (True, st2) \<Rightarrow> st2
              | (False, st2) \<Rightarrow> write_event e dev host pkt st2)
           else write_event e dev host pkt st1)"

definition transport_keys :: "string list" where
  "transport_keys = [''hostname'', ''device_type'', ''vendor'', ''mgmt_ip'', ''prod_ip'', ''loopback_ip'', ''oob_ip'',
     ''collector_agent'', ''collector_protocol'', ''snmp_enabled'', ''gnmi_enabled'']"

definition os_keys :: "string list" where
  "os_keys = [''os_name'', ''platform'', ''platform_version'', ''kernel_version'', ''architecture'', ''sys_description'']"

definition handle_metric :: "ing_env \<Rightarrow> TelemetryPacket \<Rightarrow> pipe \<Rightarrow> MetricRow option \<times> pipe" where
  "handle_metric e pkt st =
     (case lookupOrRegister e pkt st of (dev, st1) \<Rightarrow>
        if dev = '''' then (None, st1)
        else case (if has_prefix (Name pkt) ''interface.'' \<and> Tag pkt \<noteq> ''''
                   then lookupOrUpsertInterface e dev pkt st1 else ('''', st1)) of
          (ifID, st2) \<Rightarrow>
            let m = get (Meta pkt)
            in (Some \<lparr>mr_DeviceID = dev, mr_TS = TimestampNs pkt, mr_MetricName = Name pkt, mr_Tag = Tag pkt,
                  mr_Value = Value pkt, mr_Attributes = AttributesJSON (MapWithout (iv_kvs e (Meta pkt)) (transport_keys @ os_keys)),
                  mr_CollectorAgent = or_default (m ''collector_agent'') (if has_prefix (ReaderId pkt) ''idr-'' then ''IDR'' else ''EDR''),
                  mr_CollectorProtocol = or_default (m ''collector_protocol'') ''SNMP'', mr_InterfaceID = ifID\<rparr>, st2))"

definition malformed :: "TelemetryPacket \<Rightarrow> bool" where
  "malformed pkt \<longleftrightarrow> PktId pkt = '''' \<or> SourceId pkt = '''' \<or> Name pkt = ''''"

definition is_event :: "TelemetryPacket \<Rightarrow> bool" where
  "is_event pkt \<longleftrightarrow> Kind pkt = ''trap'' \<or> Kind pkt = ''event'' \<or> Kind pkt = ''alarm''"

definition wants_dedup :: "IngestConfig \<Rightarrow> TelemetryPacket \<Rightarrow> bool" where
  "wants_dedup cfg pkt \<longleftrightarrow>
     (if is_event pkt then ic_DedupEvents cfg else Kind pkt = ''metric'' \<and> ic_DedupMetrics cfg) \<and> ic_hasDedup cfg"

definition route :: "ing_env \<Rightarrow> TelemetryPacket \<Rightarrow> pipe \<Rightarrow> MetricRow option \<times> pipe" where
  "route e pkt st =
     (if Kind pkt = ''topology'' then
        (None, if iv_up e
               then st\<lparr>p_db := snd (WriteTopologyLink (iv_inet e) (iv_now e) (\<lambda>n. iv_ids e (p_seq st + n)) pkt (p_db st)),
                      p_seq := Suc (p_seq st)\<rparr>
               else st)
      else if Kind pkt = ''interface_address'' then (None, writeInterfaceAddress e pkt st)
      else if Kind pkt = ''device_state'' then (None, writeDeviceState e pkt st)
      else if Kind pkt = ''threshold'' then (None, writeThreshold e pkt st)
      else if is_event pkt then (None, handle_event e pkt st)
      else handle_metric e pkt st)"

definition process :: "IngestConfig \<Rightarrow> ing_env \<Rightarrow> TelemetryPacket \<Rightarrow> pipe \<Rightarrow> MetricRow option \<times> pipe" where
  "process cfg e pkt st =
     (if malformed pkt then (None, st)
      else if wants_dedup cfg pkt then
        (case IsDuplicate (iv_redis e) (iv_now e) (PktId pkt) (SourceId pkt) (Nonce pkt) (p_redis st) of
           (verdict, r) \<Rightarrow>
             if verdict = Some True then (None, st\<lparr>p_redis := r\<rparr>)
             else route e (Normalize (iv_now e) pkt) (st\<lparr>p_redis := r\<rparr>))
      else route e (Normalize (iv_now e) pkt) st)"

definition processEnergy :: "ing_env \<Rightarrow> TelemetryPacket \<Rightarrow> pipe \<Rightarrow> EnergyRow option \<times> pipe" where
  "processEnergy e pkt0 st =
     (if malformed pkt0 then (None, st)
      else let pkt = Normalize (iv_now e) pkt0
           in case lookupOrRegister e pkt st of (dev, st1) \<Rightarrow>
                if dev = '''' then (None, st1)
                else let m = get (Meta pkt); ckt = has_prefix (Tag pkt) ''Ckt''
                     in (Some \<lparr>er_DeviceID = dev, er_TS = TimestampNs pkt, er_MetricName = Name pkt, er_Tag = Tag pkt,
                           er_Circuit = (if ckt then Tag pkt else ''''),
                           er_Phase = (if \<not> ckt \<and> Tag pkt \<in> {''PhA'', ''PhB'', ''PhC''} then Tag pkt else ''''),
                           er_Value = Value pkt, er_Scope = '''',
                           er_Attributes = AttributesJSON (MapWithout (iv_kvs e (Meta pkt)) transport_keys),
                           er_CollectorAgent = or_default (m ''collector_agent'') ''EDR'',
                           er_CollectorProtocol = or_default (m ''collector_protocol'') ''BACNET''\<rparr>, st1))"

section \<open>The worker\<close>

record worker =
  w_rows :: "MetricRow list"
  w_energy :: "EnergyRow list"

definition flush :: "ing_env \<Rightarrow> pipe \<times> worker \<Rightarrow> pipe \<times> worker" where
  "flush e sw =
     (case sw of (st, w) \<Rightarrow>
        let st1 = (if w_rows w \<noteq> [] \<and> iv_up e
                   then st\<lparr>p_db := snd (WriteMetricsBatch (iv_json_ok e) (w_rows w) (p_db st))\<rparr> else st);
            st2 = (if w_energy w \<noteq> [] \<and> iv_up e
                   then st1\<lparr>p_db := snd (WriteEnergyBatch (iv_json_ok e) (w_energy w) (p_db st1))\<rparr> else st1)
        in (st2, \<lparr>w_rows = [], w_energy = []\<rparr>))"

definition work_packet :: "IngestConfig \<Rightarrow> ing_env \<Rightarrow> TelemetryPacket \<Rightarrow> pipe \<times> worker \<Rightarrow> pipe \<times> worker" where
  "work_packet cfg e pkt sw =
     (case sw of (st, w) \<Rightarrow>
        if Kind pkt = ''energy'' then
          (case processEnergy e pkt st of
             (None, st1) \<Rightarrow> (st1, w)
           | (Some r, st1) \<Rightarrow>
               let w1 = w\<lparr>w_energy := w_energy w @ [r]\<rparr>
               in if int (length (w_energy w1)) \<ge> ic_BufferRows cfg then flush e (st1, w1) else (st1, w1))
        else (case process cfg e pkt st of
             (None, st1) \<Rightarrow> (st1, w)
           | (Some r, st1) \<Rightarrow>
               let w1 = w\<lparr>w_rows := w_rows w @ [r]\<rparr>
               in if int (length (w_rows w1)) \<ge> ic_BufferRows cfg then flush e (st1, w1) else (st1, w1)))"

section \<open>The channel and the gRPC service\<close>

text \<open>A buffered channel of batches with the counter of pending batches.\<close>

record channel =
  ch_items :: "TelemetryPacket list list"
  ch_depth :: u32

definition Submit :: "IngestConfig \<Rightarrow> TelemetryPacket list \<Rightarrow> channel \<Rightarrow> u32 \<times> u32 \<times> channel" where
  "Submit cfg batch c =
     (if length (ch_items c) < ic_ChannelSize cfg
      then (of_nat (length batch), 0, c\<lparr>ch_items := ch_items c @ [batch], ch_depth := ch_depth c + 1\<rparr>)
      else (0, of_nat (length batch), c))"

definition receive :: "channel \<Rightarrow> (TelemetryPacket list \<times> channel) option" where
  "receive c = (case ch_items c of [] \<Rightarrow> None | b # bs \<Rightarrow> Some (b, c\<lparr>ch_items := bs, ch_depth := ch_depth c + (- 1)\<rparr>))"

record BatchResponse =
  br_Accepted :: u32
  br_Rejected :: u32
  br_Reason :: string
  br_QueueDepth :: u32

text \<open>The error of the call is always nil; \<open>None\<close> is the nil request.\<close>

definition BatchPush :: "IngestConfig \<Rightarrow> TelemetryPacket list option \<Rightarrow> channel \<Rightarrow> BatchResponse \<times> channel" where
  "BatchPush cfg req c =
     (case req of
        None \<Rightarrow> (\<lparr>br_Accepted = 0, br_Rejected = 0, br_Reason = '''', br_QueueDepth = ch_depth c\<rparr>, c)
      | Some ps \<Rightarrow>
          if ps = [] then (\<lparr>br_Accepted = 0, br_Rejected = 0, br_Reason = '''', br_QueueDepth = ch_depth c\<rparr>, c)
          else case Submit cfg ps c of (a, r, c') \<Rightarrow>
            (\<lparr>br_Accepted = a, br_Rejected = r,
               br_Reason = (if r > 0 then ''ingest queue full '' @ [CHR 0xE2, CHR 0x80, CHR 0x94] @ '' backpressure'' else ''''), br_QueueDepth = ch_depth c'\<rparr>, c'))"

record PushResponse =
  pr_Accepted :: bool
  pr_Reason :: string
  pr_QueueDepth :: u32

definition Push_rpc :: "IngestConfig \<Rightarrow> TelemetryPacket option \<Rightarrow> channel \<Rightarrow> PushResponse \<times> channel" where
  "Push_rpc cfg req c =
     (case req of
        None \<Rightarrow> (\<lparr>pr_Accepted = False, pr_Reason = ''nil packet'', pr_QueueDepth = 0\<rparr>, c)
      | Some p \<Rightarrow> case Submit cfg [p] c of (a, r, c') \<Rightarrow>
          if r > 0 then (\<lparr>pr_Accepted = False, pr_Reason = ''ingest queue full'', pr_QueueDepth = ch_depth c'\<rparr>, c')
          else (\<lparr>pr_Accepted = True, pr_Reason = '''', pr_QueueDepth = ch_depth c'\<rparr>, c'))"

text \<open>The packets of the stream, then its end: \<open>broken\<close> is a receive error. The pair counts accepted and rejected.\<close>

fun stream_loop :: "IngestConfig \<Rightarrow> TelemetryPacket list \<Rightarrow> TelemetryPacket list \<Rightarrow> u32 \<times> u32 \<Rightarrow> channel
    \<Rightarrow> (u32 \<times> u32) \<times> channel" where
  "stream_loop cfg [] buf (a, r) c =
     (if buf = [] then ((a, r), c) else case Submit cfg buf c of (a', r', c') \<Rightarrow> ((a + a', r + r'), c'))"
| "stream_loop cfg (p # ps) buf (a, r) c =
     (let buf' = buf @ [p]
      in if length buf' \<ge> 256 then (case Submit cfg buf' c of (a', r', c') \<Rightarrow> stream_loop cfg ps [] (a + a', r + r') c')
         else stream_loop cfg ps buf' (a, r) c)"

definition PushStream :: "IngestConfig \<Rightarrow> TelemetryPacket list \<Rightarrow> bool \<Rightarrow> channel \<Rightarrow> PushResponse option \<times> channel" where
  "PushStream cfg ps broken c =
     (case stream_loop cfg ps [] (0, 0) c of (_, c') \<Rightarrow>
        (if broken then None else Some \<lparr>pr_Accepted = True, pr_Reason = '''', pr_QueueDepth = ch_depth c'\<rparr>, c'))"

lemma write_event_links [simp]: "topology_links (p_db (write_event e dev host pkt st)) = topology_links (p_db st)"
  by (auto simp: write_event_def WriteEvent_def Let_def split: prod.split option.split)

end
