(* ===== verification/Ingest_Proofs.thy ===== *)
theory Ingest_Proofs
  imports Ingest_Worker "HOL-Library.Sublist"
begin

text \<open>
  What the ingest pipeline guarantees: an identifier is accepted once an hour and
  nonces of a source increase as long as checks do not overlap; timestamps are clamped; the caches and the buffered
  rows only hold identifiers the tables have, so a flush never violates a foreign
  key; a link trap writes one event per transition; the backpressure answer.
\<close>

section \<open>Duplicates\<close>

type_synonym dedup_call = "(bool \<times> bool \<times> bool) \<times> int \<times> string \<times> string \<times> i64"

fun dedup_run :: "dedup_call list \<Rightarrow> redis \<Rightarrow> redis" where
  "dedup_run [] r = r"
| "dedup_run ((ok, now, i, s, n) # cs) r = dedup_run cs (snd (IsDuplicate ok now i s n r))"

definition held_until :: "int \<Rightarrow> string \<Rightarrow> redis \<Rightarrow> bool" where
  "held_until x i r \<longleftrightarrow> (case rd_pkt r i of Some y \<Rightarrow> x \<le> y | None \<Rightarrow> False)"

lemma held_step: "held_until (t + hour) i r \<Longrightarrow> t \<le> now \<Longrightarrow> held_until (t + hour) i (snd (IsDuplicate ok now j s n r))"
  by (auto simp: held_until_def IsDuplicate_eq Let_def split: option.splits prod.split)

definition nonce_floor :: "int \<Rightarrow> string \<Rightarrow> i64 \<Rightarrow> redis \<Rightarrow> bool" where
  "nonce_floor x s n r \<longleftrightarrow> (case rd_nonce r s of Some (m, y) \<Rightarrow> n \<le> m \<and> x \<le> y | None \<Rightarrow> False)"

lemma floor_step:
  "nonce_floor (t + 24 * hour) s n r \<Longrightarrow> t \<le> now \<Longrightarrow> now < t + 24 * hour
    \<Longrightarrow> nonce_floor (t + 24 * hour) s n (snd (IsDuplicate ok now j s' m r))"
  by (auto simp: nonce_floor_def IsDuplicate_eq Let_def last_nonce_def split: option.splits prod.split)

text \<open>What \<open>check_steps\<close> and any commands of other workers keep of a key that was set.\<close>

definition cmd_time :: "redis_cmd \<Rightarrow> int" where
  "cmd_time c = (case c of CSetNX now _ \<Rightarrow> now | CSetNonce now _ _ \<Rightarrow> now)"

lemma held_cmds:
  "held_until (t + hour) i r \<Longrightarrow> list_all (\<lambda>c. t \<le> cmd_time c) cs \<Longrightarrow> held_until (t + hour) i (redis_run cs r)"
  by (induction cs r rule: redis_run.induct) (auto simp: held_until_def SetNX_def SetNonce_def cmd_time_def split: option.splits)

text \<open>
  C35. However the Redis commands of the workers interleave, an identifier is let through at
  most once an hour by checks whose \<open>SETNX\<close> succeeds: after a check of it that was not
  answered as a duplicate (accepted, or an error after its \<open>SETNX\<close>), and any commands of any
  workers during and after it, every check of it in that hour whose \<open>SETNX\<close> does not fail
  answers duplicate. Only a check whose own \<open>SETNX\<close> fails ends in an error, which the worker
  treats like an acceptance.
\<close>

theorem accepted_once_an_hour:
  assumes "check_steps (True, g, p) (t, ta, tb) others i s n r = (v, r1)" and "v \<noteq> Some True"
    and "list_all (\<lambda>c. t \<le> cmd_time c) (fst others @ snd others @ cs)" and "t2 < t + hour"
  shows "fst (check_steps (ok, g2, p2) (t2, tc, td) others2 i s2 n2 (redis_run cs r1)) = (if ok then Some True else None)"
proof -
  obtain cs1 cs2 where others: "others = (cs1, cs2)" by (cases others)
  let ?r = "r\<lparr>rd_pkt := (rd_pkt r)(i \<mapsto> t + hour)\<rparr>"
  have "held_until (t + hour) i ?r" by (simp add: held_until_def)
  then have h: "held_until (t + hour) i (redis_run cs1 ?r)" "held_until (t + hour) i (redis_run cs2 (redis_run cs1 ?r))"
    using assms(3) others held_cmds by auto
  have "held_until (t + hour) i r1"
    using assms(1,2) h by (auto simp: check_steps_def others SetNX_def SetNonce_def Let_def held_until_def split: if_splits)
  then have "held_until (t + hour) i (redis_run cs r1)" using assms(3) held_cmds by auto
  then show ?thesis
    using assms(4) by (auto simp: check_steps_def SetNX_def held_until_def seen_id_def split: option.splits prod.split)
qed

theorem accepted_once_an_hour_witness:
  "fst (check_steps (True, True, True) (9, 9, 9) ([], []) ''a'' ''sw1'' 7
     (redis_run [CSetNX 6 ''b'', CSetNonce 6 ''sw1'' 6]
       (snd (check_steps (True, True, True) (5, 6, 6) ([CSetNX 5 ''c''], []) ''a'' ''sw1'' 5 \<lparr>rd_pkt = Map.empty, rd_nonce = Map.empty\<rparr>)))) = Some True"
proof -
  let ?r = "\<lparr>rd_pkt = Map.empty, rd_nonce = Map.empty\<rparr> :: redis"
  let ?c = "check_steps (True, True, True) (5, 6, 6) ([CSetNX 5 ''c''], []) ''a'' ''sw1'' 5 ?r"
  have "?c = (Some False, snd ?c)" by (simp add: check_steps_def SetNX_def seen_id_def last_nonce_def hour_def Let_def)
  from accepted_once_an_hour [OF this, of "[CSetNX 6 ''b'', CSetNonce 6 ''sw1'' 6]" 9 True]
  show ?thesis by (simp add: cmd_time_def hour_def)
qed

text \<open>
  C36. Replay protection, for checks that do not overlap: after a check whose three Redis calls
  succeeded and that accepted its packet, and any sequence of whole checks, whatever their
  outcome, a packet of the same source is accepted within a day only with a larger nonce,
  if its own \<open>SETNX\<close> and \<open>GET\<close> succeed. (Overlapping checks of several workers break this, see
  \<open>overlapping_checks_accept_replay\<close>.)
\<close>

theorem nonces_increase:
  assumes "IsDuplicate (True, True, True) t i s n r = (Some False, r1)"
    and "list_all (\<lambda>(_, now, _). t \<le> now \<and> now < t + 24 * hour) cs" and "t2 < t + 24 * hour"
    and "IsDuplicate (True, True, p) t2 i2 s n2 (dedup_run cs r1) = (Some False, r2)"
  shows "n < n2"
proof -
  have "nonce_floor (t + 24 * hour) s n r1"
    using assms(1) by (auto simp: IsDuplicate_eq Let_def nonce_floor_def split: if_splits)
  then have "nonce_floor (t + 24 * hour) s n (dedup_run cs r1)"
    using assms(2) by (induction cs r1 rule: dedup_run.induct) (auto simp: floor_step)
  then show ?thesis
    using assms(3,4) by (auto simp: IsDuplicate_eq Let_def nonce_floor_def last_nonce_def split: option.splits if_splits prod.splits)
qed

theorem nonces_increase_witness:
  "let r1 = snd (IsDuplicate (True, True, True) 5 ''a'' ''sw1'' 5 \<lparr>rd_pkt = Map.empty, rd_nonce = Map.empty\<rparr>)
   in fst (IsDuplicate (True, True, True) 7 ''b'' ''sw1'' 6 r1) = Some False \<and> (5 :: i64) < 6"
proof -
  let ?r0 = "\<lparr>rd_pkt = Map.empty, rd_nonce = Map.empty\<rparr> :: redis"
  let ?one = "IsDuplicate (True, True, True) 5 ''a'' ''sw1'' 5 ?r0"
  let ?two = "IsDuplicate (True, True, True) 7 ''b'' ''sw1'' 6 (snd ?one)"
  have fst: "fst ?one = Some False" "fst ?two = Some False"
    by (simp_all add: IsDuplicate_eq seen_id_def last_nonce_def hour_def Let_def)
  have "(5 :: i64) < 6"
    by (rule nonces_increase [of 5 "''a''" "''sw1''" 5 ?r0 "snd ?one" "[]" 7 True "''b''" 6 "snd ?two"])
      (simp_all add: prod_eq_iff fst hour_def)
  then show ?thesis using fst(2) by (simp add: Let_def)
qed

text \<open>
  The guarantee does not survive two workers: \<open>GET\<close> and \<open>SET\<close> of the nonce are separate calls.
  When two checks of one source overlap so that both read before either writes, both packets
  are accepted, and if the smaller nonce is written last the stored nonce goes back: a further
  packet with the nonce that was already accepted is accepted again. The commands reach the
  server in the order \<open>SETNX i\<close>, \<open>SETNX j\<close>, both \<open>GET\<close>, \<open>SET n\<close>, \<open>SET m\<close>.
\<close>

theorem overlapping_checks_accept_replay:
  assumes "\<not> seen_id t r i" and "\<not> seen_id t r j" and "\<not> seen_id t r k" and "distinct [i, j, k]"
    and "last_nonce t r s < m" and "m < n"
    and first: "check_steps (True, True, True) (t, t, t) ([CSetNX t j], []) i s n r = (v1, r1)"
    and second: "check_steps (True, True, True) (t, t, t) ([], [CSetNonce t s n]) j s m (snd (SetNX t i r)) = (v2, r2)"
  shows "v1 = Some False \<and> v2 = Some False \<and> rd_nonce r1 s = Some (n, t + 24 * hour)
    \<and> rd_nonce r2 s = Some (m, t + 24 * hour) \<and> fst (IsDuplicate (True, True, True) t k s n r2) = Some False"
proof -
  have a: "\<not> n \<le> last_nonce t r s" "\<not> m \<le> last_nonce t r s" "\<not> n \<le> m" using assms(5,6) by auto
  have l: "last_nonce t (r\<lparr>rd_pkt := q\<rparr>) s = last_nonce t r s" for q by (simp add: last_nonce_def)
  have v1: "v1 = Some False" "rd_nonce r1 s = Some (n, t + 24 * hour)"
    using first assms(1,2,4) a by (auto simp: check_steps_def SetNX_def SetNonce_def l Let_def seen_id_def)
  have v2: "v2 = Some False" "rd_nonce r2 s = Some (m, t + 24 * hour)" "rd_pkt r2 k = rd_pkt r k"
    using second assms(1,2,4) a by (auto simp: check_steps_def SetNX_def SetNonce_def l Let_def seen_id_def)
  have "\<not> seen_id t r2 k" using assms(3) v2(3) by (simp add: seen_id_def)
  moreover have "last_nonce t (r2\<lparr>rd_pkt := q\<rparr>) s = m" for q using v2(2) by (simp add: last_nonce_def hour_def)
  ultimately have "fst (IsDuplicate (True, True, True) t k s n r2) = Some False" using a(3) by (simp add: IsDuplicate_eq Let_def)
  with v1 v2 show ?thesis by simp
qed

theorem overlapping_checks_accept_replay_witness:
  "fst (IsDuplicate (True, True, True) 5 ''c'' ''sw1'' 6
     (snd (check_steps (True, True, True) (5, 5, 5) ([], [CSetNonce 5 ''sw1'' 6]) ''b'' ''sw1'' 4
       (snd (SetNX 5 ''a'' \<lparr>rd_pkt = Map.empty, rd_nonce = Map.empty\<rparr>))))) = Some False"
proof -
  let ?r = "\<lparr>rd_pkt = Map.empty, rd_nonce = Map.empty\<rparr> :: redis"
  let ?one = "check_steps (True, True, True) (5, 5, 5) ([CSetNX 5 ''b''], []) ''a'' ''sw1'' 6 ?r"
  let ?two = "check_steps (True, True, True) (5, 5, 5) ([], [CSetNonce 5 ''sw1'' 6]) ''b'' ''sw1'' 4 (snd (SetNX 5 ''a'' ?r))"
  show ?thesis
    using overlapping_checks_accept_replay [of 5 ?r "''a''" "''b''" "''c''" "''sw1''" 4 6 "fst ?one" "snd ?one" "fst ?two" "snd ?two"]
    by (simp add: seen_id_def last_nonce_def)
qed

text \<open>
  The same rule drops genuine events: a packet whose nonce is below that of a packet
  of its source accepted before, as happens when a failed batch is sent again after a
  later one, is rejected as a duplicate although its identifier was never seen, and the
  rejection also records the identifier.
\<close>

theorem late_event_is_dropped:
  assumes "IsDuplicate (True, True, True) t i s n r = (Some False, r1)"
    and "i2 \<noteq> i" and "\<not> seen_id t2 r i2" and "t2 < t + 24 * hour" and "n2 < n"
  shows "fst (IsDuplicate (True, True, True) t2 i2 s n2 r1) = Some True
    \<and> seen_id t2 (snd (IsDuplicate (True, True, True) t2 i2 s n2 r1)) i2"
  using assms by (auto simp: IsDuplicate_eq Let_def seen_id_def last_nonce_def hour_def split: if_splits option.splits)

theorem late_event_is_dropped_witness:
  "fst (IsDuplicate (True, True, True) 6 ''a'' ''sw1'' 4
     (snd (IsDuplicate (True, True, True) 5 ''b'' ''sw1'' 5 \<lparr>rd_pkt = Map.empty, rd_nonce = Map.empty\<rparr>))) = Some True"
  by (rule late_event_is_dropped [of 5 "''b''" "''sw1''" 5 "\<lparr>rd_pkt = Map.empty, rd_nonce = Map.empty\<rparr>", THEN conjunct1])
    (simp_all add: IsDuplicate_eq seen_id_def last_nonce_def hour_def)

text \<open>
  Normalisation keeps a timestamp inside the window of a day back to five minutes
  ahead and replaces any other by the present, is idempotent, and changes nothing else
  but the blanks around the tag.
\<close>

theorem Normalize_window:
  "let q = Normalize now pkt in
     now - 24 * hour \<le> TimestampNs q \<and> TimestampNs q \<le> now + 5 * minute
     \<and> TimestampNs q \<in> {TimestampNs pkt, now}
     \<and> q = pkt\<lparr>Tag := trim_space (Tag pkt), TimestampNs := TimestampNs q\<rparr>"
  by (auto simp: Normalize_def Let_def hour_def minute_def)

section \<open>What a cache may answer\<close>

text \<open>
  The contract the pipeline needs of a cache: a hit is a value it holds, and only
  storing adds a value. A cache whose values all lie in a set therefore answers from
  that set.
\<close>

locale value_cache =
  fixes get_c :: "int \<Rightarrow> 'c \<Rightarrow> string \<Rightarrow> string option \<times> 'c"
    and put_c :: "int \<Rightarrow> 'c \<Rightarrow> string \<Rightarrow> string \<Rightarrow> 'c"
    and vals :: "'c \<Rightarrow> string set"
  assumes get_hit: "get_c now c k = (Some v, c') \<Longrightarrow> v \<in> vals c"
    and get_vals: "vals (snd (get_c now c k)) \<subseteq> vals c"
    and put_vals: "vals (put_c now c k v) \<subseteq> insert v (vals c)"
begin

lemma hit_in: "get_c now c k = (Some v, c') \<Longrightarrow> vals c \<subseteq> ids \<Longrightarrow> v \<in> ids \<and> vals c' \<subseteq> ids"
  using get_hit get_vals [of now c k] by fastforce

lemma get_in: "get_c now c k = (a, c') \<Longrightarrow> vals c \<subseteq> ids \<Longrightarrow> vals c' \<subseteq> ids"
  using get_vals [of now c k] by auto

lemma put_in: "vals c \<subseteq> ids \<Longrightarrow> v \<in> ids \<Longrightarrow> vals (put_c now c k v) \<subseteq> ids"
  using put_vals [of now c k v] by blast

end

definition lru_vals :: "LRU \<Rightarrow> string set" where
  "lru_vals c = (val \<circ> snd) ` set (ll c)"

interpretation lru: value_cache Get Put lru_vals
proof
  fix now :: int and c :: LRU and k v c'
  assume "Get now c k = (Some v, c')"
  then show "v \<in> lru_vals c"
    by (force simp: Get_def lru_vals_def list_elem_def dest: map_of_SomeD split: option.splits if_splits)
next
  fix now :: int and c :: LRU and k
  show "lru_vals (snd (Get now c k)) \<subseteq> lru_vals c"
    by (auto simp: Get_def lru_vals_def split: option.splits)
next
  fix now :: int and c :: LRU and k v
  have ev: "lru_vals (evict_oldest d) \<subseteq> lru_vals d" for d
    by (auto simp: evict_oldest_def lru_vals_def split: list.split)
  show "lru_vals (Put now c k v) \<subseteq> insert v (lru_vals c)"
  proof (cases "idx c k")
    case None
    define d where "d = c\<lparr>ll := (nextElem c, \<lparr>key = k, val = v, expiresAt = if ttl c > 0 then Some (now + ttl c) else None\<rparr>) # ll c,
        idx := (idx c)(k \<mapsto> nextElem c), nextElem := Suc (nextElem c)\<rparr>"
    have "Put now c k v = evict_oldest d" using None by (simp add: Put_def Let_def d_def)
    moreover have "lru_vals d = insert v (lru_vals c)" by (simp add: d_def lru_vals_def)
    ultimately show ?thesis using ev [of d] by simp
  next
    case (Some a)
    then have "lru_vals (Put now c k v) = (val \<circ> snd) `
        (\<lambda>(e', en). (e', if e' = a then en\<lparr>val := v, expiresAt := if ttl c > 0 then Some (now + ttl c) else None\<rparr> else en)) ` set (ll c)"
      by (simp add: Put_def Let_def lru_vals_def)
    then show ?thesis by (auto simp: lru_vals_def image_iff) (metis snd_conv)+
  qed
qed

section \<open>References\<close>

definition dev_ids :: "db \<Rightarrow> string set" where "dev_ids db = d_id ` set (devices db)"
definition if_ids :: "db \<Rightarrow> string set" where "if_ids db = i_id ` set (interfaces db)"

lemma image_update: "(\<And>x. k (f x) = k x) \<Longrightarrow> k ` (\<lambda>x. if P x then f x else x) ` S = k ` S"
  by (simp add: image_image if_distrib cong: if_cong del: if_image_distrib)

text \<open>No statement of the pipeline removes a device or an interface.\<close>

definition grows :: "db \<Rightarrow> db \<Rightarrow> bool" where
  "grows a b \<longleftrightarrow> dev_ids a \<subseteq> dev_ids b \<and> if_ids a \<subseteq> if_ids b"

lemma grows_refl [simp, intro]: "grows a a" by (simp add: grows_def)

lemma grows_trans [trans]: "grows a b \<Longrightarrow> grows b c \<Longrightarrow> grows a c" by (auto simp: grows_def)

lemma keys_kept:
  "d_id (update_device now a d) = d_id d" "d_id (conflict_device now a d) = d_id d"
  by (simp_all add: update_device_def update_tracked_def conflict_device_def conflict_tracked_def)

lemma record_change_keeps [simp]:
  "devices (fst (recordHostnameChange m ok now ev i old new ip agent db)) = devices db"
  "interfaces (fst (recordHostnameChange m ok now ev i old new ip agent db)) = interfaces db"
  by (simp_all add: recordHostnameChange_def)

lemma UpsertDevice_grows: "UpsertDevice inet m ok now i ev pkt db = (err, db', h) \<Longrightarrow> grows db db'"
proof -
  assume "UpsertDevice inet m ok now i ev pkt db = (err, db', h)"
  then have "snd (UpsertDevice inet m ok now i ev pkt db) = (db', h)" by simp
  then show ?thesis
    unfolding UpsertDevice_def insert_or_update_def
    by (auto simp: grows_def dev_ids_def if_ids_def Let_def keys_kept image_update simp del: if_image_distrib
        split: option.splits if_splits dest!: arg_cong [of "recordHostnameChange _ _ _ _ _ _ _ _ _ _" _ fst])
qed

lemma UpsertInterface_grows:
  assumes "UpsertInterface now i db dev name ix sp oper ad = (err, db', r)"
  shows "grows db db'" and "err = None \<Longrightarrow> r \<noteq> '''' \<Longrightarrow> r \<in> if_ids db'"
proof -
  show "grows db db'"
    using assms by (auto simp: UpsertInterface_def Let_def grows_def dev_ids_def if_ids_def image_update simp del: if_image_distrib split: option.splits if_splits)
  show "r \<in> if_ids db'" if "err = None" "r \<noteq> ''''"
    using assms that by (auto simp: UpsertInterface_def Let_def if_ids_def image_update find_Some_iff simp del: if_image_distrib split: option.splits if_splits)
qed

lemma others_grow:
  "grows db (snd (UpsertInterfaceAddress inet now i db ifID addr fam p))"
  "grows db (snd (SetDevicePowerState dev v db))"
  "grows db (snd (UpsertThreshold now dev rule v db))"
  "grows db (fst (snd (WriteEvent inet uuid jok i kvs dev host pkt db)))"
  "grows db (snd (SetLinkActive now row down db))"
  "grows db (snd (WriteTopologyLink inet now fr pkt db))"
  "grows db (snd (WriteMetricsBatch jok rows db))"
  "grows db (snd (WriteEnergyBatch jok es db))"
proof -
  show "grows db (snd (SetDevicePowerState dev v db))"
    by (auto simp: SetDevicePowerState_def grows_def dev_ids_def if_ids_def image_update simp del: if_image_distrib)
  show "grows db (snd (WriteTopologyLink inet now fr pkt db))"
    by (auto simp: WriteTopologyLink_def upsert_link_def grows_def dev_ids_def if_ids_def split: option.split prod.split)
qed (auto simp: UpsertInterfaceAddress_def UpsertThreshold_def WriteEvent_def SetLinkActive_def WriteMetricsBatch_def
      WriteEnergyBatch_def grows_def dev_ids_def if_ids_def Let_def split: option.split)

text \<open>The invariant: cached and buffered identifiers are rows of their tables.\<close>

definition refs_ok :: "pipe \<Rightarrow> bool" where
  "refs_ok st \<longleftrightarrow> lru_vals (p_dev st) \<subseteq> dev_ids (p_db st) \<and> lru_vals (p_if st) \<subseteq> if_ids (p_db st)"

definition row_refs :: "db \<Rightarrow> MetricRow \<Rightarrow> bool" where
  "row_refs db r \<longleftrightarrow> mr_DeviceID r \<in> dev_ids db \<and> (mr_InterfaceID r = '''' \<or> mr_InterfaceID r \<in> if_ids db)"

definition energy_refs :: "db \<Rightarrow> EnergyRow \<Rightarrow> bool" where
  "energy_refs db r \<longleftrightarrow> er_DeviceID r \<in> dev_ids db"

text \<open>A step of the pipeline: the tables grow and the invariant is kept.\<close>

definition good_step :: "pipe \<Rightarrow> pipe \<Rightarrow> bool" where
  "good_step a b \<longleftrightarrow> grows (p_db a) (p_db b) \<and> (refs_ok a \<longrightarrow> refs_ok b)"

lemma good_refl [simp, intro]: "good_step a a" by (simp add: good_step_def)

lemma good_trans [trans]: "good_step a b \<Longrightarrow> good_step b c \<Longrightarrow> good_step a c"
  by (auto simp: good_step_def intro: grows_trans)

lemma good_db: "grows (p_db st) db' \<Longrightarrow> good_step st (st\<lparr>p_db := db'\<rparr>)"
  "grows (p_db st) db' \<Longrightarrow> good_step st (st\<lparr>p_db := db', p_seq := n\<rparr>)"
  by (auto simp: good_step_def refs_ok_def grows_def)

lemma upsert_dev_good: "good_step st (snd (upsert_dev e pkt st))"
proof (cases "iv_up e")
  case True
  obtain err db' h where u: "UpsertDevice (iv_inet e) (iv_marshal e) (iv_ev_ok e) (iv_now e) (iv_ids e (p_seq st))
      (iv_ids e (Suc (p_seq st))) pkt (p_db st) = (err, db', h)" by (metis prod_cases3)
  then show ?thesis using True UpsertDevice_grows [OF u] by (simp add: upsert_dev_def good_db)
qed (simp add: upsert_dev_def)

lemma upsert_dev_caches: "p_dev (snd (upsert_dev e pkt st)) = p_dev st" "p_if (snd (upsert_dev e pkt st)) = p_if st"
  by (simp_all add: upsert_dev_def split: prod.split)

lemma refresh_good: "good_step st (refresh_dev e pkt st)"
  by (simp add: refresh_dev_def upsert_dev_good)

lemma find_mem: "find P xs = Some x \<Longrightarrow> x \<in> set xs \<and> P x"
  by (auto simp: find_Some_iff)

lemma source_known: "source_id e pkt st \<noteq> '''' \<Longrightarrow> source_id e pkt st \<in> dev_ids (p_db st)"
  by (auto simp: source_id_def DeviceIDBySource_def dev_ids_def dest: find_mem split: option.splits if_splits)

lemma good_dev_cache:
  assumes "lru_vals (p_dev st) \<subseteq> dev_ids (p_db st) \<Longrightarrow> lru_vals c \<subseteq> dev_ids (p_db st)"
  shows "good_step st (st\<lparr>p_dev := c\<rparr>)"
  using assms by (simp add: good_step_def refs_ok_def)

lemma good_if_cache:
  assumes "lru_vals (p_if st) \<subseteq> if_ids (p_db st) \<Longrightarrow> lru_vals c \<subseteq> if_ids (p_db st)"
  shows "good_step st (st\<lparr>p_if := c\<rparr>)"
  using assms by (simp add: good_step_def refs_ok_def)

lemma lookup_good:
  assumes "lookupOrRegister e pkt st = (i, st')"
  shows "good_step st st'" "refs_ok st \<Longrightarrow> i \<noteq> '''' \<Longrightarrow> i \<in> dev_ids (p_db st')"
proof -
  obtain hit c where g: "Get (iv_now e) (p_dev st) (devKey pkt) = (hit, c)" by fastforce
  define st1 where "st1 = st\<lparr>p_dev := c\<rparr>"
  have s1: "good_step st st1" unfolding st1_def by (rule good_dev_cache) (rule lru.get_in [OF g])
  have "good_step st st' \<and> (refs_ok st \<longrightarrow> i \<noteq> '''' \<longrightarrow> i \<in> dev_ids (p_db st'))"
  proof (cases hit)
    case (Some v)
    then have i: "i = v" and st': "st' = refresh_dev e pkt st1"
      using assms g by (simp_all add: lookupOrRegister_def st1_def)
    have r: "good_step st1 st'" unfolding st' by (rule refresh_good)
    have "v \<in> dev_ids (p_db st)" if "refs_ok st"
      using lru.hit_in [of _ _ _ v c "dev_ids (p_db st)"] g Some that by (auto simp: refs_ok_def)
    then show ?thesis using good_trans [OF s1 r] i r s1 by (auto simp: good_step_def grows_def)
  next
    case None
    show ?thesis
    proof (cases "source_id e pkt st1 = ''''")
      case False
      define st2 where "st2 = st1\<lparr>p_dev := Put (iv_now e) c (devKey pkt) (source_id e pkt st1)\<rparr>"
      have i: "i = source_id e pkt st1" and st': "st' = refresh_dev e pkt st2"
        using assms g None False by (auto simp: lookupOrRegister_def st1_def st2_def Let_def)
      have "good_step st1 st2" unfolding st2_def
        by (rule good_dev_cache) (use source_known [OF False] in \<open>auto simp: st1_def dest: lru.put_in [THEN subsetD, rotated 2]\<close>)
      moreover have "good_step st2 st'" unfolding st' by (rule refresh_good)
      ultimately have "good_step st1 st'" by (rule good_trans)
      then show ?thesis using s1 source_known [OF False] good_trans [OF s1] by (auto simp: i good_step_def grows_def)
    next
      case True
      obtain ok st2 where u: "upsert_dev e pkt st1 = (ok, st2)" by fastforce
      have s2: "good_step st1 st2" using upsert_dev_good [of st1 e pkt] u by simp
      note s12 = good_trans [OF s1 s2]
      show ?thesis
      proof (cases "Kind pkt = ''metric'' \<and> ok \<and> source_id e pkt st2 \<noteq> ''''")
        case False
        then have "i = '''' \<and> st' \<in> {st1, st2}"
          using assms g None True u by (auto simp: lookupOrRegister_def st1_def Let_def split: if_splits bool.splits)
        then show ?thesis using s1 s12 by auto
      next
        case t: True
        define st3 where "st3 = st2\<lparr>p_dev := Put (iv_now e) (p_dev st2) (devKey pkt) (source_id e pkt st2)\<rparr>"
        have i: "i = source_id e pkt st2" and st': "st' = st3"
          using assms g None True u t by (auto simp: lookupOrRegister_def st1_def st3_def Let_def)
        have k: "source_id e pkt st2 \<in> dev_ids (p_db st2)" using t by (intro source_known) simp
        have "good_step st2 st3" unfolding st3_def by (rule good_dev_cache) (rule lru.put_in [OF _ k])
        then show ?thesis using good_trans [OF s12] k by (auto simp: i st' st3_def)
      qed
    qed
  qed
  then show "good_step st st'" "refs_ok st \<Longrightarrow> i \<noteq> '''' \<Longrightarrow> i \<in> dev_ids (p_db st')" by auto
qed

lemma upsert_if_good:
  assumes "upsert_if e dev name i cols st = (r, st')"
  shows "good_step st st'" "r \<noteq> '''' \<Longrightarrow> r \<in> if_ids (p_db st')" "p_if st' = p_if st"
proof -
  obtain sp oper ad where c: "cols = (sp, oper, ad)" by (cases cols) auto
  obtain err db' k where u: "UpsertInterface (iv_now e) (iv_ids e (p_seq st)) (p_db st) dev name i sp oper ad = (err, db', k)"
    by (metis prod_cases3)
  note g = UpsertInterface_grows [OF u]
  show "good_step st st'" "r \<noteq> '''' \<Longrightarrow> r \<in> if_ids (p_db st')" "p_if st' = p_if st"
    using assms u g by (auto simp: upsert_if_def c good_db split: if_splits)
qed

lemma lookup_if_good:
  assumes "lookupOrUpsertInterface e dev pkt st = (i, st')"
  shows "good_step st st'" "refs_ok st \<Longrightarrow> i \<noteq> '''' \<Longrightarrow> i \<in> if_ids (p_db st')"
proof -
  define name where "name = or_default (get (Meta pkt) ''interface_name'') (Tag pkt)"
  define ix where "ix = atoi_or (get (Meta pkt) ''interface_index'')"
  obtain hit c where g: "Get (iv_now e) (p_if st) (dev @ ''|'' @ name) = (hit, c)" by fastforce
  define st1 where "st1 = st\<lparr>p_if := c\<rparr>"
  have s1: "good_step st st1" unfolding st1_def by (rule good_if_cache) (rule lru.get_in [OF g])
  obtain r st2 where u: "upsert_if e dev name ix (iface_columns pkt) st1 = (r, st2)" by fastforce
  note g2 = upsert_if_good [OF u]
  have "good_step st st' \<and> (refs_ok st \<longrightarrow> i \<noteq> '''' \<longrightarrow> i \<in> if_ids (p_db st'))"
  proof (cases hit)
    case (Some v)
    have i: "i = v" and st': "st' = st1 \<or> st' = st2"
      using assms g u Some by (auto simp: lookupOrUpsertInterface_def Let_def name_def ix_def st1_def split: if_splits)
    have "v \<in> if_ids (p_db st)" if "refs_ok st"
      using lru.hit_in [of _ _ _ v c "if_ids (p_db st)"] g Some that by (auto simp: refs_ok_def)
    moreover have "good_step st st'" using st' s1 good_trans [OF s1 g2(1)] by auto
    ultimately show ?thesis by (auto simp: i good_step_def grows_def)
  next
    case None
    have "i = '''' \<and> st' = st2 \<or> r \<noteq> '''' \<and> i = r \<and> st' = st2\<lparr>p_if := Put (iv_now e) (p_if st2) (dev @ ''|'' @ name) r\<rparr>"
      using assms g u None by (auto simp: lookupOrUpsertInterface_def Let_def name_def ix_def st1_def split: if_splits)
    moreover have "good_step st2 (st2\<lparr>p_if := Put (iv_now e) (p_if st2) (dev @ ''|'' @ name) r\<rparr>)" if "r \<noteq> ''''"
      by (rule good_if_cache) (rule lru.put_in [OF _ g2(2) [OF that]])
    ultimately show ?thesis using good_trans [OF s1 g2(1)] g2(2) by (auto intro: good_trans)
  qed
  then show "good_step st st'" "refs_ok st \<Longrightarrow> i \<noteq> '''' \<Longrightarrow> i \<in> if_ids (p_db st')" by auto
qed

lemma resolve_good: "good_step st (snd (resolveDeviceID e pkt st))"
  using lookup_good(1) [of e pkt st] by (auto simp: resolveDeviceID_def Let_def split: prod.split)

lemma write_event_good: "good_step st (write_event e dev host pkt st)"
  using others_grow(4) [of "p_db st" "iv_inet e" "iv_uuid e" "iv_json_ok e" "iv_ids e (p_seq st)" "iv_kvs e (Meta pkt)" dev host pkt]
  by (auto simp: write_event_def good_db split: prod.split)

lemma state_good: "good_step st (writeDeviceState e pkt st)"
proof -
  obtain dev st1 where r: "resolveDeviceID e pkt st = (dev, st1)" by fastforce
  have "good_step st st1" using resolve_good [of st e pkt] r by simp
  then show ?thesis
    using good_trans [OF _ good_db(1) [OF others_grow(2)]] by (auto simp: writeDeviceState_def r)
qed

lemma threshold_good: "good_step st (writeThreshold e pkt st)"
proof -
  obtain dev st1 where r: "resolveDeviceID e pkt st = (dev, st1)" by fastforce
  have "good_step st st1" using resolve_good [of st e pkt] r by simp
  then show ?thesis
    using good_trans [OF _ good_db(1) [OF others_grow(3)]] by (auto simp: writeThreshold_def r)
qed

lemma address_good: "good_step st (writeInterfaceAddress e pkt st)"
proof -
  obtain dev st1 where l: "lookupOrRegister e pkt st = (dev, st1)" by fastforce
  note s1 = lookup_good(1) [OF l]
  define i where "i = atoi_or (get (Meta pkt) ''interface_index'')"
  define known where "known = (if iv_up e then InterfaceIDByDeviceAndIndex (p_db st1) dev i else '''')"
  obtain r st2 where u: "(if known \<noteq> '''' then (known, st1) else upsert_if e dev (''if'' @ itoa i) i (0, 0, 0) st1) = (r, st2)"
    by fastforce
  have s2: "good_step st1 st2" using u upsert_if_good(1) by (auto split: if_splits)
  have "writeInterfaceAddress e pkt st = st1 \<or> writeInterfaceAddress e pkt st = st2
      \<or> writeInterfaceAddress e pkt st = st2\<lparr>p_db := snd (UpsertInterfaceAddress (iv_inet e) (iv_now e) (iv_ids e (p_seq st2)) (p_db st2) r
          (get (Meta pkt) ''address'') (or_default (get (Meta pkt) ''address_family'') ''ipv4'') True), p_seq := Suc (p_seq st2)\<rparr>"
    unfolding writeInterfaceAddress_def l Let_def prod.case i_def [symmetric] known_def [symmetric] u by auto
  then show ?thesis
    using s1 good_trans [OF s1 s2] good_trans [OF good_trans [OF s1 s2] good_db(2) [OF others_grow(1)]] by metis
qed

lemma trap_good: "good_step st (snd (handleLinkTrap e dev host pkt st))"
proof -
  have l: "good_step st (st\<lparr>p_db := db'\<rparr>)" if "SetLinkActive now row down (p_db st) = (ch, db')" for now row down ch db'
    using good_db(1) [OF others_grow(5)] that by (metis snd_conv)
  show ?thesis
    unfolding handleLinkTrap_def Let_def
    by (auto split: prod.split option.split intro: l good_trans [OF l write_event_good])
qed

lemma event_good: "good_step st (handle_event e pkt st)"
proof -
  obtain dev0 st1 where l: "lookupOrRegister e pkt st = (dev0, st1)" by fastforce
  note s1 = lookup_good(1) [OF l]
  define m where "m = get (Meta pkt)"
  obtain dev host where d: "(if dev0 \<noteq> '''' then (dev0, m ''hostname'')
      else case by_ip e pkt st1 [SourceId pkt, m ''source_ip'', m ''device_ip'', m ''mgmt_ip''] of
        Some (d, h) \<Rightarrow> (d, or_default (m ''hostname'') h) | None \<Rightarrow> ('''', m ''hostname'')) = (dev, host)"
    by fastforce
  obtain b st2 where t: "handleLinkTrap e dev host pkt st1 = (b, st2)" by fastforce
  have s2: "good_step st st2" using good_trans [OF s1 trap_good [of st1 e dev host pkt]] t by simp
  have "handle_event e pkt st \<in> {write_event e dev host pkt st1, st2, write_event e dev host pkt st2}"
    unfolding handle_event_def l prod.case m_def [symmetric] Let_def d t by (cases b) simp_all
  then show ?thesis using good_trans [OF s1 write_event_good] s2 good_trans [OF s2 write_event_good] by auto
qed

lemma metric_good:
  assumes "handle_metric e pkt st = (row, st')"
  shows "good_step st st'" "refs_ok st \<Longrightarrow> row = Some r \<Longrightarrow> row_refs (p_db st') r"
proof -
  obtain dev st1 where l: "lookupOrRegister e pkt st = (dev, st1)" by fastforce
  note s1 = lookup_good [OF l]
  obtain i st2 where u: "(if has_prefix (Name pkt) ''interface.'' \<and> Tag pkt \<noteq> ''''
      then lookupOrUpsertInterface e dev pkt st1 else ('''', st1)) = (i, st2)" by fastforce
  have s2: "good_step st1 st2" "refs_ok st1 \<Longrightarrow> i \<noteq> '''' \<Longrightarrow> i \<in> if_ids (p_db st2)"
    using u lookup_if_good by (auto split: if_splits)
  have st': "dev = '''' \<and> row = None \<and> st' = st1 \<or> dev \<noteq> '''' \<and> st' = st2
      \<and> map_option mr_DeviceID row = Some dev \<and> map_option mr_InterfaceID row = Some i"
    using assms unfolding handle_metric_def l prod.case Let_def u by (auto split: if_splits)
  then show "good_step st st'" using s1(1) good_trans [OF s1(1) s2(1)] by auto
  show "row_refs (p_db st') r" if "refs_ok st" "row = Some r"
    using st' s1 s2 that by (auto simp: row_refs_def good_step_def grows_def)
qed

lemma route_good:
  assumes "route e pkt st = (row, st')"
  shows "good_step st st'" "refs_ok st \<Longrightarrow> row = Some r \<Longrightarrow> row_refs (p_db st') r"
proof -
  have topo: "good_step st (st\<lparr>p_db := snd (WriteTopologyLink i now fr pkt (p_db st)), p_seq := n\<rparr>)" for i now fr n
    by (rule good_db(2) [OF others_grow(6)])
  show "good_step st st'"
    using assms topo address_good [of st e pkt] state_good [of st e pkt] threshold_good [of st e pkt] event_good [of st e pkt]
      metric_good(1) unfolding route_def by (auto split: if_splits)
  show "refs_ok st \<Longrightarrow> row = Some r \<Longrightarrow> row_refs (p_db st') r"
    using assms metric_good(2) unfolding route_def by (auto split: if_splits)
qed

lemma redis_good [simp]: "good_step st (st\<lparr>p_redis := r\<rparr>)" "refs_ok (st\<lparr>p_redis := r\<rparr>) = refs_ok st"
  by (simp_all add: good_step_def refs_ok_def)

lemma process_good:
  assumes "process cfg e pkt st = (row, st')"
  shows "good_step st st'" "refs_ok st \<Longrightarrow> row = Some r \<Longrightarrow> row_refs (p_db st') r"
proof -
  obtain v rd where d: "IsDuplicate (iv_redis e) (iv_now e) (PktId pkt) (SourceId pkt) (Nonce pkt) (p_redis st) = (v, rd)" by fastforce
  have c: "row = None \<and> (st' = st \<or> st' = st\<lparr>p_redis := rd\<rparr>) \<or> route e (Normalize (iv_now e) pkt) (st\<lparr>p_redis := rd\<rparr>) = (row, st')
      \<or> route e (Normalize (iv_now e) pkt) st = (row, st')"
    using assms by (auto simp: process_def d split: if_splits)
  then show "good_step st st'" using route_good(1) good_trans [OF redis_good(1) [of st rd] route_good(1)] by auto
  show "refs_ok st \<Longrightarrow> row = Some r \<Longrightarrow> row_refs (p_db st') r" using c route_good(2) by auto
qed

lemma energy_good:
  assumes "processEnergy e pkt st = (row, st')"
  shows "good_step st st'" "refs_ok st \<Longrightarrow> row = Some r \<Longrightarrow> energy_refs (p_db st') r"
proof -
  obtain dev st1 where l: "lookupOrRegister e (Normalize (iv_now e) pkt) st = (dev, st1)" by fastforce
  have "st' = st \<and> row = None \<or> st' = st1 \<and> (row = None \<or> dev \<noteq> '''' \<and> map_option er_DeviceID row = Some dev)"
    using assms by (auto simp: processEnergy_def Let_def l split: if_splits)
  then show "good_step st st'" "refs_ok st \<Longrightarrow> row = Some r \<Longrightarrow> energy_refs (p_db st') r"
    using lookup_good [OF l] by (auto simp: energy_refs_def)
qed

section \<open>The workers together\<close>

text \<open>
  The pipeline with its workers: any worker may take the next packet, and any may
  flush, in any order and under any behaviour of the environment. \<open>FlushCaches\<close> is the
  administrator's command.
\<close>

definition FlushCaches :: "pipe \<Rightarrow> (nat \<times> nat) \<times> pipe" where
  "FlushCaches st =
     (case (Flush (p_dev st), Flush (p_if st)) of ((d, dc), (i, ic)) \<Rightarrow> ((d, i), st\<lparr>p_dev := dc, p_if := ic\<rparr>))"

definition NewPipeline :: "int \<Rightarrow> db \<Rightarrow> redis \<Rightarrow> pipe" where
  "NewPipeline cacheTTL db r =
     (let t = (if cacheTTL \<le> 0 then 60 else cacheTTL) * 1000000000
      in \<lparr>p_db = db, p_dev = NewLRUWithTTL 10000 t, p_if = NewLRUWithTTL 100000 t, p_redis = r, p_seq = 0\<rparr>)"

type_synonym ingest_sys = "pipe \<times> (nat \<Rightarrow> worker)"

inductive ingest_step :: "IngestConfig \<Rightarrow> ingest_sys \<Rightarrow> ingest_sys \<Rightarrow> bool" for cfg where
  Packet: "work_packet cfg e pkt (st, ws w) = (st', w') \<Longrightarrow> ingest_step cfg (st, ws) (st', ws(w := w'))"
| Tick: "flush e (st, ws w) = (st', w') \<Longrightarrow> ingest_step cfg (st, ws) (st', ws(w := w'))"
| Admin: "ingest_step cfg (st, ws) (snd (FlushCaches st), ws)"

inductive_cases ingest_stepE: "ingest_step cfg s s'"

definition ingest_init :: "int \<Rightarrow> db \<Rightarrow> redis \<Rightarrow> ingest_sys" where
  "ingest_init cacheTTL db r = (NewPipeline cacheTTL db r, \<lambda>_. \<lparr>w_rows = [], w_energy = []\<rparr>)"

definition buffers_ok :: "db \<Rightarrow> worker \<Rightarrow> bool" where
  "buffers_ok db w \<longleftrightarrow> list_all (row_refs db) (w_rows w) \<and> list_all (energy_refs db) (w_energy w)"

definition ingest_inv :: "ingest_sys \<Rightarrow> bool" where
  "ingest_inv s \<longleftrightarrow> refs_ok (fst s) \<and> (\<forall>w. buffers_ok (p_db (fst s)) (snd s w))"

lemma buffers_empty [simp]: "buffers_ok db \<lparr>w_rows = [], w_energy = []\<rparr>"
  by (simp add: buffers_ok_def)

lemma buffers_grow: "grows a b \<Longrightarrow> buffers_ok a w \<Longrightarrow> buffers_ok b w"
  by (auto simp: grows_def buffers_ok_def list_all_iff row_refs_def energy_refs_def)

lemma flush_good:
  assumes "flush e (st, w) = (st', w')"
  shows "good_step st st'" "w' = \<lparr>w_rows = [], w_energy = []\<rparr>"
proof -
  define st1 where "st1 = (if w_rows w \<noteq> [] \<and> iv_up e
    then st\<lparr>p_db := snd (WriteMetricsBatch (iv_json_ok e) (w_rows w) (p_db st))\<rparr> else st)"
  have "good_step st st1" by (simp add: st1_def good_db(1) others_grow(7))
  moreover have "st' = (if w_energy w \<noteq> [] \<and> iv_up e
      then st1\<lparr>p_db := snd (WriteEnergyBatch (iv_json_ok e) (w_energy w) (p_db st1))\<rparr> else st1)"
    using assms unfolding flush_def prod.case Let_def st1_def [symmetric] by simp
  then have "good_step st1 st'" by (simp add: good_db(1) others_grow(8))
  ultimately show "good_step st st'" by (rule good_trans)
  show "w' = \<lparr>w_rows = [], w_energy = []\<rparr>" using assms by (auto simp: flush_def Let_def)
qed

lemma work_good:
  assumes "work_packet cfg e pkt (st, w) = (st', w')" and "refs_ok st" and "buffers_ok (p_db st) w"
  shows "good_step st st' \<and> buffers_ok (p_db st') w'"
proof -
  have fl: "good_step st st' \<and> buffers_ok (p_db st') w'"
    if "good_step st st1" "buffers_ok (p_db st1) w1" "(if b then flush e (st1, w1) else (st1, w1)) = (st', w')" for b st1 w1
    using that good_trans [OF that(1)] flush_good [of e st1 w1 st' w'] by (auto simp: buffers_ok_def split: if_splits)
  show ?thesis
  proof (cases "Kind pkt = ''energy''")
    case True
    obtain row st1 where p: "processEnergy e pkt st = (row, st1)" by fastforce
    note g = energy_good [OF p]
    have b: "buffers_ok (p_db st1) w" using assms(3) g(1) buffers_grow by (auto simp: good_step_def)
    show ?thesis
    proof (cases row)
      case None
      then show ?thesis using assms(1) True p g(1) b by (simp add: work_packet_def)
    next
      case (Some r)
      have "buffers_ok (p_db st1) (w\<lparr>w_energy := w_energy w @ [r]\<rparr>)"
        using b g(2) [OF assms(2) Some] by (simp add: buffers_ok_def)
      then show ?thesis using assms(1) True p Some by (intro fl [OF g(1)]) (auto simp: work_packet_def Let_def)
    qed
  next
    case False
    obtain row st1 where p: "process cfg e pkt st = (row, st1)" by fastforce
    note g = process_good [OF p]
    have b: "buffers_ok (p_db st1) w" using assms(3) g(1) buffers_grow by (auto simp: good_step_def)
    show ?thesis
    proof (cases row)
      case None
      then show ?thesis using assms(1) False p g(1) b by (simp add: work_packet_def)
    next
      case (Some r)
      have "buffers_ok (p_db st1) (w\<lparr>w_rows := w_rows w @ [r]\<rparr>)"
        using b g(2) [OF assms(2) Some] by (simp add: buffers_ok_def)
      then show ?thesis using assms(1) False p Some by (intro fl [OF g(1)]) (auto simp: work_packet_def Let_def)
    qed
  qed
qed

lemma ingest_step_inv: "ingest_step cfg s s' \<Longrightarrow> ingest_inv s \<Longrightarrow> ingest_inv s'"
proof (induction rule: ingest_step.induct)
  case (Packet e pkt st ws w st' w')
  then have "good_step st st' \<and> buffers_ok (p_db st') w'" by (intro work_good) (auto simp: ingest_inv_def)
  then show ?case using Packet.prems buffers_grow by (auto simp: ingest_inv_def good_step_def)
next
  case (Tick e st ws w st' w')
  then show ?case
    using flush_good [OF Tick.hyps] buffers_grow by (auto simp: ingest_inv_def good_step_def)
next
  case (Admin st ws)
  then show ?case by (simp add: ingest_inv_def FlushCaches_def Flush_def refs_ok_def lru_vals_def)
qed

lemma insert_new_added: "\<exists>new. insert_new k tbl rs = tbl @ new \<and> set new \<subseteq> set rs"
proof (induction rs arbitrary: tbl)
  case (Cons a rs)
  obtain n1 n2 where n: "insert_new k tbl rs = tbl @ n1" "set n1 \<subseteq> set rs"
    "insert_new k (tbl @ [a]) rs = (tbl @ [a]) @ n2" "set n2 \<subseteq> set rs"
    using Cons.IH [of tbl] Cons.IH [of "tbl @ [a]"] by blast
  show ?case
  proof (cases "k a \<in> set (map k tbl)")
    case True
    then show ?thesis using n(1,2) by (intro exI [of _ n1]) auto
  next
    case False
    then show ?thesis using n(3,4) by (intro exI [of _ "a # n2"]) auto
  qed
qed simp

lemma ingest_reach_inv: "(ingest_step cfg)\<^sup>*\<^sup>* s s' \<Longrightarrow> ingest_inv s \<Longrightarrow> ingest_inv s'"
  by (induction rule: rtranclp_induct) (simp_all add: ingest_step_inv)

text \<open>
  C3. However the workers are interleaved and whatever the database, Redis and the
  clock do, every cached or buffered identifier is a row of its table, so a flush of
  metric rows never violates the foreign key of the interfaces.
\<close>

theorem flush_never_breaks_references:
  assumes "(ingest_step cfg)\<^sup>*\<^sup>* (ingest_init cacheTTL db r) (st, ws)"
  shows "fst (WriteMetricsBatch json_ok (w_rows (ws w)) (p_db st)) \<noteq> Some ErrForeignKey
    \<and> list_all (row_refs (p_db st)) (w_rows (ws w)) \<and> refs_ok st"
proof -
  have "ingest_inv (ingest_init cacheTTL db r)"
    by (simp add: ingest_init_def ingest_inv_def NewPipeline_def Let_def NewLRUWithTTL_def refs_ok_def lru_vals_def buffers_ok_def)
  then have inv: "refs_ok st" "list_all (row_refs (p_db st)) (w_rows (ws w))"
    using ingest_reach_inv [OF assms] by (auto simp: ingest_inv_def buffers_ok_def)
  let ?stage = "map metric_stage (w_rows (ws w))"
  obtain new where new: "insert_new metric_key (metrics (p_db st)) ?stage = metrics (p_db st) @ new" "set new \<subseteq> set ?stage"
    by (metis insert_new_added)
  have stage: "case m_interface_id q of None \<Rightarrow> True | Some i \<Rightarrow> i \<in> i_id ` set (interfaces (p_db st))" if q: "q \<in> set ?stage" for q
  proof -
    obtain x where x: "x \<in> set (w_rows (ws w))" "q = metric_stage x" using q by auto
    have "row_refs (p_db st) x" using inv(2) x(1) by (simp add: list_all_iff)
    then show ?thesis by (cases "mr_InterfaceID x = ''''") (simp_all add: x(2) row_refs_def if_ids_def metric_stage_def nilIfEmpty_def)
  qed
  have "list_all (\<lambda>q. case m_interface_id q of None \<Rightarrow> True | Some i \<Rightarrow> i \<in> i_id ` set (interfaces (p_db st))) new"
    unfolding list_all_iff using new(2) stage by blast
  then have "fst (WriteMetricsBatch json_ok (w_rows (ws w)) (p_db st)) \<noteq> Some ErrForeignKey"
    unfolding WriteMetricsBatch_def Let_def new(1) by simp
  then show ?thesis using inv by blast
qed

definition calm_env :: ing_env where
  "calm_env = \<lparr>iv_up = True, iv_ev_ok = True, iv_redis = (True, True, True), iv_now = 7, iv_inet = Some, iv_uuid = Some,
     iv_json_ok = (\<lambda>_. True), iv_marshal = (\<lambda>_. ''{}''), iv_ids = (\<lambda>n. ''id'' @ itoa (int n)), iv_kvs = (\<lambda>_. [])\<rparr>"

definition calm_cfg :: IngestConfig where
  "calm_cfg = \<lparr>ic_hasDedup = True, ic_DedupEvents = True, ic_DedupMetrics = False, ic_BufferRows = 100, ic_ChannelSize = 2\<rparr>"

definition no_redis :: redis where
  "no_redis = \<lparr>rd_pkt = Map.empty, rd_nonce = Map.empty\<rparr>"

definition one_packet :: "pipe \<times> worker" where
  "one_packet = work_packet calm_cfg calm_env (pktA\<lparr>Kind := ''metric''\<rparr>) (fst (ingest_init 60 empty_db no_redis), \<lparr>w_rows = [], w_energy = []\<rparr>)"

lemma calm_rows: "ic_BufferRows calm_cfg = 100"
  by (simp add: calm_cfg_def)

lemma one_packet_row: "map mr_DeviceID (w_rows (snd one_packet)) = [''id0'']"
proof -
  let ?pkt = "pktA\<lparr>Kind := ''metric''\<rparr>"
  let ?up = "UpsertDevice Some (\<lambda>_. ''{}'') True 7 (''id'' @ itoa (int 0)) (''id'' @ itoa (int (Suc 0))) (Normalize 7 ?pkt) empty_db"
  have u: "fst ?up = None"
    "DeviceIDBySource (fst (snd ?up)) ''org'' ''dc'' ''f1'' ''net'' '''' ''sw1'' = ''id0''" by code_simp+
  have pkt: "Kind (Normalize 7 ?pkt) = ''metric''" "OrgId (Normalize 7 ?pkt) = ''org''" "DatacenterId (Normalize 7 ?pkt) = ''dc''"
    "FloorId (Normalize 7 ?pkt) = ''f1''" "NetworkId (Normalize 7 ?pkt) = ''net''" "GroupId (Normalize 7 ?pkt) = ''''"
    "SourceId (Normalize 7 ?pkt) = ''sw1''" "has_prefix (Name (Normalize 7 ?pkt)) ''interface.'' = False"
    "wants_dedup calm_cfg ?pkt = False" "malformed ?pkt = False" "Kind ?pkt = ''metric''"
    by code_simp+
  obtain e db1 h where up: "?up = (e, db1, h)" by (metis prod_cases3)
  define st0 where "st0 = fst (ingest_init 60 empty_db no_redis)"
  have st0: "Get 7 (p_dev st0) k = (None, p_dev st0)" "p_db st0 = empty_db" "p_seq st0 = 0" for k
    by (simp_all add: st0_def ingest_init_def NewPipeline_def Let_def NewLRUWithTTL_def Get_def)
  have "upsert_dev calm_env (Normalize 7 ?pkt) st0 = (True, st0\<lparr>p_db := db1, p_seq := 2\<rparr>)"
    using up u(1) by (simp add: upsert_dev_def calm_env_def st0)
  moreover have "source_id calm_env (Normalize 7 ?pkt) st0 = ''''"
    by (simp add: source_id_def calm_env_def st0 DeviceIDBySource_def empty_db_def)
  moreover have "source_id calm_env (Normalize 7 ?pkt) (st0\<lparr>p_db := db1, p_seq := 2\<rparr>) = ''id0''"
    using u(2) up by (simp add: source_id_def calm_env_def pkt)
  ultimately have "fst (lookupOrRegister calm_env (Normalize 7 ?pkt) st0) = ''id0''"
    by (simp add: lookupOrRegister_def Let_def calm_env_def [THEN arg_cong [of _ _ iv_now]] st0 pkt)
  then obtain st1 where "lookupOrRegister calm_env (Normalize 7 ?pkt) st0 = (''id0'', st1)" by (metis prod.collapse)
  then show ?thesis
    by (simp add: one_packet_def work_packet_def process_def pkt route_def is_event_def handle_metric_def st0_def [symmetric] Let_def
        calm_env_def [THEN arg_cong [of _ _ iv_now]] calm_rows)
qed

theorem flush_never_breaks_references_witness:
  "fst (WriteMetricsBatch (\<lambda>_. True) (w_rows (snd one_packet)) (p_db (fst one_packet))) \<noteq> Some ErrForeignKey
   \<and> map mr_DeviceID (w_rows (snd one_packet)) = [''id0'']"
proof
  obtain st' w' where p: "one_packet = (st', w')" by fastforce
  obtain st0 ws0 where i: "ingest_init 60 empty_db no_redis = (st0, ws0)" by fastforce
  then have "ws0 0 = \<lparr>w_rows = [], w_energy = []\<rparr>" by (auto simp: ingest_init_def)
  then have "work_packet calm_cfg calm_env (pktA\<lparr>Kind := ''metric''\<rparr>) (st0, ws0 0) = (st', w')"
    using p by (simp add: one_packet_def i)
  then have "ingest_step calm_cfg (st0, ws0) (st', ws0(0 := w'))" by (rule ingest_step.Packet)
  then show "fst (WriteMetricsBatch (\<lambda>_. True) (w_rows (snd one_packet)) (p_db (fst one_packet))) \<noteq> Some ErrForeignKey"
    using flush_never_breaks_references [of calm_cfg 60 empty_db no_redis st' "ws0(0 := w')" "\<lambda>_. True" 0]
    by (simp add: p i r_into_rtranclp)
  show "map mr_DeviceID (w_rows (snd one_packet)) = [''id0'']" by (rule one_packet_row)
qed

section \<open>Link traps\<close>

definition same_link :: "LinkRow \<Rightarrow> LinkRow \<Rightarrow> bool" where
  "same_link a b \<longleftrightarrow> link_layer a = link_layer b \<and> {k_SrcDeviceID a, k_DstDeviceID a} = {k_SrcDeviceID b, k_DstDeviceID b}"

lemma same_link_pair: "same_link a b \<Longrightarrow> same_pair b = same_pair a"
  by (auto simp: same_link_def same_pair_def fun_eq_iff doubleton_eq_iff)

text \<open>
  One event per transition of a device pair: after a link trap was taken, every
  further trap of the same direction that correlates to a link between the same two
  devices, from either end and for any port, changes nothing and writes no event. So
  the peer's copy is suppressed, and so is a trap about a parallel link.
\<close>

theorem link_trap_once_per_pair:
  assumes "handleLinkTrap e dev host pkt st = (True, st1)"
    and "case trap_port pkt of (i, n) \<Rightarrow> CorrelateLinkByPort (p_db st) dev i n = Some row"
    and "case trap_port pkt2 of (i, n) \<Rightarrow> CorrelateLinkByPort (p_db st1) dev2 i n = Some rowb"
    and "same_link row rowb" and "(Name pkt2 = ''linkDown'') = (Name pkt = ''linkDown'')" and "iv_up e2"
  shows "handleLinkTrap e2 dev2 host2 pkt2 st1 = (True, st1)"
proof -
  obtain i n where p: "trap_port pkt = (i, n)" "CorrelateLinkByPort (p_db st) dev i n = Some row"
    using assms(2) by (auto split: prod.splits)
  obtain i2 n2 where p2: "trap_port pkt2 = (i2, n2)" "CorrelateLinkByPort (p_db st1) dev2 i2 n2 = Some rowb"
    using assms(3) by (auto split: prod.splits)
  let ?down = "Name pkt = ''linkDown''"
  have links: "topology_links (p_db st1) = map (flip_link (iv_now e) row ?down) (topology_links (p_db st))"
    using assms(1) p by (auto simp: handleLinkTrap_def SetLinkActive_def Let_def split: if_splits)
  have nohit: "\<not> link_hit rowb ?down l" if "l \<in> set (topology_links (p_db st1))" for l
    using that same_link_pair [OF assms(4)] by (auto simp: links link_hit_def flip_link_def)
  then have "map (flip_link t rowb ?down) (topology_links (p_db st1)) = topology_links (p_db st1)" for t
    by (intro map_idI) (simp add: flip_link_def)
  then have "SetLinkActive t rowb ?down (p_db st1) = (False, p_db st1)" for t
    using nohit by (auto simp: SetLinkActive_def list_ex_iff)
  then show ?thesis using p2 assms(5,6) by (simp add: handleLinkTrap_def)
qed

text \<open>Two parallel links between two devices.\<close>

definition parallel_links :: pipe where
  "parallel_links = \<lparr>p_db = one_link\<lparr>topology_links := topology_links one_link @
       [(hd (topology_links one_link))\<lparr>l_id := ''l2'', l_src_port_name := ''2'', l_dst_port_name := ''8''\<rparr>]\<rparr>,
     p_dev = NewLRUWithTTL 4 0, p_if = NewLRUWithTTL 4 0, p_redis = no_redis, p_seq = 0\<rparr>"

definition port_trap :: "string \<Rightarrow> string \<Rightarrow> TelemetryPacket" where
  "port_trap name port = pktA\<lparr>Kind := ''trap'', Name := name, Meta := [''vb.1.3.6.1.2.1.2.2.1.2.1'' \<mapsto> port]\<rparr>"

definition first_down :: "bool \<times> pipe" where
  "first_down = handleLinkTrap calm_env ''d1'' ''sw1'' (port_trap ''linkDown'' ''eth1'') parallel_links"

theorem link_trap_once_per_pair_witness:
  "handleLinkTrap calm_env ''d1'' ''sw1'' (port_trap ''linkDown'' ''eth2'') (snd first_down) = (True, snd first_down)
   \<and> map l_is_active (topology_links (p_db (snd first_down))) = [False, False]
   \<and> map e_link_id (events (p_db (snd first_down))) = [Some ''l1'']"
proof (intro conjI)
  let ?corr = "\<lambda>db port. case trap_port (port_trap ''linkDown'' port) of (i, n) \<Rightarrow> CorrelateLinkByPort db ''d1'' i n"
  have c: "map_option k_LinkID (?corr (p_db parallel_links) ''eth1'') = Some ''l1''"
    "map_option k_LinkID (?corr (p_db (snd first_down)) ''eth2'') = Some ''l2''"
    "same_link (the (?corr (p_db parallel_links) ''eth1'')) (the (?corr (p_db (snd first_down)) ''eth2''))"
    "fst first_down"
    by code_simp+
  show "handleLinkTrap calm_env ''d1'' ''sw1'' (port_trap ''linkDown'' ''eth2'') (snd first_down) = (True, snd first_down)"
  proof (rule link_trap_once_per_pair [where e = calm_env and dev = "''d1''" and host = "''sw1''" and pkt = "port_trap ''linkDown'' ''eth1''"
        and st = parallel_links and row = "the (?corr (p_db parallel_links) ''eth1'')"
        and rowb = "the (?corr (p_db (snd first_down)) ''eth2'')"])
    show "handleLinkTrap calm_env ''d1'' ''sw1'' (port_trap ''linkDown'' ''eth1'') parallel_links = (True, snd first_down)"
      using c(4) by (cases first_down) (auto simp: first_down_def)
  qed (use c in \<open>auto simp: port_trap_def calm_env_def split: prod.splits\<close>)
qed code_simp+

section \<open>The channel\<close>

definition channel_ok :: "channel \<Rightarrow> bool" where
  "channel_ok c \<longleftrightarrow> ch_depth c = of_nat (length (ch_items c))"

lemma Submit_ok: "channel_ok c \<Longrightarrow> channel_ok (snd (snd (Submit cfg b c)))"
  by (simp add: Submit_def channel_ok_def)

lemma receive_ok: "channel_ok c \<Longrightarrow> receive c = Some (b, c') \<Longrightarrow> channel_ok c'"
  by (auto simp: receive_def channel_ok_def split: list.splits)

lemma stream_loop_accounts:
  "\<exists>added. ch_items (snd (stream_loop cfg ps buf (a, r) c)) = ch_items c @ added
    \<and> fst (fst (stream_loop cfg ps buf (a, r) c)) = a + of_nat (length (concat added))
    \<and> fst (fst (stream_loop cfg ps buf (a, r) c)) + snd (fst (stream_loop cfg ps buf (a, r) c))
       = a + r + of_nat (length (buf @ ps))
    \<and> subseq (concat added) (buf @ ps)"
proof (induction ps arbitrary: buf a r c)
  case Nil
  show ?case
  proof (cases "buf = [] \<or> \<not> length (ch_items c) < ic_ChannelSize cfg")
    case True
    then show ?thesis by (intro exI [of _ "[]"]) (auto simp: Submit_def)
  next
    case False
    then show ?thesis by (intro exI [of _ "[buf]"]) (auto simp: Submit_def)
  qed
next
  case (Cons p ps)
  show ?case
  proof (cases "length (buf @ [p]) \<ge> 256")
    case False
    then have "stream_loop cfg (p # ps) buf (a, r) c = stream_loop cfg ps (buf @ [p]) (a, r) c" by simp
    then show ?thesis using Cons.IH [of "buf @ [p]" a r c] by simp
  next
    case full: True
    define n :: u32 where "n = of_nat (length (buf @ [p]))"
    have split: "of_nat (length (buf @ p # ps)) = n + of_nat (length ps)" by (simp add: n_def)
    have whole: "buf @ p # ps = (buf @ [p]) @ ps" by simp
    show ?thesis
    proof (cases "length (ch_items c) < ic_ChannelSize cfg")
      case True
      define d where "d = c\<lparr>ch_items := ch_items c @ [buf @ [p]], ch_depth := ch_depth c + 1\<rparr>"
      have e: "stream_loop cfg (p # ps) buf (a, r) c = stream_loop cfg ps [] (a + n, r) d"
        using full True by (simp add: Submit_def d_def n_def)
      obtain added where ih: "ch_items (snd (stream_loop cfg ps [] (a + n, r) d)) = ch_items d @ added"
        "fst (fst (stream_loop cfg ps [] (a + n, r) d)) = a + n + of_nat (length (concat added))"
        "fst (fst (stream_loop cfg ps [] (a + n, r) d)) + snd (fst (stream_loop cfg ps [] (a + n, r) d))
          = a + n + r + of_nat (length ([] @ ps))" "subseq (concat added) ([] @ ps)"
        using Cons.IH [of "[]" "a + n" r d] by metis
      have "of_nat (length (concat ((buf @ [p]) # added))) = n + of_nat (length (concat added))" by (simp add: n_def)
      moreover have "subseq (concat ((buf @ [p]) # added)) (buf @ p # ps)"
        unfolding whole using list_emb_append_mono [OF subseq_order.order_refl [of "buf @ [p]"] ih(4)] by simp
      ultimately show ?thesis
        unfolding e split using ih by (intro exI [of _ "(buf @ [p]) # added"]) (auto simp: d_def ac_simps)
    next
      case False
      have e: "stream_loop cfg (p # ps) buf (a, r) c = stream_loop cfg ps [] (a, r + n) c"
        using full False by (simp add: Submit_def n_def)
      obtain added where ih: "ch_items (snd (stream_loop cfg ps [] (a, r + n) c)) = ch_items c @ added"
        "fst (fst (stream_loop cfg ps [] (a, r + n) c)) = a + of_nat (length (concat added))"
        "fst (fst (stream_loop cfg ps [] (a, r + n) c)) + snd (fst (stream_loop cfg ps [] (a, r + n) c))
          = a + (r + n) + of_nat (length ([] @ ps))" "subseq (concat added) ([] @ ps)"
        using Cons.IH [of "[]" a "r + n" c] by metis
      have "subseq (concat added) (buf @ p # ps)"
        using list_emb_append_mono [OF list_emb_Nil [of "(=)" "buf @ [p]"] ih(4)] by simp
      then show ?thesis unfolding e split using ih by (intro exI [of _ added]) (auto simp: ac_simps)
    qed
  qed
qed

text \<open>
  The stream call acknowledges what it dropped: the channel gains exactly the
  packets counted as accepted, in order, and the two counters add up to the packets of
  the stream, but the answer says accepted whatever the rejected count is.
\<close>

theorem PushStream_acknowledges_drops:
  "\<exists>added. ch_items (snd (PushStream cfg ps broken c)) = ch_items c @ added \<and> subseq (concat added) ps
     \<and> fst (fst (stream_loop cfg ps [] (0, 0) c)) = of_nat (length (concat added))
     \<and> fst (fst (stream_loop cfg ps [] (0, 0) c)) + snd (fst (stream_loop cfg ps [] (0, 0) c)) = of_nat (length ps)
     \<and> map_option pr_Accepted (fst (PushStream cfg ps False c)) = Some True"
  using stream_loop_accounts [of cfg ps "[]" 0 0 c] by (auto simp: PushStream_def split: prod.split)

end
