(* ===== verification/Hierarchy.thy ===== *)
theory Hierarchy
  imports Fwd_Store "HOL-Library.List_Lexorder" "HOL-Library.Char_ord"
begin

text \<open>
  The spanning tree of the production fabric, \<open>fwDCS/internal/store/hierarchy.go\<close>:
  breadth-first search over the links of one tenant, and the relation it writes into
  the link rows. Identifiers are ordered by their characters, as \<open>sort.Strings\<close> does.
\<close>

section \<open>The graph\<close>

definition ipMatch :: "string \<Rightarrow> string \<Rightarrow> bool" where
  "ipMatch stored hint \<longleftrightarrow> stored \<noteq> '''' \<and> before_slash stored = hint"

definition in_tenant :: "string \<Rightarrow> string \<Rightarrow> string \<Rightarrow> device_row \<Rightarrow> bool" where
  "in_tenant org net grp d \<longleftrightarrow> d_org_id d = org \<and> d_network_id d = net \<and> d_group_id d = grp"

definition tenant_devices :: "db \<Rightarrow> string \<Rightarrow> string \<Rightarrow> string \<Rightarrow> device_row list" where
  "tenant_devices db org net grp = filter (in_tenant org net grp) (devices db)"

definition hint_matches :: "string \<Rightarrow> device_row \<Rightarrow> bool" where
  "hint_matches hint d \<longleftrightarrow> d_hostname d = hint
     \<or> list_ex (\<lambda>ip. ipMatch (coalesce_val ip '''') hint) [d_mgmt_ip d, d_prod_ip d, d_loopback_ip d, d_oob_ip d]"

text \<open>The root of the hint: the first device in row order that it names.\<close>

definition hinted_root :: "string \<Rightarrow> device_row list \<Rightarrow> string" where
  "hinted_root rootHint ds =
     (let hint = trim_space rootHint
      in if hint = '''' then ''''
         else case find (hint_matches hint) ds of Some d \<Rightarrow> d_id d | None \<Rightarrow> '''')"

text \<open>Edges in both directions, without those \<open>addEdge\<close> drops.\<close>

definition link_edges :: "db \<Rightarrow> string \<Rightarrow> string \<Rightarrow> string \<Rightarrow> (string \<times> string) list" where
  "link_edges db org net grp =
     concat (map (\<lambda>l. [(l_src_device_id l, l_dst_device_id l), (l_dst_device_id l, l_src_device_id l)])
       (filter (\<lambda>l. l_layer l = ''network'' \<and> l_src_device_id l \<in> d_id ` set (tenant_devices db org net grp)) (topology_links db)))"

definition good_edge :: "string \<times> string \<Rightarrow> bool" where
  "good_edge e \<longleftrightarrow> fst e \<noteq> '''' \<and> snd e \<noteq> '''' \<and> fst e \<noteq> snd e"

definition neighbours :: "(string \<times> string) list \<Rightarrow> string \<Rightarrow> string list" where
  "neighbours es n = sort (remdups (map snd (filter (\<lambda>e. good_edge e \<and> fst e = n) es)))"

definition degree :: "(string \<times> string) list \<Rightarrow> string \<Rightarrow> nat" where
  "degree es n = length (neighbours es n)"

section \<open>Breadth-first search\<close>

text \<open>
  \<open>parent\<close>, with \<open>''\<close> for a root. A node is visited exactly when it has an entry: the
  code sets both maps together.
\<close>

type_synonym parents = "string \<rightharpoonup> string"

fun visit :: "string \<Rightarrow> string list \<Rightarrow> parents \<Rightarrow> string list \<Rightarrow> parents \<times> string list" where
  "visit cur [] par q = (par, q)"
| "visit cur (n # ns) par q =
     (if par n \<noteq> None then visit cur ns par q else visit cur ns (par(n \<mapsto> cur)) (q @ [n]))"

definition nodes :: "(string \<times> string) list \<Rightarrow> string set" where
  "nodes es = snd ` set es"

lemma neighbours_iff: "n \<in> set (neighbours es m) \<longleftrightarrow> (m, n) \<in> set es \<and> good_edge (m, n)"
  by (force simp: neighbours_def)

lemma visit_shape:
  "\<exists>new. visit cur ns par q = (par ++ (\<lambda>n. if n \<in> set new then Some cur else None), q @ new)
     \<and> distinct new \<and> set new = set ns - dom par"
proof (induction cur ns par q rule: visit.induct)
  case (2 cur n ns par q)
  show ?case
  proof (cases "par n = None")
    case True
    then obtain new where new: "visit cur ns (par(n \<mapsto> cur)) (q @ [n]) =
        (par(n \<mapsto> cur) ++ (\<lambda>m. if m \<in> set new then Some cur else None), (q @ [n]) @ new)"
      "distinct new" "set new = set ns - dom (par(n \<mapsto> cur))" using 2(2) by blast
    have "par(n \<mapsto> cur) ++ (\<lambda>m. if m \<in> set new then Some cur else None) =
        par ++ (\<lambda>m. if m \<in> set (n # new) then Some cur else None)"
      by (auto simp: fun_eq_iff map_add_def)
    then show ?thesis using True new by (intro exI [of _ "n # new"]) auto
  next
    case False
    then obtain new where "visit cur ns par q = (par ++ (\<lambda>m. if m \<in> set new then Some cur else None), q @ new)"
      "distinct new" "set new = set ns - dom par" using 2(1) by blast
    then show ?thesis using False by (intro exI [of _ new]) auto
  qed
qed (auto simp: map_add_def fun_eq_iff)

function bfs_loop :: "(string \<times> string) list \<Rightarrow> parents \<Rightarrow> string list \<Rightarrow> parents" where
  "bfs_loop es par [] = par"
| "bfs_loop es par (cur # q) =
     (case visit cur (neighbours es cur) par q of (par', q') \<Rightarrow> bfs_loop es par' q')"
  by pat_completeness auto

termination
proof (relation "measure (\<lambda>(es, par, q). card (nodes es - dom par) + length q)")
  fix es :: "(string \<times> string) list" and par :: parents and cur q par' q'
  assume x: "(par', q') = visit cur (neighbours es cur) par q"
  obtain new where v: "visit cur (neighbours es cur) par q =
      (par ++ (\<lambda>n. if n \<in> set new then Some cur else None), q @ new)"
    "distinct new" "set new = set (neighbours es cur) - dom par" using visit_shape by blast
  have sub: "set new \<subseteq> nodes es - dom par"
    using v(3) by (force simp: neighbours_iff nodes_def)
  have fin: "finite (nodes es - dom par)" by (simp add: nodes_def)
  have "dom par' = dom par \<union> set new" using x v(1) by (auto simp: dom_def map_add_def split: if_splits)
  then have "nodes es - dom par' = (nodes es - dom par) - set new" by auto
  then have "card (nodes es - dom par') = card (nodes es - dom par) - length new"
    using card_Diff_subset [OF _ sub] distinct_card [OF v(2)] by simp
  moreover have "length new \<le> card (nodes es - dom par)"
    using card_mono [OF fin sub] distinct_card [OF v(2)] by simp
  moreover have "length q' = length q + length new" using x v(1) by simp
  ultimately show "((es, par', q'), es, par, cur # q) \<in> measure (\<lambda>(es, par, q). card (nodes es - dom par) + length q)"
    by simp
qed simp

declare bfs_loop.simps [simp del]

definition bfs :: "(string \<times> string) list \<Rightarrow> string \<Rightarrow> parents \<Rightarrow> parents" where
  "bfs es r par = bfs_loop es (par(r \<mapsto> '''')) [r]"

fun highestDegreeUnvisited :: "(string \<times> string) list \<Rightarrow> parents \<Rightarrow> string list \<Rightarrow> string \<Rightarrow> int \<Rightarrow> string" where
  "highestDegreeUnvisited es par [] best bestDeg = best"
| "highestDegreeUnvisited es par (i # is) best bestDeg =
     (if par i = None \<and> int (degree es i) > bestDeg
      then highestDegreeUnvisited es par is i (int (degree es i))
      else highestDegreeUnvisited es par is best bestDeg)"

definition next_root :: "(string \<times> string) list \<Rightarrow> parents \<Rightarrow> string list \<Rightarrow> string" where
  "next_root es par ids = highestDegreeUnvisited es par ids '''' (- 1)"

lemma best_in: "highestDegreeUnvisited es par js b d \<in> insert b (set js)"
  by (induction es par js b d rule: highestDegreeUnvisited.induct) (auto split: if_splits)

lemma best_unvisited: "highestDegreeUnvisited es par is b d = b \<or> highestDegreeUnvisited es par is b d \<in> set is
    \<and> par (highestDegreeUnvisited es par is b d) = None"
  by (induction es par "is" b d rule: highestDegreeUnvisited.induct) (auto split: if_splits)

lemma next_root_some: "next_root es par ids \<noteq> '''' \<Longrightarrow> next_root es par ids \<in> set ids \<and> par (next_root es par ids) = None"
  using best_unvisited [of es par ids "''''" "- 1"] by (auto simp: next_root_def)

lemma next_root_none: "next_root es par ids = '''' \<Longrightarrow> '''' \<notin> set ids \<Longrightarrow> set ids \<subseteq> dom par"
proof (induction ids)
  case (Cons i js)
  show ?case
  proof (cases "par i = None")
    case True
    then have "next_root es par (i # js) \<in> insert i (set js)"
      using best_in [of es par js i "int (degree es i)"] by (simp add: next_root_def)
    then show ?thesis using Cons.prems by auto
  next
    case False
    then have "next_root es par (i # js) = next_root es par js" by (auto simp: next_root_def)
    then show ?thesis using Cons False by auto
  qed
qed simp

section \<open>What the search builds\<close>

text \<open>Entries are kept, and every new one is an edge from a visited node.\<close>

definition extends :: "(string \<times> string) list \<Rightarrow> parents \<Rightarrow> parents \<Rightarrow> bool" where
  "extends es a b \<longleftrightarrow> a \<subseteq>\<^sub>m b"

lemma visit_keeps: "visit cur ns par q = (par', q') \<Longrightarrow> par \<subseteq>\<^sub>m par' \<and> dom par' = dom par \<union> set ns"
proof -
  assume v: "visit cur ns par q = (par', q')"
  obtain new where "par' = par ++ (\<lambda>n. if n \<in> set new then Some cur else None)" "set new = set ns - dom par"
    using visit_shape [of cur ns par q] v by auto
  then show ?thesis by (auto simp: map_le_def map_add_def dom_def split: option.splits)
qed

lemma bfs_loop_keeps: "par \<subseteq>\<^sub>m bfs_loop es par q"
proof (induction es par q rule: bfs_loop.induct)
  case (2 es par cur q)
  obtain par' q' where v: "visit cur (neighbours es cur) par q = (par', q')" by fastforce
  show ?case using 2 [OF v [symmetric]] visit_keeps [OF v] by (auto simp: v bfs_loop.simps intro: map_le_trans)
qed (simp add: bfs_loop.simps)

lemma bfs_visits_root: "bfs es r par r \<noteq> None"
  using bfs_loop_keeps [of "par(r \<mapsto> '''')" es "[r]"] by (auto simp: bfs_def map_le_def)

lemma bfs_keeps: "par r = None \<Longrightarrow> par \<subseteq>\<^sub>m bfs es r par"
  unfolding bfs_def by (rule map_le_trans [OF _ bfs_loop_keeps]) (auto simp: map_le_def)

text \<open>The loop over the remaining components.\<close>

function cover :: "(string \<times> string) list \<Rightarrow> string list \<Rightarrow> parents \<Rightarrow> parents" where
  "cover es ids par =
     (let r = next_root es par ids in if r = '''' then par else cover es ids (bfs es r par))"
  by pat_completeness auto

termination
proof (relation "measure (\<lambda>(es, ids, par). card (set ids - dom par))")
  fix es ids par r
  assume r: "r = next_root es par ids" "r \<noteq> ''''"
  then have n: "r \<in> set ids" "par r = None" using next_root_some [of es par ids] by simp_all
  have "dom par \<subseteq> dom (bfs es r par)" using bfs_keeps [of par r es, OF n(2)] map_le_implies_dom_le by blast
  moreover have "r \<in> dom (bfs es r par)" using bfs_visits_root by auto
  ultimately have "set ids - dom (bfs es r par) \<subset> set ids - dom par" using n by auto
  then have "card (set ids - dom (bfs es r par)) < card (set ids - dom par)" by (intro psubset_card_mono) auto
  then show "((es, ids, bfs es r par), es, ids, par) \<in> measure (\<lambda>(es, ids, par). card (set ids - dom par))" by simp
qed simp

declare cover.simps [simp del]

text \<open>The whole search: the hinted root or the node of highest degree first.\<close>

definition spanning_forest :: "(string \<times> string) list \<Rightarrow> string list \<Rightarrow> string \<Rightarrow> string \<times> parents" where
  "spanning_forest es ids hinted =
     (let r = (if hinted = '''' then next_root es Map.empty ids else hinted);
          par = (if r = '''' then Map.empty else bfs es r Map.empty)
      in (r, cover es ids par))"

section \<open>RecomputeHierarchy\<close>

text \<open>The tree edges, child and parent, in the order of the sorted identifiers.\<close>

definition tree_edges :: "string list \<Rightarrow> parents \<Rightarrow> (string \<times> string) list" where
  "tree_edges ids par =
     map (\<lambda>i. (i, the (par i))) (filter (\<lambda>i. par i \<noteq> None \<and> par i \<noteq> Some '''') ids)"

definition set_relation :: "int \<Rightarrow> (link_row \<Rightarrow> bool) \<Rightarrow> string \<Rightarrow> link_row \<Rightarrow> link_row" where
  "set_relation now sel rel l = (if sel l \<and> l_relation l \<noteq> rel then l\<lparr>l_relation := rel, l_updated_at := now\<rparr> else l)"

definition write_tree :: "int \<Rightarrow> (link_row \<Rightarrow> bool) \<Rightarrow> (string \<times> string) list \<Rightarrow> link_row list \<Rightarrow> link_row list" where
  "write_tree now tenant te ls =
     (let ls1 = map (set_relation now tenant ''peer'') ls
      in if te = [] then ls1
         else map (set_relation now (\<lambda>l. (l_dst_device_id l, l_src_device_id l) \<in> set te) ''downlink'')
                (map (set_relation now (\<lambda>l. (l_src_device_id l, l_dst_device_id l) \<in> set te) ''uplink'') ls1))"

definition src_in :: "string set \<Rightarrow> link_row \<Rightarrow> bool" where
  "src_in S l \<longleftrightarrow> l_src_device_id l \<in> S"

definition RecomputeHierarchy :: "int \<Rightarrow> string \<Rightarrow> string \<Rightarrow> string \<Rightarrow> string \<Rightarrow> db \<Rightarrow> string \<times> nat \<times> db" where
  "RecomputeHierarchy now org net grp rootHint db =
     (let ds = tenant_devices db org net grp; ids = sort (map d_id ds); es = link_edges db org net grp
      in if ds = [] then ('''', 0, db)
         else case spanning_forest es ids (hinted_root rootHint ds) of
           (r, par) \<Rightarrow>
             ((case find (\<lambda>d. d_id d = r) ds of Some d \<Rightarrow> d_hostname d | None \<Rightarrow> ''''), length ids,
              db\<lparr>topology_links := write_tree now (src_in (set ids)) (tree_edges ids par) (topology_links db)\<rparr>))"

section \<open>The forest\<close>

text \<open>
  Entries other than roots are edges from a visited node, and some rank falls along
  them; \<open>q\<close> holds the visited nodes whose neighbours may still be unvisited.
\<close>

definition forest :: "(string \<times> string) list \<Rightarrow> parents \<Rightarrow> bool" where
  "forest es par \<longleftrightarrow>
     (\<forall>n p. par n = Some p \<longrightarrow> p \<noteq> '''' \<longrightarrow> p \<in> dom par \<and> (p, n) \<in> set es \<and> good_edge (p, n))
     \<and> (\<exists>rank :: string \<Rightarrow> nat. \<forall>n p. par n = Some p \<longrightarrow> p \<noteq> '''' \<longrightarrow> rank p < rank n)"

definition closed_but :: "(string \<times> string) list \<Rightarrow> string set \<Rightarrow> parents \<Rightarrow> bool" where
  "closed_but es q par \<longleftrightarrow> (\<forall>n \<in> dom par - q. set (neighbours es n) \<subseteq> dom par)"

lemma forestD:
  "forest es par \<Longrightarrow> par n = Some p \<Longrightarrow> p \<noteq> '''' \<Longrightarrow> p \<in> dom par \<and> (p, n) \<in> set es \<and> good_edge (p, n)"
  unfolding forest_def by blast

lemma forest_rank:
  assumes "forest es par"
  obtains rank :: "string \<Rightarrow> nat" where "\<And>n p. par n = Some p \<Longrightarrow> p \<noteq> '''' \<Longrightarrow> rank p < rank n"
  using assms unfolding forest_def by blast

lemma forestI:
  assumes "\<And>n p. par n = Some p \<Longrightarrow> p \<noteq> '''' \<Longrightarrow> p \<in> dom par \<and> (p, n) \<in> set es \<and> good_edge (p, n)"
    and "\<And>n p. par n = Some p \<Longrightarrow> p \<noteq> '''' \<Longrightarrow> (rank :: string \<Rightarrow> nat) p < rank n"
  shows "forest es par"
  using assms unfolding forest_def by blast

lemma visit_forest:
  assumes "forest es par" and "cur \<in> dom par" and "visit cur (neighbours es cur) par q = (par', q')"
  shows "forest es par'"
proof -
  obtain new where new: "par' = par ++ (\<lambda>n. if n \<in> set new then Some cur else None)" "set new = set (neighbours es cur) - dom par"
    using visit_shape [of cur "neighbours es cur" par q] assms(3) by auto
  have step: "par' n = Some p \<longleftrightarrow> par n = Some p \<or> n \<in> set new \<and> p = cur" for n p
    using new(2) by (auto simp: new(1) map_add_def split: option.splits)
  have dom: "dom par \<subseteq> dom par'" by (auto simp: new(1))
  obtain rank :: "string \<Rightarrow> nat" where rank: "\<And>n p. par n = Some p \<Longrightarrow> p \<noteq> '''' \<Longrightarrow> rank p < rank n"
    using forest_rank [OF assms(1)] by blast
  define rank' where "rank' n = (if n \<in> set new then Suc (rank cur) else rank n)" for n
  have "rank' p < rank' n" if "par' n = Some p" "p \<noteq> ''''" for n p
  proof -
    have p: "p \<notin> set new" using that forestD [OF assms(1)] assms(2) new(2) by (auto simp: step)
    show ?thesis
    proof (cases "n \<in> set new")
      case True
      then have "p = cur" using that new(2) by (auto simp: step)
      then show ?thesis using True p by (simp add: rank'_def)
    next
      case False
      then have "par n = Some p" using that by (simp add: step)
      then show ?thesis using rank that(2) False p by (simp add: rank'_def)
    qed
  qed
  moreover have "p \<in> dom par' \<and> (p, n) \<in> set es \<and> good_edge (p, n)" if "par' n = Some p" "p \<noteq> ''''" for n p
  proof (cases "n \<in> set new \<and> p = cur")
    case True
    then show ?thesis using assms(2) dom new(2) by (auto simp: neighbours_iff)
  next
    case False
    then show ?thesis using forestD [OF assms(1)] that dom step by blast
  qed
  ultimately show ?thesis by (intro forestI [of _ _ rank']) blast+
qed

lemma bfs_loop_forest:
  assumes "forest es par" and "set q \<subseteq> dom par" and "closed_but es (set q) par"
  shows "forest es (bfs_loop es par q) \<and> closed_but es {} (bfs_loop es par q)"
  using assms
proof (induction es par q rule: bfs_loop.induct)
  case (1 es par)
  then show ?case by (simp add: bfs_loop.simps)
next
  case (2 es par cur q)
  obtain par' q' where v: "visit cur (neighbours es cur) par q = (par', q')" by fastforce
  note k = visit_keeps [OF v]
  obtain new where new: "q' = q @ new" "set new = set (neighbours es cur) - dom par"
    using visit_shape [of cur "neighbours es cur" par q] v by auto
  have "forest es par'" by (rule visit_forest [OF _ _ v]) (use 2 in auto)
  moreover have "set q' \<subseteq> dom par'" using 2 k new by auto
  moreover have "closed_but es (set q') par'"
    unfolding closed_but_def
  proof
    fix n assume n: "n \<in> dom par' - set q'"
    then have "n \<in> dom par" using k new by auto
    then show "set (neighbours es n) \<subseteq> dom par'"
      using 2(4) n k new by (cases "n = cur") (auto simp: closed_but_def)
  qed
  ultimately show ?case using 2(1) [OF v [symmetric]] by (simp add: bfs_loop.simps v)
qed

lemma bfs_forest:
  assumes "forest es par" and "closed_but es {} par" and "par r = None"
  shows "forest es (bfs es r par) \<and> closed_but es {} (bfs es r par)"
  unfolding bfs_def
proof (rule bfs_loop_forest)
  obtain rank :: "string \<Rightarrow> nat" where rank: "\<And>n p. par n = Some p \<Longrightarrow> p \<noteq> '''' \<Longrightarrow> rank p < rank n"
    using forest_rank [OF assms(1)] by blast
  show "forest es (par(r \<mapsto> ''''))"
    by (rule forestI [of _ _ rank]) (use forestD [OF assms(1)] rank in \<open>auto split: if_splits\<close>)
  show "closed_but es (set [r]) (par(r \<mapsto> ''''))" using assms(2) by (auto simp: closed_but_def)
qed simp

lemma cover_forest:
  assumes "forest es par" and "closed_but es {} par"
  shows "forest es (cover es ids par) \<and> closed_but es {} (cover es ids par) \<and> par \<subseteq>\<^sub>m cover es ids par"
  using assms
proof (induction es ids par rule: cover.induct)
  case (1 es ids par)
  show ?case
  proof (cases "next_root es par ids = ''''")
    case True
    then show ?thesis using 1 by (subst (1 2 3) cover.simps) (simp add: Let_def)
  next
    case False
    then have n: "par (next_root es par ids) = None" using next_root_some [of es par ids] by simp
    note b = bfs_forest [OF 1(2,3) n]
    have "cover es ids par = cover es ids (bfs es (next_root es par ids) par)"
      using False by (subst cover.simps) (simp add: Let_def)
    then show ?thesis using 1(1) [OF refl False] b bfs_keeps [of par _ es, OF n] by (auto intro: map_le_trans)
  qed
qed

lemma cover_all: "'''' \<notin> set ids \<Longrightarrow> set ids \<subseteq> dom (cover es ids par)"
proof (induction es ids par rule: cover.induct)
  case (1 es ids par)
  show ?case
  proof (cases "next_root es par ids = ''''")
    case True
    then show ?thesis using next_root_none [of es par ids] 1(2) by (subst cover.simps) (simp add: Let_def)
  next
    case False
    then show ?thesis using 1(1) [OF refl False 1(2)] by (subst cover.simps) (simp add: Let_def)
  qed
qed

section \<open>One root per component\<close>

definition roots :: "parents \<Rightarrow> string set" where
  "roots par = {n. par n = Some ''''}"

definition linked :: "(string \<times> string) list \<Rightarrow> (string \<times> string) set" where
  "linked es = (set es \<inter> Collect good_edge)\<^sup>*"

definition separate :: "(string \<times> string) list \<Rightarrow> parents \<Rightarrow> bool" where
  "separate es par \<longleftrightarrow> (\<forall>n \<in> roots par. \<forall>m \<in> roots par. (n, m) \<in> linked es \<longrightarrow> n = m)"

lemma bfs_loop_roots: "roots (bfs_loop es par q) = roots par"
proof (induction es par q rule: bfs_loop.induct)
  case (2 es par cur q)
  obtain par' q' where v: "visit cur (neighbours es cur) par q = (par', q')" by fastforce
  obtain new where new: "par' = par ++ (\<lambda>n. if n \<in> set new then Some cur else None)" "set new = set (neighbours es cur) - dom par"
    using visit_shape [of cur "neighbours es cur" par q] v by auto
  have "cur \<noteq> ''''" if "n \<in> set new" for n using that new(2) by (auto simp: neighbours_iff good_edge_def)
  then have "roots par' = roots par" using new(2) by (auto simp: roots_def new(1) map_add_def split: option.splits if_splits)
  then show ?case using 2 [OF v [symmetric]] by (simp add: bfs_loop.simps v)
qed (simp add: bfs_loop.simps)

lemma bfs_roots: "par r = None \<Longrightarrow> roots (bfs es r par) = insert r (roots par)"
  by (auto simp: bfs_def bfs_loop_roots) (auto simp: roots_def split: if_splits)

lemma closed_linked: "closed_but es {} par \<Longrightarrow> n \<in> dom par \<Longrightarrow> (n, m) \<in> linked es \<Longrightarrow> m \<in> dom par"
proof -
  assume c: "closed_but es {} par" and n: "n \<in> dom par" and l: "(n, m) \<in> linked es"
  from l show "m \<in> dom par" unfolding linked_def
  proof (induction rule: rtrancl_induct)
    case (step y z)
    then show ?case using c by (auto simp: closed_but_def subset_iff neighbours_iff)
  qed (rule n)
qed

lemma linked_sym: "sym (set es) \<Longrightarrow> (n, m) \<in> linked es \<Longrightarrow> (m, n) \<in> linked es"
proof -
  assume "sym (set es)"
  then have "sym (set es \<inter> Collect good_edge)" by (auto simp: sym_def good_edge_def)
  then show "(n, m) \<in> linked es \<Longrightarrow> (m, n) \<in> linked es" unfolding linked_def by (meson sym_rtrancl symD)
qed

lemma bfs_separate:
  assumes "separate es par" and "closed_but es {} par" and "par r = None" and "sym (set es)"
  shows "separate es (bfs es r par)"
  unfolding separate_def bfs_roots [of par r es, OF assms(3)]
proof (intro ballI impI)
  fix n m assume nm: "n \<in> insert r (roots par)" "m \<in> insert r (roots par)" "(n, m) \<in> linked es"
  have no: "(k, r) \<notin> linked es" if "k \<in> roots par" for k
    using closed_linked [OF assms(2), of k r] that assms(3) by (auto simp: roots_def)
  show "n = m" using nm no linked_sym [OF assms(4)] assms(1) by (auto simp: separate_def)
qed

lemma cover_separate:
  assumes "separate es par" and "forest es par" and "closed_but es {} par" and "sym (set es)"
  shows "separate es (cover es ids par)"
  using assms
proof (induction es ids par rule: cover.induct)
  case (1 es ids par)
  show ?case
  proof (cases "next_root es par ids = ''''")
    case True
    then show ?thesis using 1 by (subst cover.simps) (simp add: Let_def)
  next
    case False
    then have n: "par (next_root es par ids) = None" using next_root_some [of es par ids] by simp
    show ?thesis
      using 1(1) [OF refl False bfs_separate [OF 1(2,4) n 1(5)]] bfs_forest [OF 1(3,4) n] 1(5) False
      by (subst cover.simps) (simp add: Let_def)
  qed
qed

section \<open>Properties\<close>

lemma tenant_edges_sym: "sym (set (link_edges db org net grp))"
  by (auto simp: link_edges_def sym_def)

text \<open>
  C8. The search builds a spanning forest of the fabric whatever its shape: every
  device has an entry; an entry that is no root is a link to another visited node, and
  a rank falls along the entries, so there is no cycle; and two roots are never joined
  by links.
\<close>

theorem spanning_forest_correct:
  assumes "'''' \<notin> set ids" and "spanning_forest (link_edges db org net grp) ids hinted = (r, par)"
  shows "set ids \<subseteq> dom par \<and> forest (link_edges db org net grp) par \<and> separate (link_edges db org net grp) par"
proof -
  let ?es = "link_edges db org net grp"
  define par0 where "par0 = (if r = '''' then Map.empty else bfs ?es r Map.empty)"
  have par: "par = cover ?es ids par0" using assms(2) by (auto simp: spanning_forest_def Let_def par0_def)
  have e: "forest ?es Map.empty" "closed_but ?es {} Map.empty" "separate ?es Map.empty"
    by (simp_all add: forest_def closed_but_def separate_def roots_def)
  have "forest ?es par0 \<and> closed_but ?es {} par0"
    using bfs_forest [OF e(1,2)] e by (simp add: par0_def)
  moreover have "separate ?es par0"
    using bfs_separate [OF e(3,2) _ tenant_edges_sym] e by (simp add: par0_def)
  ultimately show ?thesis
    unfolding par using cover_forest cover_separate tenant_edges_sym cover_all [OF assms(1)] by blast
qed

text \<open>A ring of three switches with a fourth on one of them.\<close>

definition fabric_db :: db where
  "fabric_db = empty_db\<lparr>devices := map (\<lambda>i. sample_device i (i @ ''-sw'')) [''a'', ''b'', ''c'', ''d''],
     topology_links := map (\<lambda>(i, a, b). \<lparr>l_id = i, l_layer = ''network'', l_src_device_id = a, l_src_port_name = ''1'',
       l_src_interface_id = None, l_dst_device_id = b, l_dst_port_name = ''2'', l_dst_interface_id = None, l_link_speed_mbps = None,
       l_link_type = None, l_protocol = ''lldp'', l_relation = ''peer'', l_is_active = True, l_updated_at = 1\<rparr>)
     [(''l1'', ''a'', ''b''), (''l2'', ''b'', ''c''), (''l3'', ''c'', ''a''), (''l4'', ''b'', ''d'')]\<rparr>"

theorem spanning_forest_correct_witness:
  "map (snd (spanning_forest (link_edges fabric_db ''o'' ''n'' ''g'') [''a'', ''b'', ''c'', ''d''] ''''))
     [''a'', ''b'', ''c'', ''d''] = [Some ''b'', Some '''', Some ''b'', Some ''b'']
   \<and> forest (link_edges fabric_db ''o'' ''n'' ''g'')
       (snd (spanning_forest (link_edges fabric_db ''o'' ''n'' ''g'') [''a'', ''b'', ''c'', ''d''] ''''))"
proof
  show "forest (link_edges fabric_db ''o'' ''n'' ''g'')
       (snd (spanning_forest (link_edges fabric_db ''o'' ''n'' ''g'') [''a'', ''b'', ''c'', ''d''] ''''))"
    using spanning_forest_correct [of "[''a'', ''b'', ''c'', ''d'']" fabric_db "''o''" "''n''" "''g''" "''''"
        "fst (spanning_forest (link_edges fabric_db ''o'' ''n'' ''g'') [''a'', ''b'', ''c'', ''d''] '''')"
        "snd (spanning_forest (link_edges fabric_db ''o'' ''n'' ''g'') [''a'', ''b'', ''c'', ''d''] '''')"]
    by simp
qed code_simp

text \<open>
  What the recomputation leaves in a link row: \<open>downlink\<close> from a parent to its
  child, \<open>uplink\<close> from a child to its parent, \<open>peer\<close> for every other row of the tenant,
  and rows of other tenants as they were.
\<close>

theorem relation_written:
  "map l_relation (write_tree now tenant te ls) =
     map (\<lambda>l. if (l_dst_device_id l, l_src_device_id l) \<in> set te then ''downlink''
              else if (l_src_device_id l, l_dst_device_id l) \<in> set te then ''uplink''
              else if tenant l then ''peer'' else l_relation l) ls"
  by (auto simp: write_tree_def Let_def set_relation_def)

lemma tenant_only_links:
  "tenant_devices (db\<lparr>topology_links := ls\<rparr>) org net grp = tenant_devices db org net grp"
  by (simp add: tenant_devices_def)

lemma write_tree_keys:
  "map (\<lambda>l. (l_layer l, l_src_device_id l, l_dst_device_id l)) (write_tree now tenant te ls) =
     map (\<lambda>l. (l_layer l, l_src_device_id l, l_dst_device_id l)) ls"
  by (simp add: write_tree_def Let_def set_relation_def)

lemma link_edges_keys:
  assumes "map (\<lambda>l. (l_layer l, l_src_device_id l, l_dst_device_id l)) ls =
     map (\<lambda>l. (l_layer l, l_src_device_id l, l_dst_device_id l)) (topology_links db)"
  shows "link_edges (db\<lparr>topology_links := ls\<rparr>) org net grp = link_edges db org net grp"
proof -
  define D where "D = d_id ` set (tenant_devices db org net grp)"
  have e: "link_edges (db\<lparr>topology_links := xs\<rparr>) org net grp = concat (map (\<lambda>(_, s, d). [(s, d), (d, s)])
      (filter (\<lambda>(y, s, d). y = ''network'' \<and> s \<in> D) (map (\<lambda>l. (l_layer l, l_src_device_id l, l_dst_device_id l)) xs)))" for xs
    by (simp add: link_edges_def tenant_only_links D_def filter_map comp_def)
  show ?thesis using e [of ls] e [of "topology_links db"] assms by simp
qed

text \<open>The three statements seen on one row.\<close>

definition tree_mark :: "int \<Rightarrow> (link_row \<Rightarrow> bool) \<Rightarrow> (string \<times> string) list \<Rightarrow> link_row \<Rightarrow> link_row" where
  "tree_mark now tenant te l =
     set_relation now (\<lambda>l. (l_dst_device_id l, l_src_device_id l) \<in> set te) ''downlink''
       (set_relation now (\<lambda>l. (l_src_device_id l, l_dst_device_id l) \<in> set te) ''uplink'' (set_relation now tenant ''peer'' l))"

lemma write_tree_mark: "write_tree now tenant te ls = map (tree_mark now tenant te) ls"
  by (auto simp: write_tree_def Let_def tree_mark_def set_relation_def)

lemma mark_simps [simp]:
  "l_src_device_id (tree_mark now t te l) = l_src_device_id l" "l_dst_device_id (tree_mark now t te l) = l_dst_device_id l"
  "src_in S (tree_mark now t te l) = src_in S l"
  by (simp_all add: tree_mark_def set_relation_def src_in_def)

lemma mark_relation:
  "l_relation (tree_mark now (src_in S) te l) =
     (if (l_dst_device_id l, l_src_device_id l) \<in> set te then ''downlink''
      else if (l_src_device_id l, l_dst_device_id l) \<in> set te then ''uplink''
      else if src_in S l then ''peer'' else l_relation l)"
  using relation_written [of now "src_in S" te "[l]"] by (simp add: write_tree_mark)

lemma mark_again:
  "l_relation (tree_mark now2 (src_in S) te (tree_mark now1 (src_in S) te l)) = l_relation (tree_mark now1 (src_in S) te l)"
  by (simp add: mark_relation)

lemma mark_stamps:
  assumes "l_relation (tree_mark now2 (src_in S) te (tree_mark now1 (src_in S) te l)) \<noteq> ''peer''" and "src_in S l"
  shows "l_updated_at (tree_mark now2 (src_in S) te (tree_mark now1 (src_in S) te l)) = now2"
proof -
  define m where "m = tree_mark now1 (src_in S) te l"
  have "l_relation m \<noteq> ''peer''" "src_in S m" using assms by (simp_all add: mark_again m_def)
  then have "l_updated_at (tree_mark now2 (src_in S) te m) = now2" by (simp add: tree_mark_def set_relation_def)
  then show ?thesis by (simp add: m_def)
qed

text \<open>
  A settled tree is stamped again by every recomputation: a second run changes no
  relation, and still every row of the tree carries the time of the second run, because
  all rows are reset to \<open>peer\<close> before the tree is marked. The guards that should keep
  the change cursor of the forwarder quiet have no effect.
\<close>

theorem settled_tree_is_restamped:
  "let db1 = snd (snd (RecomputeHierarchy now1 org net grp hint db));
       db2 = snd (snd (RecomputeHierarchy now2 org net grp hint db1))
   in map l_relation (topology_links db2) = map l_relation (topology_links db1)
    \<and> {l_updated_at l | l. l \<in> set (topology_links db2) \<and> l_src_device_id l \<in> d_id ` set (tenant_devices db org net grp)
         \<and> l_relation l \<noteq> ''peer''} \<subseteq> {now2}"
proof -
  define ds where "ds = tenant_devices db org net grp"
  define ids where "ids = sort (map d_id ds)"
  define te where "te = tree_edges ids (snd (spanning_forest (link_edges db org net grp) ids (hinted_root hint ds)))"
  let ?w = "\<lambda>now. write_tree now (src_in (set ids)) te"
  show ?thesis
  proof (cases "ds = []")
    case True
    then show ?thesis by (simp add: RecomputeHierarchy_def Let_def ds_def)
  next
    case False
    have one: "snd (snd (RecomputeHierarchy now1 org net grp hint db)) = db\<lparr>topology_links := ?w now1 (topology_links db)\<rparr>"
      using False by (simp add: RecomputeHierarchy_def Let_def ds_def [symmetric] ids_def [symmetric] te_def split: prod.split)
    let ?db1 = "db\<lparr>topology_links := ?w now1 (topology_links db)\<rparr>"
    have "link_edges ?db1 org net grp = link_edges db org net grp"
      by (rule link_edges_keys) (rule write_tree_keys)
    then have two: "snd (snd (RecomputeHierarchy now2 org net grp hint ?db1)) =
        ?db1\<lparr>topology_links := ?w now2 (?w now1 (topology_links db))\<rparr>"
      using False by (simp add: RecomputeHierarchy_def Let_def tenant_only_links ds_def [symmetric] ids_def [symmetric] te_def split: prod.split)
    have "map l_relation (?w now2 (?w now1 (topology_links db))) = map l_relation (?w now1 (topology_links db))"
      by (simp add: write_tree_mark mark_again)
    moreover have "{l_updated_at l | l. l \<in> set (?w now2 (?w now1 (topology_links db))) \<and> src_in (set ids) l
        \<and> l_relation l \<noteq> ''peer''} \<subseteq> {now2}"
      by (auto simp: write_tree_mark mark_stamps)
    moreover have "set ids = d_id ` set ds" by (simp add: ids_def)
    ultimately show ?thesis unfolding Let_def one two by (simp add: ds_def src_in_def)
  qed
qed

end
