(* ===== verification/Classifier.thy ===== *)
theory Classifier
  imports Hierarchy Device_Store
begin

text \<open>
  The fabric role of a device, \<open>fwDCS/internal/store/classifier.go\<close>: three weighted
  signals, the best role with its confidence, and the update of the devices of a tenant.
  Host names and patterns are ASCII. Thresholds are the decimal numbers as written; for
  counts and weights below 2^20 the comparisons agree with those of binary64, since
  rounding is monotone and keeps distinct quotients of that size apart.
\<close>

section \<open>Patterns\<close>

text \<open>The constructs the default patterns use; \<open>ends\<close> are the positions a match may end at.\<close>

datatype regex =
    Lit string
  | Cls "char list"
  | Many "char list"
  | Bol
  | Eol
  | Then regex regex
  | Or regex regex
  | Opt regex

fun ends :: "regex \<Rightarrow> string \<Rightarrow> nat \<Rightarrow> nat list" where
  "ends (Lit w) s i = (if has_prefix (drop i s) w then [i + length w] else [])"
| "ends (Cls cs) s i = (case drop i s of c # _ \<Rightarrow> if c \<in> set cs then [Suc i] else [] | [] \<Rightarrow> [])"
| "ends (Many cs) s i = [i..<Suc (i + length (takeWhile (\<lambda>c. c \<in> set cs) (drop i s)))]"
| "ends Bol s i = (if i = 0 then [i] else [])"
| "ends Eol s i = (if i = length s then [i] else [])"
| "ends (Then a b) s i = concat (map (ends b s) (ends a s i))"
| "ends (Or a b) s i = ends a s i @ ends b s i"
| "ends (Opt a) s i = i # ends a s i"

definition MatchString :: "regex \<Rightarrow> string \<Rightarrow> bool" where
  "MatchString re s = list_ex (\<lambda>i. ends re s i \<noteq> []) [0..<Suc (length s)]"

definition digit_cls :: "char list" where "digit_cls = ''0123456789''"

definition after_sep :: "regex \<Rightarrow> regex" where
  "after_sep re = Then (Or Bol (Cls ''-_'')) re"

section \<open>Rules\<close>

record roleRules =
  hostPatterns :: "(string \<times> (string \<Rightarrow> bool) list) list"
  modelMap :: "(string \<times> string list) list"
  wHost :: int
  wModel :: int
  wNeighbor :: int
  thInferred :: rat
  thSuggested :: rat

definition default_patterns :: "(string \<times> regex list) list" where
  "default_patterns =
     [(''core'', [after_sep (Then (Lit ''core'') (Many digit_cls)), after_sep (Then (Lit ''cr'') (Cls digit_cls))]),
      (''spine'', [after_sep (Lit ''spine''), after_sep (Then (Lit ''sp'') (Cls digit_cls))]),
      (''leaf'', [after_sep (Lit ''leaf''), after_sep (Then (Lit ''lf'') (Cls digit_cls)),
                after_sep (Then (Lit ''tor'') (Or (Cls digit_cls) Eol))]),
      (''access'', [after_sep (Then (Lit ''acc'') (Then (Opt (Lit ''ess'')) (Many digit_cls))),
                  after_sep (Then (Lit ''a'') (Then (Opt (Lit ''-'')) (Lit ''sw'')))]),
      (''distribution'', [after_sep (Lit ''dist''), after_sep (Lit ''agg'')])]"

definition defaultRoleRules :: roleRules where
  "defaultRoleRules =
     \<lparr>hostPatterns = map (\<lambda>(role, res). (role, map MatchString res)) default_patterns,
      modelMap =
        [(''spine'', [''nexus 93'', ''nexus 96'', ''7050'', ''7060'', ''qfx5200'', ''ptx'']),
         (''core'', [''nexus 95'', ''nexus 77'', ''asr 9'', ''qfx10'', ''mx960'', ''mx480'']),
         (''leaf'', [''nexus 5'', ''93180'', ''qfx5100'', ''7020'', ''7010'']),
         (''access'', [''catalyst 9300'', ''catalyst 2960'', ''2930'', ''2540'', ''ex2300'', ''ex3300''])],
      wHost = 3, wModel = 2, wNeighbor = 3, thInferred = 3/5, thSuggested = 2/5\<rparr>"

text \<open>\<open>m[role]\<close> on a map of lists: nothing for a missing role.\<close>

definition list_at :: "(string \<times> 'a list) list \<Rightarrow> string \<Rightarrow> 'a list" where
  "list_at m k = (case map_of m k of Some xs \<Rightarrow> xs | None \<Rightarrow> [])"

record roleRulesFile =
  rf_HostPatterns :: "(string \<times> string list) list"
  rf_ModelMap :: "(string \<times> string list) list"
  rf_Hostname :: int
  rf_Model :: int
  rf_Neighbor :: int
  rf_Inferred :: rat
  rf_Suggested :: rat

datatype rules_error = NoFile | BadYaml | BadPattern string string

fun compile_role :: "(string \<Rightarrow> (string \<Rightarrow> bool) option) \<Rightarrow> string \<Rightarrow> string list \<Rightarrow> rules_error + (string \<Rightarrow> bool) list" where
  "compile_role compile role [] = Inr []"
| "compile_role compile role (p # ps) =
     (case compile p of
        None \<Rightarrow> Inl (BadPattern p role)
      | Some re \<Rightarrow> (case compile_role compile role ps of Inl e \<Rightarrow> Inl e | Inr res \<Rightarrow> Inr (re # res)))"

fun compile_all ::
  "(string \<Rightarrow> (string \<Rightarrow> bool) option) \<Rightarrow> (string \<times> string list) list \<Rightarrow> rules_error + (string \<times> (string \<Rightarrow> bool) list) list" where
  "compile_all compile [] = Inr []"
| "compile_all compile ((role, ps) # m) =
     (case compile_role compile role ps of
        Inl e \<Rightarrow> Inl e
      | Inr res \<Rightarrow> (case compile_all compile m of Inl e \<Rightarrow> Inl e | Inr out \<Rightarrow> Inr ((role, res) # out)))"

definition with_knobs :: "roleRulesFile \<Rightarrow> roleRules \<Rightarrow> roleRules" where
  "with_knobs f r =
     r\<lparr>modelMap := (if rf_ModelMap f \<noteq> [] then rf_ModelMap f else modelMap r),
       wHost := (if rf_Hostname f > 0 then rf_Hostname f else wHost r),
       wModel := (if rf_Model f > 0 then rf_Model f else wModel r),
       wNeighbor := (if rf_Neighbor f > 0 then rf_Neighbor f else wNeighbor r),
       thInferred := (if rf_Inferred f > 0 then rf_Inferred f else thInferred r),
       thSuggested := (if rf_Suggested f > 0 then rf_Suggested f else thSuggested r)\<rparr>"

text \<open>\<open>file\<close>: what reading and decoding gave; \<open>compile\<close>: the regular expression compiler.\<close>

definition LoadRoleRules ::
  "(string \<Rightarrow> (string \<Rightarrow> bool) option) \<Rightarrow> rules_error + roleRulesFile \<Rightarrow> rules_error + roleRules" where
  "LoadRoleRules compile file =
     (case file of
        Inl e \<Rightarrow> Inl e
      | Inr f \<Rightarrow>
          if rf_HostPatterns f = [] then Inr (with_knobs f defaultRoleRules)
          else (case compile_all compile (rf_HostPatterns f) of
                  Inl e \<Rightarrow> Inl e
                | Inr compiled \<Rightarrow> Inr (with_knobs f (defaultRoleRules\<lparr>hostPatterns := compiled\<rparr>))))"

section \<open>Scoring\<close>

record roleResult =
  ro_role :: string
  ro_confidence :: rat
  ro_source :: string
  ro_signals :: "string list"

definition fixed_roles :: "string list" where
  "fixed_roles = [''firewall'', ''load_balancer'', ''server'', ''oob_switch'', ''ups'', ''pdu'', ''floor_pdu'', ''sensor'',
     ''energy_monitor'', ''crah'', ''chiller'', ''pump'', ''cooling_tower'', ''valve'']"

definition typeToRole :: "string \<Rightarrow> string \<times> bool" where
  "typeToRole dt =
     (if dt = ''switch'' then ('''', True)
      else if dt = ''router'' then (''edge_router'', False)
      else if dt \<in> set fixed_roles then (dt, False)
      else (''unclassified'', False))"

definition roleOrder :: "string list" where
  "roleOrder = [''core'', ''spine'', ''leaf'', ''distribution'', ''access'']"

text \<open>One call of \<open>add\<close>: role, weight, tag.\<close>

type_synonym signal = "string \<times> int \<times> string"

definition score :: "signal list \<Rightarrow> string \<Rightarrow> int" where
  "score adds role = sum_list (map (\<lambda>(r, w, _). if r = role then w else 0) adds)"

definition host_signals :: "roleRules \<Rightarrow> string \<Rightarrow> signal list" where
  "host_signals r hostname =
     (let hl = to_lower hostname
      in concat (map (\<lambda>role. if list_ex (\<lambda>re. re hl) (list_at (hostPatterns r) role)
                            then [(role, wHost r, ''hostname:'' @ role)] else []) roleOrder))"

definition model_signals :: "roleRules \<Rightarrow> string \<Rightarrow> string \<Rightarrow> signal list" where
  "model_signals r model descr =
     (let ml = to_lower (model @ '' '' @ descr)
      in concat (map (\<lambda>role. if list_ex (\<lambda>sub. sub \<noteq> '''' \<and> contains_str ml sub) (list_at (modelMap r) role)
                            then [(role, wModel r, ''model:'' @ role)] else []) roleOrder))"

definition neighbour_signals :: "roleRules \<Rightarrow> (string \<Rightarrow> nat) \<Rightarrow> nat \<Rightarrow> signal list" where
  "neighbour_signals r nb cnt =
     (let switches = nb ''switch''; servers = nb ''server''; endpoints = nb ''workstation'' + nb ''ap'';
          uplinkers = nb ''router'' + nb ''firewall'' + nb ''load_balancer'';
          ratio = (\<lambda>n. of_nat n / (of_nat cnt :: rat))
      in if cnt > 0 then
           (if ratio switches > 17/20 then [(''spine'', wNeighbor r, ''lldp:spine'')] else [])
           @ (if ratio servers > 1/2 then [(''leaf'', wNeighbor r, ''lldp:leaf'')] else [])
           @ (if ratio endpoints > 1/2 then [(''access'', wNeighbor r, ''lldp:access'')] else [])
           @ (if cnt \<ge> 16 \<and> ratio switches > 7/10 then [(''spine'', 2, ''lldp:spine-fanout'')] else [])
           @ (if cnt \<le> 4 then [(''access'', 2, ''lldp:access-small'')] else [])
           @ (if switches \<ge> 2 \<and> servers \<ge> 4 then [(''leaf'', 2, ''lldp:tor'')] else [])
           @ (if uplinkers \<ge> 1 \<and> switches \<ge> 1 then [(''core'', 2, ''lldp:core-uplink'')] else [])
         else [])"

definition signals_of :: "roleRules \<Rightarrow> string \<Rightarrow> string \<Rightarrow> string \<Rightarrow> (string \<Rightarrow> nat) \<Rightarrow> nat \<Rightarrow> signal list" where
  "signals_of r hostname model descr nb cnt =
     host_signals r hostname @ model_signals r model descr @ neighbour_signals r nb cnt"

definition host_role :: "roleRules \<Rightarrow> string \<Rightarrow> string" where
  "host_role r hostname = (case host_signals r hostname of [] \<Rightarrow> '''' | (role, _) # _ \<Rightarrow> role)"

text \<open>The loop over \<open>roleOrder\<close> with its strict comparison.\<close>

fun argmax :: "(string \<Rightarrow> int) \<Rightarrow> string list \<Rightarrow> string \<times> int \<Rightarrow> string \<times> int" where
  "argmax f [] acc = acc"
| "argmax f (x # xs) acc = argmax f xs (if f x > snd acc then (x, f x) else acc)"

definition classifySwitch :: "string \<Rightarrow> string \<Rightarrow> string \<Rightarrow> (string \<Rightarrow> nat) \<Rightarrow> nat \<Rightarrow> roleRules \<Rightarrow> roleResult" where
  "classifySwitch hostname model descr nb cnt r =
     (let adds = signals_of r hostname model descr nb cnt;
          total_score = sum_list (map (\<lambda>(_, w, _). w) adds); tags = map (\<lambda>(_, _, t). t) adds
      in if total_score = 0
         then \<lparr>ro_role = ''unclassified'', ro_confidence = 0, ro_source = ''unclassified'', ro_signals = tags\<rparr>
         else case argmax (score adds) roleOrder ('''', -1) of
           (b, bestScore) \<Rightarrow>
             let hostRole = host_role r hostname;
                 best = (if hostRole \<noteq> '''' \<and> score adds hostRole = bestScore then hostRole else b);
                 conf = of_int bestScore / of_int total_score;
                 src = (if conf \<ge> thInferred r then ''inferred'' else if conf \<ge> thSuggested r then ''suggested'' else ''unclassified'')
             in \<lparr>ro_role = (if src = ''unclassified'' then ''unclassified'' else best),
                 ro_confidence = conf, ro_source = src, ro_signals = tags\<rparr>)"

section \<open>The devices of a tenant\<close>

definition type_by_id :: "device_row list \<Rightarrow> string \<Rightarrow> string" where
  "type_by_id ds i = (case find (\<lambda>d. d_id d = i) (rev ds) of Some d \<Rightarrow> d_device_type d | None \<Rightarrow> '''')"

definition role_of :: "roleRules \<Rightarrow> (string \<times> string) list \<Rightarrow> device_row list \<Rightarrow> device_row \<Rightarrow> roleResult" where
  "role_of r es ds d =
     (let res =
        (case typeToRole (d_device_type d) of
           (role, isSwitch) \<Rightarrow>
             if isSwitch
             then let nbs = neighbours es (d_id d); types = map (type_by_id ds) nbs
                  in classifySwitch (d_hostname d) (coalesce_val (d_model_name d) '''') (coalesce_val (d_sys_description d) '''')
                       (count_list types) (length nbs) r
             else \<lparr>ro_role = role, ro_confidence = 1, ro_source = ''inferred'', ro_signals = []\<rparr>)
      in if (ro_role res = '''' \<or> ro_role res = ''unclassified'') \<and> d_device_type d \<noteq> ''''
         then res\<lparr>ro_role := d_device_type d, ro_source := ''device_type'',
                  ro_confidence := (if ro_confidence res = 0 then 1 else ro_confidence res)\<rparr>
         else res)"

text \<open>The rows of \<open>unnest\<close> that match, and the guarded update of one row.\<close>

definition role_row :: "(string \<times> roleResult) list \<Rightarrow> device_row \<Rightarrow> roleResult option" where
  "role_row vs d =
     (case map_of vs (d_id d) of
        None \<Rightarrow> None
      | Some v \<Rightarrow> if \<not> d_role_overridden d \<and> (d_device_role d \<noteq> Some (ro_role v) \<or> d_role_source d \<noteq> Some (ro_source v))
                  then Some v else None)"

definition write_role :: "(rat \<Rightarrow> rat) \<Rightarrow> int \<Rightarrow> (string \<times> roleResult) list \<Rightarrow> device_row \<Rightarrow> device_row" where
  "write_role real4 now vs d =
     (case role_row vs d of
        None \<Rightarrow> d
      | Some v \<Rightarrow> d\<lparr>d_device_role := Some (ro_role v), d_role_confidence := Some (real4 (ro_confidence v)),
                    d_role_source := Some (ro_source v), d_updated_at := now\<rparr>)"

text \<open>
  \<open>ok\<close>: the device query, the link query and the update succeed; \<open>real4\<close>: the cast to a
  four-byte float of the server.
\<close>

definition ClassifyRoles ::
  "bool \<times> bool \<times> bool \<Rightarrow> (rat \<Rightarrow> rat) \<Rightarrow> roleRules \<Rightarrow> int \<Rightarrow> string \<Rightarrow> string \<Rightarrow> string \<Rightarrow> db \<Rightarrow> (db_error + nat) \<times> db" where
  "ClassifyRoles ok real4 r now org net grp db =
     (case ok of (okDevs, okLinks, okSave) \<Rightarrow>
        let ds = tenant_devices db org net grp; es = link_edges db org net grp
        in if \<not> okDevs then (Inl ErrIO, db)
           else if ds = [] then (Inr 0, db)
           else if \<not> okLinks then (Inl ErrIO, db)
           else let vs = map (\<lambda>d. (d_id d, role_of r es ds d)) ds
                in if \<not> okSave then (Inl ErrIO, db)
                   else (Inr (length (filter (\<lambda>d. role_row vs d \<noteq> None) (devices db))),
                         db\<lparr>devices := map (write_role real4 now vs) (devices db)\<rparr>))"

section \<open>The best role\<close>

lemma argmax_spec:
  assumes "argmax f xs acc = (b, s)"
  shows "snd acc \<le> s \<and> list_all (\<lambda>x. f x \<le> s) xs
    \<and> (acc = (b, s) \<or> b \<in> set xs \<and> s = f b \<and> snd acc < s \<and> list_all (\<lambda>x. f x < s) (takeWhile (\<lambda>x. x \<noteq> b) xs))"
  using assms
proof (induction xs arbitrary: acc)
  case (Cons x xs)
  then have "argmax f xs (if f x > snd acc then (x, f x) else acc) = (b, s)" by simp
  from Cons.IH [OF this] show ?case by (auto split: if_splits)
qed auto

lemma roles_of_signals:
  "set (map fst (signals_of r hostname model descr nb cnt)) \<subseteq> set roleOrder"
  by (auto simp: signals_of_def host_signals_def model_signals_def neighbour_signals_def roleOrder_def Let_def split: if_splits)

lemma score_Cons [simp]: "score ((r, w, t) # adds) x = (if r = x then w else 0) + score adds x"
  by (simp add: score_def)

lemma sum_delta_list: "distinct xs \<Longrightarrow> (\<Sum>y\<leftarrow>xs. if x = y then w else 0) = (if x \<in> set xs then w else (0 :: int))"
  by (induction xs) auto

lemma sum_scores:
  assumes "set (map fst adds) \<subseteq> set roles" and "distinct roles"
  shows "sum_list (map (score adds) roles) = sum_list (map (\<lambda>(_, w, _). w) adds)"
  using assms(1)
proof (induction adds)
  case Nil
  show ?case by (simp add: score_def)
next
  case (Cons a adds)
  obtain x w t where a: "a = (x, w, t)" by (cases a) auto
  have "x \<in> set roles" using Cons.prems a by simp
  then have "sum_list (map (\<lambda>y. if x = y then w else 0) roles) = w"
    using assms(2) by (simp add: sum_delta_list)
  then show ?case using Cons a by (simp add: sum_list_addf)
qed

lemma weights_pos:
  assumes "0 < wHost r" and "0 < wModel r" and "0 < wNeighbor r"
  shows "list_all (\<lambda>(_, w, _). 0 < w) (signals_of r hostname model descr nb cnt)"
  using assms by (auto simp: signals_of_def host_signals_def model_signals_def neighbour_signals_def list_all_iff Let_def split: if_splits)

lemma score_nonneg: "list_all (\<lambda>(_, w, _). 0 < w) adds \<Longrightarrow> 0 \<le> score adds x"
  by (induction adds) (auto simp: score_def)

lemma weights_sum_pos: "list_all (\<lambda>(_, w, _). 0 < w) (adds :: signal list) \<Longrightarrow> adds \<noteq> [] \<Longrightarrow> 0 < sum_list (map (\<lambda>(_, w, _). w) adds)"
proof (induction adds)
  case (Cons a adds)
  then show ?case by (cases "adds = []") (auto simp: add_pos_pos)
qed simp

lemma host_role_in: "host_role r hostname \<noteq> '''' \<Longrightarrow> host_role r hostname \<in> set roleOrder"
  by (auto simp: host_role_def host_signals_def roleOrder_def Let_def split: list.splits if_splits)

text \<open>The two equations of \<open>classifySwitch\<close> for positive weights.\<close>

lemma classify_none:
  "signals_of r hostname model descr nb cnt = [] \<Longrightarrow>
     classifySwitch hostname model descr nb cnt r =
       \<lparr>ro_role = ''unclassified'', ro_confidence = 0, ro_source = ''unclassified'', ro_signals = []\<rparr>"
  by (simp add: classifySwitch_def)

lemma classify_some:
  assumes "0 < wHost r" and "0 < wModel r" and "0 < wNeighbor r"
    and "adds = signals_of r hostname model descr nb cnt" and "adds \<noteq> []"
    and "argmax (score adds) roleOrder ('''', -1) = (b, m)"
  shows "0 < m" and "m \<le> sum_list (map (score adds) roleOrder)" and "sum_list (map (score adds) roleOrder) \<le> 5 * m"
    and "list_all (\<lambda>x. score adds x \<le> m) roleOrder"
    and "b \<in> set roleOrder" and "score adds b = m" and "list_all (\<lambda>x. score adds x < m) (takeWhile (\<lambda>x. x \<noteq> b) roleOrder)"
    and "sum_list (map (\<lambda>(_, w, _). w) adds) = sum_list (map (score adds) roleOrder)"
proof -
  have pos: "list_all (\<lambda>(_, w, _). 0 < w) adds" using weights_pos assms by blast
  have s: "sum_list (map (score adds) roleOrder) = sum_list (map (\<lambda>(_, w, _). w) adds)"
    by (rule sum_scores) (use roles_of_signals assms(4) in \<open>auto simp: roleOrder_def\<close>)
  then have gt: "0 < sum_list (map (score adds) roleOrder)" using weights_sum_pos [OF pos assms(5)] by simp
  note am = argmax_spec [OF assms(6)]
  have le: "list_all (\<lambda>x. score adds x \<le> m) roleOrder" using am by simp
  show "sum_list (map (score adds) roleOrder) \<le> 5 * m" using le by (simp add: roleOrder_def)
  then show m: "0 < m" using gt by linarith
  show "list_all (\<lambda>x. score adds x \<le> m) roleOrder" by (rule le)
  have "(b, m) \<noteq> ('''', -1)" using m by auto
  then have "b \<in> set roleOrder \<and> m = score adds b \<and> list_all (\<lambda>x. score adds x < m) (takeWhile (\<lambda>x. x \<noteq> b) roleOrder)"
    using am by auto
  then show b: "b \<in> set roleOrder" and "score adds b = m"
    and "list_all (\<lambda>x. score adds x < m) (takeWhile (\<lambda>x. x \<noteq> b) roleOrder)" by auto
  then show "m \<le> sum_list (map (score adds) roleOrder)"
    using score_nonneg [OF pos, of "''core''"] score_nonneg [OF pos, of "''spine''"] score_nonneg [OF pos, of "''leaf''"]
      score_nonneg [OF pos, of "''distribution''"] score_nonneg [OF pos, of "''access''"]
    by (auto simp: roleOrder_def)
  show "sum_list (map (\<lambda>(_, w, _). w) adds) = sum_list (map (score adds) roleOrder)" by (simp add: s)
qed

text \<open>
  C22. The score of a fabric switch: with positive weights the role is one of the highest
  score, the host name's own role when that is among them and otherwise the first in
  the fixed order; the confidence is the share of that score in all scores, never below
  a fifth; above a half (every inferred role of the default rules) no other role scores as
  much; and below both thresholds the device stays unclassified.
\<close>

theorem classifySwitch_correct:
  assumes "0 < wHost r" and "0 < wModel r" and "0 < wNeighbor r"
    and "adds = signals_of r hostname model descr nb cnt" and "res = classifySwitch hostname model descr nb cnt r"
  shows "if adds = [] then ro_role res = ''unclassified'' \<and> ro_confidence res = 0
    else \<exists>best. best \<in> set roleOrder \<and> list_all (\<lambda>x. score adds x \<le> score adds best) roleOrder
      \<and> (if host_role r hostname \<noteq> '''' \<and> score adds (host_role r hostname) = score adds best then best = host_role r hostname
         else list_all (\<lambda>x. score adds x < score adds best) (takeWhile (\<lambda>x. x \<noteq> best) roleOrder))
      \<and> ro_confidence res = of_int (score adds best) / of_int (sum_list (map (score adds) roleOrder))
      \<and> 1/5 \<le> ro_confidence res \<and> ro_confidence res \<le> 1
      \<and> (1/2 < ro_confidence res \<longrightarrow> list_all (\<lambda>x. x = best \<or> score adds x < score adds best) roleOrder)
      \<and> ro_source res = (if thInferred r \<le> ro_confidence res then ''inferred''
                         else if thSuggested r \<le> ro_confidence res then ''suggested'' else ''unclassified'')
      \<and> ro_role res = (if ro_source res = ''unclassified'' then ''unclassified'' else best)"
proof (cases "adds = []")
  case True
  then show ?thesis using assms classify_none by simp
next
  case False
  obtain b m where am: "argmax (score adds) roleOrder ('''', -1) = (b, m)" by fastforce
  note c = classify_some [OF assms(1-4) False am]
  define h where "h = host_role r hostname"
  define best where "best = (if h \<noteq> '''' \<and> score adds h = m then h else b)"
  define T where "T = sum_list (map (score adds) roleOrder)"
  have sb: "score adds best = m" using c(6) by (simp add: best_def)
  have "best \<in> set roleOrder" using c(5) host_role_in h_def by (simp add: best_def)
  moreover have "0 < T" "m \<le> T" "T \<le> 5 * m" using c(1-3) by (simp_all add: T_def)
  then have "0 < rat_of_int T" "rat_of_int m \<le> rat_of_int T" "rat_of_int T \<le> rat_of_int (5 * m)" by simp_all
  then have "1/5 \<le> (of_int m :: rat) / of_int T" "(of_int m :: rat) / of_int T \<le> 1" by (simp_all add: divide_simps)
  moreover have "list_all (\<lambda>x. x = best \<or> score adds x < m) roleOrder" if "1/2 < (of_int m :: rat) / of_int T"
  proof -
    have pos: "0 \<le> score adds x" for x using score_nonneg weights_pos assms(1-4) by blast
    have "rat_of_int T < rat_of_int (2 * m)" using that \<open>0 < T\<close> by (simp add: divide_simps)
    then have "T < 2 * m" by linarith
    then show ?thesis
      using \<open>best \<in> set roleOrder\<close> sb pos [of "''core''"] pos [of "''spine''"] pos [of "''leaf''"] pos [of "''distribution''"]
        pos [of "''access''"] by (auto simp: T_def roleOrder_def)
  qed
  moreover define q where "q = (of_int m / of_int T :: rat)"
  moreover define src where "src = (if thInferred r \<le> q then ''inferred'' else if thSuggested r \<le> q then ''suggested'' else ''unclassified'')"
  moreover have res: "res = \<lparr>ro_role = (if src = ''unclassified'' then ''unclassified'' else best),
      ro_confidence = q, ro_source = src, ro_signals = map (\<lambda>(_, _, t). t) adds\<rparr>"
    using c(1-3,8) am by (simp add: assms(5) classifySwitch_def Let_def best_def T_def h_def q_def src_def flip: assms(4))
  ultimately show ?thesis
    unfolding if_not_P [OF False] res roleResult.simps T_def [symmetric] h_def [symmetric] sb
    by (intro exI [of _ best] conjI) (use sb c(4,7) in \<open>simp_all add: best_def\<close>)
qed

theorem classifySwitch_correct_witness:
  "1/5 \<le> ro_confidence (classifySwitch ''DC1-LF1'' '''' '''' (\<lambda>t. if t = ''switch'' then 2 else 0) 2 defaultRoleRules)"
proof -
  have "signals_of defaultRoleRules ''DC1-LF1'' '''' '''' (\<lambda>t. if t = ''switch'' then 2 else 0) 2 \<noteq> []"
    by (simp add: signals_of_def neighbour_signals_def Let_def)
  then show ?thesis
    using classifySwitch_correct [of defaultRoleRules _ "''DC1-LF1''" "''''" "''''" "\<lambda>t. if t = ''switch'' then 2 else 0" 2, OF _ _ _ refl refl]
    by (auto simp: defaultRoleRules_def simp del: One_nat_def)
qed

section \<open>Writing the roles\<close>

lemma write_role_keeps [simp]:
  "d_id (write_role f now vs d) = d_id d" "d_org_id (write_role f now vs d) = d_org_id d"
  "d_network_id (write_role f now vs d) = d_network_id d" "d_group_id (write_role f now vs d) = d_group_id d"
  "d_hostname (write_role f now vs d) = d_hostname d" "d_device_type (write_role f now vs d) = d_device_type d"
  "d_model_name (write_role f now vs d) = d_model_name d" "d_sys_description (write_role f now vs d) = d_sys_description d"
  "d_role_overridden (write_role f now vs d) = d_role_overridden d"
  "in_tenant org net grp (write_role f now vs d) = in_tenant org net grp d"
  by (simp_all add: write_role_def in_tenant_def split: option.split)

lemma tenant_write_role:
  "filter (in_tenant org net grp) (map (write_role f now vs) ds) = map (write_role f now vs) (filter (in_tenant org net grp) ds)"
  by (induction ds) simp_all

lemma role_of_write_role:
  "role_of r es (map (write_role f now vs) ds) (write_role f now vs d) = role_of r es ds d"
proof -
  have "type_by_id (map (write_role f now vs) ds) = type_by_id ds"
    by (rule ext) (simp add: type_by_id_def rev_map find_map comp_def option.case_eq_if option.map_sel)
  then show ?thesis unfolding role_of_def write_role_keeps by (rule ssubst) (rule refl)
qed

lemma role_row_written: "role_row vs (write_role f now vs d) = None"
  by (auto simp: role_row_def write_role_def split: option.splits if_splits)

definition wants_role :: "roleRules \<Rightarrow> string \<Rightarrow> string \<Rightarrow> string \<Rightarrow> db \<Rightarrow> device_row \<Rightarrow> bool" where
  "wants_role r org net grp db d \<longleftrightarrow> in_tenant org net grp d \<and> \<not> d_role_overridden d
     \<and> (let v = role_of r (link_edges db org net grp) (tenant_devices db org net grp) d
        in d_device_role d \<noteq> Some (ro_role v) \<or> d_role_source d \<noteq> Some (ro_source v))"

text \<open>
  C21. A successful run gives every device of the tenant the role its score and type call for,
  except the overridden ones; a row whose role and source stay the same is not touched, so
  it is not forwarded again; and the answer is the number of rows that changed.
\<close>

theorem ClassifyRoles_exact:
  assumes "distinct (map d_id (devices db))"
  shows "ClassifyRoles (True, True, True) real4 r now org net grp db =
    (Inr (length (filter (wants_role r org net grp db) (devices db))),
     db\<lparr>devices := map (\<lambda>d.
        if wants_role r org net grp db d
        then let v = role_of r (link_edges db org net grp) (tenant_devices db org net grp) d
             in d\<lparr>d_device_role := Some (ro_role v), d_role_confidence := Some (real4 (ro_confidence v)),
                  d_role_source := Some (ro_source v), d_updated_at := now\<rparr>
        else d) (devices db)\<rparr>)"
proof -
  define ds where "ds = tenant_devices db org net grp"
  define v where "v = (\<lambda>d. role_of r (link_edges db org net grp) ds d)"
  define vs where "vs = map (\<lambda>d. (d_id d, v d)) ds"
  have row: "role_row vs d = (if wants_role r org net grp db d then Some (v d) else None)" if "d \<in> set (devices db)" for d
  proof (cases "in_tenant org net grp d")
    case True
    have "map_of vs (d_id d) = Some (v d)"
      using find_distinct_key [where P = "in_tenant org net grp", OF assms that True] by (simp add: vs_def map_of_key_image ds_def tenant_devices_def)
    then show ?thesis using True by (auto simp: role_row_def wants_role_def v_def ds_def Let_def)
  next
    case False
    have "map_of vs (d_id d) = None"
      using find_filter_None [where P = "in_tenant org net grp", OF assms that False] by (simp add: vs_def map_of_key_image ds_def tenant_devices_def)
    then show ?thesis using False by (simp add: role_row_def wants_role_def)
  qed
  have w: "map (write_role real4 now vs) (devices db) = map (\<lambda>d. if wants_role r org net grp db d
        then let v = role_of r (link_edges db org net grp) (tenant_devices db org net grp) d
             in d\<lparr>d_device_role := Some (ro_role v), d_role_confidence := Some (real4 (ro_confidence v)),
                  d_role_source := Some (ro_source v), d_updated_at := now\<rparr> else d) (devices db)"
    by (rule map_cong) (simp_all add: write_role_def row v_def ds_def Let_def)
  have f: "filter (\<lambda>d. role_row vs d \<noteq> None) (devices db) = filter (wants_role r org net grp db) (devices db)"
    by (rule filter_cong) (simp_all add: row)
  have none: "filter (wants_role r org net grp db) (devices db) = []" if "ds = []"
    using that by (auto simp: ds_def tenant_devices_def wants_role_def filter_empty_conv)
  show ?thesis
  proof (cases "ds = []")
    case True
    then have "vs = []" by (simp add: vs_def)
    then have "map (write_role real4 now vs) (devices db) = devices db" by (simp add: write_role_def role_row_def map_idI)
    then show ?thesis using True none [OF True] w by (simp add: ClassifyRoles_def ds_def [symmetric] Let_def)
  next
    case False
    then show ?thesis using w f by (simp add: ClassifyRoles_def ds_def [symmetric] v_def [symmetric] vs_def [symmetric])
  qed
qed

text \<open>
  The classification settles: run again on its own result it changes no row, whatever the
  rules, the devices and the links are.
\<close>

theorem ClassifyRoles_settles:
  "ClassifyRoles (True, True, True) real4 r now2 org net grp (snd (ClassifyRoles (True, True, True) real4 r now1 org net grp db))
     = (Inr 0, snd (ClassifyRoles (True, True, True) real4 r now1 org net grp db))"
proof (cases "tenant_devices db org net grp = []")
  case True
  then show ?thesis by (simp add: ClassifyRoles_def Let_def)
next
  case False
  define ds where "ds = tenant_devices db org net grp"
  define vs where "vs = map (\<lambda>d. (d_id d, role_of r (link_edges db org net grp) ds d)) ds"
  define W where "W = write_role real4 now1 vs"
  define db1 where "db1 = db\<lparr>devices := map W (devices db)\<rparr>"
  have db1: "snd (ClassifyRoles (True, True, True) real4 r now1 org net grp db) = db1"
    using False by (simp add: ClassifyRoles_def Let_def db1_def W_def vs_def ds_def)
  have t: "tenant_devices db1 org net grp = map W ds"
    by (simp add: tenant_devices_def db1_def W_def ds_def tenant_write_role)
  have e: "link_edges db1 org net grp = link_edges db org net grp"
    by (simp add: link_edges_def t image_image W_def ds_def [symmetric]) (simp add: db1_def)
  have vs1: "map (\<lambda>d. (d_id d, role_of r (link_edges db1 org net grp) (map W ds) d)) (map W ds) = vs"
    unfolding e by (simp add: vs_def W_def role_of_write_role)
  have none: "role_row vs (W d) = None" for d unfolding W_def by (rule role_row_written)
  then have "write_role real4 now2 vs (W d) = W d" for d by (simp add: write_role_def)
  then have "map (write_role real4 now2 vs) (devices db1) = devices db1" by (simp add: db1_def)
  then have "db1\<lparr>devices := map (write_role real4 now2 vs) (devices db1)\<rparr> = db1" by simp
  moreover have "filter (\<lambda>d. role_row vs d \<noteq> None) (devices db1) = []" using none by (auto simp: db1_def filter_empty_conv)
  moreover have "map W ds \<noteq> []" using False by (simp add: ds_def)
  ultimately show ?thesis unfolding db1 unfolding ClassifyRoles_def Let_def t vs1 by simp
qed

theorem ClassifyRoles_exact_witness:
  "fst (ClassifyRoles (True, True, True) id defaultRoleRules 5 ''o'' ''n'' ''g'' fabric_db)
     = Inr (length (filter (wants_role defaultRoleRules ''o'' ''n'' ''g'' fabric_db) (devices fabric_db)))"
proof -
  have "distinct (map d_id (devices fabric_db))" by code_simp
  from ClassifyRoles_exact [OF this, of id defaultRoleRules 5 "''o''" "''n''" "''g''"] show ?thesis by simp
qed

text \<open>
  A leaf whose only known neighbours are a few switches gets no role by the default rules,
  whatever its host name says: the neighbour profile scores as much for a spine as the
  name does for a leaf, and the bonus for small devices brings both below the threshold.
\<close>

theorem small_leaf_has_no_role:
  assumes "host_signals defaultRoleRules h = [(''leaf'', 3, ''hostname:leaf'')]"
    and "model_signals defaultRoleRules model descr = []"
    and "nb = (\<lambda>t. if t = ''switch'' then n else 0)" and "0 < n" and "n \<le> 4"
  shows "classifySwitch h model descr nb n defaultRoleRules =
    \<lparr>ro_role = ''unclassified'', ro_confidence = 3/8, ro_source = ''unclassified'',
     ro_signals = [''hostname:leaf'', ''lldp:spine'', ''lldp:access-small'']\<rparr>"
proof -
  have "neighbour_signals defaultRoleRules nb n = [(''spine'', 3, ''lldp:spine''), (''access'', 2, ''lldp:access-small'')]"
    using assms(3-5) by (simp add: neighbour_signals_def defaultRoleRules_def Let_def)
  then have "signals_of defaultRoleRules h model descr nb n =
      [(''leaf'', 3, ''hostname:leaf''), (''spine'', 3, ''lldp:spine''), (''access'', 2, ''lldp:access-small'')]"
    using assms(1,2) by (simp add: signals_of_def)
  moreover have "host_role defaultRoleRules h = ''leaf''" using assms(1) by (simp add: host_role_def)
  moreover have "thInferred defaultRoleRules = 3/5" "thSuggested defaultRoleRules = 2/5" by (simp_all add: defaultRoleRules_def)
  ultimately show ?thesis by (simp add: classifySwitch_def score_def roleOrder_def Let_def)
qed

theorem small_leaf_has_no_role_witness:
  "ro_role (classifySwitch ''DC1-LF1'' ''Arista 7010'' '''' (\<lambda>t. if t = ''switch'' then 2 else 0) 2 defaultRoleRules) = ''leaf''
   \<and> ro_role (classifySwitch ''DC1-LF1'' ''DCS'' '''' (\<lambda>t. if t = ''switch'' then 2 else 0) 2 defaultRoleRules) = ''unclassified''"
proof -
  have h: "host_signals defaultRoleRules ''DC1-LF1'' = [(''leaf'', 3, ''hostname:leaf'')]"
    and m: "model_signals defaultRoleRules ''DCS'' '''' = []" by code_simp+
  have "ro_role (classifySwitch ''DC1-LF1'' ''Arista 7010'' '''' (\<lambda>t. if t = ''switch'' then 2 else 0) 2 defaultRoleRules) = ''leaf''"
    by code_simp
  then show ?thesis using small_leaf_has_no_role [OF h m refl, of 2] by simp
qed

end
