(* ===== verification/Snmp_Values.thy ===== *)
theory Snmp_Values
  imports Target Packet
begin

text \<open>
  What the SNMP collectors of the edge reader share: PDUs with the conversions of
  \<open>fwEDR/internal/snmp/client.go\<close> and \<open>metrics.go\<close>, object identifiers as dotted texts, the
  constants of \<open>mibs.go\<close>, and the address parser of Go's \<open>net\<close> package.
\<close>

section \<open>Texts\<close>

definition trim_prefix :: "string \<Rightarrow> string \<Rightarrow> string" where
  "trim_prefix s p = (if has_prefix s p then drop (length p) s else s)"

definition trim_suffix :: "string \<Rightarrow> string \<Rightarrow> string" where
  "trim_suffix s p = (if has_prefix (rev s) (rev p) then take (length s - length p) s else s)"

text \<open>\<open>strings.Split\<close> at a character.\<close>

fun split_on :: "char \<Rightarrow> string \<Rightarrow> string list" where
  "split_on c [] = [[]]"
| "split_on c (x # xs) =
     (if x = c then [] # split_on c xs
      else case split_on c xs of [] \<Rightarrow> [[x]] | f # fs \<Rightarrow> (x # f) # fs)"

definition dot :: char where "dot = CHR ''.''"

text \<open>Around the last dot: \<open>LastOIDComponent\<close> and \<open>OIDColumn\<close>.\<close>

definition LastOIDComponent :: "string \<Rightarrow> string" where
  "LastOIDComponent oid = rev (takeWhile (\<lambda>c. c \<noteq> dot) (rev oid))"

definition OIDColumn :: "string \<Rightarrow> string" where
  "OIDColumn oid =
     (if dot \<in> set oid then rev (drop 1 (dropWhile (\<lambda>c. c \<noteq> dot) (rev oid))) else oid)"

definition oidSuffix :: "string \<Rightarrow> string \<Rightarrow> string" where
  "oidSuffix pduName pfx =
     (let n = trim_prefix pduName ''.''; p = trim_prefix pfx ''.'' @ ''.''
      in if has_prefix n p then drop (length p) n else '''')"

definition ipSuffix :: "string \<Rightarrow> string \<Rightarrow> string" where
  "ipSuffix oidName columnPrefix =
     (let name = trim_prefix oidName ''.''; pfx = trim_prefix columnPrefix ''.'' @ ''.''
      in if \<not> has_prefix name pfx then '''' else trim_prefix name pfx)"

definition scalarCol :: "string \<Rightarrow> string \<Rightarrow> string" where
  "scalarCol oidName base =
     (let n = trim_prefix (trim_prefix oidName ''.'') (trim_prefix base ''.'' @ ''.'')
      in trim_suffix n ''.0'')"

section \<open>PDUs\<close>

datatype pdu_value = VNil | VInt int | VFloat rat | VStr string | VBytes string

datatype pdu_type = NoSuchObject | NoSuchInstance | EndOfMibView | NullType | OtherType

record SnmpPDU =
  pd_Name :: string
  pd_Type :: pdu_type
  pd_Value :: pdu_value

definition ToFloat64 :: "SnmpPDU \<Rightarrow> rat" where
  "ToFloat64 p = (case pd_Value p of VInt n \<Rightarrow> of_int n | VFloat r \<Rightarrow> r | _ \<Rightarrow> 0)"

text \<open>\<open>fmt\<close> renders a floating-point value as \<open>%v\<close> does.\<close>

definition PDUString :: "(rat \<Rightarrow> string) \<Rightarrow> SnmpPDU \<Rightarrow> string" where
  "PDUString fmt p =
     (case pd_Value p of VStr s \<Rightarrow> s | VBytes s \<Rightarrow> s | VNil \<Rightarrow> ''<nil>'' | VInt n \<Rightarrow> itoa n | VFloat r \<Rightarrow> fmt r)"

definition unanswered :: "SnmpPDU \<Rightarrow> bool" where
  "unanswered p \<longleftrightarrow> pd_Type p \<noteq> OtherType"

text \<open>\<open>int(f)\<close> for a value in the range of \<open>int\<close>.\<close>

definition trunc_rat :: "rat \<Rightarrow> int" where
  "trunc_rat r = (if 0 \<le> r then \<lfloor>r\<rfloor> else \<lceil>r\<rceil>)"

section \<open>Object identifiers\<close>

definition OIDSysDescr where "OIDSysDescr = ''1.3.6.1.2.1.1.1.0''"
definition OIDSysUpTime where "OIDSysUpTime = ''1.3.6.1.2.1.1.3.0''"
definition OIDSysName where "OIDSysName = ''1.3.6.1.2.1.1.5.0''"
definition OIDIfDescr where "OIDIfDescr = ''1.3.6.1.2.1.2.2.1.2''"
definition OIDIfName where "OIDIfName = ''1.3.6.1.2.1.31.1.1.1.1''"
definition OIDHrProcessorLoad where "OIDHrProcessorLoad = ''1.3.6.1.2.1.25.3.3.1.2''"
definition OIDHrStorageType where "OIDHrStorageType = ''1.3.6.1.2.1.25.2.3.1.2''"
definition OIDHrStorageDescr where "OIDHrStorageDescr = ''1.3.6.1.2.1.25.2.3.1.3''"
definition OIDHrStorageAllocUnits where "OIDHrStorageAllocUnits = ''1.3.6.1.2.1.25.2.3.1.4''"
definition OIDHrStorageSize where "OIDHrStorageSize = ''1.3.6.1.2.1.25.2.3.1.5''"
definition OIDHrStorageUsed where "OIDHrStorageUsed = ''1.3.6.1.2.1.25.2.3.1.6''"
definition OIDUpsBatteryTemperature where "OIDUpsBatteryTemperature = ''1.3.6.1.2.1.33.1.2.8.0''"
definition OIDUpsInputVoltage where "OIDUpsInputVoltage = ''1.3.6.1.2.1.33.1.3.3.1.3''"
definition OIDUpsOutputVoltage where "OIDUpsOutputVoltage = ''1.3.6.1.2.1.33.1.4.4.1.2''"
definition OIDUpsOutputCurrent where "OIDUpsOutputCurrent = ''1.3.6.1.2.1.33.1.4.4.1.3''"
definition OIDUpsOutputLoad where "OIDUpsOutputLoad = ''1.3.6.1.2.1.33.1.4.4.1.5''"
definition OIDRaritanSensorType where "OIDRaritanSensorType = ''1.3.6.1.4.1.13742.6.5.5.3.1.3''"
definition OIDRaritanSensorValue where "OIDRaritanSensorValue = ''1.3.6.1.4.1.13742.6.5.5.3.1.4''"
definition RaritanTypeTemp :: int where "RaritanTypeTemp = 10"
definition RaritanTypeHumidity :: int where "RaritanTypeHumidity = 11"
definition OIDVertivTempValue where "OIDVertivTempValue = ''1.3.6.1.4.1.21239.5.1.4.1.4''"
definition OIDVertivHumValue where "OIDVertivHumValue = ''1.3.6.1.4.1.21239.5.1.5.1.4''"
definition OIDVertivDewValue where "OIDVertivDewValue = ''1.3.6.1.4.1.21239.5.1.6.1.4''"
definition OIDAPCNetBotzLabel where "OIDAPCNetBotzLabel = ''1.3.6.1.4.1.318.1.1.10.4.2.2.1.2''"
definition OIDAPCNetBotzValue where "OIDAPCNetBotzValue = ''1.3.6.1.4.1.318.1.1.10.4.2.2.1.10''"
definition OIDEntPhySensorValue where "OIDEntPhySensorValue = ''1.3.6.1.2.1.99.1.1.1.4''"
definition OIDPDUBase where "OIDPDUBase = ''1.3.6.1.4.1.99999.5''"
definition OIDGeneratorBase where "OIDGeneratorBase = ''1.3.6.1.4.1.99999.7''"
definition OIDUPSEntBase where "OIDUPSEntBase = ''1.3.6.1.4.1.99999.4''"
definition OIDIpAdEntAddr where "OIDIpAdEntAddr = ''1.3.6.1.2.1.4.20.1.1''"
definition OIDIpAdEntIfIndex where "OIDIpAdEntIfIndex = ''1.3.6.1.2.1.4.20.1.2''"
definition OIDLLDPRemChassisId where "OIDLLDPRemChassisId = ''1.0.8802.1.1.2.1.4.1.1.5''"
definition OIDLLDPRemPortId where "OIDLLDPRemPortId = ''1.0.8802.1.1.2.1.4.1.1.7''"
definition OIDLLDPRemSysName where "OIDLLDPRemSysName = ''1.0.8802.1.1.2.1.4.1.1.9''"
definition OIDLLDPLocPortId where "OIDLLDPLocPortId = ''1.0.8802.1.1.2.1.3.7.1.3''"
definition OIDLLDPLocPortDesc where "OIDLLDPLocPortDesc = ''1.0.8802.1.1.2.1.3.7.1.4''"

definition IfMetricStatus :: "(string \<times> string) list" where
  "IfMetricStatus =
     [(''1.3.6.1.2.1.2.2.1.7'', ''interface.admin_status''),
      (''1.3.6.1.2.1.2.2.1.8'', ''interface.operational_status''),
      (''1.3.6.1.2.1.31.1.1.1.15'', ''interface.speed_mbps'')]"

definition IfMetricCounters :: "(string \<times> string) list" where
  "IfMetricCounters =
     [(''1.3.6.1.2.1.2.2.1.10'', ''interface.bytes_received''),
      (''1.3.6.1.2.1.2.2.1.11'', ''interface.packets_received_unicast''),
      (''1.3.6.1.2.1.2.2.1.13'', ''interface.discards_received''),
      (''1.3.6.1.2.1.2.2.1.14'', ''interface.errors_received''),
      (''1.3.6.1.2.1.2.2.1.16'', ''interface.bytes_sent''),
      (''1.3.6.1.2.1.2.2.1.17'', ''interface.packets_sent_unicast''),
      (''1.3.6.1.2.1.2.2.1.19'', ''interface.discards_sent''),
      (''1.3.6.1.2.1.2.2.1.20'', ''interface.errors_sent''),
      (''1.3.6.1.2.1.31.1.1.1.6'', ''interface.bytes_received_hc''),
      (''1.3.6.1.2.1.31.1.1.1.10'', ''interface.bytes_sent_hc'')]"

section \<open>Addresses: \<open>net.ParseIP\<close> succeeds\<close>

definition ip4_field :: "string \<Rightarrow> bool" where
  "ip4_field f \<longleftrightarrow> f \<noteq> '''' \<and> list_all is_digit f \<and> digits_val f \<le> 255 \<and> (hd f = CHR ''0'' \<longrightarrow> f = ''0'')"

definition parse_ip4 :: "string \<Rightarrow> bool" where
  "parse_ip4 s \<longleftrightarrow> (let fs = split_on dot s in length fs = 4 \<and> list_all ip4_field fs)"

definition is_hex :: "char \<Rightarrow> bool" where
  "is_hex c \<longleftrightarrow> c \<in> set ''0123456789abcdefABCDEF''"

text \<open>
  The loop over the 16-bit fields: \<open>i\<close> bytes are filled and \<open>ell\<close> tells whether the
  double colon was seen; \<open>n\<close> bounds the fields, of which eight fit.
\<close>

fun ip6_fields :: "nat \<Rightarrow> nat \<Rightarrow> bool \<Rightarrow> string \<Rightarrow> bool" where
  "ip6_fields 0 i ell s \<longleftrightarrow> s = '''' \<and> \<not> ell"
| "ip6_fields (Suc n) i ell s \<longleftrightarrow>
     (let h = takeWhile is_hex s; r = dropWhile is_hex s
      in h \<noteq> '''' \<and> length h \<le> 4 \<and>
        (case r of
           [] \<Rightarrow> (if i + 2 < 16 then ell else \<not> ell)
         | c # r1 \<Rightarrow>
             if c = dot then (ell \<or> i = 12) \<and> i + 4 \<le> 16 \<and> parse_ip4 s \<and> (if i + 4 < 16 then ell else \<not> ell)
             else c = CHR '':'' \<and>
               (case r1 of
                  [] \<Rightarrow> False
                | c1 # r2 \<Rightarrow>
                    if c1 = CHR '':'' then \<not> ell \<and> (if r2 = [] then i + 2 < 16 else ip6_fields n (i + 2) True r2)
                    else ip6_fields n (i + 2) ell r1)))"

definition parse_ip6 :: "string \<Rightarrow> bool" where
  "parse_ip6 s \<longleftrightarrow> CHR ''%'' \<notin> set s \<and>
     (if has_prefix s ''::'' then drop 2 s = '''' \<or> ip6_fields 8 0 True (drop 2 s) else ip6_fields 8 0 False s)"

definition ParseIP_ok :: "string \<Rightarrow> bool" where
  "ParseIP_ok s =
     (case filter (\<lambda>c. c \<in> set ''.:%'') s of
        [] \<Rightarrow> False
      | c # _ \<Rightarrow> if c = dot then parse_ip4 s else if c = CHR '':'' then parse_ip6 s else False)"

section \<open>Lemmas\<close>

lemma trim_prefix_append [simp]: "trim_prefix (p @ s) p = s"
  by (simp add: trim_prefix_def)

lemma trim_suffix_append [simp]: "trim_suffix (s @ p) p = s"
  by (simp add: trim_suffix_def)

lemma trim_dot [simp]: "trim_prefix (CHR ''.'' # s) ''.'' = s"
  using trim_prefix_append [of "''.''" s] by simp

lemma trim_undotted: "\<not> has_prefix s p \<Longrightarrow> trim_prefix s p = s"
  by (simp add: trim_prefix_def)

text \<open>The index of a row is recovered from its name, with or without the leading dot.\<close>

lemma suffix_roundtrip:
  assumes "\<not> has_prefix pfx ''.''"
  shows "oidSuffix (''.'' @ pfx @ ''.'' @ s) pfx = s" and "ipSuffix (''.'' @ pfx @ ''.'' @ s) pfx = s"
  using assms by (simp_all add: oidSuffix_def ipSuffix_def Let_def trim_undotted has_prefix_iff trim_prefix_def)

lemma last_component:
  assumes "dot \<notin> set i"
  shows "LastOIDComponent (p @ ''.'' @ i) = i" and "OIDColumn (p @ ''.'' @ i) = p"
proof -
  have "takeWhile (\<lambda>c. c \<noteq> dot) (rev i @ dot # rev p) = rev i" "dropWhile (\<lambda>c. c \<noteq> dot) (rev i @ dot # rev p) = dot # rev p"
    using assms by (auto simp: takeWhile_append dropWhile_append)
  then show "LastOIDComponent (p @ ''.'' @ i) = i" and "OIDColumn (p @ ''.'' @ i) = p"
    by (simp_all add: LastOIDComponent_def OIDColumn_def dot_def)
qed

lemma scalar_roundtrip:
  assumes "\<not> has_prefix base ''.''"
  shows "scalarCol (''.'' @ base @ ''.'' @ c @ ''.0'') base = c"
  using assms trim_suffix_append [of c "''.0''"] trim_prefix_append [of "base @ ''.''" "c @ ''.0''"]
  by (simp add: scalarCol_def Let_def trim_undotted)

end
