(* ===== verification/Threshold_Poller.thy ===== *)
theory Threshold_Poller
  imports Snmp_Values Command_Apply
begin

text \<open>
  The threshold synchronisation of the edge reader, \<open>fwEDR/internal/threshold/poller.go\<close>:
  it reads the alert thresholds and the asset fields of a device from its management
  agent, reports the former and patches the in-memory target with the latter. The SNMP
  library, its big-integer conversion included, is a parameter.
\<close>

section \<open>Tables\<close>

definition thresholdOIDs :: "(string \<times> string) list" where
  "thresholdOIDs =
     [(''HighCPU'', ''1.3.6.1.4.1.99999.3.1.0''), (''HighCPUSustained'', ''1.3.6.1.4.1.99999.3.2.0''),
      (''CPUNormal'', ''1.3.6.1.4.1.99999.3.3.0''), (''HighMemory'', ''1.3.6.1.4.1.99999.3.4.0''),
      (''HighTemperature'', ''1.3.6.1.4.1.99999.3.6.0''), (''RackFailureMin'', ''1.3.6.1.4.1.99999.3.9.0''),
      (''SensorAmbientTempHigh'', ''1.3.6.1.4.1.99999.3.10.0''), (''SensorAmbientTempCritical'', ''1.3.6.1.4.1.99999.3.11.0''),
      (''SensorAmbientTempNormal'', ''1.3.6.1.4.1.99999.3.12.0''), (''SensorHighHumidity'', ''1.3.6.1.4.1.99999.3.13.0''),
      (''SensorCriticalHumidity'', ''1.3.6.1.4.1.99999.3.14.0''), (''SensorLowHumidity'', ''1.3.6.1.4.1.99999.3.15.0''),
      (''SensorHumidityNormalLow'', ''1.3.6.1.4.1.99999.3.16.1.0''), (''SensorHumidityNormalHigh'', ''1.3.6.1.4.1.99999.3.16.2.0''),
      (''SensorHighDewPoint'', ''1.3.6.1.4.1.99999.3.17.0''), (''SensorDewPointNormal'', ''1.3.6.1.4.1.99999.3.18.0''),
      (''SensorHighAirflow'', ''1.3.6.1.4.1.99999.3.19.0''), (''SensorLowAirflow'', ''1.3.6.1.4.1.99999.3.20.0''),
      (''SensorAirflowNormalLow'', ''1.3.6.1.4.1.99999.3.21.1.0''), (''SensorAirflowNormalHigh'', ''1.3.6.1.4.1.99999.3.21.2.0'')]"

definition assetOIDs :: "(string \<times> string) list" where
  "assetOIDs =
     [(''country'', ''1.3.6.1.4.1.99999.4.1.0''), (''datacenter_city'', ''1.3.6.1.4.1.99999.4.2.0''),
      (''datacenter'', ''1.3.6.1.4.1.99999.4.3.0''), (''floor'', ''1.3.6.1.4.1.99999.4.4.0''), (''room'', ''1.3.6.1.4.1.99999.4.5.0''),
      (''rack_row'', ''1.3.6.1.4.1.99999.4.6.0''), (''rack_num'', ''1.3.6.1.4.1.99999.4.7.0''),
      (''rack_unit'', ''1.3.6.1.4.1.99999.4.8.0''), (''model'', ''1.3.6.1.4.1.99999.4.9.0'')]"

definition reverse_table :: "(string \<times> string) list \<Rightarrow> smap" where
  "reverse_table tb = map_of (rev (map (\<lambda>(k, oid). (oid, k)) tb))"

definition oidToRule :: smap where "oidToRule = reverse_table thresholdOIDs"
definition oidToAsset :: smap where "oidToAsset = reverse_table assetOIDs"

definition thresholdRulesByType :: "(string \<times> string list) list" where
  "thresholdRulesByType =
     (let cpu = [''HighCPU'', ''HighCPUSustained'', ''CPUNormal'', ''HighTemperature'', ''RackFailureMin''];
          mem = [''HighCPU'', ''HighCPUSustained'', ''CPUNormal'', ''HighMemory'', ''HighTemperature'', ''RackFailureMin'']
      in [(''router'', cpu), (''switch'', cpu), (''oob_switch'', cpu), (''firewall'', cpu), (''load_balancer'', mem), (''server'', mem),
          (''sensor'',
            [''SensorAmbientTempHigh'', ''SensorAmbientTempCritical'', ''SensorAmbientTempNormal'',
             ''SensorHighHumidity'', ''SensorCriticalHumidity'', ''SensorLowHumidity'',
             ''SensorHumidityNormalLow'', ''SensorHumidityNormalHigh'', ''SensorHighDewPoint'', ''SensorDewPointNormal'',
             ''SensorHighAirflow'', ''SensorLowAirflow'', ''SensorAirflowNormalLow'', ''SensorAirflowNormalHigh'']),
          (''ups'', [''HighTemperature'']), (''generator'', [''HighTemperature''])])"

definition allowed_rules :: "Target \<Rightarrow> string list" where
  "allowed_rules t = (case map_of thresholdRulesByType (to_lower (trim_space (tg_DeviceType t))) of Some rs \<Rightarrow> rs | None \<Rightarrow> [])"

section \<open>The poller\<close>

record ThresholdSyncConfig =
  ts_Enabled :: bool
  ts_PollIntervalMs :: int
  ts_Agent :: string
  ts_Port :: int
  ts_Community :: string
  ts_TimeoutMs :: int
  ts_Retries :: int

text \<open>
  \<open>tv_get host community oids\<close> answers a GET; \<open>tv_taken\<close> is how many packets the channel
  takes before the context is cancelled, if it is.
\<close>

record thr_env =
  tv_socket :: bool
  tv_connect :: "string \<Rightarrow> bool"
  tv_get :: "string \<Rightarrow> string \<Rightarrow> string list \<Rightarrow> SnmpPDU list option"
  tv_bigint :: "pdu_value \<Rightarrow> int"
  tv_now :: "nat \<Rightarrow> int"
  tv_id :: "nat \<Rightarrow> string"
  tv_sign :: "byte list \<Rightarrow> byte list"
  tv_scaled :: "rat \<Rightarrow> i64"
  tv_taken :: "nat option"

definition pollable :: "Target list \<Rightarrow> Target list" where
  "pollable ts = filter (\<lambda>t. tg_MgmtIP t \<noteq> '''' \<or> tg_IP t \<noteq> '''') ts"

definition no_answer :: "SnmpPDU \<Rightarrow> bool" where
  "no_answer vb \<longleftrightarrow> pd_Type vb = NoSuchObject \<or> pd_Type vb = NoSuchInstance \<or> pd_Value vb = VNil"

text \<open>\<open>Int64()\<close> of a big integer keeps its low 64 bits.\<close>

definition low64 :: "int \<Rightarrow> int" where
  "low64 n = (n + 2 ^ 63) mod 2 ^ 64 - 2 ^ 63"

definition threshold_of :: "thr_env \<Rightarrow> string list \<Rightarrow> SnmpPDU \<Rightarrow> (string \<times> int) list" where
  "threshold_of en allowed vb =
     (if no_answer vb then []
      else let rule = get oidToRule (trim_prefix (pd_Name vb) ''.'')
           in if rule = '''' \<or> \<not> List.member allowed rule then [] else [(rule, low64 (tv_bigint en (pd_Value vb)))])"

definition asset_of :: "thr_env \<Rightarrow> SnmpPDU \<Rightarrow> (string \<times> string) list" where
  "asset_of en vb =
     (if no_answer vb then []
      else let field = get oidToAsset (trim_prefix (pd_Name vb) ''.'')
           in if field = '''' then []
              else [(field, case pd_Value vb of VBytes s \<Rightarrow> s | VStr s \<Rightarrow> s | v \<Rightarrow> itoa (low64 (tv_bigint en v)))])"

definition threshold_packet :: "thr_env \<Rightarrow> IdentityConfig \<Rightarrow> Target \<Rightarrow> nat \<Rightarrow> i64 \<Rightarrow> string \<times> int \<Rightarrow> TelemetryPacket" where
  "threshold_packet en ident t k n rv =
     (case rv of (rule, v) \<Rightarrow>
        let now = tv_now en k; i = tv_id en k; src = SourceID t; value = of_int v
        in \<lparr>PktId = i, OrgId = idc_OrgID ident, DatacenterId = or_default (tg_DatacenterID t) (idc_DatacenterID ident),
            FloorId = or_default (tg_FloorID t) (idc_FloorID ident), NetworkId = NetworkID t (idc_NetworkID ident),
            GroupId = idc_GroupID ident, SourceType = ''device'', SourceId = src, ReaderId = idc_ReaderID ident, TimestampNs = now,
            Name = rule, Tag = '''', Value = value,
            Meta = [''hostname'' \<mapsto> src, ''mgmt_ip'' \<mapsto> tg_MgmtIP t, ''device_type'' \<mapsto> tg_DeviceType t,
                    ''collector_agent'' \<mapsto> ''EDR'', ''collector_protocol'' \<mapsto> ''SNMP''],
            Kind = ''threshold'', Severity = '''',
            Signature = tv_sign en (CanonicalBytes i src (word_of_int now) rule '''' (tv_scaled en value) n), Nonce = n\<rparr>)"

fun threshold_packets :: "thr_env \<Rightarrow> IdentityConfig \<Rightarrow> Target \<Rightarrow> nat \<Rightarrow> Signer \<Rightarrow> (string \<times> int) list \<Rightarrow> TelemetryPacket list \<times> Signer" where
  "threshold_packets en ident t k sg [] = ([], sg)"
| "threshold_packets en ident t k sg (rv # rvs) =
     (case NextNonce sg of (n, sg1) \<Rightarrow>
        case threshold_packets en ident t (Suc k) sg1 rvs of
          (ps, sg2) \<Rightarrow> (threshold_packet en ident t k n rv # ps, sg2))"

definition patch_all :: "(string \<times> string) list \<Rightarrow> Target \<Rightarrow> Target" where
  "patch_all fvs t = fold (\<lambda>(f, v) t. snd (PatchAsset f v t)) fvs t"

definition read_assets :: "thr_env \<Rightarrow> string \<Rightarrow> string \<Rightarrow> Target \<Rightarrow> Target" where
  "read_assets en host community t =
     (case tv_get en host community (map snd assetOIDs) of
        None \<Rightarrow> t
      | Some vars \<Rightarrow> patch_all (concat (map (asset_of en) vars)) t)"

text \<open>Sent packets, the target and the signer. A packet that is built but not taken has used its nonce.\<close>

definition pollOne :: "thr_env \<Rightarrow> ThresholdSyncConfig \<Rightarrow> IdentityConfig \<Rightarrow> Target \<Rightarrow> Signer \<Rightarrow> TelemetryPacket list \<times> Target \<times> Signer" where
  "pollOne en cfg ident t sg =
     (let deviceIP = or_default (tg_MgmtIP t) (tg_IP t); host = or_default (ts_Agent cfg) deviceIP;
          community = or_default (ts_Community cfg) deviceIP; allowed = allowed_rules t
      in if \<not> tv_socket en \<or> \<not> tv_connect en host then ([], t, sg)
         else if allowed = [] then ([], read_assets en host community t, sg)
         else case tv_get en host community (map snd (filter (\<lambda>(rule, _). List.member allowed rule) thresholdOIDs)) of
             None \<Rightarrow> ([], t, sg)
           | Some vars \<Rightarrow>
               let rvs = concat (map (threshold_of en allowed) vars)
               in (case tv_taken en of
                     Some n \<Rightarrow>
                       if n < length rvs
                       then (case threshold_packets en ident t 0 sg (take (Suc n) rvs) of (ps, sg1) \<Rightarrow> (take n ps, t, sg1))
                       else (case threshold_packets en ident t 0 sg rvs of (ps, sg1) \<Rightarrow> (ps, read_assets en host community t, sg1))
                   | None \<Rightarrow>
                       (case threshold_packets en ident t 0 sg rvs of (ps, sg1) \<Rightarrow> (ps, read_assets en host community t, sg1))))"

section \<open>Packets\<close>

lemma threshold_packets_spec:
  assumes "threshold_packets en ident t k sg rvs = (ps, sg1)"
  shows "map (\<lambda>p. (Name p, Value p)) ps = map (\<lambda>(r, v). (r, of_int v)) rvs \<and> map Nonce ps = take_nonces (length rvs) sg
    \<and> list_all (\<lambda>p. Kind p = ''threshold'' \<and> SourceId p = SourceID t \<and> NetworkId p = NetworkID t (idc_NetworkID ident)) ps"
  using assms
proof (induction rvs arbitrary: k sg ps)
  case (Cons rv rvs)
  obtain ps' sg' where r: "threshold_packets en ident t (Suc k) (snd (NextNonce sg)) rvs = (ps', sg')" by fastforce
  then have ps: "ps = threshold_packet en ident t k (fst (NextNonce sg)) rv # ps'" "sg' = sg1"
    using Cons.prems by (auto simp: case_prod_beta)
  show ?case using Cons.IH [OF r [unfolded ps(2)]] unfolding ps
    by (cases rv) (simp add: threshold_packet_def Let_def NextNonce_def case_prod_beta)
qed simp

lemma take_take_nonces: "take n (take_nonces m s) = take_nonces (min n m) s"
  by (cases "n \<le> m") (simp_all add: take_nonces_eq take_map take_upt)

lemma patch_all_identity: "SourceID (patch_all fvs u) = SourceID u \<and> tg_MgmtIP (patch_all fvs u) = tg_MgmtIP u"
  unfolding patch_all_def by (induction fvs arbitrary: u) (auto simp: patch_identity)

lemma read_assets_identity [simp]:
  "SourceID (read_assets en h k u) = SourceID u" "tg_MgmtIP (read_assets en h k u) = tg_MgmtIP u"
  by (simp_all add: read_assets_def patch_all_identity split: option.split)

text \<open>Either nothing is sent, or a prefix of the packets of some readings.\<close>

definition sent_prefix :: "thr_env \<Rightarrow> IdentityConfig \<Rightarrow> Target \<Rightarrow> Signer \<Rightarrow> TelemetryPacket list \<Rightarrow> bool" where
  "sent_prefix en ident t sg ps \<longleftrightarrow>
     (\<exists>vars m n. ps = take n (fst (threshold_packets en ident t 0 sg (take m (concat (map (threshold_of en (allowed_rules t)) vars))))))"

lemma sent_prefixI:
  "sent_prefix en ident t sg []"
  "sent_prefix en ident t sg (take n (fst (threshold_packets en ident t 0 sg (take m (concat (map (threshold_of en (allowed_rules t)) vars))))))"
  "sent_prefix en ident t sg (fst (threshold_packets en ident t 0 sg (concat (map (threshold_of en (allowed_rules t)) vars))))"
proof -
  show "sent_prefix en ident t sg []" unfolding sent_prefix_def by (intro exI [of _ "[]"] exI [of _ 0]) simp
  show "sent_prefix en ident t sg (take n (fst (threshold_packets en ident t 0 sg (take m (concat (map (threshold_of en (allowed_rules t)) vars))))))"
    unfolding sent_prefix_def by blast
  show "sent_prefix en ident t sg (fst (threshold_packets en ident t 0 sg (concat (map (threshold_of en (allowed_rules t)) vars))))"
    unfolding sent_prefix_def by (metis order_refl take_all)
qed

lemma pollOne_sends:
  assumes "pollOne en cfg ident t sg = (ps, t1, sg1)"
  shows "sent_prefix en ident t sg ps" and "SourceID t1 = SourceID t \<and> tg_MgmtIP t1 = tg_MgmtIP t"
  using assms unfolding pollOne_def Let_def case_prod_beta
  by (auto simp: sent_prefixI split: if_splits option.splits)

lemma sent_prefix_ok:
  assumes "sent_prefix en ident t sg ps"
  shows "list_all (\<lambda>p. List.member (allowed_rules t) (Name p) \<and> Kind p = ''threshold'' \<and> SourceId p = SourceID t) ps"
    and "map Nonce ps = take_nonces (length ps) sg"
proof -
  obtain vars m n where ps: "ps = take n (fst (threshold_packets en ident t 0 sg (take m (concat (map (threshold_of en (allowed_rules t)) vars)))))"
    using assms by (auto simp: sent_prefix_def)
  define rvs where "rvs = take m (concat (map (threshold_of en (allowed_rules t)) vars))"
  obtain qs sg2 where q: "threshold_packets en ident t 0 sg rvs = (qs, sg2)" by fastforce
  note sp = threshold_packets_spec [OF q]
  have mem: "list_all (\<lambda>rv. List.member (allowed_rules t) (fst rv)) rvs"
    unfolding rvs_def by (auto simp: list_all_iff threshold_of_def Let_def split: if_splits dest!: in_set_takeD)
  have "map Name qs = map fst rvs" using arg_cong [OF conjunct1 [OF sp], of "map fst"] by (simp add: comp_def case_prod_beta)
  then have "list_all (\<lambda>p. List.member (allowed_rules t) (Name p)) qs"
    using mem by (metis (no_types, lifting) list.pred_map comp_apply list.pred_cong)
  then show "list_all (\<lambda>p. List.member (allowed_rules t) (Name p) \<and> Kind p = ''threshold'' \<and> SourceId p = SourceID t) ps"
    using sp unfolding ps rvs_def [symmetric] q by (auto simp: list_all_iff dest: in_set_takeD)
  have "length qs = length rvs" using sp by (metis length_map)
  then show "map Nonce ps = take_nonces (length ps) sg"
    using sp unfolding ps rvs_def [symmetric] q by (simp add: take_take_nonces min.commute flip: take_map)
qed

text \<open>
  Whatever the agent answers, only rules that apply to the type of the device are reported,
  with fresh nonces in order, and neither identity nor address of the target changes.
\<close>

theorem pollOne_reports_applicable_rules:
  assumes "pollOne en cfg ident t sg = (ps, t1, sg1)"
  shows "list_all (\<lambda>p. List.member (allowed_rules t) (Name p) \<and> Kind p = ''threshold'' \<and> SourceId p = SourceID t) ps
    \<and> map Nonce ps = take_nonces (length ps) sg \<and> SourceID t1 = SourceID t \<and> tg_MgmtIP t1 = tg_MgmtIP t"
  using pollOne_sends [OF assms] sent_prefix_ok [OF pollOne_sends(1) [OF assms]] by blast

section \<open>Reading back what was written\<close>

lemma rule_table_ok:
  "list_all (\<lambda>(rule, oid). map_of snmpFieldMap (to_lower rule) = Some \<lparr>os_oid = oid, os_isInt = True\<rparr>) thresholdOIDs"
  "list_all (\<lambda>(rule, oid). oidToRule oid = Some rule \<and> rule \<noteq> '''') thresholdOIDs"
  "list_all (\<lambda>(_, rules). list_all (\<lambda>r. List.member (map fst thresholdOIDs) r) rules) thresholdRulesByType"
  by code_simp+

lemma allowed_rule_has_object:
  assumes "List.member (allowed_rules t) rule"
  obtains oid where "(rule, oid) \<in> set thresholdOIDs" and "map_of snmpFieldMap (to_lower rule) = Some \<lparr>os_oid = oid, os_isInt = True\<rparr>"
    and "oidToRule oid = Some rule" and "rule \<noteq> ''''"
proof -
  have "\<exists>rs. map_of thresholdRulesByType (to_lower (trim_space (tg_DeviceType t))) = Some rs \<and> rule \<in> set rs"
    using assms by (cases "map_of thresholdRulesByType (to_lower (trim_space (tg_DeviceType t)))") (auto simp: allowed_rules_def)
  then have "rule \<in> fst ` set thresholdOIDs"
    using rule_table_ok(3) by (fastforce simp: list_all_iff dest!: map_of_SomeD)
  then obtain oid where "(rule, oid) \<in> set thresholdOIDs" by auto
  then show ?thesis using that [of oid] rule_table_ok(1,2) by (auto simp: list_all_iff)
qed

text \<open>Each rule has one object.\<close>

lemma rule_object_unique: "(rule, oid') \<in> set thresholdOIDs \<Longrightarrow> oidToRule oid = Some rule \<Longrightarrow> oid' = oid"
proof -
  assume r: "(rule, oid') \<in> set thresholdOIDs" and o: "oidToRule oid = Some rule"
  have "(rule, oid) \<in> set thresholdOIDs"
    using map_of_SomeD [OF o [unfolded oidToRule_def reverse_table_def]] by auto
  moreover have "distinct (map fst thresholdOIDs)" by (simp add: thresholdOIDs_def)
  ultimately show "oid' = oid" using r by (meson eq_key_imp_eq_value)
qed

lemma low64_id: "- (2 ^ 63) \<le> v \<Longrightarrow> v < 2 ^ 63 \<Longrightarrow> low64 v = v"
  by (simp add: low64_def)

lemma Apply_snmp_address:
  assumes "Apply ae cc rf c = (e, Some (SnmpSet h k ob p))"
  shows "h = or_default (ca_SNMPSetAgent cc) (trim_space (before_slash (cm_DeviceIP c)))
    \<and> k = or_default (ca_SNMPSetCommunity cc) (trim_space (before_slash (cm_DeviceIP c)))"
proof -
  have rs: "redfish_send en base mk \<noteq> (e, Some (SnmpSet h k ob p))" if "\<And>u. mk u \<noteq> SnmpSet h k ob p" for en base mk
    using that by (auto simp: redfish_send_def Let_def split: option.splits list.splits)
  show ?thesis
    using assms rs [of "\<lambda>u. RedfishPost (u @ ''/Actions/ComputerSystem.Reset'') (normalizeResetType (cm_Value c))" ae]
      rs [of "\<lambda>u. RedfishPatch u (normalizeLED (cm_Value c))" ae]
    by (auto simp: Apply_def Let_def applyRedfishPower_def applyRedfishLED_def applySNMPSet_def
      split: if_splits option.splits sum.splits)
qed

text \<open>
  C19. A threshold set by a command comes back as telemetry exactly when its rule applies to
  the type of the device. The command names the device by the address the poller uses, under
  any field name that maps to the object of the rule, and command runner and poller are
  configured with the same agent. Of that agent, and of no other host or community, it is
  asked that a GET naming the object answers with the integer it holds. Then the poll of the
  target reports this integer under the rule's name; a rule that is not in the table of the
  device type (\<open>HighMemory\<close> of a switch, any rule of a chiller) is written but never reported.
\<close>

theorem applied_threshold_is_reported:
  assumes "Apply ae cc rf c = (None, Some (SnmpSet h k oid (PInt v)))" and "oidToRule oid = Some rule"
    and "trim_space (before_slash (cm_DeviceIP c)) = or_default (tg_MgmtIP t) (tg_IP t)"
    and "ca_SNMPSetAgent cc = ts_Agent cfg" and "ca_SNMPSetCommunity cc = ts_Community cfg"
    and "\<And>oids. List.member oids oid \<Longrightarrow>
       \<exists>vars. tv_get en h k oids = Some vars \<and> List.member vars \<lparr>pd_Name = CHR ''.'' # oid, pd_Type = OtherType, pd_Value = VInt v\<rparr>"
    and "tv_bigint en (VInt v) = v" and "tv_socket en" and "tv_connect en h" and "tv_taken en = None"
  shows "list_ex (\<lambda>p. Name p = rule \<and> Value p = of_int v \<and> SourceId p = SourceID t) (fst (pollOne en cfg ident t sg))
    \<longleftrightarrow> List.member (allowed_rules t) rule"
proof
  assume "list_ex (\<lambda>p. Name p = rule \<and> Value p = of_int v \<and> SourceId p = SourceID t) (fst (pollOne en cfg ident t sg))"
  moreover obtain ps t1 sg1 where "pollOne en cfg ident t sg = (ps, t1, sg1)" by (metis prod_cases3)
  ultimately show "List.member (allowed_rules t) rule"
    using sent_prefix_ok(1) [OF pollOne_sends(1)] by (fastforce simp: list_ex_iff list_all_iff)
next
  assume allowed: "List.member (allowed_rules t) rule"
  obtain oid' where o: "(rule, oid') \<in> set thresholdOIDs" "oidToRule oid' = Some rule" "rule \<noteq> ''''"
    using allowed_rule_has_object [OF allowed] by blast
  have "oid' = oid"
    using rule_object_unique [OF o(1) assms(2)] .
  then have rule: "(rule, oid) \<in> set thresholdOIDs" using o(1) by simp
  have v: "- (2 ^ 63) \<le> v" "v < 2 ^ 63"
    using Apply_snmp_spec [OF assms(1)] by (auto dest: snmp_pdu_range)
  have host: "or_default (ts_Agent cfg) (or_default (tg_MgmtIP t) (tg_IP t)) = h"
      "or_default (ts_Community cfg) (or_default (tg_MgmtIP t) (tg_IP t)) = k"
    using Apply_snmp_address [OF assms(1)] assms(3-5) by simp_all
  define oids where "oids = map snd (filter (\<lambda>(r, _). List.member (allowed_rules t) r) thresholdOIDs)"
  have "List.member oids oid" using rule allowed by (force simp: oids_def)
  then obtain vars where vars: "tv_get en h k oids = Some vars"
      "List.member vars \<lparr>pd_Name = CHR ''.'' # oid, pd_Type = OtherType, pd_Value = VInt v\<rparr>"
    using assms(6) by blast
  define rvs where "rvs = concat (map (threshold_of en (allowed_rules t)) vars)"
  obtain ps sg2 where q: "threshold_packets en ident t 0 sg rvs = (ps, sg2)" by fastforce
  have "threshold_of en (allowed_rules t) \<lparr>pd_Name = CHR ''.'' # oid, pd_Type = OtherType, pd_Value = VInt v\<rparr> = [(rule, v)]"
    using o(3) assms(2,7) allowed v by (simp add: threshold_of_def no_answer_def trim_prefix_def low64_id get_def Let_def)
  then have "(rule, v) \<in> set rvs" using vars(2) by (force simp: rvs_def)
  then have "(rule, of_int v) \<in> set (map (\<lambda>p. (Name p, Value p)) ps)"
    using threshold_packets_spec [OF q] by force
  then obtain p where "p \<in> set ps" "Name p = rule" "Value p = of_int v" by auto
  moreover have "SourceId p = SourceID t" using threshold_packets_spec [OF q] \<open>p \<in> set ps\<close> by (simp add: list_all_iff)
  moreover have "allowed_rules t \<noteq> []" using allowed by auto
  then have "fst (pollOne en cfg ident t sg) = ps"
    using vars(1) q assms(8-10) by (simp add: pollOne_def Let_def host oids_def rvs_def)
  ultimately show "list_ex (\<lambda>p. Name p = rule \<and> Value p = of_int v \<and> SourceId p = SourceID t) (fst (pollOne en cfg ident t sg))"
    by (auto simp: list_ex_iff)
qed

text \<open>
  The poller reads each rule and each asset field at the object the edits of it are
  written to, and with the type the write uses.
\<close>

theorem edits_and_polls_agree:
  "list_all (\<lambda>(rule, oid). map_of snmpFieldMap (to_lower rule) = Some \<lparr>os_oid = oid, os_isInt = True\<rparr>) thresholdOIDs
   \<and> list_all (\<lambda>(field, oid). map_of snmpFieldMap field = Some \<lparr>os_oid = oid, os_isInt = List.member [''rack_row'', ''rack_num'', ''rack_unit''] field\<rparr>) assetOIDs
   \<and> list_all (\<lambda>(field, _). fst (PatchAsset field v t)) assetOIDs
   \<and> list_all (\<lambda>(rule, oid). oidToRule oid = Some rule) thresholdOIDs \<and> list_all (\<lambda>(field, oid). oidToAsset oid = Some field) assetOIDs
   \<and> list_all (\<lambda>(_, rules). list_all (\<lambda>r. List.member (map fst thresholdOIDs) r) rules) thresholdRulesByType"
proof (intro conjI)
  have f: "list_all (\<lambda>(field, _). List.member [''country'', ''datacenter'', ''datacenter_city'', ''room'', ''floor'', ''model'', ''rack_row'', ''rack_num'', ''rack_unit'']
      (to_lower (trim_space field))) assetOIDs"
    by code_simp
  have "fst (PatchAsset field v t)" if "List.member [''country'', ''datacenter'', ''datacenter_city'', ''room'', ''floor'', ''model'', ''rack_row'',
      ''rack_num'', ''rack_unit''] (to_lower (trim_space field))" for field
    using that by (auto simp: PatchAsset_def Let_def)
  then show "list_all (\<lambda>(field, _). fst (PatchAsset field v t)) assetOIDs"
    using f by (auto simp: list_all_iff)
next
  show "list_all (\<lambda>(rule, oid). map_of snmpFieldMap (to_lower rule) = Some \<lparr>os_oid = oid, os_isInt = True\<rparr>) thresholdOIDs"
    by code_simp
next
  show "list_all (\<lambda>(field, oid). map_of snmpFieldMap field = Some \<lparr>os_oid = oid, os_isInt = List.member [''rack_row'', ''rack_num'', ''rack_unit''] field\<rparr>) assetOIDs"
    by code_simp
next
  show "list_all (\<lambda>(rule, oid). oidToRule oid = Some rule) thresholdOIDs" by code_simp
next
  show "list_all (\<lambda>(field, oid). oidToAsset oid = Some field) assetOIDs" by code_simp
next
  show "list_all (\<lambda>(_, rules). list_all (\<lambda>r. List.member (map fst thresholdOIDs) r) rules) thresholdRulesByType" by code_simp
qed

section \<open>An agent\<close>

definition rack_switch :: Target where
  "rack_switch = FromConfig
     \<lparr>tc_IP = ''10.0.0.1'', tc_MgmtIP = '''', tc_ProdIP = '''', tc_LoopbackIP = '''', tc_OOBIP = '''', tc_GNMIIP = '''', tc_Hostname = ''leaf1'',
      tc_DeviceType = ''Switch'', tc_SNMPVersion = 2, tc_Community = '''', tc_GNMIEnabled = False, tc_BACnetEnabled = False, tc_ActiveCircuits = 0,
      tc_Vendor = '''', tc_Labels = Map.empty, tc_DatacenterID = '''', tc_FloorID = '''', tc_ModelName = '''', tc_Country = '''', tc_DatacenterName = '''',
      tc_DatacenterCity = '''', tc_Room = '''', tc_Floor = '''', tc_RackRow = 0, tc_RackNum = 0, tc_RackUnit = 0\<rparr> 2 ''public''"

text \<open>It answers every object with the number 85, at its own address and community only.\<close>

definition agent85 :: thr_env where
  "agent85 = \<lparr>tv_socket = True, tv_connect = (\<lambda>_. True),
     tv_get = (\<lambda>h k oids. if h = ''10.0.0.1'' \<and> k = ''10.0.0.1'' then Some (map (\<lambda>ob. \<lparr>pd_Name = CHR ''.'' # ob, pd_Type = OtherType, pd_Value = VInt 85\<rparr>) oids) else None),
     tv_bigint = (\<lambda>v. case v of VInt n \<Rightarrow> n | _ \<Rightarrow> 0), tv_now = (\<lambda>k. int k), tv_id = (\<lambda>k. replicate k CHR ''a''),
     tv_sign = (\<lambda>b. b), tv_scaled = (\<lambda>r. word_of_int \<lfloor>r\<rfloor>), tv_taken = None\<rparr>"

definition thr_cfg :: ThresholdSyncConfig where
  "thr_cfg = \<lparr>ts_Enabled = True, ts_PollIntervalMs = 300000, ts_Agent = '''', ts_Port = 1161, ts_Community = '''', ts_TimeoutMs = 2000, ts_Retries = 1\<rparr>"

definition thr_ident :: IdentityConfig where
  "thr_ident = \<lparr>idc_OrgID = ''org'', idc_DatacenterID = ''dc'', idc_FloorID = ''f1'', idc_NetworkID = ''net'', idc_GroupID = ''g'', idc_ReaderID = ''edr''\<rparr>"

definition cpu_edit :: Command where
  "cpu_edit = \<lparr>cm_ID = 1, cm_DeviceIP = ''10.0.0.1'', cm_Field = '' highcpu '', cm_Value = ''85''\<rparr>"

definition humidity_edit :: Command where
  "humidity_edit = \<lparr>cm_ID = 2, cm_DeviceIP = ''10.0.0.1'', cm_Field = ''SensorHumidityHigh'', cm_Value = ''85''\<rparr>"

lemma edits_applied:
  "Apply willing_env (rn_cfg idle_runner) (rn_redfish idle_runner) cpu_edit
     = (None, Some (SnmpSet ''10.0.0.1'' ''10.0.0.1'' ''1.3.6.1.4.1.99999.3.1.0'' (PInt 85)))"
  "oidToRule ''1.3.6.1.4.1.99999.3.1.0'' = Some ''HighCPU''"
  "trim_space (before_slash (cm_DeviceIP cpu_edit)) = or_default (tg_MgmtIP rack_switch) (tg_IP rack_switch)"
  "ca_SNMPSetAgent (rn_cfg idle_runner) = ts_Agent thr_cfg" "ca_SNMPSetCommunity (rn_cfg idle_runner) = ts_Community thr_cfg"
  "List.member (allowed_rules rack_switch) ''HighCPU''"
  "Apply willing_env (rn_cfg idle_runner) (rn_redfish idle_runner) humidity_edit
     = (None, Some (SnmpSet ''10.0.0.1'' ''10.0.0.1'' ''1.3.6.1.4.1.99999.3.13.0'' (PInt 85)))"
  "oidToRule ''1.3.6.1.4.1.99999.3.13.0'' = Some ''SensorHighHumidity''"
  "trim_space (before_slash (cm_DeviceIP humidity_edit)) = or_default (tg_MgmtIP rack_switch) (tg_IP rack_switch)"
  "\<not> List.member (allowed_rules rack_switch) ''SensorHighHumidity''"
  by code_simp+

theorem applied_threshold_is_reported_witness:
  "list_ex (\<lambda>p. Name p = ''HighCPU'' \<and> Value p = of_int 85 \<and> SourceId p = SourceID rack_switch)
     (fst (pollOne agent85 thr_cfg thr_ident rack_switch (NewSigner ''s'' 0)))
   \<and> \<not> list_ex (\<lambda>p. Name p = ''SensorHighHumidity'' \<and> Value p = of_int 85 \<and> SourceId p = SourceID rack_switch)
     (fst (pollOne agent85 thr_cfg thr_ident rack_switch (NewSigner ''s'' 0)))"
proof
  show "list_ex (\<lambda>p. Name p = ''HighCPU'' \<and> Value p = of_int 85 \<and> SourceId p = SourceID rack_switch)
     (fst (pollOne agent85 thr_cfg thr_ident rack_switch (NewSigner ''s'' 0)))"
    by (rule applied_threshold_is_reported [OF edits_applied(1-5), THEN iffD2]) (use edits_applied(6) in \<open>auto simp: agent85_def\<close>)
  show "\<not> list_ex (\<lambda>p. Name p = ''SensorHighHumidity'' \<and> Value p = of_int 85 \<and> SourceId p = SourceID rack_switch)
     (fst (pollOne agent85 thr_cfg thr_ident rack_switch (NewSigner ''s'' 0)))"
    by (subst applied_threshold_is_reported [OF edits_applied(7-9,4,5)]) (use edits_applied(10) in \<open>auto simp: agent85_def\<close>)
qed

lemma agent85_poll:
  "map Name (fst (pollOne agent85 thr_cfg thr_ident rack_switch (NewSigner ''s'' 0)))
     = [''HighCPU'', ''HighCPUSustained'', ''CPUNormal'', ''HighTemperature'', ''RackFailureMin'']"
  "tg_RackUnit (fst (snd (pollOne agent85 thr_cfg thr_ident rack_switch (NewSigner ''s'' 0)))) = 85"
  by code_simp+

theorem pollOne_reports_applicable_rules_witness:
  "map Nonce (fst (pollOne agent85 thr_cfg thr_ident rack_switch (NewSigner ''s'' 0))) = take_nonces 5 (NewSigner ''s'' 0)"
proof -
  obtain ps t1 sg1 where p: "pollOne agent85 thr_cfg thr_ident rack_switch (NewSigner ''s'' 0) = (ps, t1, sg1)"
    by (metis prod_cases3)
  moreover have "length (map Name ps) = 5" using agent85_poll(1) p by simp
  ultimately show ?thesis using pollOne_reports_applicable_rules [OF p] by simp
qed

end
