(* ===== verification/Snmp_Collector.thy ===== *)
theory Snmp_Collector
  imports Snmp_Values
begin

text \<open>
  The collector of one device, \<open>fwEDR/internal/snmp/metrics.go\<close>. A routine returns its
  readings, one per packet it builds and in that order, and \<open>stamp\<close> turns a reading into a
  signed packet; \<open>Collect\<close> runs a tier. The agent is a parameter that answers for the
  duration of one call, as are the clock, identifiers, the signature and the order in
  which Go iterates over a map. The signer is threaded through one collection; collectors
  that run beside each other take their nonces from one signer, so that the nonces of a
  collection then increase with gaps.
\<close>

section \<open>State and environment\<close>

record snmp_env =
  sv_get :: "string list \<Rightarrow> SnmpPDU list option"
  sv_walk :: "string \<Rightarrow> SnmpPDU list \<times> bool"
  sv_mgmt :: "SnmpPDU list option"
  sv_now :: "nat \<Rightarrow> int"
  sv_id :: "nat \<Rightarrow> string"
  sv_sign :: "byte list \<Rightarrow> byte list"
  sv_scaled :: "rat \<Rightarrow> i64"
  sv_fmt :: "rat \<Rightarrow> string"
  sv_order :: "string list \<Rightarrow> string list"

record basePacket =
  bp_orgID :: string
  bp_dcID :: string
  bp_floorID :: string
  bp_netID :: string
  bp_grpID :: string
  bp_readerID :: string

record Collector =
  co_target :: Target
  co_base :: basePacket
  co_signer :: Signer
  co_mgmtPort :: int
  co_built :: nat

record reading =
  rd_kind :: string
  rd_name :: string
  rd_tag :: string
  rd_value :: rat
  rd_meta :: smap

datatype Tier = TierFast | TierMedium | TierSlow | TierTopology | TierEnvironment | TierServerHealth

definition hostMeta :: "Target \<Rightarrow> smap" where
  "hostMeta t =
     (let a = Asset t;
          m = map_of
           [(''hostname'', SourceID t), (''mgmt_ip'', tg_MgmtIP t), (''prod_ip'', tg_ProdIP t), (''loopback_ip'', tg_LoopbackIP t),
            (''oob_ip'', tg_OOBIP t), (''device_type'', tg_DeviceType t), (''vendor'', tg_Vendor t), (''model_name'', as_ModelName a),
            (''country'', as_Country a), (''datacenter'', as_DatacenterName a), (''datacenter_city'', as_DatacenterCity a),
            (''room'', as_Room a), (''collector_agent'', ''EDR''), (''collector_protocol'', ''SNMP''), (''snmp_enabled'', ''true''),
            (''gnmi_enabled'', if Has t CapGNMI then ''true'' else ''false'')];
          m = (if as_RackRow a > 0 then m(''rack_row'' \<mapsto> itoa (as_RackRow a)) else m);
          m = (if as_RackNum a > 0 then m(''rack_num'' \<mapsto> itoa (as_RackNum a)) else m);
          m = (if as_RackUnit a > 0 then m(''rack_unit'' \<mapsto> itoa (as_RackUnit a)) else m)
      in m ++ tg_Labels t)"

definition metric :: "string \<Rightarrow> string \<Rightarrow> rat \<Rightarrow> smap \<Rightarrow> reading" where
  "metric name tag v m = \<lparr>rd_kind = ''metric'', rd_name = name, rd_tag = tag, rd_value = v, rd_meta = m\<rparr>"

text \<open>\<open>newMetric\<close>, \<open>newTopology\<close> and \<open>newInterfaceAddress\<close>, which differ in the kind only.\<close>

definition stamp :: "snmp_env \<Rightarrow> reading \<Rightarrow> Collector \<Rightarrow> TelemetryPacket \<times> Collector" where
  "stamp en rd c =
     (let now = sv_now en (co_built c); i = sv_id en (co_built c); src = SourceID (co_target c); b = co_base c
      in case NextNonce (co_signer c) of
        (n, sg) \<Rightarrow>
          (\<lparr>PktId = i, OrgId = bp_orgID b, DatacenterId = bp_dcID b, FloorId = bp_floorID b, NetworkId = bp_netID b,
            GroupId = bp_grpID b, SourceType = ''device'', SourceId = src, ReaderId = bp_readerID b, TimestampNs = now,
            Name = rd_name rd, Tag = rd_tag rd, Value = rd_value rd, Meta = rd_meta rd, Kind = rd_kind rd, Severity = '''',
            Signature = sv_sign en (CanonicalBytes i src (word_of_int now) (rd_name rd) (rd_tag rd) (sv_scaled en (rd_value rd)) n),
            Nonce = n\<rparr>,
           c\<lparr>co_signer := sg, co_built := Suc (co_built c)\<rparr>))"

fun stamp_all :: "snmp_env \<Rightarrow> reading list \<Rightarrow> Collector \<Rightarrow> TelemetryPacket list \<times> Collector" where
  "stamp_all en [] c = ([], c)"
| "stamp_all en (r # rs) c =
     (case stamp en r c of (p, c1) \<Rightarrow> case stamp_all en rs c1 of (ps, c2) \<Rightarrow> (p # ps, c2))"

section \<open>Walks with an index\<close>

definition walked :: "snmp_env \<Rightarrow> string \<Rightarrow> SnmpPDU list" where
  "walked en oid = fst (sv_walk en oid)"

definition walk_ok :: "snmp_env \<Rightarrow> string \<Rightarrow> bool" where
  "walk_ok en oid = snd (sv_walk en oid)"

definition walkIndexed :: "snmp_env \<Rightarrow> string \<Rightarrow> string \<rightharpoonup> rat" where
  "walkIndexed en oid =
     (if walk_ok en oid then map_of (rev (map (\<lambda>p. (LastOIDComponent (pd_Name p), ToFloat64 p)) (walked en oid))) else Map.empty)"

definition walkIndexedInt :: "snmp_env \<Rightarrow> string \<Rightarrow> string \<rightharpoonup> int" where
  "walkIndexedInt en oid = map_option trunc_rat \<circ> walkIndexed en oid"

fun str_value :: "pdu_value \<Rightarrow> string option" where
  "str_value (VStr s) = Some s"
| "str_value (VBytes s) = Some s"
| "str_value _ = None"

definition walkIndexedStr :: "snmp_env \<Rightarrow> string \<Rightarrow> smap" where
  "walkIndexedStr en oid =
     (if walk_ok en oid
      then map_of (rev (concat (map (\<lambda>p. case str_value (pd_Value p) of None \<Rightarrow> [] | Some s \<Rightarrow> [(LastOIDComponent (pd_Name p), s)])
                          (walked en oid))))
      else Map.empty)"

definition num_at :: "(string \<rightharpoonup> 'a::zero) \<Rightarrow> string \<Rightarrow> 'a" where
  "num_at m k = (case m k of Some v \<Rightarrow> v | None \<Rightarrow> 0)"

section \<open>System and interfaces\<close>

text \<open>\<open>MgmtSysName\<close>: the answer of the management agent, when it is a name.\<close>

definition MgmtSysName :: "snmp_env \<Rightarrow> string option" where
  "MgmtSysName en =
     (case sv_mgmt en of
        Some (p # _) \<Rightarrow>
          (let s = PDUString (sv_fmt en) p
           in if s \<in> {'''', ''noSuchObject'', ''noSuchInstance'', ''endOfMibView''} then None else Some s)
      | _ \<Rightarrow> None)"

definition sys_name :: "snmp_env \<Rightarrow> Collector \<Rightarrow> SnmpPDU list \<Rightarrow> string" where
  "sys_name en c vars =
     (let own = fold (\<lambda>p acc. if trim_prefix (pd_Name p) ''.'' = OIDSysName then PDUString (sv_fmt en) p else acc) vars ''''
      in if co_mgmtPort c > 0 then (case MgmtSysName en of Some live \<Rightarrow> live | None \<Rightarrow> own) else own)"

definition collectSystem :: "snmp_env \<Rightarrow> Collector \<Rightarrow> reading list option \<times> Target" where
  "collectSystem en c =
     (case sv_get en [OIDSysUpTime, OIDSysName, OIDSysDescr] of
        None \<Rightarrow> (None, co_target c)
      | Some vars \<Rightarrow>
          let t = SetHostname (sys_name en c vars) (co_target c);
              up = (\<lambda>p. OIDColumn (trim_prefix (pd_Name p) ''.'') \<in> {trim_suffix OIDSysUpTime ''.0'', OIDSysUpTime})
          in (Some (map (\<lambda>p. metric ''system.uptime_centiseconds'' '''' (ToFloat64 p) (hostMeta t)) (filter up vars)), t))"

text \<open>The names of the interfaces: \<open>ifName\<close> where it is a Go string, else \<open>ifDescr\<close>.\<close>

definition if_names :: "snmp_env \<Rightarrow> smap" where
  "if_names en =
     (let m1 = fold (\<lambda>p m. case pd_Value p of
                        VStr s \<Rightarrow> if s \<noteq> '''' then m(LastOIDComponent (pd_Name p) \<mapsto> s) else m
                      | _ \<Rightarrow> m) (walked en OIDIfName) Map.empty
      in fold (\<lambda>p m. let i = LastOIDComponent (pd_Name p)
                     in if m i \<noteq> None then m
                        else case str_value (pd_Value p) of
                               Some s \<Rightarrow> if s \<noteq> '''' then m(i \<mapsto> s) else m
                             | None \<Rightarrow> m) (walked en OIDIfDescr) m1)"

definition walkIfMap :: "snmp_env \<Rightarrow> Target \<Rightarrow> (string \<times> string) list \<Rightarrow> reading list" where
  "walkIfMap en t oidMap =
     (let nm = if_names en
      in concat (map (\<lambda>oid. case map_of oidMap oid of
             None \<Rightarrow> []
           | Some name \<Rightarrow>
               if \<not> walk_ok en oid then []
               else map (\<lambda>p. let i = LastOIDComponent (pd_Name p); ifName = or_default (get nm i) (''if'' @ i)
                             in metric name ifName (ToFloat64 p) ((hostMeta t)(''interface_index'' \<mapsto> i, ''interface_name'' \<mapsto> ifName)))
                        (walked en oid))
           (sv_order en (map fst oidMap))))"

definition first_prefixed :: "string \<Rightarrow> string list \<Rightarrow> string" where
  "first_prefixed p ips = (case find (\<lambda>ip. has_prefix ip p) ips of Some ip \<Rightarrow> ip | None \<Rightarrow> '''')"

definition address_ips :: "snmp_env \<Rightarrow> string list" where
  "address_ips en = filter (\<lambda>ip. ip \<noteq> '''') (map (\<lambda>p. ipSuffix (pd_Name p) OIDIpAdEntAddr) (walked en OIDIpAdEntAddr))"

definition collectInterfaceAddresses :: "snmp_env \<Rightarrow> Target \<Rightarrow> reading list \<times> Target" where
  "collectInterfaceAddresses en t =
     (if \<not> walk_ok en OIDIpAdEntAddr \<or> walked en OIDIpAdEntAddr = [] then ([], t)
      else
        let ipToIdx = map_of (rev (filter (\<lambda>(ip, _). ip \<noteq> '''')
                        (map (\<lambda>p. (ipSuffix (pd_Name p) OIDIpAdEntIfIndex, trunc_rat (ToFloat64 p))) (walked en OIDIpAdEntIfIndex))));
            ips = address_ips en; prodIP = first_prefixed ''10.'' ips; oobIP = first_prefixed ''172.'' ips;
            rds = map (\<lambda>ip. \<lparr>rd_kind = ''interface_address'', rd_name = ''interface.address'', rd_tag = ip, rd_value = 0,
                    rd_meta = (hostMeta t)(''interface_index'' \<mapsto> itoa (num_at ipToIdx ip), ''address'' \<mapsto> ip, ''address_family'' \<mapsto> ''ipv4'')\<rparr>) ips;
            t1 = (if prodIP \<noteq> '''' then t\<lparr>tg_ProdIP := prodIP\<rparr> else t);
            t2 = (if oobIP \<noteq> '''' then t1\<lparr>tg_OOBIP := oobIP\<rparr> else t1);
            t3 = (if tg_DeviceType t \<in> {''router'', ''switch'', ''firewall'', ''load_balancer''} \<and> prodIP \<noteq> ''''
                  then t2\<lparr>tg_LoopbackIP := prodIP\<rparr> else t2)
        in (rds, t3))"

section \<open>Servers and power devices\<close>

definition hrStorageTypeName :: "int \<Rightarrow> string" where
  "hrStorageTypeName n =
     (case map_of [(1, ''other''), (2, ''unknown''), (3, ''fixed-disk''), (4, ''removal-disk''), (5, ''floppy-disk''),
                   (6, ''compact-disc''), (7, ''ram-disk''), (8, ''flash-memory''), (9, ''network-disk'')] n of
        Some s \<Rightarrow> s | None \<Rightarrow> itoa n)"

definition storage_readings :: "snmp_env \<Rightarrow> Target \<Rightarrow> SnmpPDU \<Rightarrow> reading list" where
  "storage_readings en t p =
     (let i = LastOIDComponent (pd_Name p);
          allocUnits = num_at (walkIndexed en OIDHrStorageAllocUnits) i;
          sizeKB = ToFloat64 p * allocUnits / 1024;
          usedKB = num_at (walkIndexed en OIDHrStorageUsed) i * allocUnits / 1024;
          descr = or_default (get (walkIndexedStr en OIDHrStorageDescr) i) i;
          m = (hostMeta t)(''storage_type'' \<mapsto> hrStorageTypeName (num_at (walkIndexedInt en OIDHrStorageType) i),
                           ''storage_descr'' \<mapsto> descr)
      in [metric ''server.storage_size_kb'' descr sizeKB m, metric ''server.storage_used_kb'' descr usedKB m,
          metric ''server.storage_available_kb'' descr (sizeKB - usedKB) m])"

definition collectServerHR :: "snmp_env \<Rightarrow> Target \<Rightarrow> reading list" where
  "collectServerHR en t =
     (if walk_ok en OIDHrProcessorLoad
      then map (\<lambda>p. metric ''server.cpu_per_core_percent'' (LastOIDComponent (pd_Name p)) (ToFloat64 p) (hostMeta t))
             (walked en OIDHrProcessorLoad)
      else [])
     @ concat (map (storage_readings en t) (walked en OIDHrStorageSize))"

definition ucd_names :: "(string \<times> string) list" where
  "ucd_names =
     [(''1.3.6.1.4.1.2021.11.9.0'', ''server.cpu_user_percent''), (''1.3.6.1.4.1.2021.11.10.0'', ''server.cpu_system_percent''),
      (''1.3.6.1.4.1.2021.11.11.0'', ''server.cpu_idle_percent''), (''1.3.6.1.4.1.2021.4.5.0'', ''server.memory_total_kb''),
      (''1.3.6.1.4.1.2021.4.6.0'', ''server.memory_available_kb''), (''1.3.6.1.4.1.2021.4.14.0'', ''server.memory_cached_kb''),
      (''1.3.6.1.4.1.2021.4.15.0'', ''server.memory_buffer_kb'')]"

definition ups_names :: "(string \<times> string) list" where
  "ups_names =
     [(''1.3.6.1.2.1.33.1.2.1.0'', ''environment.ups_battery_status''), (''1.3.6.1.2.1.33.1.2.2.0'', ''environment.ups_seconds_on_battery''),
      (''1.3.6.1.2.1.33.1.2.4.0'', ''environment.ups_minutes_remaining''), (''1.3.6.1.2.1.33.1.2.5.0'', ''environment.ups_charge_percent''),
      (''1.3.6.1.2.1.33.1.2.6.0'', ''environment.ups_battery_voltage_v'')]"

text \<open>The shape \<open>collectUCD\<close> and \<open>collectUPS\<close> share: one GET, one metric per known scalar.\<close>

definition named_scalars :: "Target \<Rightarrow> (string \<times> string) list \<Rightarrow> SnmpPDU list \<Rightarrow> reading list" where
  "named_scalars t names vars =
     concat (map (\<lambda>p. case map_of names (trim_prefix (pd_Name p) ''.'') of
                        Some name \<Rightarrow> [metric name '''' (ToFloat64 p) (hostMeta t)] | None \<Rightarrow> []) vars)"

definition collectUCD :: "snmp_env \<Rightarrow> Target \<Rightarrow> reading list option" where
  "collectUCD en t = map_option (named_scalars t ucd_names) (sv_get en (map fst ucd_names))"

definition walk_rows :: "snmp_env \<Rightarrow> Target \<Rightarrow> string \<Rightarrow> string \<Rightarrow> reading list" where
  "walk_rows en t oid name = map (\<lambda>p. metric name (LastOIDComponent (pd_Name p)) (ToFloat64 p) (hostMeta t)) (walked en oid)"

definition collectUPS :: "snmp_env \<Rightarrow> Target \<Rightarrow> reading list option" where
  "collectUPS en t =
     map_option (\<lambda>vars. named_scalars t ups_names vars
         @ walk_rows en t OIDUpsInputVoltage ''environment.ups_input_voltage_v''
         @ walk_rows en t OIDUpsOutputVoltage ''environment.ups_output_voltage_v''
         @ walk_rows en t OIDUpsOutputCurrent ''environment.ups_output_current_a''
         @ walk_rows en t OIDUpsOutputLoad ''environment.ups_output_load_percent'')
       (sv_get en (map fst ups_names))"

record scalarMetric =
  sm_col :: string
  sm_name :: string
  sm_tag :: string
  sm_scale :: rat

definition scalar_table :: "(string \<times> string \<times> string \<times> rat) list \<Rightarrow> scalarMetric list" where
  "scalar_table = map (\<lambda>(c, n, t, s). \<lparr>sm_col = c, sm_name = n, sm_tag = t, sm_scale = s\<rparr>)"

definition pduScalars :: "scalarMetric list" where
  "pduScalars = scalar_table
     [(''1'', ''pdu.load_percent'', '''', 1), (''2'', ''pdu.voltage_v'', '''', 1), (''3'', ''pdu.power_factor'', '''', 100),
      (''4'', ''pdu.phase_imbalance_percent'', '''', 1), (''5'', ''pdu.outlet_status'', '''', 1), (''6'', ''pdu.breaker_status'', '''', 1),
      (''7'', ''pdu.outlet_failure'', '''', 1), (''8'', ''pdu.smoke_detected'', '''', 1), (''9'', ''pdu.current_a'', '''', 10),
      (''10'', ''pdu.ground_fault'', '''', 1), (''11'', ''pdu.real_power_w'', '''', 1), (''12'', ''pdu.apparent_power_va'', '''', 1),
      (''13'', ''pdu.energy_kwh'', '''', 10), (''14'', ''pdu.frequency_hz'', '''', 10), (''15'', ''environment.temperature_c'', ''PDU'', 10),
      (''16'', ''environment.humidity_percent'', '''', 10), (''17'', ''pdu.outlet_power_w'', '''', 1)]"

definition genScalars :: "scalarMetric list" where
  "genScalars = scalar_table
     [(''1'', ''generator.fuel_percent'', '''', 1), (''2'', ''generator.run_hours'', '''', 1), (''3'', ''generator.status'', '''', 1),
      (''4'', ''generator.load_percent'', '''', 1), (''5'', ''generator.output_kw'', '''', 1), (''6'', ''generator.output_voltage_v'', ''PhA'', 10),
      (''7'', ''generator.output_voltage_v'', ''PhB'', 10), (''8'', ''generator.output_voltage_v'', ''PhC'', 10),
      (''9'', ''generator.frequency_hz'', '''', 10), (''10'', ''generator.coolant_status'', '''', 1),
      (''11'', ''generator.oil_pressure_status'', '''', 1), (''12'', ''generator.battery_status'', '''', 1), (''13'', ''generator.start_attempts'', '''', 1)]"

definition upsEntScalars :: "scalarMetric list" where
  "upsEntScalars = scalar_table
     [(''1'', ''environment.ups_fan_status'', '''', 1), (''2'', ''environment.ups_charger_status'', '''', 1),
      (''3'', ''environment.ups_rectifier_status'', '''', 1), (''4'', ''environment.ups_phase_status'', '''', 1),
      (''5'', ''environment.ups_battery_status_ex'', '''', 1)]"

definition scalar_oid :: "string \<Rightarrow> scalarMetric \<Rightarrow> string" where
  "scalar_oid base s = base @ ''.'' @ sm_col s @ ''.0''"

definition scalar_reading :: "Target \<Rightarrow> string \<Rightarrow> scalarMetric list \<Rightarrow> SnmpPDU \<Rightarrow> reading list" where
  "scalar_reading t base table p =
     (if unanswered p then []
      else case find (\<lambda>s. sm_col s = scalarCol (pd_Name p) base) (rev table) of
             None \<Rightarrow> []
           | Some s \<Rightarrow>
               let scale = (if sm_scale s = 0 then 1 else sm_scale s)
               in [metric (sm_name s) (sm_tag s) (ToFloat64 p / scale) (hostMeta t)])"

definition collectScalars :: "snmp_env \<Rightarrow> Target \<Rightarrow> string \<Rightarrow> scalarMetric list \<Rightarrow> reading list option" where
  "collectScalars en t base table =
     map_option (\<lambda>vars. concat (map (scalar_reading t base table) vars)) (sv_get en (map (scalar_oid base) table))"

definition collectUPSTemp :: "snmp_env \<Rightarrow> Target \<Rightarrow> reading list option" where
  "collectUPSTemp en t =
     map_option (\<lambda>vars. map (\<lambda>p. metric ''environment.temperature_c'' ''BATTERY'' (ToFloat64 p) ((hostMeta t)(''sensor_index'' \<mapsto> ''battery'')))
         (filter (\<lambda>p. \<not> unanswered p) vars))
       (sv_get en [OIDUpsBatteryTemperature])"

definition entSensorTag :: "string \<Rightarrow> string" where
  "entSensorTag i = (if i = ''1'' then ''CHASSIS'' else if i = ''2'' then ''CPU'' else ''SENSOR'' @ i)"

definition sensor_meta :: "Target \<Rightarrow> string \<Rightarrow> smap" where
  "sensor_meta t i = (hostMeta t)(''sensor_index'' \<mapsto> i)"

definition collectServerTemp :: "snmp_env \<Rightarrow> Target \<Rightarrow> reading list option" where
  "collectServerTemp en t =
     (if \<not> walk_ok en OIDEntPhySensorValue then None
      else Some (map (\<lambda>p. let i = LastOIDComponent (pd_Name p)
                          in metric ''environment.temperature_c'' (entSensorTag i) (ToFloat64 p / 10) (sensor_meta t i))
                   (walked en OIDEntPhySensorValue)))"

section \<open>Sensors\<close>

definition raritan_reading :: "Target \<Rightarrow> (string \<rightharpoonup> int) \<Rightarrow> SnmpPDU \<Rightarrow> reading list" where
  "raritan_reading t typeMap p =
     (let i = LastOIDComponent (pd_Name p); v = ToFloat64 p / 10; ty = num_at typeMap i
      in if ty = RaritanTypeTemp then [metric ''environment.temperature_c'' i v (sensor_meta t i)]
         else if ty = RaritanTypeHumidity then [metric ''environment.humidity_percent'' i v (sensor_meta t i)]
         else [])"

definition collectRaritanSensors :: "snmp_env \<Rightarrow> Target \<Rightarrow> reading list option" where
  "collectRaritanSensors en t =
     (if \<not> walk_ok en OIDRaritanSensorValue then None
      else Some (concat (map (raritan_reading t (walkIndexedInt en OIDRaritanSensorType)) (walked en OIDRaritanSensorValue))))"

definition walkEnvMetric :: "snmp_env \<Rightarrow> Target \<Rightarrow> string \<Rightarrow> string \<Rightarrow> reading list" where
  "walkEnvMetric en t oid name =
     (if \<not> walk_ok en oid then []
      else map (\<lambda>p. let i = LastOIDComponent (pd_Name p) in metric name i (ToFloat64 p / 10) (sensor_meta t i)) (walked en oid))"

definition collectVertivSensors :: "snmp_env \<Rightarrow> Target \<Rightarrow> reading list" where
  "collectVertivSensors en t =
     walkEnvMetric en t OIDVertivTempValue ''environment.temperature_c''
     @ walkEnvMetric en t OIDVertivHumValue ''environment.humidity_percent''
     @ walkEnvMetric en t OIDVertivDewValue ''environment.dew_point_c''"

definition apcSensorKind :: "string \<Rightarrow> string \<Rightarrow> string" where
  "apcSensorKind label i =
     (let l = to_lower label
      in if contains_str l ''temp'' then ''temperature''
         else if contains_str l ''humid'' then ''humidity''
         else if contains_str l ''airflow'' \<or> contains_str l ''air flow'' then ''airflow''
         else if i = ''1'' then ''temperature'' else if i = ''2'' then ''humidity'' else if i = ''3'' then ''airflow'' else '''')"

definition apc_reading :: "Target \<Rightarrow> smap \<Rightarrow> SnmpPDU \<Rightarrow> reading list" where
  "apc_reading t labels p =
     (let i = LastOIDComponent (pd_Name p); raw = ToFloat64 p; k = apcSensorKind (get labels i) i
      in if k = ''temperature'' then [metric ''environment.temperature_c'' i (raw / 10) (sensor_meta t i)]
         else if k = ''humidity'' then [metric ''environment.humidity_percent'' i raw (sensor_meta t i)]
         else if k = ''airflow'' then [metric ''environment.airflow_cfm'' i (raw / 10) (sensor_meta t i)]
         else [])"

definition collectAPCSensors :: "snmp_env \<Rightarrow> Target \<Rightarrow> reading list option" where
  "collectAPCSensors en t =
     (if \<not> walk_ok en OIDAPCNetBotzValue then None
      else Some (concat (map (apc_reading t (walkIndexedStr en OIDAPCNetBotzLabel)) (walked en OIDAPCNetBotzValue))))"

definition collectSensors :: "snmp_env \<Rightarrow> Target \<Rightarrow> reading list option" where
  "collectSensors en t =
     (if tg_Vendor t = ''raritan'' then collectRaritanSensors en t
      else if tg_Vendor t = ''vertiv'' then Some (collectVertivSensors en t)
      else if tg_Vendor t = ''apc'' then collectAPCSensors en t
      else case collectRaritanSensors en t of
             Some (r # rs) \<Rightarrow> Some (r # rs)
           | _ \<Rightarrow> Some (collectVertivSensors en t))"
section \<open>LLDP neighbours\<close>

text \<open>A column of the remote table by its row index; a later row of an index wins.\<close>

definition rem_column :: "snmp_env \<Rightarrow> string \<Rightarrow> smap" where
  "rem_column en oid =
     map_of (rev (filter (\<lambda>(suf, _). suf \<noteq> '''')
       (map (\<lambda>p. (oidSuffix (pd_Name p) oid, PDUString (sv_fmt en) p)) (walked en oid))))"

definition rem_column_ok :: "snmp_env \<Rightarrow> string \<Rightarrow> smap" where
  "rem_column_ok en oid = (if walk_ok en oid then rem_column en oid else Map.empty)"

definition loc_ports :: "snmp_env \<Rightarrow> smap" where
  "loc_ports en =
     (let m1 = (if walk_ok en OIDLLDPLocPortId
                then fold (\<lambda>p m. let v = PDUString (sv_fmt en) p
                                 in if v \<noteq> '''' then m(LastOIDComponent (pd_Name p) \<mapsto> v) else m) (walked en OIDLLDPLocPortId) Map.empty
                else Map.empty)
      in if walk_ok en OIDLLDPLocPortDesc
         then fold (\<lambda>p m. let i = LastOIDComponent (pd_Name p); v = PDUString (sv_fmt en) p
                          in if get m i = '''' \<and> v \<noteq> '''' then m(i \<mapsto> v) else m) (walked en OIDLLDPLocPortDesc) m1
         else m1)"

definition local_port :: "snmp_env \<Rightarrow> string \<Rightarrow> string" where
  "local_port en portNum =
     or_default (or_default (get (loc_ports en) portNum) (get (walkIndexedStr en OIDIfDescr) (itoa (atoi_or portNum + 1))))
       (''if'' @ portNum)"

definition link_layer :: "Target \<Rightarrow> string \<Rightarrow> string" where
  "link_layer t remoteSysName =
     (if tg_DeviceType t = ''oob_switch'' \<or> contains_str (to_upper remoteSysName) ''OOB'' then ''management'' else ''network'')"

definition neighbour_reading :: "snmp_env \<Rightarrow> Target \<Rightarrow> string \<Rightarrow> reading list" where
  "neighbour_reading en t suf =
     (let remote = get (rem_column en OIDLLDPRemSysName) suf; parts = split_on dot suf
      in if remote = '''' \<or> length parts < 3 then []
         else
           let portNum = parts ! 1; localPort = local_port en portNum; ch = get (rem_column_ok en OIDLLDPRemChassisId) suf;
               m = (hostMeta t)(''local_port_id'' \<mapsto> localPort, ''local_port_index'' \<mapsto> itoa (atoi_or portNum + 1),
                     ''remote_sys_name'' \<mapsto> remote, ''remote_port_id'' \<mapsto> get (rem_column_ok en OIDLLDPRemPortId) suf);
               m = (if ch \<noteq> '''' \<and> ParseIP_ok ch then m(''remote_mgmt_ip'' \<mapsto> ch) else m)
           in [\<lparr>rd_kind = ''topology'', rd_name = ''lldp.neighbor'', rd_tag = localPort, rd_value = 0,
                rd_meta = m(''layer'' \<mapsto> link_layer t remote)\<rparr>])"

text \<open>The row indices of the remote table, each once, in the order of the map iteration.\<close>

definition rem_suffixes :: "snmp_env \<Rightarrow> string list" where
  "rem_suffixes en =
     sv_order en (remdups (filter (\<lambda>s. s \<noteq> '''') (map (\<lambda>p. oidSuffix (pd_Name p) OIDLLDPRemSysName) (walked en OIDLLDPRemSysName))))"

definition collectLLDP :: "snmp_env \<Rightarrow> Target \<Rightarrow> reading list" where
  "collectLLDP en t =
     (if \<not> walk_ok en OIDLLDPRemSysName then []
      else concat (map (neighbour_reading en t) (rem_suffixes en)))"

section \<open>One tier\<close>

definition or_none :: "reading list option \<Rightarrow> reading list" where
  "or_none r = (case r of Some rs \<Rightarrow> rs | None \<Rightarrow> [])"

text \<open>The readings of a tier, and the target as the collection leaves it.\<close>

definition tier_readings :: "snmp_env \<Rightarrow> Tier \<Rightarrow> Collector \<Rightarrow> reading list option \<times> Target" where
  "tier_readings en tier c =
     (let t = co_target c; dt = tg_DeviceType t
      in case tier of
           TierFast \<Rightarrow> collectSystem en c
         | TierMedium \<Rightarrow>
             (case collectInterfaceAddresses en t of (addrs, t1) \<Rightarrow> (Some (walkIfMap en t IfMetricStatus @ addrs), t1))
         | TierSlow \<Rightarrow>
             (Some (walkIfMap en t IfMetricCounters
                @ (if dt = ''server'' then collectServerHR en t @ or_none (collectUCD en t)
                   else if dt = ''ups'' then or_none (collectUPS en t)
                   else if dt = ''sensor'' then or_none (collectSensors en t)
                   else [])), t)
         | TierEnvironment \<Rightarrow>
             (Some (if dt = ''sensor'' then or_none (collectSensors en t)
                    else if dt = ''pdu'' \<or> dt = ''floor_pdu'' then or_none (collectScalars en t OIDPDUBase pduScalars)
                    else if dt = ''generator'' then or_none (collectScalars en t OIDGeneratorBase genScalars)
                    else if dt = ''server'' then or_none (collectServerTemp en t)
                    else if dt = ''ups'' then or_none (collectUPSTemp en t) @ or_none (collectScalars en t OIDUPSEntBase upsEntScalars)
                    else []), t)
         | TierServerHealth \<Rightarrow> (Some (if dt = ''server'' then or_none (collectUCD en t) else []), t)
         | TierTopology \<Rightarrow>
             (Some (if dt \<in> {''router'', ''switch'', ''firewall'', ''load_balancer'', ''oob_switch''} then collectLLDP en t else []), t))"

text \<open>
  Host names change in \<open>collectSystem\<close> before its packets are built; addresses change after
  the packets of their tier.
\<close>

definition Collect :: "snmp_env \<Rightarrow> Tier \<Rightarrow> Collector \<Rightarrow> TelemetryPacket list option \<times> Collector" where
  "Collect en tier c =
     (case tier_readings en tier c of
        (None, t) \<Rightarrow> (None, c\<lparr>co_target := t\<rparr>)
      | (Some rs, t) \<Rightarrow>
          (case stamp_all en rs (if tier = TierFast then c\<lparr>co_target := t\<rparr> else c) of
             (ps, c1) \<Rightarrow> (Some ps, c1\<lparr>co_target := t\<rparr>)))"

section \<open>Stamping\<close>

definition signed :: "snmp_env \<Rightarrow> TelemetryPacket \<Rightarrow> bool" where
  "signed en p \<longleftrightarrow> Signature p =
     sv_sign en (CanonicalBytes (PktId p) (SourceId p) (word_of_int (TimestampNs p)) (Name p) (Tag p) (sv_scaled en (Value p)) (Nonce p))"

definition scoped :: "basePacket \<Rightarrow> TelemetryPacket \<Rightarrow> bool" where
  "scoped b p \<longleftrightarrow> OrgId p = bp_orgID b \<and> DatacenterId p = bp_dcID b \<and> FloorId p = bp_floorID b \<and> NetworkId p = bp_netID b
     \<and> GroupId p = bp_grpID b \<and> ReaderId p = bp_readerID b \<and> SourceType p = ''device''"

definition reading_of :: "TelemetryPacket \<Rightarrow> reading" where
  "reading_of p = \<lparr>rd_kind = Kind p, rd_name = Name p, rd_tag = Tag p, rd_value = Value p, rd_meta = Meta p\<rparr>"

lemma stamp_all_spec:
  assumes "stamp_all en rs c = (ps, c1)"
  shows "map reading_of ps = rs" and "map Nonce ps = take_nonces (length rs) (co_signer c)"
    and "list_all (\<lambda>p. signed en p \<and> scoped (co_base c) p \<and> SourceId p = SourceID (co_target c)) ps"
    and "map PktId ps = map (sv_id en) [co_built c..<co_built c + length rs]" and "co_built c1 = co_built c + length rs"
    and "co_target c1 = co_target c \<and> co_base c1 = co_base c"
proof -
  have "map reading_of ps = rs \<and> map Nonce ps = take_nonces (length rs) (co_signer c)
    \<and> list_all (\<lambda>p. signed en p \<and> scoped (co_base c) p \<and> SourceId p = SourceID (co_target c)) ps
    \<and> map PktId ps = map (sv_id en) [co_built c..<co_built c + length rs] \<and> co_built c1 = co_built c + length rs
    \<and> co_target c1 = co_target c \<and> co_base c1 = co_base c"
    using assms
  proof (induction rs arbitrary: c ps)
    case (Cons r rs)
    obtain p c' where p: "stamp en r c = (p, c')" by fastforce
    obtain ps' c2 where ps': "stamp_all en rs c' = (ps', c2)" by fastforce
    have eq: "ps = p # ps'" "c2 = c1" using Cons.prems p ps' by simp_all
    have st: "reading_of p = r" "Nonce p = nonce (co_signer c) + 1" "signed en p" "scoped (co_base c) p"
      "SourceId p = SourceID (co_target c)" "PktId p = sv_id en (co_built c)"
      "co_signer c' = snd (NextNonce (co_signer c))" "co_built c' = Suc (co_built c)" "co_target c' = co_target c" "co_base c' = co_base c"
      using p by (auto simp: stamp_def Let_def NextNonce_def reading_of_def signed_def scoped_def)
    have "[co_built c..<co_built c + length (r # rs)] = co_built c # [Suc (co_built c)..<Suc (co_built c) + length rs]"
      by (simp add: upt_rec)
    then show ?case using Cons.IH [of c' ps'] ps' eq st by (simp add: NextNonce_def Let_def)
  qed simp
  then show "map reading_of ps = rs" and "map Nonce ps = take_nonces (length rs) (co_signer c)"
    and "list_all (\<lambda>p. signed en p \<and> scoped (co_base c) p \<and> SourceId p = SourceID (co_target c)) ps"
    and "map PktId ps = map (sv_id en) [co_built c..<co_built c + length rs]" and "co_built c1 = co_built c + length rs"
    and "co_target c1 = co_target c \<and> co_base c1 = co_base c" by simp_all
qed

text \<open>Only the host name of the FAST tier and the addresses of the MEDIUM tier change a target.\<close>

lemma tier_target:
  assumes "tier_readings en tier c = (rs, t)"
  shows "tier \<noteq> TierFast \<Longrightarrow> SourceID t = SourceID (co_target c)" and "tg_MgmtIP t = tg_MgmtIP (co_target c)"
    and "tg_DeviceType t = tg_DeviceType (co_target c)" and "tier \<noteq> TierFast \<Longrightarrow> rs \<noteq> None"
  using assms
  by (cases tier; auto simp: tier_readings_def Let_def collectSystem_def collectInterfaceAddresses_def SourceID_def SetHostname_def
      split: prod.splits option.splits if_splits)+

lemma Collect_stamps:
  assumes "Collect en tier c = (Some ps, c1)"
  obtains rs where "tier_readings en tier c = (Some rs, co_target c1)" and "map reading_of ps = rs"
    and "map Nonce ps = take_nonces (length ps) (co_signer c)"
    and "list_all (\<lambda>p. signed en p \<and> scoped (co_base c) p \<and> SourceId p = SourceID (co_target c1)) ps"
    and "map PktId ps = map (sv_id en) [co_built c..<co_built c + length ps]"
proof -
  obtain rs t where rs: "tier_readings en tier c = (Some rs, t)"
    using assms by (cases "tier_readings en tier c") (auto simp: Collect_def split: option.splits)
  define c0 where "c0 = (if tier = TierFast then c\<lparr>co_target := t\<rparr> else c)"
  obtain qs c2 where qs: "stamp_all en rs c0 = (qs, c2)" by fastforce
  have eq: "qs = ps" "co_target c1 = t" using assms rs qs by (auto simp: Collect_def c0_def)
  have c0: "co_signer c0 = co_signer c" "co_base c0 = co_base c" "co_built c0 = co_built c" by (simp_all add: c0_def)
  have "SourceID (co_target c0) = SourceID t" using tier_target(1) [OF rs] by (auto simp: c0_def)
  note st = stamp_all_spec [OF qs, unfolded eq(1) c0 this]
  have len: "length ps = length rs" using st(1) by (metis length_map)
  show ?thesis
    using that [of rs] rs st len unfolding eq(2) by simp
qed

section \<open>What the readings are\<close>

definition metric_readings :: "reading list \<Rightarrow> bool" where
  "metric_readings rs \<longleftrightarrow> list_all (\<lambda>r. rd_kind r = ''metric'' \<and> rd_name r \<noteq> '''') rs"

lemma metric_readings_simps [simp]:
  "metric_readings []" "metric_readings (r # rs) \<longleftrightarrow> rd_kind r = ''metric'' \<and> rd_name r \<noteq> '''' \<and> metric_readings rs"
  "metric_readings (rs @ rs') \<longleftrightarrow> metric_readings rs \<and> metric_readings rs'"
  "metric_readings (concat rss) \<longleftrightarrow> list_all metric_readings rss"
  by (auto simp: metric_readings_def list_all_iff)

lemma metric_sel [simp]: "rd_kind (metric n t v m) = ''metric''" "rd_name (metric n t v m) = n" "rd_tag (metric n t v m) = t"
  "rd_value (metric n t v m) = v" "rd_meta (metric n t v m) = m"
  by (simp_all add: metric_def)

lemma metric_map: "(\<And>x. x \<in> set xs \<Longrightarrow> rd_kind (f x) = ''metric'' \<and> rd_name (f x) \<noteq> '''') \<Longrightarrow> metric_readings (map f xs)"
  by (auto simp: metric_readings_def list_all_iff)

lemma metric_concat_map: "(\<And>x. x \<in> set xs \<Longrightarrow> metric_readings (f x)) \<Longrightarrow> metric_readings (concat (map f xs))"
  by (auto simp: list_all_iff)

lemma table_names:
  "map_of ucd_names k = Some n \<Longrightarrow> n \<noteq> ''''" "map_of ups_names k = Some n \<Longrightarrow> n \<noteq> ''''"
  "map_of IfMetricStatus k = Some n \<Longrightarrow> n \<noteq> ''''" "map_of IfMetricCounters k = Some n \<Longrightarrow> n \<noteq> ''''"
  by (auto simp: ucd_names_def ups_names_def IfMetricStatus_def IfMetricCounters_def split: if_splits)

definition known_tables :: "scalarMetric list list" where
  "known_tables = [pduScalars, genScalars, upsEntScalars]"

lemma known_tables_ok:
  "list_all (\<lambda>tb. list_all (\<lambda>s. sm_name s \<noteq> '''' \<and> sm_scale s \<noteq> 0) tb \<and> distinct (map sm_col tb)) known_tables"
  by (simp add: known_tables_def pduScalars_def genScalars_def upsEntScalars_def scalar_table_def)

lemma walkIfMap_metrics:
  "(\<And>k n. map_of m k = Some n \<Longrightarrow> n \<noteq> '''') \<Longrightarrow> metric_readings (walkIfMap en t m)"
  unfolding walkIfMap_def Let_def by (intro metric_concat_map) (auto intro!: metric_map split: option.split)

lemma named_scalars_metrics:
  "(\<And>k n. map_of m k = Some n \<Longrightarrow> n \<noteq> '''') \<Longrightarrow> metric_readings (named_scalars t m vars)"
  unfolding named_scalars_def by (intro metric_concat_map) (auto split: option.split)

lemma collectScalars_metrics:
  "list_all (\<lambda>s. sm_name s \<noteq> '''') tb \<Longrightarrow> collectScalars en t base tb = Some rs \<Longrightarrow> metric_readings rs"
  unfolding collectScalars_def
  by (auto intro!: metric_concat_map simp: scalar_reading_def list_all_iff find_Some_iff Let_def split: option.split dest: nth_mem)
    (metis in_set_conv_nth length_rev nth_mem set_rev)

lemma server_metrics: "metric_readings (collectServerHR en t)" "collectUCD en t = Some rs \<Longrightarrow> metric_readings rs"
  "collectServerTemp en t = Some rs \<Longrightarrow> metric_readings rs"
  by (auto simp: collectServerHR_def storage_readings_def Let_def collectUCD_def collectServerTemp_def list_all_iff
      intro!: metric_map named_scalars_metrics dest: table_names split: if_splits)

lemma ups_metrics: "collectUPS en t = Some rs \<Longrightarrow> metric_readings rs" "collectUPSTemp en t = Some rs \<Longrightarrow> metric_readings rs"
  by (auto simp: collectUPS_def collectUPSTemp_def walk_rows_def intro!: metric_map named_scalars_metrics dest: table_names)

lemma sensor_metrics: "collectSensors en t = Some rs \<Longrightarrow> metric_readings rs"
proof -
  have r: "collectRaritanSensors en t = Some rs \<Longrightarrow> metric_readings rs" for rs
    by (auto simp: collectRaritanSensors_def raritan_reading_def Let_def intro!: metric_concat_map split: if_splits)
  have v: "metric_readings (collectVertivSensors en t)"
    by (auto simp: collectVertivSensors_def walkEnvMetric_def Let_def intro!: metric_map)
  have a: "collectAPCSensors en t = Some rs \<Longrightarrow> metric_readings rs" for rs
    by (auto simp: collectAPCSensors_def apc_reading_def Let_def intro!: metric_concat_map split: if_splits)
  assume "collectSensors en t = Some rs"
  then show ?thesis using r v a by (auto simp: collectSensors_def split: if_splits option.splits list.splits)
qed

lemma or_none_metrics: "(\<And>rs. r = Some rs \<Longrightarrow> metric_readings rs) \<Longrightarrow> metric_readings (or_none r)"
  by (cases r) (auto simp: or_none_def)

fun tier_kinds :: "Tier \<Rightarrow> string list" where
  "tier_kinds TierMedium = [''metric'', ''interface_address'']"
| "tier_kinds TierTopology = [''topology'']"
| "tier_kinds _ = [''metric'']"

lemma metric_tier: "metric_readings rs \<Longrightarrow> tier \<noteq> TierTopology \<Longrightarrow> list_all (\<lambda>r. rd_name r \<noteq> '''' \<and> rd_kind r \<in> set (tier_kinds tier)) rs"
  by (cases tier) (auto simp: metric_readings_def list_all_iff)

lemma tier_readings_kinds:
  assumes "tier_readings en tier c = (Some rs, t)"
  shows "list_all (\<lambda>r. rd_name r \<noteq> '''' \<and> rd_kind r \<in> set (tier_kinds tier)) rs"
proof (cases tier)
  case TierFast
  then have "metric_readings rs"
    using assms by (auto simp: tier_readings_def collectSystem_def Let_def intro!: metric_map split: option.splits)
  then show ?thesis using TierFast metric_tier by blast
next
  case TierMedium
  then obtain addrs where rs: "rs = walkIfMap en (co_target c) IfMetricStatus @ addrs"
    and a: "collectInterfaceAddresses en (co_target c) = (addrs, t)"
    using assms by (auto simp: tier_readings_def Let_def split: prod.splits)
  have "metric_readings (walkIfMap en (co_target c) IfMetricStatus)" using walkIfMap_metrics table_names(3) by blast
  then have "list_all (\<lambda>r. rd_name r \<noteq> '''' \<and> rd_kind r \<in> set (tier_kinds tier)) (walkIfMap en (co_target c) IfMetricStatus)"
    using TierMedium metric_tier by blast
  moreover have "list_all (\<lambda>r. rd_name r \<noteq> '''' \<and> rd_kind r \<in> set (tier_kinds tier)) addrs"
    using a TierMedium by (auto simp: collectInterfaceAddresses_def Let_def list_all_iff split: if_splits)
  ultimately show ?thesis by (simp add: rs)
next
  case TierSlow
  have "metric_readings (walkIfMap en (co_target c) IfMetricCounters)" using walkIfMap_metrics table_names(4) by blast
  then have "metric_readings rs"
    using TierSlow assms server_metrics ups_metrics sensor_metrics or_none_metrics
    by (auto simp: tier_readings_def Let_def)
  then show ?thesis using TierSlow metric_tier by blast
next
  case TierTopology
  then show ?thesis using assms
    by (auto simp: tier_readings_def Let_def collectLLDP_def neighbour_reading_def list_all_iff split: if_splits)
next
  case TierEnvironment
  have "list_all (\<lambda>s. sm_name s \<noteq> '''') pduScalars" "list_all (\<lambda>s. sm_name s \<noteq> '''') genScalars" "list_all (\<lambda>s. sm_name s \<noteq> '''') upsEntScalars"
    using known_tables_ok by (simp_all add: known_tables_def list_all_iff)
  then have "metric_readings rs"
    using TierEnvironment assms server_metrics ups_metrics sensor_metrics or_none_metrics collectScalars_metrics
    by (auto simp: tier_readings_def Let_def split: if_splits)
  then show ?thesis using TierEnvironment metric_tier by blast
next
  case TierServerHealth
  then have "metric_readings rs"
    using assms server_metrics or_none_metrics by (auto simp: tier_readings_def Let_def split: if_splits)
  then show ?thesis using TierServerHealth metric_tier by blast
qed

section \<open>Properties\<close>

text \<open>
  C20. What a collection of any tier hands on: its packets carry the next nonces of the signer
  in order, each is signed over its own fields and scoped as configured, each names the
  source the target has afterwards (so a rename shows at once), each has a name and a kind
  of the tier, and identifiers are drawn one per packet.
\<close>

theorem Collect_signs_every_packet:
  assumes "Collect en tier c = (Some ps, c1)"
  shows "map Nonce ps = take_nonces (length ps) (co_signer c)
    \<and> map PktId ps = map (sv_id en) [co_built c..<co_built c + length ps]
    \<and> list_all (\<lambda>p. signed en p \<and> scoped (co_base c) p \<and> SourceId p = SourceID (co_target c1)
         \<and> Name p \<noteq> '''' \<and> Kind p \<in> set (tier_kinds tier)) ps"
proof -
  obtain rs where rs: "tier_readings en tier c = (Some rs, co_target c1)" and r: "map reading_of ps = rs"
    and st: "map Nonce ps = take_nonces (length ps) (co_signer c)"
      "list_all (\<lambda>p. signed en p \<and> scoped (co_base c) p \<and> SourceId p = SourceID (co_target c1)) ps"
      "map PktId ps = map (sv_id en) [co_built c..<co_built c + length ps]"
    using Collect_stamps [OF assms] by blast
  have "list_all (\<lambda>p. Name p \<noteq> '''' \<and> Kind p \<in> set (tier_kinds tier)) ps"
    using tier_readings_kinds [OF rs] by (auto simp: list_all_iff reading_of_def simp flip: r)
  then show ?thesis using st by (auto simp: list_all_iff)
qed

definition quiet_agent :: snmp_env where
  "quiet_agent = \<lparr>sv_get = (\<lambda>oids. Some (map (\<lambda>oid. \<lparr>pd_Name = ''.'' @ oid, pd_Type = OtherType,
       pd_Value = (if oid = OIDSysName then VBytes ''sw-new'' else VInt 42)\<rparr>) oids)),
     sv_walk = (\<lambda>_. ([], True)), sv_mgmt = None, sv_now = int, sv_id = (\<lambda>n. ''id'' @ itoa (int n)), sv_sign = id,
     sv_scaled = (\<lambda>r. word_of_int \<lfloor>r * 1000000000\<rfloor>), sv_fmt = (\<lambda>_. ''''), sv_order = id\<rparr>"

definition old_switch :: Target where
  "old_switch = \<lparr>tg_IP = ''10.0.0.1'', tg_MgmtIP = ''192.168.0.1'', tg_ProdIP = '''', tg_LoopbackIP = '''', tg_OOBIP = '''', tg_GNMIIP = '''',
     tg_Hostname = ''sw-old'', tg_DeviceType = ''switch'', tg_Vendor = ''arista'', tg_Labels = Map.empty, tg_SNMPVersion = 2,
     tg_Community = ''public'', tg_Caps = 1, tg_ActiveCircuits = 0, tg_DatacenterID = '''', tg_FloorID = '''', tg_ModelName = '''',
     tg_Country = '''', tg_DatacenterName = '''', tg_DatacenterCity = '''', tg_Room = '''', tg_Floor = '''', tg_RackRow = 3, tg_RackNum = 0,
     tg_RackUnit = 0\<rparr>"

definition collector_of :: "Target \<Rightarrow> Collector" where
  "collector_of t = \<lparr>co_target = t,
     co_base = \<lparr>bp_orgID = ''o'', bp_dcID = ''dc'', bp_floorID = ''f'', bp_netID = ''n'', bp_grpID = ''g'', bp_readerID = ''edr-1''\<rparr>,
     co_signer = NewSigner ''edr-1'' 100, co_mgmtPort = 0, co_built = 0\<rparr>"

theorem Collect_signs_every_packet_witness:
  "\<exists>p c1. Collect quiet_agent TierFast (collector_of old_switch) = (Some [p], c1)
     \<and> SourceId p = ''sw-new'' \<and> Nonce p = 101 \<and> Value p = 42 \<and> signed quiet_agent p"
proof -
  define r where "r = Collect quiet_agent TierFast (collector_of old_switch)"
  have "map_option (map (\<lambda>p. (SourceId p, Nonce p, Value p))) (fst r) = Some [(''sw-new'', 101, 42)]"
    unfolding r_def by code_simp
  then obtain p where p: "fst r = Some [p]" "SourceId p = ''sw-new''" "Nonce p = 101" "Value p = 42" by auto
  then have "Collect quiet_agent TierFast (collector_of old_switch) = (Some [p], snd r)" by (simp add: r_def prod_eq_iff)
  from Collect_signs_every_packet [OF this] this p show ?thesis by auto
qed

text \<open>
  Every scalar an agent serves arrives as its own metric: when each column of a table is
  answered with a number, the readings are the metrics of the table in its order, each
  with the number divided by the factor of its encoding.
\<close>

theorem scalars_decoded:
  assumes "table \<in> set known_tables" and "base \<in> {OIDPDUBase, OIDGeneratorBase, OIDUPSEntBase}"
    and "sv_get en (map (scalar_oid base) table) =
      Some (map (\<lambda>s. \<lparr>pd_Name = ''.'' @ scalar_oid base s, pd_Type = OtherType, pd_Value = VInt (v (sm_col s))\<rparr>) table)"
  shows "collectScalars en t base table =
    Some (map (\<lambda>s. metric (sm_name s) (sm_tag s) (of_int (v (sm_col s)) / sm_scale s) (hostMeta t)) table)"
proof -
  have ok: "list_all (\<lambda>s. sm_scale s \<noteq> 0) table" "distinct (map sm_col table)"
    using known_tables_ok assms(1) by (auto simp: list_all_iff)
  have base: "\<not> has_prefix base ''.''" using assms(2) by (auto simp: OIDPDUBase_def OIDGeneratorBase_def OIDUPSEntBase_def)
  have "scalar_reading t base table \<lparr>pd_Name = ''.'' @ scalar_oid base s, pd_Type = OtherType, pd_Value = VInt (v (sm_col s))\<rparr>
      = [metric (sm_name s) (sm_tag s) (of_int (v (sm_col s)) / sm_scale s) (hostMeta t)]" if "s \<in> set table" for s
  proof -
    have "find (\<lambda>s'. sm_col s' = sm_col s) (rev table) = Some s"
      using find_unique_key [of sm_col "rev table" s] that ok(2) by (simp add: rev_map flip: rev_map)
    then show ?thesis
      using scalar_roundtrip [OF base, of "sm_col s"] that ok(1)
      by (auto simp: scalar_reading_def unanswered_def scalar_oid_def ToFloat64_def list_all_iff Let_def)
  qed
  then show ?thesis by (simp add: collectScalars_def assms(3) comp_def cong: map_cong)
qed

text \<open>
  The preferred interface name is never used with the SNMP library, which delivers an
  octet string as bytes while the routine asks for a Go string: the interface walks give
  the same readings whatever names the agent serves.
\<close>

theorem ifName_is_ignored:
  assumes "list_all (\<lambda>p. case pd_Value p of VStr _ \<Rightarrow> False | _ \<Rightarrow> True) (walked en OIDIfName)"
    and "OIDIfName \<notin> fst ` set m"
  shows "walkIfMap en t m = walkIfMap (en\<lparr>sv_walk := (sv_walk en)(OIDIfName := ([], ok))\<rparr>) t m"
proof -
  let ?e = "en\<lparr>sv_walk := (sv_walk en)(OIDIfName := ([], ok))\<rparr>"
  have f: "fold (\<lambda>p m. case pd_Value p of VStr s \<Rightarrow> if s \<noteq> '''' then m(LastOIDComponent (pd_Name p) \<mapsto> s) else m | _ \<Rightarrow> m) ps m0 = m0"
    if "list_all (\<lambda>p. case pd_Value p of VStr _ \<Rightarrow> False | _ \<Rightarrow> True) ps" for ps m0
    using that by (induction ps) (auto split: pdu_value.splits)
  have d: "OIDIfDescr \<noteq> OIDIfName" by (simp add: OIDIfDescr_def OIDIfName_def)
  have n: "if_names en = if_names ?e"
    unfolding if_names_def f [OF assms(1)] using d by (simp add: walked_def Let_def)
  have w: "walked ?e oid = walked en oid" "walk_ok ?e oid = walk_ok en oid" if "map_of m oid = Some name" for oid name
  proof -
    have "oid \<noteq> OIDIfName" using that assms(2) by (metis map_of_eq_None_iff option.distinct(1))
    then show "walked ?e oid = walked en oid" "walk_ok ?e oid = walk_ok en oid" by (simp_all add: walked_def walk_ok_def)
  qed
  show ?thesis
    unfolding walkIfMap_def n by (auto simp: w Let_def intro!: arg_cong [where f = concat] map_cong split: option.split)
qed

theorem ifName_is_ignored_witness:
  "map rd_tag (walkIfMap (quiet_agent\<lparr>sv_walk := (\<lambda>oid.
       if oid = OIDIfName then ([\<lparr>pd_Name = ''.1.3.6.1.2.1.31.1.1.1.1.7'', pd_Type = OtherType, pd_Value = VBytes ''xe-0/0/7''\<rparr>], True)
       else if oid = ''1.3.6.1.2.1.2.2.1.7'' then ([\<lparr>pd_Name = ''.1.3.6.1.2.1.2.2.1.7.7'', pd_Type = OtherType, pd_Value = VInt 1\<rparr>], True)
       else ([], True))\<rparr>) old_switch IfMetricStatus) = [''if7'']"
proof -
  define w where "w = (\<lambda>oid. if oid = ''1.3.6.1.2.1.2.2.1.7''
      then ([\<lparr>pd_Name = ''.1.3.6.1.2.1.2.2.1.7.7'', pd_Type = OtherType, pd_Value = VInt 1\<rparr>], True) else ([], True))"
  define wn where "wn = w(OIDIfName := ([\<lparr>pd_Name = ''.1.3.6.1.2.1.31.1.1.1.1.7'', pd_Type = OtherType, pd_Value = VBytes ''xe-0/0/7''\<rparr>], True))"
  have wn: "(\<lambda>oid. if oid = OIDIfName then ([\<lparr>pd_Name = ''.1.3.6.1.2.1.31.1.1.1.1.7'', pd_Type = OtherType, pd_Value = VBytes ''xe-0/0/7''\<rparr>], True)
       else if oid = ''1.3.6.1.2.1.2.2.1.7'' then ([\<lparr>pd_Name = ''.1.3.6.1.2.1.2.2.1.7.7'', pd_Type = OtherType, pd_Value = VInt 1\<rparr>], True)
       else ([], True)) = wn"
    by (rule ext) (simp add: wn_def w_def)
  have bytes: "list_all (\<lambda>p. case pd_Value p of VStr _ \<Rightarrow> False | _ \<Rightarrow> True) (walked (quiet_agent\<lparr>sv_walk := wn\<rparr>) OIDIfName)"
    by (simp add: walked_def wn_def)
  have notin: "OIDIfName \<notin> fst ` set IfMetricStatus" by (simp add: OIDIfName_def IfMetricStatus_def)
  have empty: "wn(OIDIfName := ([], True)) = w" by (rule ext) (simp add: wn_def w_def OIDIfName_def)
  have "map rd_tag (walkIfMap (quiet_agent\<lparr>sv_walk := w\<rparr>) old_switch IfMetricStatus) = [''if7'']"
    unfolding w_def by code_simp
  then show ?thesis
    unfolding wn using ifName_is_ignored [OF bytes notin, of old_switch True] empty by simp
qed

theorem scalars_decoded_witness:
  "map_option (map (\<lambda>r. (rd_name r, rd_value r))) (collectScalars (quiet_agent\<lparr>sv_get := (\<lambda>_.
       Some (map (\<lambda>s. \<lparr>pd_Name = ''.'' @ scalar_oid OIDPDUBase s, pd_Type = OtherType, pd_Value = VInt 215\<rparr>) pduScalars))\<rparr>)
       old_switch OIDPDUBase pduScalars)
     = Some (map (\<lambda>s. (sm_name s, 215 / sm_scale s)) pduScalars)
   \<and> List.member (map (\<lambda>s. (sm_name s, 215 / sm_scale s)) pduScalars) (''environment.temperature_c'', 43/2)"
proof
  show "List.member (map (\<lambda>s. (sm_name s, 215 / sm_scale s)) pduScalars) (''environment.temperature_c'', 43/2)"
    by (simp add: pduScalars_def scalar_table_def)
qed (subst scalars_decoded [where v = "\<lambda>_. 215"]; simp add: known_tables_def comp_def)

text \<open>
  The storage type of a metric is always \<open>0\<close> for an agent that follows the MIB: the type
  column holds object identifiers, which the library delivers as text and the conversion
  turns into zero.
\<close>

lemma storage_type_is_zero:
  assumes "list_all (\<lambda>p. case pd_Value p of VStr _ \<Rightarrow> True | _ \<Rightarrow> False) (walked en OIDHrStorageType)"
    and "r \<in> set (storage_readings en t p)"
  shows "rd_meta r ''storage_type'' = Some ''0''"
proof -
  have w: "walkIndexed en OIDHrStorageType i \<in> {None, Some 0}" for i
    using assms(1) by (cases "walkIndexed en OIDHrStorageType i")
      (auto simp: walkIndexed_def list_all_iff ToFloat64_def split: pdu_value.splits if_splits dest!: map_of_SomeD)
  have "num_at (walkIndexedInt en OIDHrStorageType) i = 0" for i
    using w [of i] by (auto simp: num_at_def walkIndexedInt_def trunc_rat_def)
  moreover have "hrStorageTypeName 0 = ''0''" by code_simp
  ultimately show ?thesis using assms(2) by (auto simp: storage_readings_def Let_def)
qed

end
