(* ===== verification/Poll_Control.thy ===== *)
theory Poll_Control
  imports Snmp_Collector
begin

text \<open>
  The controls of the edge poller, \<open>fwEDR/internal/poller/poller.go\<close>: socket caps and
  connection pools, circuit breakers, the pause of the heavy tiers, the rate limiter, the
  counters and the throttle of repeated log lines. Every atomic access is one operation;
  the clock is an argument, in nanoseconds.
\<close>

section \<open>Configuration and endpoints\<close>

record SNMPConfig =
  sc_FastIntervalMs :: int
  sc_Timeout :: int
  sc_MaxConcurrent :: int
  sc_RateLimitPerSec :: int
  sc_BreakerThreshold :: int
  sc_BreakerCooldownMs :: int
  sc_FastBreakerThreshold :: int
  sc_MgmtPort :: int
  sc_MetricsLogIntervalMs :: int
  sc_LogThrottleMs :: int
  sc_RewalkIntervalMs :: int
  sc_WalkRetryIntervalMs :: int
  sc_LivenessIntervalMs :: int
  sc_WalkMedium :: bool
  sc_WalkSlow :: bool
  sc_WalkTopology :: bool
  sc_WalkSensors :: bool
  sc_WalkServerHealth :: bool
  sc_Shards :: int
  sc_ShardBasePort :: int

text \<open>\<open>hash/fnv\<close>, 32 bit FNV-1a.\<close>

definition fnv32a :: "string \<Rightarrow> u32" where
  "fnv32a s = foldl (\<lambda>h c. (h XOR of_char c) * 16777619) 2166136261 s"

definition ShardPort :: "string \<Rightarrow> int \<Rightarrow> int \<Rightarrow> 16 word" where
  "ShardPort community shards base =
     (if shards \<le> 1 \<or> base \<le> 0 then 161 else word_of_int (base + uint (fnv32a community mod word_of_int shards)))"

definition connKey :: "SNMPConfig \<Rightarrow> Target \<Rightarrow> string" where
  "connKey cfg t = tg_IP t @ '':'' @ itoa (uint (ShardPort (tg_Community t) (sc_Shards cfg) (sc_ShardBasePort cfg)))"

text \<open>The three caps computed by \<open>New\<close>, and whether targets share an endpoint.\<close>

definition eff_cap :: "SNMPConfig \<Rightarrow> int" where
  "eff_cap cfg =
     (let maxConc = (if sc_MaxConcurrent cfg \<le> 0 then 50 else sc_MaxConcurrent cfg);
          c = (if 1 < sc_Shards cfg \<and> sc_Shards cfg * 2 < maxConc then sc_Shards cfg * 2 else maxConc)
      in if c < 1 then 1 else c)"

definition heavy_cap :: "SNMPConfig \<Rightarrow> int" where
  "heavy_cap cfg = (if eff_cap cfg - 1 < 1 then 1 else eff_cap cfg - 1)"

fun find_shared :: "SNMPConfig \<Rightarrow> string list \<Rightarrow> Target list \<Rightarrow> bool" where
  "find_shared cfg seen [] = False"
| "find_shared cfg seen (t # ts) = (List.member seen (connKey cfg t) \<or> find_shared cfg (connKey cfg t # seen) ts)"

definition pool_size :: "SNMPConfig \<Rightarrow> Target list \<Rightarrow> int" where
  "pool_size cfg ts = (if find_shared cfg [] ts then eff_cap cfg else 1)"

lemma find_shared_iff: "find_shared cfg seen ts \<longleftrightarrow> \<not> distinct (map (connKey cfg) ts) \<or> set seen \<inter> connKey cfg ` set ts \<noteq> {}"
  by (induction ts arbitrary: seen) auto

text \<open>The session of a pool a community is routed to.\<close>

definition pick :: "nat \<Rightarrow> string \<Rightarrow> nat" where
  "pick n community = (if n = 1 then 0 else unat (fnv32a community mod word_of_nat n))"

lemma pick_in_pool: "0 < n \<Longrightarrow> n < 2 ^ 32 \<Longrightarrow> pick n community < n"
  by (simp add: pick_def unat_mod_distrib unat_of_nat take_bit_nat_eq_self)

section \<open>Circuit breakers\<close>

record circuitBreaker =
  cb_threshold :: int
  cb_cooldown :: int
  cb_fails :: u32
  cb_openUntil :: int

definition tripped :: "int \<Rightarrow> circuitBreaker \<Rightarrow> bool \<times> circuitBreaker" where
  "tripped now b =
     (if cb_openUntil b = 0 then (False, b)
      else if now < cb_openUntil b then (True, b)
      else (False, b\<lparr>cb_openUntil := 0, cb_fails := 0\<rparr>))"

definition recordFailure :: "int \<Rightarrow> circuitBreaker \<Rightarrow> bool \<times> circuitBreaker" where
  "recordFailure now b =
     (let n = cb_fails b + 1; b1 = b\<lparr>cb_fails := n\<rparr>
      in if cb_threshold b \<le> sint n then (cb_openUntil b = 0, b1\<lparr>cb_openUntil := now + cb_cooldown b\<rparr>) else (False, b1))"

definition recordSuccess :: "circuitBreaker \<Rightarrow> circuitBreaker" where
  "recordSuccess b = b\<lparr>cb_fails := 0, cb_openUntil := 0\<rparr>"

type_synonym breakers = "(string \<times> circuitBreaker) list"

definition new_breaker :: "SNMPConfig \<Rightarrow> Tier \<Rightarrow> circuitBreaker" where
  "new_breaker cfg tier =
     (let threshold = (if tier = TierFast then sc_FastBreakerThreshold cfg else sc_BreakerThreshold cfg);
          cooldown = sc_BreakerCooldownMs cfg * 1000000
      in \<lparr>cb_threshold = (if threshold \<le> 0 then 3 else threshold),
          cb_cooldown = (if cooldown \<le> 0 then 30000000000 else cooldown), cb_fails = 0, cb_openUntil = 0\<rparr>)"

definition breaker_key :: "Target \<Rightarrow> string" where
  "breaker_key t = SourceID t @ ''|'' @ tg_IP t"

definition get_breaker :: "SNMPConfig \<Rightarrow> Tier \<Rightarrow> Target \<Rightarrow> breakers \<Rightarrow> circuitBreaker \<times> breakers" where
  "get_breaker cfg tier t m =
     (case map_of m (breaker_key t) of
        Some b \<Rightarrow> (b, m)
      | None \<Rightarrow> (new_breaker cfg tier, (breaker_key t, new_breaker cfg tier) # m))"

definition set_breaker :: "string \<Rightarrow> circuitBreaker \<Rightarrow> breakers \<Rightarrow> breakers" where
  "set_breaker k b m = map (\<lambda>kb. if fst kb = k then (k, b) else kb) m"

text \<open>\<open>Range\<close> with \<open>tripped\<close>: the number of open breakers; expired ones are reset on the way.\<close>

definition count_open :: "int \<Rightarrow> breakers \<Rightarrow> nat \<times> breakers" where
  "count_open now m =
     (length (filter (\<lambda>kb. fst (tripped now (snd kb))) m), map (\<lambda>(k, b). (k, snd (tripped now b))) m)"

section \<open>The pause of the heavy tiers\<close>

record healthMonitor =
  hm_total :: int
  hm_pauseUntil :: int

definition hm_threshold :: rat where "hm_threshold = 30 / 100"
definition hm_cooldown :: int where "hm_cooldown = 60 * 1000000000"

definition newHealthMonitor :: "int \<Rightarrow> healthMonitor" where
  "newHealthMonitor n = \<lparr>hm_total = n, hm_pauseUntil = 0\<rparr>"

definition totalAdd :: "int \<Rightarrow> healthMonitor \<Rightarrow> healthMonitor" where
  "totalAdd d h = h\<lparr>hm_total := hm_total h + d\<rparr>"

definition paused :: "int \<Rightarrow> healthMonitor \<Rightarrow> bool \<times> healthMonitor" where
  "paused now h =
     (if hm_pauseUntil h = 0 then (False, h)
      else if hm_pauseUntil h \<le> now then (False, h\<lparr>hm_pauseUntil := 0\<rparr>)
      else (True, h))"

text \<open>One tick of \<open>run\<close>.\<close>

definition health_tick :: "int \<Rightarrow> breakers \<Rightarrow> healthMonitor \<Rightarrow> breakers \<times> healthMonitor" where
  "health_tick now m h =
     (if hm_total h \<le> 0 then (m, h)
      else case count_open now m of
        (opn, m1) \<Rightarrow>
          if hm_threshold \<le> of_nat opn / of_int (hm_total h)
          then (case paused now h of (p, h1) \<Rightarrow> (m1, if p then h1 else h1\<lparr>hm_pauseUntil := now + hm_cooldown\<rparr>))
          else (m1, h))"

section \<open>The rate limiter\<close>

record rateLimiter =
  rl_size :: nat
  rl_tokens :: nat

definition newRateLimiter :: "int \<Rightarrow> rateLimiter" where
  "newRateLimiter perSec = \<lparr>rl_size = nat perSec, rl_tokens = nat perSec\<rparr>"

text \<open>A tick of its ticker; a send on a full channel is dropped.\<close>

definition refill :: "rateLimiter \<Rightarrow> rateLimiter" where
  "refill r = (if rl_tokens r < rl_size r then r\<lparr>rl_tokens := rl_tokens r + 1\<rparr> else r)"

definition take_token :: "rateLimiter \<Rightarrow> rateLimiter option" where
  "take_token r = (if rl_tokens r = 0 then None else Some (r\<lparr>rl_tokens := rl_tokens r - 1\<rparr>))"

section \<open>Counters\<close>

record pollMetrics =
  pm_ok :: "Tier \<Rightarrow> nat"
  pm_timeouts :: "Tier \<Rightarrow> nat"
  pm_fails :: "Tier \<Rightarrow> nat"
  pm_breakerOpens :: nat
  pm_mgmtConfirmed :: nat

definition add_ok :: "Tier \<Rightarrow> pollMetrics \<Rightarrow> pollMetrics" where
  "add_ok ti m = m\<lparr>pm_ok := (pm_ok m)(ti := Suc (pm_ok m ti))\<rparr>"

definition add_timeout :: "Tier \<Rightarrow> pollMetrics \<Rightarrow> pollMetrics" where
  "add_timeout ti m = m\<lparr>pm_timeouts := (pm_timeouts m)(ti := Suc (pm_timeouts m ti))\<rparr>"

definition add_fail :: "Tier \<Rightarrow> pollMetrics \<Rightarrow> pollMetrics" where
  "add_fail ti m = m\<lparr>pm_fails := (pm_fails m)(ti := Suc (pm_fails m ti))\<rparr>"

definition add_open :: "bool \<Rightarrow> pollMetrics \<Rightarrow> pollMetrics" where
  "add_open opened m = (if opened then m\<lparr>pm_breakerOpens := Suc (pm_breakerOpens m)\<rparr> else m)"

definition all_tiers :: "Tier list" where
  "all_tiers = [TierFast, TierMedium, TierSlow, TierTopology, TierEnvironment, TierServerHealth]"

record metrics_line =
  ml_tiers :: "(nat \<times> nat \<times> nat) list"
  ml_timeout_rate :: rat
  ml_live_open :: nat
  ml_heavy_open :: nat
  ml_breaker_opens :: nat
  ml_mgmt_confirmed :: nat

text \<open>One line of \<open>metricsLoop\<close>; counting the open breakers resets the expired ones.\<close>

definition metrics_report :: "int \<Rightarrow> pollMetrics \<Rightarrow> breakers \<Rightarrow> breakers \<Rightarrow> metrics_line \<times> breakers \<times> breakers" where
  "metrics_report now m live heavy =
     (let okT = sum_list (map (pm_ok m) all_tiers); toT = sum_list (map (pm_timeouts m) all_tiers);
          failT = sum_list (map (pm_fails m) all_tiers)
      in case count_open now live of (lo, live1) \<Rightarrow> case count_open now heavy of (ho, heavy1) \<Rightarrow>
        (\<lparr>ml_tiers = map (\<lambda>ti. (pm_ok m ti, pm_timeouts m ti, pm_fails m ti)) all_tiers,
          ml_timeout_rate = (if 0 < okT + toT + failT then of_nat toT / of_nat (okT + toT + failT) else 0),
          ml_live_open = lo, ml_heavy_open = ho, ml_breaker_opens = pm_breakerOpens m, ml_mgmt_confirmed = pm_mgmtConfirmed m\<rparr>,
         live1, heavy1))"

section \<open>The log throttle\<close>

record throttleEntry =
  te_last :: int
  te_suppressed :: nat

record logThrottle =
  lt_window :: int
  lt_m :: "string \<rightharpoonup> throttleEntry"

definition allow :: "int \<Rightarrow> string \<Rightarrow> logThrottle \<Rightarrow> (bool \<times> nat) \<times> logThrottle" where
  "allow now k lt =
     (if lt_window lt \<le> 0 then ((True, 0), lt)
      else case lt_m lt k of
        None \<Rightarrow> ((True, 0), lt\<lparr>lt_m := (lt_m lt)(k \<mapsto> \<lparr>te_last = now, te_suppressed = 0\<rparr>)\<rparr>)
      | Some e \<Rightarrow>
          if lt_window lt \<le> now - te_last e
          then ((True, te_suppressed e), lt\<lparr>lt_m := (lt_m lt)(k \<mapsto> \<lparr>te_last = now, te_suppressed = 0\<rparr>)\<rparr>)
          else ((False, 0), lt\<lparr>lt_m := (lt_m lt)(k \<mapsto> e\<lparr>te_suppressed := Suc (te_suppressed e)\<rparr>)\<rparr>))"

section \<open>What the controls guarantee\<close>

lemma eff_cap_bounds:
  "1 \<le> eff_cap cfg" "1 \<le> heavy_cap cfg" "heavy_cap cfg \<le> eff_cap cfg"
  "0 < sc_MaxConcurrent cfg \<Longrightarrow> eff_cap cfg \<le> sc_MaxConcurrent cfg"
  by (auto simp: eff_cap_def heavy_cap_def Let_def)

lemma heavy_cap_reserves: "heavy_cap cfg < eff_cap cfg \<longleftrightarrow> 2 \<le> eff_cap cfg"
  using eff_cap_bounds(1) [of cfg] by (auto simp: heavy_cap_def)

lemma sint_suc_fails:
  assumes "sint (f :: u32) < th" and "0 \<le> sint f" and "th < 2 ^ 31"
  shows "sint (f + 1) = sint f + 1"
  using assms by (simp add: sint_word_ariths(1) signed_take_bit_int_eq_self)

definition breaker_ok :: "int \<Rightarrow> int \<Rightarrow> circuitBreaker \<Rightarrow> bool" where
  "breaker_ok th cool b \<longleftrightarrow> cb_threshold b = th \<and> cb_cooldown b = cool \<and>
     (if cb_openUntil b = 0 then 0 \<le> sint (cb_fails b) \<and> sint (cb_fails b) < th else 0 < cb_openUntil b)"

lemma breaker_ok_steps:
  assumes "breaker_ok th cool b" and "0 < th" and "th < 2 ^ 31" and "0 < cool" and "0 < now"
  shows "breaker_ok th cool (snd (tripped now b))"
    and "cb_openUntil b = 0 \<Longrightarrow> breaker_ok th cool (snd (recordFailure now b))"
    and "breaker_ok th cool (recordSuccess b)"
proof -
  show "breaker_ok th cool (snd (tripped now b))" "breaker_ok th cool (recordSuccess b)"
    using assms by (auto simp: breaker_ok_def tripped_def recordSuccess_def)
  assume z: "cb_openUntil b = 0"
  then have "0 \<le> sint (cb_fails b)" "sint (cb_fails b) < th" "cb_threshold b = th" "cb_cooldown b = cool"
    using assms(1) by (simp_all add: breaker_ok_def)
  moreover from this have "sint (cb_fails b + 1) = sint (cb_fails b) + 1"
    using assms(3) by (intro sint_suc_fails [where th = th])
  ultimately show "breaker_ok th cool (snd (recordFailure now b))"
    using z assms(4,5) by (simp add: recordFailure_def Let_def breaker_ok_def)
qed

lemma new_breaker_ok:
  "sc_BreakerThreshold cfg < 2 ^ 31 \<Longrightarrow> sc_FastBreakerThreshold cfg < 2 ^ 31 \<Longrightarrow>
   breaker_ok (cb_threshold (new_breaker cfg tier)) (cb_cooldown (new_breaker cfg tier)) (new_breaker cfg tier)
   \<and> 0 < cb_threshold (new_breaker cfg tier) \<and> cb_threshold (new_breaker cfg tier) < 2 ^ 31 \<and> 0 < cb_cooldown (new_breaker cfg tier)"
  by (auto simp: breaker_ok_def new_breaker_def Let_def)

definition slow_cfg :: SNMPConfig where
  "slow_cfg = \<lparr>sc_FastIntervalMs = 30000, sc_Timeout = 2000, sc_MaxConcurrent = 2, sc_RateLimitPerSec = 0, sc_BreakerThreshold = 0,
     sc_BreakerCooldownMs = 0, sc_FastBreakerThreshold = 5, sc_MgmtPort = 0, sc_MetricsLogIntervalMs = 0, sc_LogThrottleMs = 0,
     sc_RewalkIntervalMs = 0, sc_WalkRetryIntervalMs = 0, sc_LivenessIntervalMs = 0, sc_WalkMedium = True, sc_WalkSlow = True,
     sc_WalkTopology = True, sc_WalkSensors = False, sc_WalkServerHealth = False, sc_Shards = 1, sc_ShardBasePort = 0\<rparr>"

text \<open>
  The throttle loses no line: of the calls for one key each is either emitted, reported
  as suppressed by a later emitted line, or still counted in the entry of the key.
\<close>

fun throttled :: "string \<Rightarrow> int list \<Rightarrow> logThrottle \<Rightarrow> (bool \<times> nat) list \<times> logThrottle" where
  "throttled k [] lt = ([], lt)"
| "throttled k (t # ts) lt =
     (case allow t k lt of (r, lt1) \<Rightarrow> case throttled k ts lt1 of (rs, lt2) \<Rightarrow> (r # rs, lt2))"

definition pending_lines :: "string \<Rightarrow> logThrottle \<Rightarrow> nat" where
  "pending_lines k lt = (case lt_m lt k of None \<Rightarrow> 0 | Some e \<Rightarrow> te_suppressed e)"

lemma allow_accounts:
  assumes "allow t k lt = (r, lt1)"
  shows "(if fst r then 1 else 0) + snd r + pending_lines k lt1 = 1 + pending_lines k lt"
    and "lt_window lt1 = lt_window lt"
  using assms by (auto simp: allow_def pending_lines_def split: option.splits if_splits)

theorem throttle_accounts:
  "case throttled k ts lt of (rs, lt1) \<Rightarrow>
     length (filter fst rs) + sum_list (map snd rs) + pending_lines k lt1 = length ts + pending_lines k lt"
proof (induction ts arbitrary: lt)
  case (Cons t ts)
  obtain r lt1 where a: "allow t k lt = (r, lt1)" by fastforce
  show ?case using Cons [of lt1] allow_accounts(1) [OF a] by (auto simp: a split: prod.splits if_splits)
qed simp

text \<open>The limiter lets through at most its size and one poll per tick of its ticker.\<close>

fun limited :: "bool list \<Rightarrow> rateLimiter \<Rightarrow> nat \<times> rateLimiter" where
  "limited [] r = (0, r)"
| "limited (tick # es) r =
     (if tick then limited es (refill r)
      else case take_token r of
        None \<Rightarrow> limited es r
      | Some r1 \<Rightarrow> (case limited es r1 of (n, r2) \<Rightarrow> (Suc n, r2)))"

lemma limited_tokens: "case limited es r of (n, r1) \<Rightarrow> n + rl_tokens r1 \<le> rl_tokens r + length (filter id es)"
proof (induction es arbitrary: r)
  case (Cons e es)
  show ?case
    using Cons [of "refill r"] Cons [of r] Cons [of "r\<lparr>rl_tokens := rl_tokens r - 1\<rparr>"]
    by (cases e) (auto simp: refill_def take_token_def split: prod.splits if_splits)
qed simp

lemma rate_limit: "fst (limited es (newRateLimiter n)) \<le> nat n + length (filter id es)"
  using limited_tokens [where es = es and r = "newRateLimiter n"] by (simp add: newRateLimiter_def split: prod.splits)

end
