(* ===== verification/Poller.thy ===== *)
theory Poller
  imports Poll_Control
begin

text \<open>
  The edge poller, \<open>fwEDR/internal/poller/poller.go\<close>: one poll of one tier with its gates,
  its session and its effect on breakers and counters, the walk over all tiers and the
  life of the goroutine of a target. What the network, the channel of packets and the
  contexts do during a poll is the record \<open>poll_env\<close>.
\<close>

section \<open>State\<close>

record session =
  se_open :: bool
  se_community :: string

record poller =
  po_cfg :: SNMPConfig
  po_identity :: IdentityConfig
  po_pooled :: bool
  po_poolSize :: nat
  po_signer :: Signer
  po_live :: breakers
  po_heavy :: breakers
  po_conns :: "(string \<times> session option list) list"
  po_metrics :: pollMetrics
  po_throttle :: logThrottle
  po_health :: healthMonitor
  po_running :: "string list"
  po_started :: bool

text \<open>
  \<open>pe_agent b\<close> answers over the session, which is open if \<open>b\<close>; \<open>pe_timeout\<close>: the text of an
  error contains \<open>timeout\<close>; \<open>pe_expired\<close>: the context of the poll ended during the
  collection, which closes the socket; \<open>pe_taken\<close>: how many packets the channel takes
  before the context is cancelled, if it is.
\<close>

record poll_env =
  pe_dcsDown :: bool
  pe_now :: int
  pe_end :: int
  pe_token :: bool
  pe_heavySlot :: bool
  pe_socket :: bool
  pe_connect :: bool
  pe_agent :: "bool \<Rightarrow> snmp_env"
  pe_timeout :: bool
  pe_expired :: bool
  pe_mgmtAlive :: bool
  pe_taken :: "nat option"

definition poller_New :: "Target list \<Rightarrow> SNMPConfig \<Rightarrow> IdentityConfig \<Rightarrow> Signer \<Rightarrow> poller" where
  "poller_New ts cfg ident sg =
     \<lparr>po_cfg = cfg, po_identity = ident, po_pooled = find_shared cfg [] ts, po_poolSize = nat (pool_size cfg ts), po_signer = sg,
      po_live = [], po_heavy = [], po_conns = [],
      po_metrics = \<lparr>pm_ok = (\<lambda>_. 0), pm_timeouts = (\<lambda>_. 0), pm_fails = (\<lambda>_. 0), pm_breakerOpens = 0, pm_mgmtConfirmed = 0\<rparr>,
      po_throttle = \<lparr>lt_window = sc_LogThrottleMs cfg * 1000000, lt_m = Map.empty\<rparr>,
      po_health = newHealthMonitor (int (length ts)), po_running = [], po_started = False\<rparr>"

section \<open>Breakers of a tier\<close>

definition tier_breakers :: "Tier \<Rightarrow> poller \<Rightarrow> breakers" where
  "tier_breakers tier p = (if tier = TierFast then po_live p else po_heavy p)"

definition with_breakers :: "Tier \<Rightarrow> breakers \<Rightarrow> poller \<Rightarrow> poller" where
  "with_breakers tier m p = (if tier = TierFast then p\<lparr>po_live := m\<rparr> else p\<lparr>po_heavy := m\<rparr>)"

definition getBreaker :: "Tier \<Rightarrow> Target \<Rightarrow> poller \<Rightarrow> circuitBreaker \<times> poller" where
  "getBreaker tier t p =
     (case get_breaker (po_cfg p) tier t (tier_breakers tier p) of (b, m) \<Rightarrow> (b, with_breakers tier m p))"

definition put_breaker :: "Tier \<Rightarrow> Target \<Rightarrow> circuitBreaker \<Rightarrow> poller \<Rightarrow> poller" where
  "put_breaker tier t b p = with_breakers tier (set_breaker (breaker_key t) b (tier_breakers tier p)) p"

definition fail_breaker :: "int \<Rightarrow> Tier \<Rightarrow> Target \<Rightarrow> poller \<Rightarrow> poller" where
  "fail_breaker now tier t p =
     (case getBreaker tier t p of (b, p1) \<Rightarrow>
        case recordFailure now b of (opened, b1) \<Rightarrow>
          (put_breaker tier t b1 p1)\<lparr>po_metrics := add_open opened (po_metrics p)\<rparr>)"

definition reset_breaker :: "Tier \<Rightarrow> Target \<Rightarrow> poller \<Rightarrow> poller" where
  "reset_breaker tier t p = (case getBreaker tier t p of (b, p1) \<Rightarrow> put_breaker tier t (recordSuccess b) p1)"

section \<open>Sessions\<close>

definition newConnPool :: "nat \<Rightarrow> session option list" where
  "newConnPool n = replicate (if n < 1 then 1 else n) None"

definition getConn :: "Target \<Rightarrow> poller \<Rightarrow> (string \<times> nat) \<times> poller" where
  "getConn t p =
     (let k = connKey (po_cfg p) t; p1 = (if map_of (po_conns p) k = None then p\<lparr>po_conns := (k, newConnPool (po_poolSize p)) # po_conns p\<rparr> else p)
      in ((k, pick (length (the (map_of (po_conns p1) k))) (tg_Community t)), p1))"

definition session_at :: "string \<times> nat \<Rightarrow> poller \<Rightarrow> session option" where
  "session_at c p = (case map_of (po_conns p) (fst c) of Some ss \<Rightarrow> ss ! snd c | None \<Rightarrow> None)"

definition put_session :: "string \<times> nat \<Rightarrow> session option \<Rightarrow> poller \<Rightarrow> poller" where
  "put_session c s p = p\<lparr>po_conns := map (\<lambda>ks. if fst ks = fst c then (fst ks, (snd ks)[snd c := s]) else ks) (po_conns p)\<rparr>"

definition closeConn :: "Target \<Rightarrow> poller \<Rightarrow> poller" where
  "closeConn t p =
     (if po_pooled p then p else p\<lparr>po_conns := filter (\<lambda>ks. fst ks \<noteq> connKey (po_cfg p) t) (po_conns p)\<rparr>)"

definition closeConns :: "poller \<Rightarrow> poller" where
  "closeConns p = p\<lparr>po_conns := map (\<lambda>(k, ss). (k, map (\<lambda>_. None) ss)) (po_conns p)\<rparr>"

section \<open>One poll\<close>

text \<open>Everything before the session is locked: the gate, the pause, the breaker and the limiter.\<close>

definition admit :: "poll_env \<Rightarrow> Tier \<Rightarrow> Target \<Rightarrow> poller \<Rightarrow> bool \<times> poller" where
  "admit en tier t p =
     (if pe_dcsDown en then (False, p)
      else case (if tier \<noteq> TierFast then paused (pe_now en) (po_health p) else (False, po_health p)) of (pz, h) \<Rightarrow>
        let p1 = p\<lparr>po_health := h\<rparr>
        in if pz then (False, p1)
           else case getBreaker tier t p1 of (b, p2) \<Rightarrow>
             case tripped (pe_now en) b of (opn, b1) \<Rightarrow>
               let p3 = put_breaker tier t b1 p2
               in (\<not> opn \<and> (0 < sc_RateLimitPerSec (po_cfg p) \<longrightarrow> pe_token en), p3))"

definition collector_for :: "Target \<Rightarrow> poller \<Rightarrow> Collector" where
  "collector_for t p =
     (let ident = po_identity p
      in \<lparr>co_target = t,
          co_base = \<lparr>bp_orgID = idc_OrgID ident, bp_dcID = or_default (tg_DatacenterID t) (idc_DatacenterID ident),
             bp_floorID = or_default (tg_FloorID t) (idc_FloorID ident), bp_netID = NetworkID t (idc_NetworkID ident),
             bp_grpID = idc_GroupID ident, bp_readerID = idc_ReaderID ident\<rparr>,
          co_signer = po_signer p, co_mgmtPort = sc_MgmtPort (po_cfg p), co_built = 0\<rparr>)"

text \<open>The failed collection: what becomes of the session, and whether the miss counts.\<close>

definition collect_failed :: "poll_env \<Rightarrow> Tier \<Rightarrow> Target \<Rightarrow> string \<times> nat \<Rightarrow> poller \<Rightarrow> poller" where
  "collect_failed en tier t c p =
     (let p1 = p\<lparr>po_metrics := (if pe_timeout en then add_timeout tier else add_fail tier) (po_metrics p)\<rparr>;
          p2 = (if pe_expired en \<or> \<not> pe_timeout en then put_session c None p1 else p1)
      in if tier = TierFast \<and> pe_timeout en \<and> 0 < sc_MgmtPort (po_cfg p) \<and> pe_mgmtAlive en
         then p2\<lparr>po_metrics := (po_metrics p2)\<lparr>pm_mgmtConfirmed := Suc (pm_mgmtConfirmed (po_metrics p2))\<rparr>\<rparr>
         else fail_breaker (pe_end en) tier t p2)"

definition sent_of :: "poll_env \<Rightarrow> TelemetryPacket list \<Rightarrow> bool \<times> TelemetryPacket list" where
  "sent_of en pkts =
     (case pe_taken en of Some n \<Rightarrow> if n < length pkts then (False, take n pkts) else (True, pkts) | None \<Rightarrow> (True, pkts))"

text \<open>
  The part under the lock of the session \<open>c\<close>. Result, packets sent, the target as the
  collection leaves it. The breaker is the one found before the collection, whatever
  name the target has after it.
\<close>

definition use_session :: "poll_env \<Rightarrow> Tier \<Rightarrow> Target \<Rightarrow> string \<times> nat \<Rightarrow> session \<Rightarrow> poller \<Rightarrow> bool \<times> TelemetryPacket list \<times> Target \<times> poller" where
  "use_session en tier t c s p =
     (let p1 = put_session c (Some \<lparr>se_open = se_open s \<and> \<not> pe_expired en, se_community = tg_Community t\<rparr>) p
      in case Collect (pe_agent en (se_open s)) tier (collector_for t p) of (res, col) \<Rightarrow>
        let p2 = p1\<lparr>po_signer := co_signer col\<rparr>; t1 = co_target col
        in case res of
             None \<Rightarrow> (False, [], t1, collect_failed en tier t c p2)
           | Some pkts \<Rightarrow>
               let p3 = reset_breaker tier t (p2\<lparr>po_metrics := add_ok tier (po_metrics p2)\<rparr>)
               in (case sent_of en pkts of (ok, sent) \<Rightarrow> (ok, sent, t1, p3)))"

definition connect_failed :: "poll_env \<Rightarrow> Tier \<Rightarrow> Target \<Rightarrow> poller \<Rightarrow> poller" where
  "connect_failed en tier t p =
     (let p1 = fail_breaker (pe_end en) tier t (p\<lparr>po_metrics := add_fail tier (po_metrics p)\<rparr>)
      in p1\<lparr>po_throttle := snd (allow (pe_end en) (''connect|'' @ SourceID t) (po_throttle p1))\<rparr>)"

definition run_poll :: "poll_env \<Rightarrow> Tier \<Rightarrow> Target \<Rightarrow> poller \<Rightarrow> bool \<times> TelemetryPacket list \<times> Target \<times> poller" where
  "run_poll en tier t p =
     (case getConn t p of (c, p1) \<Rightarrow>
        if (tier \<noteq> TierFast \<and> \<not> pe_heavySlot en) \<or> \<not> pe_socket en then (False, [], t, p1)
        else case session_at c p1 of
            Some s \<Rightarrow> use_session en tier t c s p1
          | None \<Rightarrow>
              if pe_connect en then use_session en tier t c \<lparr>se_open = True, se_community = tg_Community t\<rparr> p1
              else (False, [], t, connect_failed en tier t p1))"

definition pollSNMP :: "poll_env \<Rightarrow> Tier \<Rightarrow> Target \<Rightarrow> poller \<Rightarrow> bool \<times> TelemetryPacket list \<times> Target \<times> poller" where
  "pollSNMP en tier t p = (case admit en tier t p of (go, p1) \<Rightarrow> if go then run_poll en tier t p1 else (False, [], t, p1))"

section \<open>The goroutine of a target\<close>

definition walk_tiers :: "SNMPConfig \<Rightarrow> Tier list" where
  "walk_tiers cfg =
     (if sc_WalkMedium cfg then [TierMedium] else []) @ (if sc_WalkTopology cfg then [TierTopology] else [])
     @ (if sc_WalkSlow cfg then [TierSlow] else []) @ (if sc_WalkSensors cfg then [TierEnvironment] else [])
     @ (if sc_WalkServerHealth cfg then [TierServerHealth] else [])"

fun poll_tiers :: "(Tier \<Rightarrow> poll_env) \<Rightarrow> Tier list \<Rightarrow> Target \<Rightarrow> poller \<Rightarrow> TelemetryPacket list \<times> Target \<times> poller" where
  "poll_tiers en [] t p = ([], t, p)"
| "poll_tiers en (tier # tiers) t p =
     (case pollSNMP (en tier) tier t p of (_, ps, t1, p1) \<Rightarrow>
        case poll_tiers en tiers t1 p1 of (qs, t2, p2) \<Rightarrow> (ps @ qs, t2, p2))"

definition walkAll :: "(Tier \<Rightarrow> poll_env) \<Rightarrow> Target \<Rightarrow> poller \<Rightarrow> bool \<times> TelemetryPacket list \<times> Target \<times> poller" where
  "walkAll en t p =
     (case pollSNMP (en TierFast) TierFast t p of (ok, ps, t1, p1) \<Rightarrow>
        case poll_tiers en (walk_tiers (po_cfg p)) t1 p1 of (qs, t2, p2) \<Rightarrow> (ok, ps @ qs, t2, p2))"

text \<open>
  Until its context is cancelled the goroutine has the given number of walks and
  heartbeats. The first component counts the walks made.
\<close>

record run_env =
  re_jitterCancelled :: bool
  re_walks :: "(Tier \<Rightarrow> poll_env) list"
  re_beats :: "poll_env list"

fun rewalk_loop :: "(Tier \<Rightarrow> poll_env) list \<Rightarrow> Target \<Rightarrow> poller \<Rightarrow> nat \<times> TelemetryPacket list \<times> Target \<times> poller" where
  "rewalk_loop [] t p = (0, [], t, p)"
| "rewalk_loop (w # ws) t p =
     (case walkAll w t p of (_, ps, t1, p1) \<Rightarrow> case rewalk_loop ws t1 p1 of (n, qs, t2, p2) \<Rightarrow> (Suc n, ps @ qs, t2, p2))"

fun beat_loop :: "poll_env list \<Rightarrow> Target \<Rightarrow> poller \<Rightarrow> TelemetryPacket list \<times> Target \<times> poller" where
  "beat_loop [] t p = ([], t, closeConn t p)"
| "beat_loop (e # es) t p =
     (case pollSNMP e TierFast t p of (_, ps, t1, p1) \<Rightarrow> case beat_loop es t1 p1 of (qs, t2, p2) \<Rightarrow> (ps @ qs, t2, p2))"

fun one_shot :: "(Tier \<Rightarrow> poll_env) list \<Rightarrow> poll_env list \<Rightarrow> Target \<Rightarrow> poller \<Rightarrow> nat \<times> TelemetryPacket list \<times> Target \<times> poller" where
  "one_shot [] beats t p = (0, [], t, p)"
| "one_shot (w # ws) beats t p =
     (case walkAll w t p of (ok, ps, t1, p1) \<Rightarrow>
        if ok then
          (if 0 < sc_LivenessIntervalMs (po_cfg p1)
           then (case beat_loop beats t1 p1 of (qs, t2, p2) \<Rightarrow> (1, ps @ qs, t2, p2))
           else (1, ps, t1, closeConn t1 p1))
        else (case one_shot ws beats t1 p1 of (n, qs, t2, p2) \<Rightarrow> (Suc n, ps @ qs, t2, p2)))"

definition runTarget :: "run_env \<Rightarrow> Target \<Rightarrow> poller \<Rightarrow> nat \<times> TelemetryPacket list \<times> Target \<times> poller" where
  "runTarget en t p =
     (if re_jitterCancelled en then (0, [], t, p)
      else if 0 < sc_RewalkIntervalMs (po_cfg p) then rewalk_loop (re_walks en) t p
      else one_shot (re_walks en) (re_beats en) t p)"

text \<open>The window over which the first walks are spread and the wait between walks, in nanoseconds.\<close>

definition jitter_spread :: "SNMPConfig \<Rightarrow> nat \<Rightarrow> int" where
  "jitter_spread cfg n =
     (let spread = int n * 50000000; maxSpread = sc_FastIntervalMs cfg * 1000000;
          s = (if 0 < maxSpread \<and> maxSpread < spread then maxSpread else spread)
      in if s < 500000000 then 500000000 else s)"

definition walk_retry :: "SNMPConfig \<Rightarrow> int" where
  "walk_retry cfg = (let r = sc_WalkRetryIntervalMs cfg * 1000000 in if r \<le> 0 then 30000000000 else r)"

definition gnmi_wait :: "nat \<Rightarrow> int" where
  "gnmi_wait n =
     (let w = int n * 8000000000; w = (if w < 60000000000 then 60000000000 else w)
      in if 900000000000 < w then 900000000000 else w)"

definition AddTarget :: "Target option \<Rightarrow> poller \<Rightarrow> bool \<times> poller" where
  "AddTarget tgt p =
     (case tgt of
        None \<Rightarrow> (False, p)
      | Some t \<Rightarrow>
          if List.member (po_running p) (SourceID t) then (False, p)
          else if \<not> po_started p then (False, p)
          else (True, p\<lparr>po_running := SourceID t # po_running p, po_health := totalAdd 1 (po_health p)\<rparr>))"

section \<open>Frames\<close>

lemma Collect_heavy: "tier \<noteq> TierFast \<Longrightarrow> \<exists>ps c1. Collect en tier c = (Some ps, c1)"
  by (cases tier) (auto simp: Collect_def tier_readings_def Let_def split: prod.split)

lemma put_session_frame [simp]:
  "po_live (put_session c s p) = po_live p" "po_heavy (put_session c s p) = po_heavy p" "po_health (put_session c s p) = po_health p"
  "po_metrics (put_session c s p) = po_metrics p" "po_cfg (put_session c s p) = po_cfg p"
  by (simp_all add: put_session_def)

lemma getConn_frame:
  assumes "getConn t p = (c, p1)"
  shows "po_live p1 = po_live p" "po_heavy p1 = po_heavy p" "po_health p1 = po_health p" "po_cfg p1 = po_cfg p"
  using assms by (auto simp: getConn_def Let_def)

lemma closeConn_frame [simp]:
  "po_live (closeConn t p) = po_live p" "po_heavy (closeConn t p) = po_heavy p" "po_health (closeConn t p) = po_health p"
  by (simp_all add: closeConn_def)

lemma with_breakers_frame [simp]:
  "po_health (with_breakers tier m p) = po_health p" "po_cfg (with_breakers tier m p) = po_cfg p"
  "po_live (with_breakers tier m p) = (if tier = TierFast then m else po_live p)"
  "po_heavy (with_breakers tier m p) = (if tier = TierFast then po_heavy p else m)"
  by (simp_all add: with_breakers_def)

lemma put_breaker_frame [simp]:
  "po_health (put_breaker tier t b p) = po_health p" "po_cfg (put_breaker tier t b p) = po_cfg p"
  "po_live (put_breaker tier t b p) = (if tier = TierFast then set_breaker (breaker_key t) b (po_live p) else po_live p)"
  "po_heavy (put_breaker tier t b p) = (if tier = TierFast then po_heavy p else set_breaker (breaker_key t) b (po_heavy p))"
  by (simp_all add: put_breaker_def tier_breakers_def)

lemma getBreaker_frame:
  assumes "getBreaker tier t p = (b, p1)"
  shows "po_health p1 = po_health p" "po_cfg p1 = po_cfg p" "tier = TierFast \<Longrightarrow> po_heavy p1 = po_heavy p" "tier \<noteq> TierFast \<Longrightarrow> po_live p1 = po_live p"
  using assms by (auto simp: getBreaker_def split: prod.splits)

lemma fail_breaker_frame:
  "po_health (fail_breaker now tier t p) = po_health p" "po_cfg (fail_breaker now tier t p) = po_cfg p"
  "tier = TierFast \<Longrightarrow> po_heavy (fail_breaker now tier t p) = po_heavy p"
  "tier \<noteq> TierFast \<Longrightarrow> po_live (fail_breaker now tier t p) = po_live p"
  by (auto simp: fail_breaker_def getBreaker_frame split: prod.split)

lemma reset_breaker_frame:
  "po_health (reset_breaker tier t p) = po_health p" "po_cfg (reset_breaker tier t p) = po_cfg p"
  "tier = TierFast \<Longrightarrow> po_heavy (reset_breaker tier t p) = po_heavy p"
  "tier \<noteq> TierFast \<Longrightarrow> po_live (reset_breaker tier t p) = po_live p"
  by (auto simp: reset_breaker_def getBreaker_frame split: prod.split)

lemmas breaker_frames = fail_breaker_frame reset_breaker_frame getBreaker_frame getConn_frame

lemma use_session_frame:
  assumes "use_session en tier t c s p = (ok, ps, t1, p1)"
  shows "po_health p1 = po_health p" "po_cfg p1 = po_cfg p" "tier = TierFast \<Longrightarrow> po_heavy p1 = po_heavy p" "tier \<noteq> TierFast \<Longrightarrow> po_live p1 = po_live p"
  using assms by (auto simp: use_session_def collect_failed_def Let_def breaker_frames split: prod.splits option.splits if_splits)

lemma run_poll_frame:
  assumes "run_poll en tier t p = (ok, ps, t1, p1)"
  shows "po_health p1 = po_health p" "po_cfg p1 = po_cfg p" "tier = TierFast \<Longrightarrow> po_heavy p1 = po_heavy p" "tier \<noteq> TierFast \<Longrightarrow> po_live p1 = po_live p"
  using assms
  by (auto simp: run_poll_def connect_failed_def Let_def use_session_frame breaker_frames split: prod.splits option.splits if_splits)

lemma admit_frame:
  assumes "admit en tier t p = (go, p1)"
  shows "tier = TierFast \<Longrightarrow> po_heavy p1 = po_heavy p \<and> po_health p1 = po_health p" "tier \<noteq> TierFast \<Longrightarrow> po_live p1 = po_live p"
    "po_cfg p1 = po_cfg p"
  using assms by (auto simp: admit_def Let_def breaker_frames split: prod.splits if_splits)

section \<open>The heartbeat and the heavy tiers\<close>

abbreviation blind :: "breakers \<Rightarrow> healthMonitor \<Rightarrow> poller \<Rightarrow> poller" where
  "blind m h p \<equiv> p\<lparr>po_heavy := m, po_health := h\<rparr>"

lemma blind_layers:
  "getBreaker TierFast t (blind m h p) = map_prod id (blind m h) (getBreaker TierFast t p)"
  "put_breaker TierFast t b (blind m h p) = blind m h (put_breaker TierFast t b p)"
  "getConn t (blind m h p) = map_prod id (blind m h) (getConn t p)"
  "session_at c (blind m h p) = session_at c p"
  "put_session c s (blind m h p) = blind m h (put_session c s p)"
  "collector_for t (blind m h p) = collector_for t p"
  by (auto simp: getBreaker_def put_breaker_def with_breakers_def tier_breakers_def getConn_def Let_def session_at_def put_session_def
      collector_for_def split: prod.split)

lemma blind_breakers:
  "fail_breaker now TierFast t (blind m h p) = blind m h (fail_breaker now TierFast t p)"
  "reset_breaker TierFast t (blind m h p) = blind m h (reset_breaker TierFast t p)"
  by (auto simp: fail_breaker_def reset_breaker_def blind_layers split: prod.split)

lemma blind_admit: "admit en TierFast t (blind m h p) = map_prod id (blind m h) (admit en TierFast t p)"
  by (auto simp: admit_def Let_def getBreaker_def put_breaker_def with_breakers_def tier_breakers_def split: prod.split)

lemma blind_failed: "collect_failed en TierFast t c (blind m h p) = blind m h (collect_failed en TierFast t c p)"
  by (simp add: collect_failed_def Let_def put_session_def fail_breaker_def getBreaker_def put_breaker_def with_breakers_def tier_breakers_def split: prod.split)

lemma blind_swap:
  "blind m h p\<lparr>po_conns := cs, po_signer := sg\<rparr> = blind m h (p\<lparr>po_conns := cs, po_signer := sg\<rparr>)"
  "blind m h p\<lparr>po_conns := cs, po_signer := sg, po_metrics := x\<rparr> = blind m h (p\<lparr>po_conns := cs, po_signer := sg, po_metrics := x\<rparr>)"
  "blind m h p\<lparr>po_metrics := x\<rparr> = blind m h (p\<lparr>po_metrics := x\<rparr>)"
  "blind m h p\<lparr>po_throttle := y\<rparr> = blind m h (p\<lparr>po_throttle := y\<rparr>)"
  by (cases p; simp)+

lemma blind_fields [simp]:
  "po_metrics (blind m h p) = po_metrics p" "po_throttle (blind m h p) = po_throttle p" "po_signer (blind m h p) = po_signer p"
  "po_conns (blind m h p) = po_conns p"
  by simp_all

lemma blind_use:
  "use_session en TierFast t c s (blind m h p) = map_prod id (map_prod id (map_prod id (blind m h))) (use_session en TierFast t c s p)"
proof -
  have "collect_failed en TierFast t c (blind m h p\<lparr>po_conns := cs, po_signer := sg\<rparr>)
      = blind m h (collect_failed en TierFast t c (p\<lparr>po_conns := cs, po_signer := sg\<rparr>))" for cs sg
    unfolding blind_swap(1) by (rule blind_failed)
  moreover have "reset_breaker TierFast t (blind m h p\<lparr>po_conns := cs, po_signer := sg, po_metrics := x\<rparr>)
      = blind m h (reset_breaker TierFast t (p\<lparr>po_conns := cs, po_signer := sg, po_metrics := x\<rparr>))" for cs sg x
    unfolding blind_swap(2) by (rule blind_breakers(2))
  ultimately show ?thesis
    by (auto simp: use_session_def Let_def blind_layers(6) put_session_def split: prod.split option.split)
qed

lemma blind_connect: "connect_failed en TierFast t (blind m h p) = blind m h (connect_failed en TierFast t p)"
  unfolding connect_failed_def Let_def blind_fields blind_swap(3) blind_breakers(1) blind_swap(4) by (rule refl)

lemma blind_poll: "pollSNMP en TierFast t (blind m h p) = map_prod id (map_prod id (map_prod id (blind m h))) (pollSNMP en TierFast t p)"
  by (auto simp: pollSNMP_def run_poll_def blind_connect blind_admit blind_layers blind_use split: prod.split option.split)
text \<open>
  C14. The heavy tiers cannot silence the heartbeat through the breakers: a heavy poll changes
  no breaker of the heartbeat, and whatever the heavy breakers and the site-wide pause
  are, a heartbeat takes the same course, sends the same packets and leaves them alone.
\<close>

theorem heartbeat_is_isolated:
  "(tier \<noteq> TierFast \<longrightarrow> po_live (snd (snd (snd (pollSNMP en tier t p)))) = po_live p)
   \<and> pollSNMP en TierFast t (p\<lparr>po_heavy := m, po_health := h\<rparr>)
       = (case pollSNMP en TierFast t p of (ok, ps, t1, p1) \<Rightarrow> (ok, ps, t1, p1\<lparr>po_heavy := m, po_health := h\<rparr>))"
proof -
  have "po_live (snd (snd (snd (run_poll en tier t q)))) = po_live q" if "tier \<noteq> TierFast" for q
    using run_poll_frame(4) [OF _ that] by (metis prod.collapse)
  then have "po_live (snd (snd (snd (pollSNMP en tier t p)))) = po_live p" if "tier \<noteq> TierFast"
    using that by (auto simp: pollSNMP_def admit_frame split: prod.split)
  then show ?thesis by (auto simp: blind_poll split: prod.split)
qed

theorem heartbeat_is_isolated_witness:
  "\<forall>en t p. po_live (snd (snd (snd (pollSNMP en TierSlow t p)))) = po_live p"
  using heartbeat_is_isolated [of TierSlow] by auto

section \<open>Breakers that never open\<close>

definition calm_breakers :: "breakers \<Rightarrow> bool" where
  "calm_breakers m \<longleftrightarrow> list_all (\<lambda>kb. cb_fails (snd kb) = 0 \<and> cb_openUntil (snd kb) = 0) m"

definition calm :: "poller \<Rightarrow> bool" where
  "calm p \<longleftrightarrow> calm_breakers (po_heavy p) \<and> hm_pauseUntil (po_health p) = 0"

lemma calm_lookup: "calm_breakers m \<Longrightarrow> map_of m k = Some b \<Longrightarrow> cb_fails b = 0 \<and> cb_openUntil b = 0"
  by (auto simp: calm_breakers_def list_all_iff dest!: map_of_SomeD)

lemma calm_get_breaker:
  assumes "calm_breakers m" and "get_breaker cfg tier t m = (b, m1)"
  shows "cb_fails b = 0 \<and> cb_openUntil b = 0 \<and> calm_breakers m1"
  using assms calm_lookup [OF assms(1)]
  by (auto simp: get_breaker_def calm_breakers_def new_breaker_def Let_def split: option.splits)

lemma calm_set_breaker: "calm_breakers m \<Longrightarrow> cb_fails b = 0 \<Longrightarrow> cb_openUntil b = 0 \<Longrightarrow> calm_breakers (set_breaker k b m)"
  by (auto simp: calm_breakers_def set_breaker_def list_all_iff)

lemma calm_getBreaker:
  assumes "calm p" and "getBreaker tier t p = (b, p1)" and "tier \<noteq> TierFast"
  shows "cb_fails b = 0 \<and> cb_openUntil b = 0 \<and> calm p1"
  using assms calm_get_breaker [of "po_heavy p"] by (auto simp: calm_def getBreaker_def tier_breakers_def split: prod.splits)

lemma calm_admit:
  assumes "calm p" and "admit en tier t p = (go, p1)" and "tier \<noteq> TierFast"
  shows "calm p1"
proof -
  have h: "paused (pe_now en) (po_health p) = (False, po_health p)" using assms(1) by (simp add: calm_def paused_def)
  obtain b p2 where g: "getBreaker tier t p = (b, p2)" by fastforce
  note c = calm_getBreaker [OF assms(1) g assms(3)]
  then have "tripped (pe_now en) b = (False, b)" by (simp add: tripped_def)
  moreover have "calm (put_breaker tier t b p2)" using c assms(3) by (simp add: calm_def calm_set_breaker)
  ultimately show ?thesis using assms h g by (auto simp: admit_def split: if_splits)
qed

lemma calm_use_session:
  assumes "calm p" and "use_session en tier t c s p = (ok, ps, t1, p1)" and "tier \<noteq> TierFast"
  shows "calm p1"
proof -
  obtain pkts col where col: "Collect (pe_agent en (se_open s)) tier (collector_for t p) = (Some pkts, col)"
    using Collect_heavy [OF assms(3)] by blast
  have "calm (reset_breaker tier t q)" if "calm q" for q
    using calm_getBreaker [OF that _ assms(3)] assms(3)
    by (auto simp: reset_breaker_def calm_def recordSuccess_def intro!: calm_set_breaker split: prod.split)
  then show ?thesis
    using assms(1,2) col by (auto simp: use_session_def Let_def calm_def split: prod.splits)
qed

lemma calm_poll:
  assumes "calm p" and "pollSNMP en tier t p = (ok, ps, t1, p1)" and "pe_connect en"
  shows "calm p1"
proof (cases "tier = TierFast")
  case True
  then show ?thesis using assms(1,2) by (auto simp: pollSNMP_def calm_def admit_frame run_poll_frame split: prod.splits if_splits)
next
  case False
  obtain go p2 where a: "admit en tier t p = (go, p2)" by fastforce
  note c2 = calm_admit [OF assms(1) a False]
  obtain c p3 where g: "getConn t p2 = (c, p3)" by fastforce
  then have "calm p3" using c2 by (simp add: calm_def getConn_frame)
  then show ?thesis
    using assms(2,3) a g c2 False by (auto simp: pollSNMP_def run_poll_def split: if_splits option.splits dest: calm_use_session)
qed

lemma count_open_calm: "calm_breakers m \<Longrightarrow> count_open now m = (0, m)"
  by (induction m) (auto simp: count_open_def calm_breakers_def tripped_def)

text \<open>
  Everything that touches the breakers and the pause: polls of any tier and target, the
  two loops that look at the breakers, targets that arrive and sessions that are closed.
\<close>

inductive po_step :: "(poll_env \<Rightarrow> bool) \<Rightarrow> poller \<Rightarrow> poller \<Rightarrow> bool" for Q where
  Poll: "Q en \<Longrightarrow> pollSNMP en tier t p = (ok, ps, t1, p1) \<Longrightarrow> po_step Q p p1"
| Health: "health_tick now (po_heavy p) (po_health p) = (m, h) \<Longrightarrow> po_step Q p (p\<lparr>po_heavy := m, po_health := h\<rparr>)"
| Report: "metrics_report now (po_metrics p) (po_live p) (po_heavy p) = (l, lv, hv) \<Longrightarrow> po_step Q p (p\<lparr>po_live := lv, po_heavy := hv\<rparr>)"
| Add: "AddTarget tgt p = (ok, p1) \<Longrightarrow> po_step Q p p1"
| Close: "po_step Q p (closeConn t p)"

inductive_cases po_stepE: "po_step Q p p1"

lemma calm_step:
  assumes "po_step pe_connect p p1" and "calm p" and "0 < hm_total (po_health p)"
  shows "calm p1 \<and> 0 < hm_total (po_health p1)"
  using assms(1)
proof cases
  case (Poll en tier t ok ps t1)
  have "hm_total (po_health p1) = hm_total (po_health p)"
  proof -
    have "hm_total (po_health p2) = hm_total (po_health p)" if "admit en tier t p = (go, p2)" for go p2
      using that by (auto simp: admit_def paused_def Let_def breaker_frames split: prod.splits if_splits)
    then show ?thesis using Poll(2) by (auto simp: pollSNMP_def run_poll_frame split: prod.splits if_splits)
  qed
  then show ?thesis using calm_poll [OF assms(2) Poll(2,1)] assms(3) by simp
next
  case (Health now m h)
  then show ?thesis using assms(2,3) count_open_calm [of "po_heavy p" now] by (auto simp: health_tick_def hm_threshold_def calm_def)
next
  case (Report now l lv hv)
  then show ?thesis using assms(2,3) count_open_calm [of "po_heavy p" now] by (auto simp: metrics_report_def Let_def calm_def split: prod.splits)
next
  case (Add tgt ok)
  then show ?thesis using assms(2,3) by (auto simp: AddTarget_def calm_def totalAdd_def split: option.splits if_splits)
next
  case (Close t)
  then show ?thesis using assms(2,3) by (simp add: calm_def)
qed

text \<open>
  C24. As long as sockets can be opened, no heavy breaker ever opens and the site-wide pause
  never engages, however many heavy walks time out: the collector reports no error for
  the heavy tiers, so that every one of them counts as a success.
\<close>

theorem heavy_breakers_never_open:
  assumes "(po_step pe_connect)\<^sup>*\<^sup>* (poller_New ts cfg ident sg) p" and "ts \<noteq> []" and "tier \<noteq> TierFast"
  shows "hm_pauseUntil (po_health p) = 0 \<and> fst (count_open now (po_heavy p)) = 0
    \<and> (\<not> pe_dcsDown en \<and> (0 < sc_RateLimitPerSec (po_cfg p) \<longrightarrow> pe_token en) \<longrightarrow> fst (admit en tier t p))"
proof -
  have "calm p \<and> 0 < hm_total (po_health p)"
    using assms(1)
  proof (induction rule: rtranclp_induct)
    case base
    then show ?case using assms(2) by (simp add: calm_def poller_New_def calm_breakers_def newHealthMonitor_def)
  next
    case (step p p1)
    then show ?case using calm_step by blast
  qed
  then have c: "calm p" by simp
  obtain b p2 where g: "getBreaker tier t p = (b, p2)" by fastforce
  have "tripped (pe_now en) b = (False, b)" using calm_getBreaker [OF c g assms(3)] by (simp add: tripped_def)
  moreover have "paused (pe_now en) (po_health p) = (False, po_health p)" using c by (simp add: calm_def paused_def)
  ultimately show ?thesis using c g assms(3) count_open_calm [of "po_heavy p" now] by (auto simp: admit_def calm_def)
qed

section \<open>Sessions that were closed under a walk\<close>

definition conns_ok :: "poller \<Rightarrow> bool" where
  "conns_ok p \<longleftrightarrow> list_all (\<lambda>ks. 0 < length (snd ks) \<and> length (snd ks) < 2 ^ 32) (po_conns p) \<and> po_poolSize p < 2 ^ 32"

lemma map_of_update_value:
  "map_of (map (\<lambda>ks. if fst ks = k then (fst ks, f (snd ks)) else ks) xs) k' = (if k' = k then map_option f (map_of xs k) else map_of xs k')"
  by (induction xs) auto

definition slot_ok :: "string \<times> nat \<Rightarrow> poller \<Rightarrow> bool" where
  "slot_ok c p \<longleftrightarrow> (\<exists>ss. map_of (po_conns p) (fst c) = Some ss \<and> snd c < length ss)"

lemma put_conns: "map_of (po_conns (put_session c s p)) (fst c) = map_option (\<lambda>ss. ss[snd c := s]) (map_of (po_conns p) (fst c))"
  by (simp add: put_session_def map_of_update_value [where f = "\<lambda>ss. ss[snd c := s]"])

lemma session_after_put: "slot_ok c p \<Longrightarrow> session_at c (put_session c s p) = s"
  by (auto simp: slot_ok_def session_at_def put_conns)

lemma pick_in_list: "xs \<noteq> [] \<Longrightarrow> length xs < 4294967296 \<Longrightarrow> pick (length xs) community < length xs"
  using pick_in_pool [of "length xs"] by simp

lemma slot_same_conns: "po_conns q = po_conns p \<Longrightarrow> slot_ok c q = slot_ok c p \<and> session_at c q = session_at c p"
  by (simp add: slot_ok_def session_at_def)

lemma getConn_slot:
  assumes "conns_ok p" and "getConn t p = (c, p1)"
  shows "slot_ok c p1 \<and> conns_ok p1"
proof -
  have n: "0 < length (newConnPool (po_poolSize p))" "length (newConnPool (po_poolSize p)) < 2 ^ 32"
    using assms(1) by (auto simp: newConnPool_def conns_ok_def)
  have old: "pick (length ss) x < length ss" if "map_of (po_conns p) k = Some ss" for k ss x
    using assms(1) that by (fastforce simp: conns_ok_def list_all_iff intro: pick_in_list dest!: map_of_SomeD)
  have new: "pick (length (newConnPool (po_poolSize p))) x < length (newConnPool (po_poolSize p))" for x
    using n by (intro pick_in_list) auto
  show ?thesis
  proof (cases "map_of (po_conns p) (connKey (po_cfg p) t)")
    case None
    then show ?thesis using assms n new by (auto simp: getConn_def Let_def slot_ok_def conns_ok_def)
  next
    case (Some ss)
    then show ?thesis using assms old [OF Some] by (auto simp: getConn_def Let_def slot_ok_def)
  qed
qed

lemma getConn_known:
  assumes "getConn t p = (c, p1)" and "po_conns q = map f (po_conns p1)" and "po_cfg q = po_cfg p"
    and "\<And>ks. fst (f ks) = fst ks \<and> length (snd (f ks)) = length (snd ks)"
    and "connKey (po_cfg p) u = connKey (po_cfg p) t" and "tg_Community u = tg_Community t"
  shows "getConn u q = (c, q)"
proof -
  let ?k = "connKey (po_cfg p) t"
  have m: "map_of (map f xs) k = map_option (\<lambda>ss. snd (f (k, ss))) (map_of xs k)" for xs k
  proof (induction xs)
    case (Cons a xs)
    then show ?case using assms(4) [of a] by (cases a; cases "f a") auto
  qed simp
  obtain ss where ss: "map_of (po_conns p1) ?k = Some ss" "c = (?k, pick (length ss) (tg_Community t))"
    using assms(1) by (auto simp: getConn_def Let_def split: if_splits)
  have "length (snd (f (?k, ss))) = length ss" using assms(4) [of "(?k, ss)"] by simp
  then show ?thesis using ss assms(2,3,5,6) m by (simp add: getConn_def Let_def)
qed

lemma reset_breaker_other [simp]:
  "po_conns (reset_breaker tier t p) = po_conns p" "po_metrics (reset_breaker tier t p) = po_metrics p"
  by (auto simp: reset_breaker_def getBreaker_def put_breaker_def with_breakers_def split: prod.split)

lemma fail_breaker_fails: "pm_fails (po_metrics (fail_breaker now tier t p)) = pm_fails (po_metrics p)"
  by (auto simp: fail_breaker_def add_open_def split: prod.split)

lemma admit_other:
  assumes "admit en tier t p = (go, p1)"
  shows "po_conns p1 = po_conns p" "po_metrics p1 = po_metrics p" "po_poolSize p1 = po_poolSize p" "po_cfg p1 = po_cfg p"
  using assms by (auto simp: admit_def Let_def getBreaker_def put_breaker_def with_breakers_def split: prod.splits if_splits)

text \<open>
  C29. A heavy walk that runs into its deadline counts as a success and leaves the session
  closed, so the next heartbeat of a device on the session is lost: when a closed socket
  does not answer, it fails without reaching the device and is counted as a failure.
\<close>

theorem expired_walk_costs_a_heartbeat:
  assumes "tier \<noteq> TierFast" and "conns_ok p" and "fst (admit en tier t p)" and "pe_heavySlot en" and "pe_socket en" and "pe_connect en"
    and "pe_expired en" and "pe_taken en = None" and "pollSNMP en tier t p = (ok, ps, t1, p1)"
    and "tg_IP u = tg_IP t" and "tg_Community u = tg_Community t"
    and "fst (admit e TierFast u p1)" and "pe_socket e" and "\<And>col. fst (Collect (pe_agent e False) TierFast col) = None" and "\<not> pe_timeout e"
  shows "ok \<and> pm_ok (po_metrics p1) tier = Suc (pm_ok (po_metrics p) tier)
    \<and> (case pollSNMP e TierFast u p1 of (ok2, ps2, _, p2) \<Rightarrow> \<not> ok2 \<and> ps2 = []
        \<and> pm_fails (po_metrics p2) TierFast = Suc (pm_fails (po_metrics p1) TierFast))"
proof -
  obtain p0 where a: "admit en tier t p = (True, p0)" using assms(3) by (cases "admit en tier t p") simp
  note ao = admit_other [OF a]
  obtain c pc where g: "getConn t p0 = (c, pc)" by fastforce
  have ok0: "conns_ok p0" using assms(2) ao by (simp add: conns_ok_def)
  note slot = getConn_slot [OF ok0 g]
  define s where "s = (case session_at c pc of Some s \<Rightarrow> s | None \<Rightarrow> \<lparr>se_open = True, se_community = tg_Community t\<rparr>)"
  have u: "use_session en tier t c s pc = (ok, ps, t1, p1)"
    using assms(4-6,9) a g by (auto simp: pollSNMP_def run_poll_def s_def split: option.splits)
  obtain pkts col where col: "Collect (pe_agent en (se_open s)) tier (collector_for t pc) = (Some pkts, col)"
    using Collect_heavy [OF assms(1)] by blast
  define s1 where "s1 = \<lparr>se_open = False, se_community = tg_Community t\<rparr>"
  have p1: "p1 = reset_breaker tier t ((put_session c (Some s1) pc)\<lparr>po_signer := co_signer col, po_metrics := add_ok tier (po_metrics pc)\<rparr>)" "ok"
    using u col assms(7,8) by (auto simp: use_session_def s1_def sent_of_def Let_def)
  have conns: "po_conns p1 = po_conns (put_session c (Some s1) pc)" using p1 by simp
  have m1: "po_metrics p1 = add_ok tier (po_metrics p)"
    using p1 g ao by (auto simp: getConn_def Let_def split: if_splits)
  obtain q0 where b: "admit e TierFast u p1 = (True, q0)" using assms(12) by (cases "admit e TierFast u p1") simp
  note bo = admit_other [OF b]
  have cfg: "po_cfg q0 = po_cfg p0"
    using bo p1(1) getConn_frame(4) [OF g] by (simp add: reset_breaker_frame)
  have "getConn u q0 = (c, q0)"
  proof (rule getConn_known [OF g _ cfg])
    show "po_conns q0 = map (\<lambda>ks. if fst ks = fst c then (fst ks, (snd ks)[snd c := Some s1]) else ks) (po_conns pc)"
      using conns bo by (simp add: put_session_def)
    show "connKey (po_cfg p0) u = connKey (po_cfg p0) t" using assms(10,11) by (simp add: connKey_def)
  qed (use assms(11) in auto)
  moreover have "session_at c q0 = Some s1"
    using slot_same_conns [OF bo(1)] slot_same_conns [OF conns] session_after_put [of c pc] slot by simp
  ultimately have "pollSNMP e TierFast u p1 = use_session e TierFast u c s1 q0"
    using b assms(13) by (simp add: pollSNMP_def run_poll_def)
  moreover have "\<exists>col. Collect (pe_agent e False) TierFast (collector_for u q0) = (None, col)"
    using assms(14) by (metis prod.collapse)
  ultimately show ?thesis
    using p1(2) m1 assms(15) bo(2)
    by (auto simp: use_session_def s1_def collect_failed_def Let_def add_ok_def add_fail_def fail_breaker_fails)
qed

definition mute_agent :: snmp_env where
  "mute_agent = quiet_agent\<lparr>sv_get := (\<lambda>_. None), sv_walk := (\<lambda>_. ([], False))\<rparr>"

definition late_poll :: poll_env where
  "late_poll = \<lparr>pe_dcsDown = False, pe_now = 1, pe_end = 2, pe_token = True, pe_heavySlot = True, pe_socket = True, pe_connect = True,
     pe_agent = (\<lambda>_. mute_agent), pe_timeout = False, pe_expired = True, pe_mgmtAlive = False, pe_taken = None\<rparr>"

definition demo_ident :: IdentityConfig where
  "demo_ident = \<lparr>idc_OrgID = ''org'', idc_DatacenterID = ''dc'', idc_FloorID = ''f1'', idc_NetworkID = ''net'', idc_GroupID = ''g'', idc_ReaderID = ''edr''\<rparr>"

definition demo_poller :: poller where
  "demo_poller = poller_New [old_switch] slow_cfg demo_ident (NewSigner ''edr'' 0)"

lemma mute_Collect: "fst (Collect mute_agent TierFast col) = None"
  by (simp add: Collect_def tier_readings_def collectSystem_def mute_agent_def Let_def)

theorem expired_walk_costs_a_heartbeat_witness:
  "\<exists>ps t1 p1. pollSNMP late_poll TierSlow old_switch demo_poller = (True, ps, t1, p1)
     \<and> pm_fails (po_metrics (snd (snd (snd (pollSNMP late_poll TierFast old_switch p1))))) TierFast = 1"
proof -
  define r where "r = pollSNMP late_poll TierSlow old_switch demo_poller"
  obtain ok ps t1 p1 where r: "pollSNMP late_poll TierSlow old_switch demo_poller = (ok, ps, t1, p1)" by (metis prod_cases4)
  have p1: "p1 = snd (snd (snd (pollSNMP late_poll TierSlow old_switch demo_poller)))" using r by simp
  have z: "pm_fails (po_metrics p1) TierFast = 0" unfolding p1 by code_simp
  have c: "conns_ok demo_poller" by (simp add: demo_poller_def conns_ok_def poller_New_def pool_size_def)
  have a: "fst (admit late_poll TierSlow old_switch demo_poller)" by code_simp
  have a2: "fst (admit late_poll TierFast old_switch p1)" unfolding p1 by code_simp
  have m: "pe_agent late_poll False = mute_agent" by (simp add: late_poll_def)
  from expired_walk_costs_a_heartbeat [OF _ c a _ _ _ _ _ r refl refl a2] z mute_Collect r
  show ?thesis by (auto simp: late_poll_def m split: prod.splits)
qed

theorem heavy_breakers_never_open_witness:
  "\<exists>p1. po_step pe_connect demo_poller p1 \<and> pm_ok (po_metrics p1) TierSlow = 1 \<and> hm_pauseUntil (po_health p1) = 0"
proof -
  define p1 where "p1 = snd (snd (snd (pollSNMP late_poll TierSlow old_switch demo_poller)))"
  have "pm_ok (po_metrics p1) TierSlow = 1" unfolding p1_def by code_simp
  moreover have st: "po_step pe_connect demo_poller p1"
    unfolding p1_def
  proof (rule po_step.Poll)
    show "pe_connect late_poll" by (simp add: late_poll_def)
    show "pollSNMP late_poll TierSlow old_switch demo_poller = (fst (pollSNMP late_poll TierSlow old_switch demo_poller),
        fst (snd (pollSNMP late_poll TierSlow old_switch demo_poller)), fst (snd (snd (pollSNMP late_poll TierSlow old_switch demo_poller))),
        snd (snd (snd (pollSNMP late_poll TierSlow old_switch demo_poller))))"
      by simp
  qed
  moreover have "(po_step pe_connect)\<^sup>*\<^sup>* demo_poller p1" using st by blast
  from heavy_breakers_never_open [OF this [unfolded demo_poller_def], of TierSlow] have "hm_pauseUntil (po_health p1) = 0" by simp
  ultimately show ?thesis by blast
qed

section \<open>Heartbeats of a dead device\<close>








lemma put_breaker_metrics [simp]: "po_metrics (put_breaker tier t b p) = po_metrics p"
  by (simp add: put_breaker_def with_breakers_def)

lemma put_session_metrics [simp]: "po_metrics (put_session c s p) = po_metrics p"
  by (simp add: put_session_def)














end
