(* ===== verification/Poll_Locks.thy ===== *)
theory Poll_Locks
  imports Poll_Control
begin

text \<open>
  The three locks of one poll, \<open>pollSNMP\<close> of \<open>fwEDR/internal/poller/poller.go\<close>, and the
  process-wide socket slots of \<open>fwEDR/internal/snmp/limit.go\<close>: the mutex of the session,
  the slots of the heavy tiers and the sockets, taken in that order and released in
  reverse, by any number of goroutines and beside other users of the sockets. A
  heartbeat may also open a second socket to the management agent (\<open>MgmtSysName\<close> inside
  \<open>Collect\<close>, \<open>ProbeMgmt\<close> after its time-out, at most one of them per poll), which
  goes through no gate. Sockets that idle in the session pool between polls are not counted.
\<close>

section \<open>Slots\<close>

record slots =
  sl_cap :: nat
  sl_used :: nat

definition ConfigureSocketLimit :: "int \<Rightarrow> slots" where
  "ConfigureSocketLimit mx = \<lparr>sl_cap = nat (if mx < 1 then 1 else mx), sl_used = 0\<rparr>"

text \<open>A send on the channel that does not block, and the receive that frees the slot.\<close>

definition take_slot :: "slots \<Rightarrow> slots option" where
  "take_slot s = (if sl_used s < sl_cap s then Some (s\<lparr>sl_used := Suc (sl_used s)\<rparr>) else None)"

definition free_slot :: "slots \<Rightarrow> slots" where
  "free_slot s = s\<lparr>sl_used := sl_used s - 1\<rparr>"

locale bounded_slots =
  fixes acquire :: "'s \<Rightarrow> 's option" and release :: "'s \<Rightarrow> 's" and held :: "'s \<Rightarrow> nat" and room :: "'s \<Rightarrow> nat"
  assumes acquire_law: "acquire s = Some s' \<Longrightarrow> held s' = Suc (held s) \<and> room s' = room s \<and> held s' \<le> room s'"
    and full_law: "acquire s = None \<longleftrightarrow> room s \<le> held s"
    and release_law: "0 < held s \<Longrightarrow> Suc (held (release s)) = held s \<and> room (release s) = room s"
begin

lemma free_when_idle: "held s = 0 \<Longrightarrow> 0 < room s \<Longrightarrow> \<exists>s'. acquire s = Some s'"
  using full_law [of s] by (cases "acquire s") auto

lemma release_bounded: "0 < held s \<Longrightarrow> held s \<le> room s \<Longrightarrow> held (release s) \<le> room (release s)"
  using release_law [of s] by auto

lemma acquire_release: "acquire s = Some s' \<Longrightarrow> held (release s') = held s \<and> room (release s') = room s"
  using acquire_law [of s s'] release_law [of s'] by auto

end

interpretation sem: bounded_slots take_slot free_slot sl_used sl_cap
  by unfold_locales (auto simp: take_slot_def free_slot_def split: if_splits)

section \<open>Goroutines\<close>

text \<open>\<open>Probing\<close>: the socket to the management agent is open beside that of the session.\<close>

datatype phase = Ready | WantsSession | WantsHeavy | WantsSocket | Collecting | Probing | Resuming | Leaving | Unlocking

record goroutine =
  gr_tier :: Tier
  gr_session :: nat
  gr_phase :: phase

text \<open>
  \<open>ls_others\<close> counts the sockets of the other users of the gate; \<open>ls_mgmt\<close> is whether a
  management port is configured.
\<close>

record lock_state =
  ls_polls :: "goroutine list"
  ls_owner :: "nat \<rightharpoonup> nat"
  ls_heavy :: slots
  ls_sockets :: slots
  ls_others :: nat
  ls_mgmt :: bool

definition set_phase :: "nat \<Rightarrow> phase \<Rightarrow> lock_state \<Rightarrow> lock_state" where
  "set_phase i ph s = s\<lparr>ls_polls := (ls_polls s)[i := (ls_polls s ! i)\<lparr>gr_phase := ph\<rparr>]\<rparr>"

definition at_phase :: "lock_state \<Rightarrow> nat \<Rightarrow> phase \<Rightarrow> bool" where
  "at_phase s i ph \<longleftrightarrow> i < length (ls_polls s) \<and> gr_phase (ls_polls s ! i) = ph"

definition heavy_at :: "lock_state \<Rightarrow> nat \<Rightarrow> bool" where
  "heavy_at s i \<longleftrightarrow> gr_tier (ls_polls s ! i) \<noteq> TierFast"

definition session_of :: "lock_state \<Rightarrow> nat \<Rightarrow> nat" where
  "session_of s i = gr_session (ls_polls s ! i)"

text \<open>The steps that need no new poll, no other user and no cancellation.\<close>

inductive progress :: "lock_state \<Rightarrow> lock_state \<Rightarrow> bool" where
  Lock: "at_phase s i WantsSession \<Longrightarrow> ls_owner s (session_of s i) = None \<Longrightarrow>
    progress s (set_phase i (if heavy_at s i then WantsHeavy else WantsSocket) (s\<lparr>ls_owner := (ls_owner s)(session_of s i \<mapsto> i)\<rparr>))"
| Heavy: "at_phase s i WantsHeavy \<Longrightarrow> take_slot (ls_heavy s) = Some h \<Longrightarrow>
    progress s (set_phase i WantsSocket (s\<lparr>ls_heavy := h\<rparr>))"
| Socket: "at_phase s i WantsSocket \<Longrightarrow> take_slot (ls_sockets s) = Some k \<Longrightarrow>
    progress s (set_phase i Collecting (s\<lparr>ls_sockets := k\<rparr>))"
| Probe: "at_phase s i Collecting \<Longrightarrow> \<not> heavy_at s i \<Longrightarrow> ls_mgmt s \<Longrightarrow> progress s (set_phase i Probing s)"
| Probed: "at_phase s i Probing \<Longrightarrow> progress s (set_phase i Resuming s)"
| Done: "at_phase s i Collecting \<or> at_phase s i Resuming \<Longrightarrow> progress s (set_phase i Leaving (s\<lparr>ls_sockets := free_slot (ls_sockets s)\<rparr>))"
| Leave: "at_phase s i Leaving \<Longrightarrow>
    progress s (set_phase i Unlocking (if heavy_at s i then s\<lparr>ls_heavy := free_slot (ls_heavy s)\<rparr> else s))"
| Unlock: "at_phase s i Unlocking \<Longrightarrow> progress s (set_phase i Ready (s\<lparr>ls_owner := (ls_owner s)(session_of s i := None)\<rparr>))"
| Other_done: "0 < ls_others s \<Longrightarrow> progress s (s\<lparr>ls_others := ls_others s - 1, ls_sockets := free_slot (ls_sockets s)\<rparr>)"

inductive lock_step :: "lock_state \<Rightarrow> lock_state \<Rightarrow> bool" where
  Progress: "progress s s' \<Longrightarrow> lock_step s s'"
| Start: "at_phase s i Ready \<Longrightarrow>
    lock_step s (s\<lparr>ls_polls := (ls_polls s)[i := \<lparr>gr_tier = tier, gr_session = c, gr_phase = WantsSession\<rparr>]\<rparr>)"
| Cancel_heavy: "at_phase s i WantsHeavy \<Longrightarrow> lock_step s (set_phase i Unlocking s)"
| Cancel_socket: "at_phase s i WantsSocket \<Longrightarrow> lock_step s (set_phase i Leaving s)"
| Other: "take_slot (ls_sockets s) = Some k \<Longrightarrow> lock_step s (s\<lparr>ls_others := Suc (ls_others s), ls_sockets := k\<rparr>)"

inductive_cases lock_stepE: "lock_step s s'"
inductive_cases progressE: "progress s s'"

definition lock_init :: "SNMPConfig \<Rightarrow> nat \<Rightarrow> lock_state" where
  "lock_init cfg n =
     \<lparr>ls_polls = replicate n \<lparr>gr_tier = TierFast, gr_session = 0, gr_phase = Ready\<rparr>, ls_owner = Map.empty,
      ls_heavy = \<lparr>sl_cap = nat (heavy_cap cfg), sl_used = 0\<rparr>, ls_sockets = ConfigureSocketLimit (eff_cap cfg), ls_others = 0,
      ls_mgmt = (0 < sc_MgmtPort cfg)\<rparr>"

section \<open>The invariant\<close>

abbreviation count :: "(goroutine \<Rightarrow> bool) \<Rightarrow> lock_state \<Rightarrow> nat" where
  "count P s \<equiv> length (filter P (ls_polls s))"

definition holds_session :: "goroutine \<Rightarrow> bool" where
  "holds_session g \<longleftrightarrow> gr_phase g \<notin> {Ready, WantsSession}"

definition holds_heavy :: "goroutine \<Rightarrow> bool" where
  "holds_heavy g \<longleftrightarrow> gr_tier g \<noteq> TierFast \<and> gr_phase g \<in> {WantsSocket, Collecting, Probing, Resuming, Leaving}"

definition collecting :: "goroutine \<Rightarrow> bool" where
  "collecting g \<longleftrightarrow> gr_phase g \<in> {Collecting, Probing, Resuming}"

definition probing :: "goroutine \<Rightarrow> bool" where
  "probing g \<longleftrightarrow> gr_phase g = Probing"

text \<open>The sockets in use: of the sessions, of the other users, and to management agents.\<close>

definition sockets_in_use :: "lock_state \<Rightarrow> nat" where
  "sockets_in_use s = count collecting s + ls_others s + count probing s"

definition lock_inv :: "lock_state \<Rightarrow> bool" where
  "lock_inv s \<longleftrightarrow> sl_used (ls_sockets s) = count collecting s + ls_others s \<and> sl_used (ls_sockets s) \<le> sl_cap (ls_sockets s)
     \<and> sl_used (ls_heavy s) = count holds_heavy s \<and> sl_used (ls_heavy s) \<le> sl_cap (ls_heavy s)
     \<and> list_all (\<lambda>g. (gr_phase g = WantsHeavy \<longrightarrow> gr_tier g \<noteq> TierFast) \<and> (gr_phase g = Probing \<longrightarrow> ls_mgmt s)) (ls_polls s)
     \<and> (\<forall>c i. ls_owner s c = Some i \<longleftrightarrow> i < length (ls_polls s) \<and> session_of s i = c \<and> holds_session (ls_polls s ! i))"

lemma count_update:
  "i < length xs \<Longrightarrow> length (filter P (xs[i := x])) + (if P (xs ! i) then 1 else 0) = length (filter P xs) + (if P x then 1 else 0)"
proof (induction xs arbitrary: i)
  case (Cons a xs)
  then show ?case by (cases i) auto
qed simp

lemma count_pos: "i < length xs \<Longrightarrow> P (xs ! i) \<Longrightarrow> 0 < length (filter P xs)"
  by (force simp: filter_empty_conv)

lemma field_order:
  "s\<lparr>ls_owner := w, ls_polls := q\<rparr> = s\<lparr>ls_polls := q, ls_owner := w\<rparr>"
  "s\<lparr>ls_heavy := h, ls_polls := q\<rparr> = s\<lparr>ls_polls := q, ls_heavy := h\<rparr>"
  "s\<lparr>ls_sockets := k, ls_polls := q\<rparr> = s\<lparr>ls_polls := q, ls_sockets := k\<rparr>"
  by (cases s; simp)+

definition owner_after :: "lock_state \<Rightarrow> nat \<Rightarrow> goroutine \<Rightarrow> nat \<rightharpoonup> nat" where
  "owner_after s i g =
     (if holds_session g = holds_session (ls_polls s ! i) then ls_owner s
      else (ls_owner s)(gr_session g := if holds_session g then Some i else None))"

lemma lock_inv_update:
  assumes inv: "lock_inv s" and i: "i < length (ls_polls s)"
    and sockets: "sl_used k + (if collecting (ls_polls s ! i) then 1 else 0) + ls_others s
        = sl_used (ls_sockets s) + (if collecting g then 1 else 0) + n" "sl_used k \<le> sl_cap k"
    and heavy: "sl_used h + (if holds_heavy (ls_polls s ! i) then 1 else 0) = sl_used (ls_heavy s) + (if holds_heavy g then 1 else 0)"
        "sl_used h \<le> sl_cap h"
    and same: "gr_session g = gr_session (ls_polls s ! i) \<or> \<not> holds_session g \<and> \<not> holds_session (ls_polls s ! i)"
    and heavy_only: "(gr_phase g = WantsHeavy \<longrightarrow> gr_tier g \<noteq> TierFast) \<and> (gr_phase g = Probing \<longrightarrow> ls_mgmt s)"
    and fresh: "holds_session g \<and> \<not> holds_session (ls_polls s ! i) \<longrightarrow> ls_owner s (gr_session g) = None"
  shows "lock_inv (s\<lparr>ls_polls := (ls_polls s)[i := g], ls_owner := owner_after s i g, ls_heavy := h, ls_sockets := k, ls_others := n\<rparr>)"
proof -
  have "sl_used k = length (filter collecting ((ls_polls s)[i := g])) + n"
    using inv sockets(1) count_update [OF i, of collecting g] unfolding lock_inv_def by (cases "collecting g"; cases "collecting (ls_polls s ! i)") auto
  moreover have "sl_used h = length (filter holds_heavy ((ls_polls s)[i := g]))"
    using inv heavy(1) count_update [OF i, of holds_heavy g] unfolding lock_inv_def by (cases "holds_heavy g"; cases "holds_heavy (ls_polls s ! i)") auto
  moreover have "owner_after s i g c = Some j \<longleftrightarrow> j < length (ls_polls s) \<and> gr_session ((ls_polls s)[i := g] ! j) = c \<and> holds_session ((ls_polls s)[i := g] ! j)"
    for c j
  proof -
    have own: "ls_owner s c = Some j \<longleftrightarrow> j < length (ls_polls s) \<and> gr_session (ls_polls s ! j) = c \<and> holds_session (ls_polls s ! j)" for c j
      using inv by (simp add: lock_inv_def session_of_def)
    show ?thesis
      using own [of c j] own [of c i] own [of "gr_session (ls_polls s ! i)" i] i same fresh
      by (cases "j = i"; cases "holds_session g"; cases "holds_session (ls_polls s ! i)") (auto simp: owner_after_def)
  qed
  moreover have "list_all (\<lambda>g. (gr_phase g = WantsHeavy \<longrightarrow> gr_tier g \<noteq> TierFast) \<and> (gr_phase g = Probing \<longrightarrow> ls_mgmt s)) ((ls_polls s)[i := g])"
    using inv heavy_only i by (auto simp: lock_inv_def list_all_iff dest: set_update_subset_insert [THEN subsetD])
  ultimately show ?thesis using sockets(2) heavy(2) by (simp add: lock_inv_def session_of_def)
qed

lemmas phase_simps = at_phase_def set_phase_def session_of_def heavy_at_def holds_session_def holds_heavy_def collecting_def owner_after_def

lemma slot_facts:
  assumes "lock_inv s" and "i < length (ls_polls s)"
  shows "collecting (ls_polls s ! i) \<Longrightarrow> 0 < sl_used (ls_sockets s)" and "holds_heavy (ls_polls s ! i) \<Longrightarrow> 0 < sl_used (ls_heavy s)"
    and "sl_used (ls_sockets s) \<le> sl_cap (ls_sockets s)" and "sl_used (ls_heavy s) \<le> sl_cap (ls_heavy s)"
  using assms count_pos [of i "ls_polls s"] by (auto simp: lock_inv_def)

lemma lock_inv_progress:
  assumes "progress s s'" and inv: "lock_inv s"
  shows "lock_inv s'"
  using assms(1)
proof cases
  case (Lock i)
  define g where "g = (ls_polls s ! i)\<lparr>gr_phase := if heavy_at s i then WantsHeavy else WantsSocket\<rparr>"
  have i: "i < length (ls_polls s)" using Lock(2) by (simp add: at_phase_def)
  have "lock_inv (s\<lparr>ls_polls := (ls_polls s)[i := g], ls_owner := owner_after s i g, ls_heavy := ls_heavy s, ls_sockets := ls_sockets s, ls_others := ls_others s\<rparr>)"
    by (rule lock_inv_update [OF inv i]) (use Lock slot_facts [OF inv i] in \<open>auto simp: g_def phase_simps\<close>)
  then show ?thesis using Lock by (auto simp: g_def phase_simps field_order)
next
  case (Heavy i h)
  define g where "g = (ls_polls s ! i)\<lparr>gr_phase := WantsSocket\<rparr>"
  have i: "i < length (ls_polls s)" using Heavy(2) by (simp add: at_phase_def)
  have "gr_tier (ls_polls s ! i) \<noteq> TierFast" using inv i Heavy(2) by (auto simp: lock_inv_def list_all_length at_phase_def)
  then have "lock_inv (s\<lparr>ls_polls := (ls_polls s)[i := g], ls_owner := owner_after s i g, ls_heavy := h, ls_sockets := ls_sockets s, ls_others := ls_others s\<rparr>)"
    by (intro lock_inv_update [OF inv i]) (use Heavy slot_facts [OF inv i] sem.acquire_law [OF Heavy(3)] in \<open>auto simp: g_def phase_simps\<close>)
  then show ?thesis using Heavy by (auto simp: g_def phase_simps field_order)
next
  case (Socket i k)
  define g where "g = (ls_polls s ! i)\<lparr>gr_phase := Collecting\<rparr>"
  have i: "i < length (ls_polls s)" using Socket(2) by (simp add: at_phase_def)
  have "lock_inv (s\<lparr>ls_polls := (ls_polls s)[i := g], ls_owner := owner_after s i g, ls_heavy := ls_heavy s, ls_sockets := k, ls_others := ls_others s\<rparr>)"
    by (rule lock_inv_update [OF inv i]) (use Socket slot_facts [OF inv i] sem.acquire_law [OF Socket(3)] in \<open>auto simp: g_def phase_simps\<close>)
  then show ?thesis using Socket by (auto simp: g_def phase_simps field_order)
next
  case (Probe i)
  define g where "g = (ls_polls s ! i)\<lparr>gr_phase := Probing\<rparr>"
  have i: "i < length (ls_polls s)" using Probe(2) by (simp add: at_phase_def)
  have "lock_inv (s\<lparr>ls_polls := (ls_polls s)[i := g], ls_owner := owner_after s i g, ls_heavy := ls_heavy s, ls_sockets := ls_sockets s, ls_others := ls_others s\<rparr>)"
    by (rule lock_inv_update [OF inv i]) (use Probe slot_facts [OF inv i] in \<open>auto simp: g_def phase_simps\<close>)
  then show ?thesis using Probe by (auto simp: g_def phase_simps field_order)
next
  case (Probed i)
  define g where "g = (ls_polls s ! i)\<lparr>gr_phase := Resuming\<rparr>"
  have i: "i < length (ls_polls s)" using Probed(2) by (simp add: at_phase_def)
  have "lock_inv (s\<lparr>ls_polls := (ls_polls s)[i := g], ls_owner := owner_after s i g, ls_heavy := ls_heavy s, ls_sockets := ls_sockets s, ls_others := ls_others s\<rparr>)"
    by (rule lock_inv_update [OF inv i]) (use Probed slot_facts [OF inv i] in \<open>auto simp: g_def phase_simps\<close>)
  then show ?thesis using Probed by (auto simp: g_def phase_simps field_order)
next
  case (Done i)
  define g where "g = (ls_polls s ! i)\<lparr>gr_phase := Leaving\<rparr>"
  have i: "i < length (ls_polls s)" using Done(2) by (auto simp: at_phase_def)
  have "lock_inv (s\<lparr>ls_polls := (ls_polls s)[i := g], ls_owner := owner_after s i g, ls_heavy := ls_heavy s, ls_sockets := free_slot (ls_sockets s), ls_others := ls_others s\<rparr>)"
    by (rule lock_inv_update [OF inv i])
      (use Done slot_facts [OF inv i] sem.release_law [of "ls_sockets s"] in \<open>auto simp: g_def phase_simps\<close>)
  then show ?thesis using Done by (auto simp: g_def phase_simps field_order)
next
  case (Leave i)
  define g where "g = (ls_polls s ! i)\<lparr>gr_phase := Unlocking\<rparr>"
  have i: "i < length (ls_polls s)" using Leave(2) by (simp add: at_phase_def)
  have "lock_inv (s\<lparr>ls_polls := (ls_polls s)[i := g], ls_owner := owner_after s i g,
      ls_heavy := if heavy_at s i then free_slot (ls_heavy s) else ls_heavy s, ls_sockets := ls_sockets s, ls_others := ls_others s\<rparr>)"
    by (rule lock_inv_update [OF inv i])
      (use Leave slot_facts [OF inv i] sem.release_law [of "ls_heavy s"] in \<open>auto simp: g_def phase_simps\<close>)
  then show ?thesis using Leave by (auto simp: g_def phase_simps field_order)
next
  case (Unlock i)
  define g where "g = (ls_polls s ! i)\<lparr>gr_phase := Ready\<rparr>"
  have i: "i < length (ls_polls s)" using Unlock(2) by (simp add: at_phase_def)
  have "lock_inv (s\<lparr>ls_polls := (ls_polls s)[i := g], ls_owner := owner_after s i g, ls_heavy := ls_heavy s, ls_sockets := ls_sockets s, ls_others := ls_others s\<rparr>)"
    by (rule lock_inv_update [OF inv i]) (use Unlock slot_facts [OF inv i] in \<open>auto simp: g_def phase_simps\<close>)
  then show ?thesis using Unlock by (auto simp: g_def phase_simps field_order)
next
  case Other_done
  then show ?thesis using inv sem.release_law [of "ls_sockets s"] by (auto simp: lock_inv_def session_of_def)
qed

lemma lock_inv_step:
  assumes "lock_step s s'" and inv: "lock_inv s"
  shows "lock_inv s'"
  using assms(1)
proof cases
  case Progress
  then show ?thesis by (rule lock_inv_progress [OF _ inv])
next
  case (Start i tier c)
  have i: "i < length (ls_polls s)" using Start(2) by (simp add: at_phase_def)
  have "lock_inv (s\<lparr>ls_polls := (ls_polls s)[i := \<lparr>gr_tier = tier, gr_session = c, gr_phase = WantsSession\<rparr>],
      ls_owner := owner_after s i \<lparr>gr_tier = tier, gr_session = c, gr_phase = WantsSession\<rparr>, ls_heavy := ls_heavy s, ls_sockets := ls_sockets s, ls_others := ls_others s\<rparr>)"
    by (rule lock_inv_update [OF inv i]) (use Start slot_facts [OF inv i] in \<open>auto simp: phase_simps\<close>)
  then show ?thesis using Start by (auto simp: phase_simps)
next
  case (Cancel_heavy i)
  define g where "g = (ls_polls s ! i)\<lparr>gr_phase := Unlocking\<rparr>"
  have i: "i < length (ls_polls s)" using Cancel_heavy(2) by (simp add: at_phase_def)
  have "lock_inv (s\<lparr>ls_polls := (ls_polls s)[i := g], ls_owner := owner_after s i g, ls_heavy := ls_heavy s, ls_sockets := ls_sockets s, ls_others := ls_others s\<rparr>)"
    by (rule lock_inv_update [OF inv i]) (use Cancel_heavy slot_facts [OF inv i] in \<open>auto simp: g_def phase_simps\<close>)
  then show ?thesis using Cancel_heavy by (auto simp: g_def phase_simps)
next
  case (Cancel_socket i)
  define g where "g = (ls_polls s ! i)\<lparr>gr_phase := Leaving\<rparr>"
  have i: "i < length (ls_polls s)" using Cancel_socket(2) by (simp add: at_phase_def)
  have "lock_inv (s\<lparr>ls_polls := (ls_polls s)[i := g], ls_owner := owner_after s i g, ls_heavy := ls_heavy s, ls_sockets := ls_sockets s, ls_others := ls_others s\<rparr>)"
    by (rule lock_inv_update [OF inv i]) (use Cancel_socket slot_facts [OF inv i] in \<open>auto simp: g_def phase_simps\<close>)
  then show ?thesis using Cancel_socket by (auto simp: g_def phase_simps)
next
  case (Other k)
  then show ?thesis using inv sem.acquire_law [OF Other(2)] by (auto simp: lock_inv_def session_of_def)
qed

lemma lock_inv_init: "lock_inv (lock_init cfg n)"
  by (auto simp: lock_inv_def lock_init_def ConfigureSocketLimit_def phase_simps filter_empty_conv list_all_iff)

lemma progress_caps: "progress s s' \<Longrightarrow> lock_inv s \<Longrightarrow> sl_cap (ls_sockets s') = sl_cap (ls_sockets s) \<and> sl_cap (ls_heavy s') = sl_cap (ls_heavy s)
    \<and> length (ls_polls s') = length (ls_polls s) \<and> ls_mgmt s' = ls_mgmt s"
  by (erule progress.cases) (auto simp: set_phase_def take_slot_def free_slot_def split: if_splits)

lemma step_caps: "lock_step s s' \<Longrightarrow> lock_inv s \<Longrightarrow> sl_cap (ls_sockets s') = sl_cap (ls_sockets s) \<and> sl_cap (ls_heavy s') = sl_cap (ls_heavy s)
    \<and> length (ls_polls s') = length (ls_polls s) \<and> ls_mgmt s' = ls_mgmt s"
  by (erule lock_step.cases) (auto simp: set_phase_def take_slot_def progress_caps split: if_splits)

lemma reachable_inv:
  assumes "lock_step\<^sup>*\<^sup>* (lock_init cfg n) s"
  shows "lock_inv s \<and> sl_cap (ls_sockets s) = nat (eff_cap cfg) \<and> sl_cap (ls_heavy s) = nat (heavy_cap cfg) \<and> length (ls_polls s) = n
    \<and> ls_mgmt s = (0 < sc_MgmtPort cfg)"
  using assms
proof (induction rule: rtranclp_induct)
  case base
  then show ?case using lock_inv_init [of cfg n] eff_cap_bounds(1) [of cfg] by (simp add: lock_init_def ConfigureSocketLimit_def)
next
  case (step s s')
  then show ?case using lock_inv_step step_caps by auto
qed

section \<open>Caps, and no deadlock\<close>



lemma progress_possible:
  assumes inv: "lock_inv s" and caps: "0 < sl_cap (ls_sockets s)" "0 < sl_cap (ls_heavy s)"
    and busy: "0 < ls_others s \<or> (\<exists>i < length (ls_polls s). gr_phase (ls_polls s ! i) \<noteq> Ready)"
  shows "\<exists>s'. progress s s'"
proof -
  consider (leaving) i ph where "at_phase s i ph" "ph \<in> {Collecting, Probing, Resuming, Leaving, Unlocking}" | (others) "0 < ls_others s"
    | (waiting) "\<And>i ph. at_phase s i ph \<Longrightarrow> ph \<notin> {Collecting, Probing, Resuming, Leaving, Unlocking}" "ls_others s = 0"
    by (metis neq0_conv)
  then show ?thesis
  proof cases
    case leaving
    then show ?thesis using progress.Done progress.Probed progress.Leave progress.Unlock by fastforce
  next
    case others
    then show ?thesis using progress.Other_done by blast
  next
    case waiting
    then have "count collecting s = 0"
      by (auto simp: filter_empty_conv collecting_def in_set_conv_nth at_phase_def)
    then have free: "sl_used (ls_sockets s) = 0" using inv waiting(2) by (simp add: lock_inv_def)
    show ?thesis
    proof (cases "\<exists>i. at_phase s i WantsSocket")
      case True
      then show ?thesis using sem.free_when_idle [OF free caps(1)] progress.Socket by blast
    next
      case False
      then have "count holds_heavy s = 0"
        using waiting(1) by (auto simp: filter_empty_conv holds_heavy_def in_set_conv_nth at_phase_def)
      then have free_h: "sl_used (ls_heavy s) = 0" using inv by (simp add: lock_inv_def)
      show ?thesis
      proof (cases "\<exists>i. at_phase s i WantsHeavy")
        case True
        then show ?thesis using sem.free_when_idle [OF free_h caps(2)] progress.Heavy by blast
      next
        case False
        have "ls_owner s c = None" for c
        proof (cases "ls_owner s c")
          case (Some i)
          then have "i < length (ls_polls s)" "holds_session (ls_polls s ! i)" using inv by (auto simp: lock_inv_def)
          then show ?thesis using waiting(1) [of i] False \<open>\<not> (\<exists>i. at_phase s i WantsSocket)\<close>
            by (cases "gr_phase (ls_polls s ! i)") (auto simp: at_phase_def holds_session_def)
        qed simp
        moreover obtain i where "i < length (ls_polls s)" "gr_phase (ls_polls s ! i) \<noteq> Ready" using busy waiting(2) by auto
        then have "at_phase s i WantsSession"
          using waiting(1) [of i] False \<open>\<not> (\<exists>i. at_phase s i WantsSocket)\<close>
          by (cases "gr_phase (ls_polls s ! i)") (auto simp: at_phase_def)
        ultimately show ?thesis using progress.Lock by blast
      qed
    qed
  qed
qed

fun phase_rank :: "phase \<Rightarrow> nat" where
  "phase_rank Ready = 0"
| "phase_rank WantsSession = 8"
| "phase_rank WantsHeavy = 7"
| "phase_rank WantsSocket = 6"
| "phase_rank Collecting = 5"
| "phase_rank Probing = 4"
| "phase_rank Resuming = 3"
| "phase_rank Leaving = 2"
| "phase_rank Unlocking = 1"

definition work_left :: "lock_state \<Rightarrow> nat" where
  "work_left s = sum_list (map (\<lambda>g. phase_rank (gr_phase g)) (ls_polls s)) + ls_others s"

lemma rank_update:
  "i < length xs \<Longrightarrow> sum_list (map f (xs[i := x])) + f (xs ! i) = sum_list (map f xs) + (f x :: nat)"
proof (induction xs arbitrary: i)
  case (Cons a xs)
  then show ?case by (cases i) auto
qed simp

lemma set_phase_work:
  assumes "at_phase s i ph" and "phase_rank ph' < phase_rank ph" and "ls_polls s' = ls_polls s" and "ls_others s' = ls_others s"
  shows "work_left (set_phase i ph' s') < work_left s"
proof -
  have "i < length (ls_polls s)" "gr_phase (ls_polls s ! i) = ph" using assms(1) by (auto simp: at_phase_def)
  with rank_update [OF this(1), of "\<lambda>g. phase_rank (gr_phase g)" "(ls_polls s ! i)\<lparr>gr_phase := ph'\<rparr>"] assms(2-)
  show ?thesis by (simp add: work_left_def set_phase_def)
qed

lemma progress_works: "progress s s' \<Longrightarrow> work_left s' < work_left s"
  by (induction rule: progress.induct) (auto intro: set_phase_work, simp add: work_left_def)

text \<open>
  C15. The polls never deadlock: from every state of every interleaving the polls that were
  started run to their end by their own steps, whatever order the scheduler takes them
  in, so that at the end all locks are free; and no such run is longer than eight steps
  for each poll (six, and two for a probe of the management agent) and one for each other user.
\<close>

theorem polls_never_deadlock:
  assumes "lock_step\<^sup>*\<^sup>* (lock_init cfg n) s"
  shows "(0 < work_left s \<longrightarrow> (\<exists>s'. progress s s')) \<and> (\<forall>s'. progress s s' \<longrightarrow> work_left s' < work_left s)
    \<and> work_left s \<le> 8 * n + ls_others s
    \<and> (\<exists>s'. progress\<^sup>*\<^sup>* s s' \<and> list_all (\<lambda>g. gr_phase g = Ready) (ls_polls s') \<and> ls_owner s' = Map.empty
         \<and> sl_used (ls_sockets s') = 0 \<and> sl_used (ls_heavy s') = 0)"
proof -
  note inv = reachable_inv [OF assms]
  have rank0: "phase_rank ph = 0 \<longleftrightarrow> ph = Ready" for ph by (cases ph) auto
  have idle: "list_all (\<lambda>g. gr_phase g = Ready) (ls_polls q) \<and> ls_others q = 0" if "work_left q = 0" for q
    using that by (auto simp: work_left_def list_all_iff rank0)
  have go: "\<exists>s'. progress q s'" if "lock_inv q" "0 < sl_cap (ls_sockets q)" "0 < sl_cap (ls_heavy q)" "0 < work_left q" for q
  proof (rule progress_possible [OF that(1-3)])
    show "0 < ls_others q \<or> (\<exists>i < length (ls_polls q). gr_phase (ls_polls q ! i) \<noteq> Ready)"
    proof (rule ccontr)
      assume "\<not> ?thesis"
      then have "ls_others q = 0" "\<And>g. g \<in> set (ls_polls q) \<Longrightarrow> gr_phase g = Ready" by (auto simp: in_set_conv_nth)
      then have "work_left q = 0" by (simp add: work_left_def)
      with that(4) show False by simp
    qed
  qed
  have drain: "\<exists>s'. progress\<^sup>*\<^sup>* q s' \<and> work_left s' = 0 \<and> lock_inv s'"
    if "lock_inv q" "0 < sl_cap (ls_sockets q)" "0 < sl_cap (ls_heavy q)" for q
    using that
  proof (induction "work_left q" arbitrary: q rule: less_induct)
    case less
    show ?case
    proof (cases "work_left q = 0")
      case True
      then show ?thesis using less.prems by blast
    next
      case False
      then obtain q' where q': "progress q q'" using go less.prems by blast
      have "lock_inv q'" "0 < sl_cap (ls_sockets q')" "0 < sl_cap (ls_heavy q')"
        using lock_inv_progress [OF q' less.prems(1)] progress_caps [OF q' less.prems(1)] less.prems by auto
      from less.hyps [OF progress_works [OF q'] this] q' show ?thesis by (meson converse_rtranclp_into_rtranclp)
    qed
  qed
  have caps: "0 < sl_cap (ls_sockets s)" "0 < sl_cap (ls_heavy s)" using inv eff_cap_bounds(1,2) [of cfg] by auto
  obtain s' where s': "progress\<^sup>*\<^sup>* s s'" "work_left s' = 0" "lock_inv s'" using drain inv caps by blast
  have free: "count collecting s' = 0" "count holds_heavy s' = 0" "ls_owner s' c = None" for c
  proof -
    show "count collecting s' = 0" "count holds_heavy s' = 0"
      using idle [OF s'(2)] by (auto simp: list_all_iff filter_empty_conv collecting_def holds_heavy_def)
    show "ls_owner s' c = None"
      using idle [OF s'(2)] s'(3) by (cases "ls_owner s' c") (auto simp: lock_inv_def list_all_length holds_session_def)
  qed
  have "phase_rank ph \<le> 8" for ph by (cases ph) auto
  then have "sum_list (map (\<lambda>g. phase_rank (gr_phase g)) xs) \<le> 8 * length xs" for xs
    by (induction xs) (auto intro: add_mono)
  then have "work_left s \<le> 8 * n + ls_others s" using inv unfolding work_left_def by (metis add_le_cancel_right)
  moreover have "ls_owner s' = Map.empty" using free(3) by auto
  ultimately show ?thesis
    using s' free(1,2) idle [OF s'(2)] go inv caps progress_works by (auto simp: lock_inv_def)
qed

section \<open>What the order of the locks does not give\<close>

definition gr :: "Tier \<Rightarrow> nat \<Rightarrow> phase \<Rightarrow> goroutine" where
  "gr tier c ph = \<lparr>gr_tier = tier, gr_session = c, gr_phase = ph\<rparr>"

definition lock_at :: "goroutine list \<Rightarrow> (nat \<times> nat) list \<Rightarrow> nat \<Rightarrow> nat \<Rightarrow> lock_state" where
  "lock_at gs owners h k =
     \<lparr>ls_polls = gs, ls_owner = map_of owners, ls_heavy = \<lparr>sl_cap = 1, sl_used = h\<rparr>, ls_sockets = \<lparr>sl_cap = 2, sl_used = k\<rparr>, ls_others = 0, ls_mgmt = False\<rparr>"

lemmas demo_simps = gr_def lock_at_def phase_simps take_slot_def free_slot_def fun_upd_def

lemma demo_run:
  "lock_step\<^sup>*\<^sup>* (lock_init slow_cfg 3) (lock_at [gr TierSlow 0 Collecting, gr TierSlow 1 WantsHeavy, gr TierFast 1 WantsSession] [(1, 1), (0, 0)] 1 1)"
proof -
  let ?r = "gr TierFast 0 Ready"
  have caps: "heavy_cap slow_cfg = 1" "eff_cap slow_cfg = 2" by (simp_all add: heavy_cap_def eff_cap_def slow_cfg_def Let_def)
  have "lock_init slow_cfg 3 = lock_at [?r, ?r, ?r] [] 0 0"
    by (simp add: lock_init_def ConfigureSocketLimit_def caps demo_simps numeral_3_eq_3) (simp add: slow_cfg_def)
  moreover have "lock_step (lock_at [?r, ?r, ?r] [] 0 0) (lock_at [gr TierSlow 0 WantsSession, ?r, ?r] [] 0 0)"
    using lock_step.Start [of "lock_at [?r, ?r, ?r] [] 0 0" 0 TierSlow 0] by (simp add: demo_simps)
  moreover have "lock_step (lock_at [gr TierSlow 0 WantsSession, ?r, ?r] [] 0 0) (lock_at [gr TierSlow 0 WantsHeavy, ?r, ?r] [(0, 0)] 0 0)"
    using lock_step.Progress [OF progress.Lock [of "lock_at [gr TierSlow 0 WantsSession, ?r, ?r] [] 0 0" 0]] by (simp add: demo_simps)
  moreover have "lock_step (lock_at [gr TierSlow 0 WantsHeavy, ?r, ?r] [(0, 0)] 0 0) (lock_at [gr TierSlow 0 WantsSocket, ?r, ?r] [(0, 0)] 1 0)"
    using lock_step.Progress [OF progress.Heavy [of "lock_at [gr TierSlow 0 WantsHeavy, ?r, ?r] [(0, 0)] 0 0" 0]] by (simp add: demo_simps)
  moreover have "lock_step (lock_at [gr TierSlow 0 WantsSocket, ?r, ?r] [(0, 0)] 1 0) (lock_at [gr TierSlow 0 Collecting, ?r, ?r] [(0, 0)] 1 1)"
    using lock_step.Progress [OF progress.Socket [of "lock_at [gr TierSlow 0 WantsSocket, ?r, ?r] [(0, 0)] 1 0" 0]] by (simp add: demo_simps)
  moreover have "lock_step (lock_at [gr TierSlow 0 Collecting, ?r, ?r] [(0, 0)] 1 1) (lock_at [gr TierSlow 0 Collecting, gr TierSlow 1 WantsSession, ?r] [(0, 0)] 1 1)"
    using lock_step.Start [of "lock_at [gr TierSlow 0 Collecting, ?r, ?r] [(0, 0)] 1 1" 1 TierSlow 1] by (simp add: demo_simps)
  moreover have "lock_step (lock_at [gr TierSlow 0 Collecting, gr TierSlow 1 WantsSession, ?r] [(0, 0)] 1 1)
      (lock_at [gr TierSlow 0 Collecting, gr TierSlow 1 WantsHeavy, ?r] [(1, 1), (0, 0)] 1 1)"
    using lock_step.Progress [OF progress.Lock [of "lock_at [gr TierSlow 0 Collecting, gr TierSlow 1 WantsSession, ?r] [(0, 0)] 1 1" 1]] by (simp add: demo_simps)
  moreover have "lock_step (lock_at [gr TierSlow 0 Collecting, gr TierSlow 1 WantsHeavy, ?r] [(1, 1), (0, 0)] 1 1)
      (lock_at [gr TierSlow 0 Collecting, gr TierSlow 1 WantsHeavy, gr TierFast 1 WantsSession] [(1, 1), (0, 0)] 1 1)"
    using lock_step.Start [of "lock_at [gr TierSlow 0 Collecting, gr TierSlow 1 WantsHeavy, ?r] [(1, 1), (0, 0)] 1 1" 2 TierFast 1] by (simp add: demo_simps)
  ultimately show ?thesis by (simp add: converse_rtranclp_into_rtranclp)
qed

text \<open>
  The socket kept free for the heartbeat does not help it when sessions are shared: with
  two sockets and two sessions, one heavy walk runs, a second one waits for its slot while
  it holds its session, and a heartbeat on that session waits behind it with a socket free.
\<close>

theorem reserved_socket_is_out_of_reach:
  "\<exists>s. lock_step\<^sup>*\<^sup>* (lock_init slow_cfg 3) s \<and> at_phase s 2 WantsSession \<and> \<not> heavy_at s 2
     \<and> at_phase s 1 WantsHeavy \<and> session_of s 1 = session_of s 2 \<and> int (sl_used (ls_sockets s)) < eff_cap slow_cfg
     \<and> (\<nexists>s'. progress s s' \<and> \<not> at_phase s' 2 WantsSession)"
proof -
  define s where "s = lock_at [gr TierSlow 0 Collecting, gr TierSlow 1 WantsHeavy, gr TierFast 1 WantsSession] [(1, 1), (0, 0)] 1 1"
  have "at_phase s' 2 WantsSession" if "progress s s'" for s'
    using that
  proof cases
    case (Lock i)
    then have "i = 2" by (auto simp: s_def demo_simps nth_Cons split: nat.splits)
    then show ?thesis using Lock(3) by (simp add: s_def demo_simps)
  next
    case (Other_done)
    then show ?thesis by (simp add: s_def demo_simps)
  qed (auto simp: s_def demo_simps nth_Cons split: nat.splits if_splits)
  moreover have "eff_cap slow_cfg = 2" by (simp add: eff_cap_def slow_cfg_def Let_def)
  ultimately show ?thesis
    using demo_run by (intro exI [of _ s]) (auto simp: s_def demo_simps)
qed

text \<open>
  The gate does not bound the total number of sockets, as its comment says: with a cap of one a
  single heartbeat uses two sockets while it asks the management agent.
\<close>

definition tight_cfg :: SNMPConfig where
  "tight_cfg = slow_cfg\<lparr>sc_MaxConcurrent := 1, sc_MgmtPort := 1161\<rparr>"

definition tight_at :: "goroutine \<Rightarrow> (nat \<times> nat) list \<Rightarrow> nat \<Rightarrow> lock_state" where
  "tight_at g owners k =
     \<lparr>ls_polls = [g], ls_owner = map_of owners, ls_heavy = \<lparr>sl_cap = 1, sl_used = 0\<rparr>, ls_sockets = \<lparr>sl_cap = 1, sl_used = k\<rparr>,
      ls_others = 0, ls_mgmt = True\<rparr>"

lemma tight_caps: "eff_cap tight_cfg = 1" "heavy_cap tight_cfg = 1"
  by (simp_all add: heavy_cap_def eff_cap_def tight_cfg_def slow_cfg_def Let_def)

lemma tight_run: "lock_step\<^sup>*\<^sup>* (lock_init tight_cfg 1) (tight_at (gr TierFast 0 Probing) [(0, 0)] 1)"
proof -
  note simps = demo_simps tight_at_def
  have "lock_init tight_cfg 1 = tight_at (gr TierFast 0 Ready) [] 0"
    by (simp add: lock_init_def ConfigureSocketLimit_def tight_caps simps) (simp add: tight_cfg_def)
  moreover have "lock_step (tight_at (gr TierFast 0 Ready) [] 0) (tight_at (gr TierFast 0 WantsSession) [] 0)"
    using lock_step.Start [of "tight_at (gr TierFast 0 Ready) [] 0" 0 TierFast 0] by (simp add: simps)
  moreover have "lock_step (tight_at (gr TierFast 0 WantsSession) [] 0) (tight_at (gr TierFast 0 WantsSocket) [(0, 0)] 0)"
    using lock_step.Progress [OF progress.Lock [of "tight_at (gr TierFast 0 WantsSession) [] 0" 0]] by (simp add: simps)
  moreover have "lock_step (tight_at (gr TierFast 0 WantsSocket) [(0, 0)] 0) (tight_at (gr TierFast 0 Collecting) [(0, 0)] 1)"
    using lock_step.Progress [OF progress.Socket [of "tight_at (gr TierFast 0 WantsSocket) [(0, 0)] 0" 0]] by (simp add: simps)
  moreover have "lock_step (tight_at (gr TierFast 0 Collecting) [(0, 0)] 1) (tight_at (gr TierFast 0 Probing) [(0, 0)] 1)"
    using lock_step.Progress [OF progress.Probe [of "tight_at (gr TierFast 0 Collecting) [(0, 0)] 1" 0]] by (simp add: simps)
  ultimately show ?thesis by (simp add: converse_rtranclp_into_rtranclp)
qed

theorem management_probe_exceeds_cap:
  "\<exists>s. lock_step\<^sup>*\<^sup>* (lock_init tight_cfg 1) s \<and> eff_cap tight_cfg < int (sockets_in_use s)"
  using tight_run by (intro exI [of _ "tight_at (gr TierFast 0 Probing) [(0, 0)] 1"])
    (simp add: tight_caps sockets_in_use_def tight_at_def gr_def collecting_def probing_def)


theorem polls_never_deadlock_witness:
  "\<exists>s'. progress\<^sup>*\<^sup>* (lock_at [gr TierSlow 0 Collecting, gr TierSlow 1 WantsHeavy, gr TierFast 1 WantsSession] [(1, 1), (0, 0)] 1 1) s'
     \<and> sl_used (ls_sockets s') = 0 \<and> ls_owner s' = Map.empty"
  using polls_never_deadlock [OF demo_run] by blast

end
