(* ===== verification/Poll_Packets.thy ===== *)
theory Poll_Packets
  imports Snmp_Collector
begin

text \<open>
  What the pollers beside SNMP share: the routing keys of a device (\<open>baseFor\<close> of
  \<open>fwEDR/internal/bacnet/manager.go\<close>, which the gNMI and the Redfish manager repeat), and the
  step from the readings of a poll to signed packets. Identifiers, signature and the
  scaling of a value in the signed bytes are parameters.
\<close>

definition baseFor :: "IdentityConfig \<Rightarrow> Target \<Rightarrow> basePacket" where
  "baseFor ident t =
     \<lparr>bp_orgID = idc_OrgID ident, bp_dcID = or_default (tg_DatacenterID t) (idc_DatacenterID ident),
      bp_floorID = or_default (tg_FloorID t) (idc_FloorID ident), bp_netID = NetworkID t (idc_NetworkID ident),
      bp_grpID = idc_GroupID ident, bp_readerID = idc_ReaderID ident\<rparr>"

record pack_env =
  pk_now :: "nat \<Rightarrow> int"
  pk_id :: "nat \<Rightarrow> string"
  pk_sign :: "byte list \<Rightarrow> byte list"
  pk_scaled :: "rat \<Rightarrow> i64"

text \<open>Signer and number of packets built; \<open>clock\<close> gives the time of each packet.\<close>

type_synonym packer = "Signer \<times> nat"

definition device_packet ::
  "('e pack_env_scheme) \<Rightarrow> basePacket \<Rightarrow> Target \<Rightarrow> (nat \<Rightarrow> int) \<Rightarrow> reading \<Rightarrow> packer \<Rightarrow> TelemetryPacket \<times> packer" where
  "device_packet en b t clock r st =
     (case st of (sg, k) \<Rightarrow>
        let i = pk_id en k; src = SourceID t; now = clock k
        in case NextNonce sg of
          (n, sg1) \<Rightarrow>
            (\<lparr>PktId = i, OrgId = bp_orgID b, DatacenterId = bp_dcID b, FloorId = bp_floorID b, NetworkId = bp_netID b,
              GroupId = bp_grpID b, SourceType = ''device'', SourceId = src, ReaderId = bp_readerID b, TimestampNs = now,
              Name = rd_name r, Tag = rd_tag r, Value = rd_value r, Meta = rd_meta r, Kind = rd_kind r, Severity = '''',
              Signature = pk_sign en (CanonicalBytes i src (word_of_int now) (rd_name r) (rd_tag r) (pk_scaled en (rd_value r)) n),
              Nonce = n\<rparr>,
             (sg1, Suc k)))"

fun device_packets ::
  "('e pack_env_scheme) \<Rightarrow> basePacket \<Rightarrow> Target \<Rightarrow> (nat \<Rightarrow> int) \<Rightarrow> reading list \<Rightarrow> packer \<Rightarrow> TelemetryPacket list \<times> packer" where
  "device_packets en b t clock [] st = ([], st)"
| "device_packets en b t clock (r # rs) st =
     (case device_packet en b t clock r st of (p, st1) \<Rightarrow>
        case device_packets en b t clock rs st1 of (ps, st2) \<Rightarrow> (p # ps, st2))"

text \<open>A packet of a device: its identity, its routing keys and a signature over its content.\<close>

definition packet_of_device :: "('e pack_env_scheme) \<Rightarrow> basePacket \<Rightarrow> Target \<Rightarrow> TelemetryPacket \<Rightarrow> bool" where
  "packet_of_device en b t p \<longleftrightarrow> SourceId p = SourceID t \<and> scoped b p \<and>
     Signature p = pk_sign en (CanonicalBytes (PktId p) (SourceId p) (word_of_int (TimestampNs p)) (Name p) (Tag p) (pk_scaled en (Value p)) (Nonce p))"

lemma device_packets_spec:
  assumes "device_packets en b t clock rs st = (ps, st')"
  shows "map reading_of ps = rs \<and> list_all (packet_of_device en b t) ps \<and> map Nonce ps = take_nonces (length rs) (fst st)
    \<and> map TimestampNs ps = map clock [snd st..<snd st + length rs]"
  using assms
proof (induction rs arbitrary: st ps st')
  case (Cons r rs)
  obtain sg k where st: "st = (sg, k)" by (cases st)
  obtain p st1 where p: "device_packet en b t clock r st = (p, st1)" by (cases "device_packet en b t clock r st")
  obtain qs st2 where q: "device_packets en b t clock rs st1 = (qs, st2)" by (cases "device_packets en b t clock rs st1")
  have one: "reading_of p = r" "packet_of_device en b t p" "Nonce p = nonce sg + 1" "TimestampNs p = clock k" "st1 = (snd (NextNonce sg), Suc k)"
    using p by (auto simp: st device_packet_def Let_def NextNonce_def reading_of_def packet_of_device_def scoped_def)
  have "[k..<k + length (r # rs)] = k # [Suc k..<Suc k + length rs]" by (simp add: upt_rec)
  then show ?case using Cons.IH [OF q] Cons.prems p q one by (auto simp: st NextNonce_def Let_def)
qed simp

text \<open>The packets as name, tag and value.\<close>

abbreviation measured :: "TelemetryPacket \<Rightarrow> string \<times> string \<times> rat" where
  "measured p \<equiv> (Name p, Tag p, Value p)"

lemma measured_readings:
  "map measured (fst (device_packets en b t clock rs st)) = map (\<lambda>r. (rd_name r, rd_tag r, rd_value r)) rs"
proof -
  obtain ps st' where p: "device_packets en b t clock rs st = (ps, st')" by (cases "device_packets en b t clock rs st")
  have "map measured ps = map ((\<lambda>r. (rd_name r, rd_tag r, rd_value r)) \<circ> reading_of) ps" by (simp add: reading_of_def)
  then show ?thesis using device_packets_spec [OF p] p by (metis fst_conv map_map)
qed

end
