(* ===== verification/Bacnet_Manager.thy ===== *)
theory Bacnet_Manager
  imports Bacnet_Proofs Poll_Packets
begin

text \<open>
  The BACnet poller of the edge reader: the object tables (\<open>objects.go\<close>,
  \<open>plant_objects.go\<close>), the request loop of \<open>client.go\<close> and \<open>manager.go\<close> of
  \<open>fwEDR/internal/bacnet\<close>. The network is a parameter that gives the datagrams which
  arrive before the deadline of a request; contexts are not cancelled.
\<close>

section \<open>Objects\<close>

record objMeta =
  om_objType :: int
  om_inst :: int
  om_name :: string
  om_tag :: string
  om_scale :: rat

definition ObjAnalogInput :: int where "ObjAnalogInput = 0"
definition ObjBinaryInput :: int where "ObjBinaryInput = 3"

abbreviation ai :: "int \<Rightarrow> string \<Rightarrow> string \<Rightarrow> objMeta" where
  "ai i n t \<equiv> \<lparr>om_objType = ObjAnalogInput, om_inst = i, om_name = n, om_tag = t, om_scale = 1\<rparr>"

abbreviation bi :: "int \<Rightarrow> string \<Rightarrow> string \<Rightarrow> objMeta" where
  "bi i n t \<equiv> \<lparr>om_objType = ObjBinaryInput, om_inst = i, om_name = n, om_tag = t, om_scale = 1\<rparr>"

definition panelObjects :: "objMeta list" where
  "panelObjects =
     [ai 1001 ''energy.active_power_kw'' '''',
      ai 1002 ''energy.energy_kwh'' '''',
      ai 1003 ''energy.voltage_v'' ''PhA'',
      ai 1004 ''energy.voltage_v'' ''PhB'',
      ai 1005 ''energy.voltage_v'' ''PhC'',
      ai 1006 ''energy.current_a'' ''PhA'',
      ai 1007 ''energy.current_a'' ''PhB'',
      ai 1008 ''energy.current_a'' ''PhC'',
      ai 1009 ''energy.frequency_hz'' '''',
      ai 1010 ''energy.power_factor'' '''',
      ai 1011 ''energy.voltage_thd_percent'' '''',
      ai 1012 ''energy.current_thd_percent'' '''',
      ai 1013 ''energy.harmonic_current_percent'' ''H3'',
      ai 1014 ''energy.harmonic_current_percent'' ''H5'',
      ai 1015 ''energy.harmonic_current_percent'' ''H7'',
      ai 1016 ''energy.harmonic_current_percent'' ''H9'',
      bi 1020 ''energy.alarm_overcurrent'' '''',
      bi 1021 ''energy.alarm_voltage_imbalance'' '''',
      bi 1022 ''energy.alarm_high_thd'' '''',
      bi 1023 ''energy.alarm_phase_loss'' '''',
      bi 1024 ''energy.alarm_sensor_fault'' '''']"

definition circuitOffsets :: "(int \<times> string) list" where
  "circuitOffsets =
     [(1, ''energy.circuit_current_a''), (2, ''energy.circuit_power_kw''), (3, ''energy.circuit_energy_kwh''),
      (4, ''energy.circuit_power_factor''), (5, ''energy.circuit_current_thd_percent'')]"

text \<open>\<open>Ckt%02d\<close>\<close>

definition circuit_label :: "nat \<Rightarrow> string" where
  "circuit_label ckt = ''Ckt'' @ (if ckt < 10 then ''0'' else '''') @ itoa (int ckt)"

definition circuitObjects :: "nat \<Rightarrow> objMeta list" where
  "circuitObjects circuits =
     concat (map (\<lambda>ckt. map (\<lambda>(off, name). ai ((int ckt + 1) * 1000 + off) name (circuit_label ckt)) circuitOffsets) [1..<Suc circuits])"

definition objectsFor :: "nat \<Rightarrow> bool \<Rightarrow> objMeta list" where
  "objectsFor circuits readCircuits = panelObjects @ (if readCircuits \<and> 0 < circuits then circuitObjects circuits else [])"

definition plantObjects :: "(string \<times> objMeta list) list" where
  "plantObjects =
     [(''chiller'', [ai 1 ''cooling.chw_supply_temp_c'' '''',
        ai 2 ''cooling.chw_return_temp_c'' '''',
        ai 3 ''cooling.chw_setpoint_c'' '''',
        ai 4 ''cooling.chw_flow_lps'' '''',
        ai 5 ''cooling.cond_supply_temp_c'' '''',
        ai 6 ''cooling.cond_return_temp_c'' '''',
        ai 7 ''cooling.compressor_load_pct'' '''',
        ai 8 ''cooling.active_power_kw'' '''',
        ai 9 ''cooling.cooling_capacity_kw'' '''',
        ai 10 ''cooling.cop'' '''',
        ai 11 ''cooling.evap_pressure_kpa'' '''',
        ai 12 ''cooling.cond_pressure_kpa'' '''',
        ai 13 ''cooling.run_hours_h'' '''',
        bi 1 ''cooling.chiller_running'' '''',
        bi 2 ''cooling.alarm_high_pressure'' '''',
        bi 3 ''cooling.alarm_low_evap_temp'' '''',
        bi 4 ''cooling.alarm_flow_loss'' '''']),
      (''pump'', [ai 1 ''cooling.pump_speed_pct'' '''',
        ai 2 ''cooling.pump_flow_lps'' '''',
        ai 3 ''cooling.discharge_pressure_kpa'' '''',
        ai 4 ''cooling.suction_pressure_kpa'' '''',
        ai 5 ''cooling.diff_pressure_kpa'' '''',
        ai 6 ''cooling.motor_power_kw'' '''',
        ai 7 ''cooling.motor_temp_c'' '''',
        ai 8 ''cooling.vfd_frequency_hz'' '''',
        ai 9 ''cooling.run_hours_h'' '''',
        bi 1 ''cooling.pump_running'' '''',
        bi 2 ''cooling.alarm_fault'' '''',
        bi 3 ''cooling.alarm_low_flow'' '''']),
      (''cooling_tower'', [ai 1 ''cooling.fan_speed_pct'' '''',
        ai 2 ''cooling.basin_temp_c'' '''',
        ai 3 ''cooling.cond_water_in_c'' '''',
        ai 4 ''cooling.cond_water_out_c'' '''',
        ai 5 ''cooling.fan_power_kw'' '''',
        ai 6 ''cooling.basin_level_pct'' '''',
        ai 7 ''cooling.makeup_flow_lpm'' '''',
        ai 8 ''cooling.vibration_mms'' '''',
        ai 9 ''cooling.run_hours_h'' '''',
        bi 1 ''cooling.fan_running'' '''',
        bi 2 ''cooling.alarm_high_vibration'' '''',
        bi 3 ''cooling.alarm_low_basin'' '''']),
      (''valve'', [ai 1 ''cooling.valve_position_pct'' '''',
        ai 2 ''cooling.valve_commanded_position_pct'' '''',
        ai 3 ''cooling.actuator_temp_c'' '''',
        bi 1 ''cooling.valve_modulating'' '''',
        bi 2 ''cooling.alarm_actuator_fault'' '''']),
      (''cdu'', [ai 1 ''cooling.tcs_supply_temp_c'' '''',
        ai 2 ''cooling.tcs_return_temp_c'' '''',
        ai 3 ''cooling.tcs_setpoint_c'' '''',
        ai 4 ''cooling.tcs_flow_lps'' '''',
        ai 5 ''cooling.facility_chw_valve_pct'' '''',
        ai 6 ''cooling.facility_chw_flow_lps'' '''',
        ai 7 ''cooling.heat_load_kw'' '''',
        ai 8 ''cooling.pump_power_kw'' '''',
        ai 9 ''cooling.pump_speed_pct'' '''',
        ai 10 ''cooling.approach_temp_c'' '''',
        ai 11 ''cooling.filter_dp_kpa'' '''',
        ai 12 ''cooling.run_hours_h'' '''',
        bi 1 ''cooling.cdu_running'' '''',
        bi 2 ''cooling.alarm_leak'' '''',
        bi 3 ''cooling.alarm_high_supply_temp'' '''',
        bi 4 ''cooling.alarm_pump_fault'' '''',
        bi 5 ''cooling.alarm_low_flow'' '''']),
      (''crah'', [ai 1 ''cooling.supply_air_temp_c'' '''',
        ai 2 ''cooling.return_air_temp_c'' '''',
        ai 3 ''cooling.crah_setpoint_c'' '''',
        ai 4 ''cooling.fan_speed_pct'' '''',
        ai 5 ''cooling.chw_valve_pct'' '''',
        ai 6 ''cooling.cooling_capacity_pct'' '''',
        ai 7 ''cooling.supply_humidity_pct'' '''',
        ai 8 ''cooling.airflow_pct'' '''',
        ai 9 ''cooling.fan_power_kw'' '''',
        ai 10 ''cooling.run_hours_h'' '''',
        bi 1 ''cooling.crah_running'' '''',
        bi 2 ''cooling.alarm_high_temp'' '''',
        bi 3 ''cooling.alarm_airflow_loss'' '''',
        bi 4 ''cooling.alarm_filter_dirty'' ''''])]"

definition isPlantType :: "string \<Rightarrow> bool" where
  "isPlantType dt = (map_of plantObjects dt \<noteq> None)"

definition om_key :: "objMeta \<Rightarrow> int \<times> int" where
  "om_key o' = (om_objType o', om_inst o')"

definition metaIndex :: "objMeta list \<Rightarrow> int \<times> int \<rightharpoonup> objMeta" where
  "metaIndex objs = map_of (rev (map (\<lambda>m. (om_key m, m)) objs))"

section \<open>Bindings\<close>

record BACnetConfig =
  bn_Enabled :: bool
  bn_Port :: int
  bn_PollIntervalMs :: int
  bn_TimeoutMs :: int
  bn_Retries :: int
  bn_ReadCircuits :: bool
  bn_ObjectsPerRead :: int
  bn_UseCOV :: bool
  bn_COVLifetimeSec :: int

record binding =
  bd_target :: Target
  bd_base :: basePacket
  bd_host :: string
  bd_conn :: bool
  bd_objs :: "objMeta list"
  bd_index :: "int \<times> int \<rightharpoonup> objMeta"
  bd_scope :: string
  bd_lastAlarm :: "int \<times> int \<Rightarrow> bool"

record bac_mgr =
  mg_cfg :: BACnetConfig
  mg_identity :: IdentityConfig
  mg_signer :: Signer
  mg_built :: nat
  mg_bindings :: "binding list"
  mg_byIP :: "string \<rightharpoonup> nat"
  mg_invoke :: u32

text \<open>
  \<open>be_recv host req k\<close>: the datagrams read before the deadline of attempt \<open>k\<close>;
  \<open>be_nonfinite\<close>: the value standing for a bit pattern that is no finite number.
\<close>

record bac_env =
  be_resolves :: "string \<Rightarrow> bool"
  be_dial :: "string \<Rightarrow> bool"
  be_write :: "string \<Rightarrow> bool"
  be_recv :: "string \<Rightarrow> byte list \<Rightarrow> nat \<Rightarrow> byte list list"
  be_now :: int
  be_id :: "nat \<Rightarrow> string"
  be_sign :: "byte list \<Rightarrow> byte list"
  be_scaled :: "rat \<Rightarrow> i64"
  be_nonfinite :: "u32 \<Rightarrow> rat"

definition defaultCircuits :: int where "defaultCircuits = 42"

text \<open>The leftmost match of \<open>EV2-(\d+)\<close>.\<close>

fun ev2_match :: "string \<Rightarrow> string option" where
  "ev2_match [] = None"
| "ev2_match (c # s) =
     (let ds = takeWhile is_digit (drop 4 (c # s))
      in if has_prefix (c # s) ''EV2-'' \<and> ds \<noteq> [] then Some ds else ev2_match s)"

definition circuitsFor :: "string \<Rightarrow> int" where
  "circuitsFor model =
     (case ev2_match model of
        Some ds \<Rightarrow> (case atoi_err ds of Some n \<Rightarrow> if 0 < n then n else defaultCircuits | None \<Rightarrow> defaultCircuits)
      | None \<Rightarrow> defaultCircuits)"

definition energyScope :: "string \<Rightarrow> string" where
  "energyScope name =
     (let u = to_upper name
      in if contains_str u ''RPP'' then ''it''
         else if contains_str u ''COOL'' \<or> contains_str u ''CHILLER'' then ''cooling''
         else if contains_str u ''FAC'' then ''facility'' else '''')"

definition active_circuits :: "Target \<Rightarrow> int" where
  "active_circuits t =
     (let capacity = circuitsFor (tg_ModelName t); n = tg_ActiveCircuits t
      in if n \<le> 0 \<or> capacity < n then capacity else n)"

definition new_binding :: "BACnetConfig \<Rightarrow> IdentityConfig \<Rightarrow> Target \<Rightarrow> binding" where
  "new_binding cfg ident t =
     (let (objs, scope) = (case map_of plantObjects (tg_DeviceType t) of
            Some plant \<Rightarrow> (plant, ''cooling'')
          | None \<Rightarrow> (objectsFor (nat (active_circuits t)) (bn_ReadCircuits cfg), energyScope (SourceID t)))
      in \<lparr>bd_target = t, bd_base = baseFor ident t, bd_host = or_default (tg_MgmtIP t) (tg_IP t), bd_conn = False,
          bd_objs = objs, bd_index = metaIndex objs, bd_scope = scope, bd_lastAlarm = (\<lambda>_. False)\<rparr>)"

definition bind_target :: "bac_env \<Rightarrow> Target \<Rightarrow> bac_mgr \<Rightarrow> bac_mgr" where
  "bind_target en t m =
     (if \<not> Has t CapBACnet \<or> \<not> be_resolves en (or_default (tg_MgmtIP t) (tg_IP t)) then m
      else m\<lparr>mg_byIP := (mg_byIP m)(or_default (tg_MgmtIP t) (tg_IP t) \<mapsto> length (mg_bindings m)),
             mg_bindings := mg_bindings m @ [new_binding (mg_cfg m) (mg_identity m) t]\<rparr>)"

definition NewManager :: "bac_env \<Rightarrow> Target list \<Rightarrow> BACnetConfig \<Rightarrow> IdentityConfig \<Rightarrow> Signer \<Rightarrow> bac_mgr" where
  "NewManager en ts cfg ident sg =
     fold (bind_target en) ts
       \<lparr>mg_cfg = cfg, mg_identity = ident, mg_signer = sg, mg_built = 0, mg_bindings = [], mg_byIP = Map.empty, mg_invoke = 0\<rparr>"

section \<open>Values\<close>

text \<open>The number an IEEE single stands for, \<open>None\<close> for infinities and not-a-number.\<close>

definition f32_rat :: "u32 \<Rightarrow> rat option" where
  "f32_rat w =
     (let e = uint (drop_bit 23 w AND 0xFF); m = uint (w AND 0x7FFFFF);
          (mant, k) = (if e = 0 then (m, - 149) else (m + 8388608, e - 150));
          v = (if 0 \<le> k then of_int mant * 2 ^ nat k else of_int mant / 2 ^ nat (- k))
      in if e = 255 then None else Some (if bit w 31 then - v else v))"

definition float_value :: "bac_env \<Rightarrow> go_float \<Rightarrow> rat" where
  "float_value en f =
     (case f of F64_uint n \<Rightarrow> of_nat n | F64_f32 w \<Rightarrow> (case f32_rat w of Some r \<Rightarrow> r | None \<Rightarrow> be_nonfinite en w))"

section \<open>Reading\<close>

definition nextInvoke :: "u32 \<Rightarrow> int \<times> u32" where
  "nextInvoke i = (uint ((i + 1) AND 0xFF), i + 1)"

text \<open>\<open>Ret None\<close>: no answer; a frame that makes the parser panic ends the program.\<close>

fun await :: "int \<Rightarrow> byte list list \<Rightarrow> (unit, PropResult list option) outcome" where
  "await invoke [] = Ret None"
| "await invoke (d # ds) =
     (case parseFrame (take 1500 d) of
        Panic \<Rightarrow> Panic
      | Fail _ \<Rightarrow> await invoke ds
      | Ret None \<Rightarrow> await invoke ds
      | Ret (Some pdu) \<Rightarrow>
          if kind pdu = 3 \<and> int (invokeID pdu) = invoke mod 256 \<and> service pdu = 14
          then Ret (Some (decodeReadPropertyMultipleAck (payload pdu)))
          else await invoke ds)"

fun send_attempts :: "bac_env \<Rightarrow> string \<Rightarrow> byte list \<Rightarrow> int \<Rightarrow> nat \<Rightarrow> nat \<Rightarrow> (unit, PropResult list option) outcome" where
  "send_attempts en host req invoke k 0 = Ret None"
| "send_attempts en host req invoke k (Suc n) =
     (if \<not> be_write en host then Ret None
      else case await invoke (be_recv en host req k) of
          Panic \<Rightarrow> Panic
        | Fail e \<Rightarrow> Fail e
        | Ret (Some rs) \<Rightarrow> Ret (Some rs)
        | Ret None \<Rightarrow> send_attempts en host req invoke (Suc k) n)"

definition sendAndDecode :: "bac_env \<Rightarrow> string \<Rightarrow> byte list \<Rightarrow> int \<Rightarrow> int \<Rightarrow> (unit, PropResult list option) outcome" where
  "sendAndDecode en host req invoke retries = send_attempts en host req invoke 0 (nat (retries + 1))"

function chunked :: "nat \<Rightarrow> 'a list \<Rightarrow> 'a list list" where
  "chunked n xs = (if n = 0 \<or> xs = [] then [] else take n xs # chunked n (drop n xs))"
  by pat_completeness auto
termination by (relation "measure (\<lambda>(n, xs). length xs)") auto

declare chunked.simps [simp del]

definition specs_of :: "objMeta list \<Rightarrow> ObjSpec list" where
  "specs_of objs = map (\<lambda>m. \<lparr>ObjType = om_objType m, Instance = om_inst m, Props = [85]\<rparr>) objs"

fun read_chunks :: "bac_env \<Rightarrow> string \<Rightarrow> int \<Rightarrow> objMeta list list \<Rightarrow> u32 \<Rightarrow> (unit, PropResult list) outcome \<times> u32" where
  "read_chunks en host retries [] i = (Ret [], i)"
| "read_chunks en host retries (objs # rest) i =
     (case nextInvoke i of (invoke, i1) \<Rightarrow>
        case sendAndDecode en host (buildReadPropertyMultiple invoke (specs_of objs)) invoke retries of
          Panic \<Rightarrow> (Panic, i1)
        | Fail e \<Rightarrow> (Fail e, i1)
        | Ret part \<Rightarrow>
            (case read_chunks en host retries rest i1 of
               (Ret rs, i2) \<Rightarrow> (Ret ((case part of Some ps \<Rightarrow> ps | None \<Rightarrow> []) @ rs), i2)
             | bad \<Rightarrow> bad))"

definition readObjects :: "bac_env \<Rightarrow> string \<Rightarrow> BACnetConfig \<Rightarrow> objMeta list \<Rightarrow> u32 \<Rightarrow> (unit, PropResult list) outcome \<times> u32" where
  "readObjects en host cfg objs i =
     read_chunks en host (bn_Retries cfg) (chunked (nat (if bn_ObjectsPerRead cfg \<le> 0 then 12 else bn_ObjectsPerRead cfg)) objs) i"

section \<open>Packets\<close>

definition bac_meta :: "binding \<Rightarrow> (string \<times> string) list \<Rightarrow> smap" where
  "bac_meta b extra =
     (let t = bd_target b; a = Asset t
      in map_of ([(''hostname'', SourceID t), (''mgmt_ip'', tg_MgmtIP t), (''device_type'', tg_DeviceType t), (''vendor'', tg_Vendor t),
           (''model_name'', as_ModelName a), (''country'', as_Country a), (''datacenter'', as_DatacenterName a),
           (''datacenter_city'', as_DatacenterCity a), (''room'', as_Room a)] @ extra
          @ [(''collector_agent'', ''EDR''), (''collector_protocol'', ''BACNET'')]) ++ tg_Labels t)"

definition bac_packet ::
  "bac_env \<Rightarrow> binding \<Rightarrow> nat \<Rightarrow> i64 \<Rightarrow> int \<Rightarrow> string \<Rightarrow> string \<Rightarrow> rat \<Rightarrow> smap \<Rightarrow> string \<Rightarrow> string \<Rightarrow> TelemetryPacket" where
  "bac_packet en b k n ts name tag v meta knd sev =
     (let i = be_id en k; src = SourceID (bd_target b); bp = bd_base b
      in \<lparr>PktId = i, OrgId = bp_orgID bp, DatacenterId = bp_dcID bp, FloorId = bp_floorID bp, NetworkId = bp_netID bp, GroupId = bp_grpID bp,
          SourceType = ''device'', SourceId = src, ReaderId = bp_readerID bp, TimestampNs = ts, Name = name, Tag = tag, Value = v, Meta = meta,
          Kind = knd, Severity = sev,
          Signature = be_sign en (CanonicalBytes i src (word_of_int ts) name tag (be_scaled en v) n), Nonce = n\<rparr>)"

type_synonym stamper = "Signer \<times> nat"

definition new_energy :: "bac_env \<Rightarrow> binding \<Rightarrow> string \<Rightarrow> string \<Rightarrow> rat \<Rightarrow> int \<Rightarrow> stamper \<Rightarrow> TelemetryPacket \<times> stamper" where
  "new_energy en b name tag v ts st =
     (case st of (sg, k) \<Rightarrow> case NextNonce sg of (n, sg1) \<Rightarrow>
        (bac_packet en b k n ts name tag v (bac_meta b [(''energy_scope'', bd_scope b)]) ''energy'' '''', (sg1, Suc k)))"

definition newAlarmEvent :: "bac_env \<Rightarrow> binding \<Rightarrow> string \<Rightarrow> bool \<Rightarrow> int \<Rightarrow> stamper \<Rightarrow> TelemetryPacket \<times> stamper" where
  "newAlarmEvent en b name active ts st =
     (case st of (sg, k) \<Rightarrow> case NextNonce sg of (n, sg1) \<Rightarrow>
        (bac_packet en b k n ts name '''' (if active then 1 else 0)
           (bac_meta b [(''source_ip'', tg_MgmtIP (bd_target b)), (''alarm_state'', if active then ''active'' else ''clear''), (''source'', ''BACNET'')])
           ''alarm'' (if active then ''critical'' else ''informational''), (sg1, Suc k)))"

definition isAlarmMetric :: "string \<Rightarrow> bool" where
  "isAlarmMetric name = contains_str name ''.alarm_''"

definition alarmChanged :: "int \<times> int \<Rightarrow> bool \<Rightarrow> binding \<Rightarrow> bool \<times> binding" where
  "alarmChanged k active b = (active \<noteq> bd_lastAlarm b k, b\<lparr>bd_lastAlarm := (bd_lastAlarm b)(k := active)\<rparr>)"

definition emit :: "bac_env \<Rightarrow> binding \<Rightarrow> objMeta \<Rightarrow> go_float \<Rightarrow> int \<Rightarrow> stamper \<Rightarrow> TelemetryPacket list \<times> binding \<times> stamper" where
  "emit en b meta val ts st =
     (let v = float_value en val / (if om_scale meta = 0 then 1 else om_scale meta); active = (1 / 2 \<le> v)
      in case new_energy en b (om_name meta) (om_tag meta) v ts st of (p, st1) \<Rightarrow>
        if isAlarmMetric (om_name meta)
        then (case alarmChanged (om_key meta) active b of (changed, b1) \<Rightarrow>
               if changed then (case newAlarmEvent en b (om_name meta) active ts st1 of (q, st2) \<Rightarrow> ([p, q], b1, st2))
               else ([p], b1, st1))
        else ([p], b, st1))"

section \<open>The poll loop and the notifications\<close>

fun emit_results :: "bac_env \<Rightarrow> binding \<Rightarrow> int \<Rightarrow> PropResult list \<Rightarrow> stamper \<Rightarrow> TelemetryPacket list \<times> binding \<times> stamper" where
  "emit_results en b ts [] st = ([], b, st)"
| "emit_results en b ts (r # rs) st =
     (case bd_index b (int (pObjType r), int (pInstance r)) of
        None \<Rightarrow> emit_results en b ts rs st
      | Some meta \<Rightarrow>
          if \<not> pOK r then emit_results en b ts rs st
          else (case emit en b meta (pValue r) ts st of (ps, b1, st1) \<Rightarrow>
                 case emit_results en b1 ts rs st1 of (qs, b2, st2) \<Rightarrow> (ps @ qs, b2, st2)))"

definition pollBinding :: "bac_env \<Rightarrow> BACnetConfig \<Rightarrow> binding \<Rightarrow> stamper \<Rightarrow> u32 \<Rightarrow> (unit, TelemetryPacket list \<times> binding \<times> stamper) outcome \<times> u32" where
  "pollBinding en cfg b st i =
     (if \<not> bd_conn b \<and> \<not> be_dial en (bd_host b) then (Ret ([], b, st), i)
      else let b1 = b\<lparr>bd_conn := True\<rparr>
           in case readObjects en (bd_host b) cfg (bd_objs b) i of
                (Ret rs, i1) \<Rightarrow> (Ret (emit_results en b1 (be_now en) rs st), i1)
              | (Fail e, i1) \<Rightarrow> (Fail e, i1)
              | (Panic, i1) \<Rightarrow> (Panic, i1))"

fun poll_bindings ::
  "bac_env \<Rightarrow> BACnetConfig \<Rightarrow> binding list \<Rightarrow> stamper \<Rightarrow> u32 \<Rightarrow> (unit, TelemetryPacket list \<times> binding list \<times> stamper) outcome \<times> u32" where
  "poll_bindings en cfg [] st i = (Ret ([], [], st), i)"
| "poll_bindings en cfg (b # bs) st i =
     (case pollBinding en cfg b st i of
        (Ret (ps, b1, st1), i1) \<Rightarrow>
          (case poll_bindings en cfg bs st1 i1 of
             (Ret (qs, bs1, st2), i2) \<Rightarrow> (Ret (ps @ qs, b1 # bs1, st2), i2)
           | bad \<Rightarrow> bad)
      | (Fail e, i1) \<Rightarrow> (Fail e, i1)
      | (Panic, i1) \<Rightarrow> (Panic, i1))"

definition bac_pollAll :: "bac_env \<Rightarrow> bac_mgr \<Rightarrow> (unit, TelemetryPacket list \<times> bac_mgr) outcome" where
  "bac_pollAll en m =
     (case poll_bindings en (mg_cfg m) (mg_bindings m) (mg_signer m, mg_built m) (mg_invoke m) of
        (Ret (ps, bs, (sg, k)), i) \<Rightarrow> Ret (ps, m\<lparr>mg_bindings := bs, mg_signer := sg, mg_built := k, mg_invoke := i\<rparr>)
      | (Fail e, _) \<Rightarrow> Fail e
      | (Panic, _) \<Rightarrow> Panic)"

text \<open>One round of subscriptions: address and request of each.\<close>

fun subscribe_panel :: "BACnetConfig \<Rightarrow> string \<Rightarrow> objMeta list \<Rightarrow> int \<Rightarrow> u32 \<Rightarrow> (string \<times> byte list) list \<times> int \<times> u32" where
  "subscribe_panel cfg host [] pid i = ([], pid, i)"
| "subscribe_panel cfg host (om # oms) pid i =
     (case nextInvoke i of (invoke, i1) \<Rightarrow>
        case subscribe_panel cfg host oms (pid + 1) i1 of (rs, pid2, i2) \<Rightarrow>
          ((host, buildSubscribeCOV invoke pid (om_objType om) (om_inst om) (bn_COVLifetimeSec cfg)) # rs, pid2, i2))"

fun cov_subscriptions :: "BACnetConfig \<Rightarrow> binding list \<Rightarrow> int \<Rightarrow> u32 \<Rightarrow> (string \<times> byte list) list \<times> u32" where
  "cov_subscriptions cfg [] pid i = ([], i)"
| "cov_subscriptions cfg (b # bs) pid i =
     (if isPlantType (tg_DeviceType (bd_target b)) then cov_subscriptions cfg bs pid i
      else case subscribe_panel cfg (bd_host b) panelObjects pid i of (rs, pid1, i1) \<Rightarrow>
        case cov_subscriptions cfg bs pid1 i1 of (qs, i2) \<Rightarrow> (rs @ qs, i2))"

definition cov_receive :: "bac_env \<Rightarrow> string \<Rightarrow> byte list \<Rightarrow> bac_mgr \<Rightarrow> (unit, TelemetryPacket list \<times> bac_mgr) outcome" where
  "cov_receive en src d m =
     (case parseFrame (take 1500 d) of
        Panic \<Rightarrow> Panic
      | Ret (Some pdu) \<Rightarrow>
          if kind pdu \<noteq> 1 \<or> service pdu \<noteq> 2 then Ret ([], m)
          else (case mg_byIP m src of
            None \<Rightarrow> Ret ([], m)
          | Some j \<Rightarrow>
              (case decodeCOVNotification (payload pdu) of
                 None \<Rightarrow> Ret ([], m)
               | Some cov \<Rightarrow>
                   (case bd_index (mg_bindings m ! j) (int (covObjType cov), int (covInstance cov)) of
                      None \<Rightarrow> Ret ([], m)
                    | Some meta \<Rightarrow>
                        (case emit en (mg_bindings m ! j) meta (presentValue cov) (be_now en) (mg_signer m, mg_built m) of
                           (ps, b, (sg, k)) \<Rightarrow> Ret (ps, m\<lparr>mg_bindings := (mg_bindings m)[j := b], mg_signer := sg, mg_built := k\<rparr>)))))
      | _ \<Rightarrow> Ret ([], m))"

section \<open>Alarms\<close>

text \<open>
  A sequence of readings of one device, from polls and notifications alike. It describes one
  order of the calls of \<open>emit\<close>: the code serialises \<open>alarmChanged\<close> by \<open>alarmMu\<close>, so the
  edges are found in the order of the sequence; packets of calls that overlap may enter the
  channel in another order.
\<close>

fun emit_seq :: "bac_env \<Rightarrow> binding \<Rightarrow> (objMeta \<times> go_float \<times> int) list \<Rightarrow> stamper \<Rightarrow> TelemetryPacket list \<times> binding \<times> stamper" where
  "emit_seq en b [] st = ([], b, st)"
| "emit_seq en b ((m, v, ts) # rs) st =
     (case emit en b m v ts st of (ps, b1, st1) \<Rightarrow> case emit_seq en b1 rs st1 of (qs, b2, st2) \<Rightarrow> (ps @ qs, b2, st2))"

fun edges :: "bool \<Rightarrow> bool list \<Rightarrow> bool list" where
  "edges was [] = []"
| "edges was (a # as) = (if a = was then edges was as else a # edges a as)"

definition reading_value :: "bac_env \<Rightarrow> objMeta \<Rightarrow> go_float \<Rightarrow> rat" where
  "reading_value en m v = float_value en v / (if om_scale m = 0 then 1 else om_scale m)"

definition alarm_shown :: "TelemetryPacket \<Rightarrow> string \<times> rat" where
  "alarm_shown p = (Severity p, Value p)"

lemma emit_kinds:
  assumes "emit en b m v ts st = (ps, b1, st1)"
  shows "map (\<lambda>p. (Name p, Tag p, Value p)) (filter (\<lambda>p. Kind p = ''energy'') ps) = [(om_name m, om_tag m, reading_value en m v)]"
    and "map alarm_shown (filter (\<lambda>p. Kind p = ''alarm'' \<and> Name p = nm) ps)
      = (if isAlarmMetric (om_name m) \<and> om_name m = nm
         then map (\<lambda>a. if a then (''critical'', 1) else (''informational'', 0)) (edges (bd_lastAlarm b (om_key m)) [1 / 2 \<le> reading_value en m v]) else [])"
    and "bd_lastAlarm b1 = (if isAlarmMetric (om_name m) then (bd_lastAlarm b)(om_key m := 1 / 2 \<le> reading_value en m v) else bd_lastAlarm b)"
  using assms
  by (auto simp: emit_def new_energy_def newAlarmEvent_def bac_packet_def Let_def alarmChanged_def alarm_shown_def
      reading_value_def fun_upd_idem split: prod.splits if_splits)

text \<open>
  C25. An alarm raises one event per change: the alarm events of an object are the edges of its
  readings, a critical event when it becomes active and an informational one when it
  clears, in order, and none while it stays as it is.
\<close>

theorem alarm_events_are_edges:
  assumes "isAlarmMetric (om_name \<mu>)"
    and "list_all (\<lambda>(m, _). (om_name m = om_name \<mu> \<longrightarrow> m = \<mu>) \<and> (om_key m = om_key \<mu> \<longrightarrow> m = \<mu>)) rs"
  shows "map alarm_shown (filter (\<lambda>p. Kind p = ''alarm'' \<and> Name p = om_name \<mu>) (fst (emit_seq en b rs st)))
    = map (\<lambda>a. if a then (''critical'', 1) else (''informational'', 0))
        (edges (bd_lastAlarm b (om_key \<mu>)) (map (\<lambda>(m, v, _). 1 / 2 \<le> reading_value en m v) (filter (\<lambda>(m, _). m = \<mu>) rs)))"
  using assms(2)
proof (induction rs arbitrary: b st)
  case (Cons r rs)
  obtain m v ts where r: "r = (m, v, ts)" by (cases r)
  obtain ps b1 st1 where e: "emit en b m v ts st = (ps, b1, st1)" by (metis prod_cases3)
  note k = emit_kinds(2) [OF e, of "om_name \<mu>"] emit_kinds(3) [OF e]
  have "list_all (\<lambda>(m, _). (om_name m = om_name \<mu> \<longrightarrow> m = \<mu>) \<and> (om_key m = om_key \<mu> \<longrightarrow> m = \<mu>)) rs" using Cons.prems by simp
  note IH = Cons.IH [OF this, of b1 st1]
  have fst_seq: "fst (emit_seq en b (r # rs) st) = ps @ fst (emit_seq en b1 rs st1)" by (simp add: r e split: prod.split)
  show ?case
  proof (cases "m = \<mu>")
    case True
    then show ?thesis unfolding fst_seq using k IH assms(1) by (auto simp: r)
  next
    case False
    then have "om_name m \<noteq> om_name \<mu>" "om_key m \<noteq> om_key \<mu>" using Cons.prems r by auto
    then show ?thesis unfolding fst_seq using k IH False by (auto simp: r)
  qed
qed simp

section \<open>Every object is known\<close>

definition alarm_names :: "objMeta list \<Rightarrow> string list" where
  "alarm_names objs = filter isAlarmMetric (map om_name objs)"

lemma tables_ok:
  "list_all (\<lambda>objs. distinct (map om_key objs) \<and> distinct (alarm_names objs) \<and> list_all (\<lambda>m. om_scale m = 1 \<and> om_inst m < 2000) objs)
     (panelObjects # map snd plantObjects)"
  by code_simp

lemma metaIndex_own: "distinct (map om_key objs) \<Longrightarrow> m \<in> set objs \<Longrightarrow> metaIndex objs (om_key m) = Some m"
  unfolding metaIndex_def by (rule map_of_is_SomeI) (auto simp: comp_def rev_map [symmetric])

definition circuit_block :: "nat \<Rightarrow> objMeta list" where
  "circuit_block ckt = map (\<lambda>(off, name). ai ((int ckt + 1) * 1000 + off) name (circuit_label ckt)) circuitOffsets"

lemma circuit_block_keys:
  "map om_key (circuit_block ckt) = map (\<lambda>off. (ObjAnalogInput, (int ckt + 1) * 1000 + off)) [1, 2, 3, 4, 5]"
  by (simp add: circuit_block_def circuitOffsets_def om_key_def)

lemma circuit_keys:
  "distinct (map om_key (concat (map circuit_block [1..<Suc n])))
   \<and> list_all (\<lambda>k. 2000 < snd k \<and> snd k < (int n + 1) * 1000 + 6) (map om_key (concat (map circuit_block [1..<Suc n])))"
proof (induction n)
  case (Suc n)
  define old where "old = map om_key (concat (map circuit_block [1..<Suc n]))"
  define new where "new = map om_key (circuit_block (Suc n))"
  have e: "map om_key (concat (map circuit_block [1..<Suc (Suc n)])) = old @ new"
    by (simp add: old_def new_def)
  have new: "distinct new" "list_all (\<lambda>k. (int n + 2) * 1000 < snd k \<and> snd k < (int n + 2) * 1000 + 6) new"
    unfolding new_def circuit_block_keys by (simp_all add: algebra_simps)
  have old: "distinct old" "list_all (\<lambda>k. 2000 < snd k \<and> snd k < (int n + 1) * 1000 + 6) old"
    using Suc by (simp_all only: old_def)
  have "k \<notin> set new" if "k \<in> set old" for k
  proof
    assume "k \<in> set new"
    then have "(int n + 2) * 1000 < snd k" "snd k < (int n + 1) * 1000 + 6" using that new(2) old(2) by (simp_all add: list_all_iff)
    then show False by simp
  qed
  then have "distinct (old @ new)" using new(1) old(1) by auto
  moreover have "2000 < snd k \<and> snd k < (int (Suc n) + 1) * 1000 + 6" if mem: "k \<in> set (old @ new)" for k
  proof -
    consider "2000 < snd k \<and> snd k < (int n + 1) * 1000 + 6" | "(int n + 2) * 1000 < snd k \<and> snd k < (int n + 2) * 1000 + 6"
      using mem new(2) old(2) by (auto simp: list_all_iff)
    then show ?thesis by cases auto
  qed
  ultimately show ?case unfolding e by (simp add: list_all_iff)
qed simp

lemma objectsFor_distinct: "distinct (map om_key (objectsFor n rc))"
proof -
  have p: "distinct (map om_key panelObjects)" "\<And>k. k \<in> set (map om_key panelObjects) \<Longrightarrow> snd k < 2000"
    using tables_ok by (auto simp: list_all_iff om_key_def)
  have c: "circuitObjects n = concat (map circuit_block [1..<Suc n])"
    by (simp add: circuitObjects_def circuit_block_def [abs_def])
  have "distinct (map om_key (circuitObjects n))" "\<And>k. k \<in> set (map om_key (circuitObjects n)) \<Longrightarrow> 2000 < snd k"
    using circuit_keys [of n] unfolding c list_all_iff by blast+
  then have "distinct (map om_key panelObjects @ map om_key (circuitObjects n))"
    using p unfolding distinct_append by fastforce
  then show ?thesis using p(1) by (cases "rc \<and> 0 < n") (simp_all only: objectsFor_def if_True if_False append_Nil2 map_append simp_thms)
qed

text \<open>
  Every object that is read is found again when its answer or notification arrives: the
  identifiers of each table, panel and circuits together, are distinct, and so are its
  alarm names.
\<close>

theorem every_object_is_indexed:
  "m \<in> set (objectsFor n rc) \<Longrightarrow> metaIndex (objectsFor n rc) (om_key m) = Some m"
  and plant_object_is_indexed: "(dt, objs) \<in> set plantObjects \<Longrightarrow> m \<in> set objs \<Longrightarrow> metaIndex objs (om_key m) = Some m"
proof -
  show "m \<in> set (objectsFor n rc) \<Longrightarrow> metaIndex (objectsFor n rc) (om_key m) = Some m"
    by (rule metaIndex_own [OF objectsFor_distinct])
  have "distinct (map om_key objs)" if "(dt, objs) \<in> set plantObjects"
    using tables_ok that by (fastforce simp: list_all_iff)
  then show "(dt, objs) \<in> set plantObjects \<Longrightarrow> m \<in> set objs \<Longrightarrow> metaIndex objs (om_key m) = Some m"
    by (rule metaIndex_own)
qed

section \<open>A device that answers\<close>

text \<open>
  The answer as the simulator sends it, with the values in the opening and closing tag 2 that
  the comment of \<open>decodeReadPropertyMultipleAck\<close> describes. The standard's encoding, without
  that tag, decodes to nothing.
\<close>

definition answer_to :: "(objMeta \<Rightarrow> rpm_value) \<Rightarrow> int \<Rightarrow> objMeta list \<Rightarrow> byte list" where
  "answer_to val invoke objs =
     buildBVLL (buildNPDU ([0x30, word_of_int invoke, 14]
       @ concat (map (\<lambda>m. encObject (om_objType m, om_inst m, [RItem 85 (val m)])) objs)) False) False"

lemma length_value: "length (encValue v) \<le> 5"
proof (cases v)
  case (RUint n)
  obtain bs where "encAppUint n = (0x20 OR word_of_nat (length bs)) # bs" "payload_of n bs" by (rule encAppUint_shape)
  then show ?thesis using RUint by (simp add: payload_of_def)
next
  case (REnum n)
  obtain bs where "encAppEnum n = (0x90 OR word_of_nat (length bs)) # bs" "payload_of n bs" by (rule encAppEnum_shape)
  then show ?thesis using REnum by (simp add: payload_of_def)
qed simp

lemma length_object: "length (encObject (t, i, [RItem p v])) \<le> 21"
proof -
  obtain bs where "encCtxUint 0 p = (word_of_nat (0 * 16) OR 8 OR word_of_nat (length bs)) # bs" "payload_of p bs" by (rule encCtxUint_shape)
  then show ?thesis using length_value [of v] by (simp add: encObject_def encCtxOID_def payload_of_def)
qed

lemma length_answer: "length (answer_to val invoke objs) \<le> 9 + 21 * length objs"
proof -
  have "length (concat (map (\<lambda>m. encObject (om_objType m, om_inst m, [RItem 85 (val m)])) objs)) \<le> 21 * length objs"
  proof (induction objs)
    case (Cons m ms)
    then show ?case using length_object [of "om_objType m" "om_inst m" 85 "val m"] by simp
  qed simp
  then show ?thesis by (simp add: answer_to_def nth_header buildNPDU_def)
qed

definition on_wire :: "objMeta list \<Rightarrow> bool" where
  "on_wire objs \<longleftrightarrow> list_all (\<lambda>m. 0 \<le> om_objType m \<and> om_objType m < 1024 \<and> 0 \<le> om_inst m \<and> om_inst m < 4194304) objs"

definition answered :: "(objMeta \<Rightarrow> rpm_value) \<Rightarrow> objMeta list \<Rightarrow> PropResult list" where
  "answered val objs = map (\<lambda>m. \<lparr>pObjType = nat (om_objType m), pInstance = nat (om_inst m), pProp = 85, pValue = floatOf (val m), pOK = True\<rparr>) objs"

lemma await_answer:
  assumes "0 \<le> invoke" and "invoke < 256" and "on_wire objs" and "length objs \<le> 71"
  shows "await invoke (answer_to val invoke objs # ds) = Ret (Some (answered val objs))"
proof -
  define body where "body = concat (map (\<lambda>m. encObject (om_objType m, om_inst m, [RItem 85 (val m)])) objs)"
  have len: "length (answer_to val invoke objs) \<le> 1500" using length_answer [of val invoke objs] assms(4) by simp
  have "parseBVLL (answer_to val invoke objs) = Ret (buildNPDU ([0x30, word_of_int invoke, 14] @ body) False)"
    unfolding answer_to_def body_def
    by (rule parseBVLL_build) (use len in \<open>simp add: answer_to_def nth_header\<close>)
  then have p: "parseFrame (answer_to val invoke objs) = Ret (Some \<lparr>kind = 3, service = 14, invokeID = unat (word_of_int invoke :: byte), payload = body\<rparr>)"
    by (simp add: parseFrame_def parseNPDU_build parseAPDU_def)
  have inv: "int (unat (word_of_int invoke :: byte)) = invoke mod 256"
    by (simp add: unat_eq_nat_uint uint_word_of_int)
  have "decodeReadPropertyMultipleAck body = concat (map resObject (map (\<lambda>m. (om_objType m, om_inst m, [RItem 85 (val m)])) objs))"
    using rpm_objects_obs [of 0 body "map (\<lambda>m. (om_objType m, om_inst m, [RItem 85 (val m)])) objs" "[]"]
    by (simp add: decodeReadPropertyMultipleAck_def body_def comp_def)
  also have "\<dots> = answered val objs"
    using assms(3) by (induction objs) (simp_all add: answered_def resObject_def on_wire_def)
  finally show ?thesis using p inv len by (simp add: take_all)
qed

lemma chunked_concat: "0 < n \<Longrightarrow> concat (chunked n xs) = xs"
  by (induction n xs rule: chunked.induct) (subst chunked.simps, auto)

lemma chunked_sizes: "list_all (\<lambda>c. length c \<le> n) (chunked n xs)"
  by (induction n xs rule: chunked.induct) (subst chunked.simps, auto)

text \<open>A device that answers the first attempt of each of the given requests, whatever its number.\<close>

definition answers :: "bac_env \<Rightarrow> string \<Rightarrow> (objMeta \<Rightarrow> rpm_value) \<Rightarrow> objMeta list list \<Rightarrow> bool" where
  "answers en host val chunks \<longleftrightarrow> be_dial en host \<and> be_write en host \<and>
     (\<forall>objs \<in> set chunks. \<forall>invoke. 0 \<le> invoke \<and> invoke < 256 \<longrightarrow>
        (\<exists>ds. be_recv en host (buildReadPropertyMultiple invoke (specs_of objs)) 0 = answer_to val invoke objs # ds))"

definition requests :: "BACnetConfig \<Rightarrow> objMeta list \<Rightarrow> objMeta list list" where
  "requests cfg objs = chunked (nat (if bn_ObjectsPerRead cfg \<le> 0 then 12 else bn_ObjectsPerRead cfg)) objs"

lemma read_chunks_answers:
  assumes "answers en host val chunks" and "0 \<le> retries" and "list_all (\<lambda>c. on_wire c \<and> length c \<le> 71) chunks"
  shows "fst (read_chunks en host retries chunks i) = Ret (answered val (concat chunks))"
  using assms(1,3)
proof (induction chunks arbitrary: i)
  case (Cons c cs)
  define inv where "inv = uint ((i + 1) AND 0xFF)"
  have "0 \<le> inv" "inv < 256" unfolding inv_def by (simp_all add: uint_and) 
  obtain ds where ds: "be_recv en host (buildReadPropertyMultiple inv (specs_of c)) 0 = answer_to val inv c # ds"
    using Cons.prems(1) \<open>0 \<le> inv\<close> \<open>inv < 256\<close> unfolding answers_def by force
  have rest: "answers en host val cs" "list_all (\<lambda>c. on_wire c \<and> length c \<le> 71) cs" using Cons.prems by (auto simp: answers_def)
  obtain k where "nat (retries + 1) = Suc k" using assms(2) by (metis Suc_nat_eq_nat_zadd1 add.commute)
  then have "sendAndDecode en host (buildReadPropertyMultiple inv (specs_of c)) inv retries = Ret (Some (answered val c))"
    using await_answer [OF \<open>0 \<le> inv\<close> \<open>inv < 256\<close>, of c val ds] Cons.prems ds by (simp add: sendAndDecode_def answers_def)
  then show ?case
    using Cons.IH [OF rest, of "i + 1"] by (auto simp: nextInvoke_def inv_def [symmetric] answered_def split: prod.splits outcome.splits)
qed (simp add: answered_def)

lemma emit_frame:
  assumes "emit en b m v ts st = (ps, b1, st1)"
  shows "bd_index b1 = bd_index b"
  using assms by (auto simp: emit_def Let_def alarmChanged_def split: prod.splits if_splits)

lemma emit_results_answered:
  assumes "\<And>m. m \<in> set objs \<Longrightarrow> bd_index b (om_key m) = Some m" and "on_wire objs"
  shows "map (\<lambda>p. (Name p, Tag p, Value p)) (filter (\<lambda>p. Kind p = ''energy'') (fst (emit_results en b ts (answered val objs) st)))
    = map (\<lambda>m. (om_name m, om_tag m, reading_value en m (floatOf (val m)))) objs"
  using assms
proof (induction objs arbitrary: b st)
  case (Cons m ms)
  obtain ps b1 st1 where e: "emit en b m (floatOf (val m)) ts st = (ps, b1, st1)" by (metis prod_cases3)
  have k: "bd_index b (int (nat (om_objType m)), int (nat (om_inst m))) = Some m"
    using Cons.prems by (simp add: on_wire_def om_key_def)
  have "answered val (m # ms) = \<lparr>pObjType = nat (om_objType m), pInstance = nat (om_inst m), pProp = 85, pValue = floatOf (val m), pOK = True\<rparr> # answered val ms"
    by (simp add: answered_def)
  then have "fst (emit_results en b ts (answered val (m # ms)) st) = ps @ fst (emit_results en b1 ts (answered val ms) st1)"
    using k e by (simp split: prod.split)
  moreover have "map (\<lambda>p. (Name p, Tag p, Value p)) (filter (\<lambda>p. Kind p = ''energy'') (fst (emit_results en b1 ts (answered val ms) st1)))
    = map (\<lambda>m. (om_name m, om_tag m, reading_value en m (floatOf (val m)))) ms"
    using Cons.prems emit_frame [OF e] by (intro Cons.IH) (auto simp: on_wire_def)
  ultimately show ?case using emit_kinds(1) [OF e] by simp
qed (simp add: answered_def)

lemma tables_on_wire: "list_all on_wire (panelObjects # map snd plantObjects)"
  by code_simp

lemma objectsFor_on_wire:
  assumes "n \<le> 4192"
  shows "on_wire (objectsFor n rc)"
proof -
  have "om_objType m = 0 \<and> 0 \<le> om_inst m \<and> om_inst m < 4194304" if "m \<in> set (circuitObjects n)" for m
  proof -
    have c: "circuitObjects n = concat (map circuit_block [1..<Suc n])"
      by (simp add: circuitObjects_def circuit_block_def [abs_def])
    have "om_key m \<in> set (map om_key (concat (map circuit_block [1..<Suc n])))" using that unfolding c set_map by (rule imageI)
    then have "2000 < om_inst m" "om_inst m < (int n + 1) * 1000 + 6"
      using circuit_keys [of n] by (auto simp: list_all_iff om_key_def)
    moreover have "om_objType m = 0" using that by (auto simp: circuitObjects_def ObjAnalogInput_def)
    ultimately show ?thesis using assms by simp
  qed
  then show ?thesis using tables_on_wire by (auto simp: objectsFor_def on_wire_def list_all_iff)
qed

lemma new_binding_objects:
  assumes "active_circuits t \<le> 4192"
  shows "on_wire (bd_objs (new_binding cfg ident t))"
    and "m \<in> set (bd_objs (new_binding cfg ident t)) \<Longrightarrow> bd_index (new_binding cfg ident t) (om_key m) = Some m"
proof -
  show "on_wire (bd_objs (new_binding cfg ident t))"
    using tables_on_wire objectsFor_on_wire assms
    by (fastforce simp: new_binding_def list_all_iff split: option.split dest: map_of_SomeD)
  show "m \<in> set (bd_objs (new_binding cfg ident t)) \<Longrightarrow> bd_index (new_binding cfg ident t) (om_key m) = Some m"
    using tables_ok metaIndex_own objectsFor_distinct
    by (fastforce simp: new_binding_def list_all_iff split: option.splits dest: map_of_SomeD)
qed

text \<open>
  C18. A device that answers is reported in full: when each request is answered with the values
  of the objects it asks for, one poll yields exactly one energy packet for every object of
  the device, in order, under the name and tag of the object and with its value. The
  answers pass through framing, parser and decoder.
\<close>

theorem answering_device_is_reported:
  assumes "b = (new_binding cfg ident t)\<lparr>bd_conn := c, bd_lastAlarm := la\<rparr>" and "active_circuits t \<le> 4192"
    and "answers en (bd_host b) val (requests cfg (bd_objs b))" and "0 \<le> bn_Retries cfg" and "bn_ObjectsPerRead cfg \<le> 71"
  shows "\<exists>ps b1 st1. fst (pollBinding en cfg b st i) = Ret (ps, b1, st1)
    \<and> map (\<lambda>p. (Name p, Tag p, Value p)) (filter (\<lambda>p. Kind p = ''energy'') ps)
        = map (\<lambda>m. (om_name m, om_tag m, reading_value en m (floatOf (val m)))) (bd_objs b)"
proof -
  define per where "per = nat (if bn_ObjectsPerRead cfg \<le> 0 then 12 else bn_ObjectsPerRead cfg)"
  have objs: "bd_objs b = bd_objs (new_binding cfg ident t)" "bd_index b = bd_index (new_binding cfg ident t)" using assms(1) by simp_all
  have wire: "on_wire (bd_objs b)" using new_binding_objects(1) [OF assms(2)] objs by simp
  have per: "0 < per" "per \<le> 71" using assms(5) by (auto simp: per_def nat_le_iff)
  have "set c' \<subseteq> set (bd_objs b)" if "c' \<in> set (chunked per (bd_objs b))" for c'
    using that chunked_concat [OF per(1), of "bd_objs b"] by (metis UN_upper set_concat)
  then have "list_all (\<lambda>c. on_wire c \<and> length c \<le> 71) (chunked per (bd_objs b))"
    using wire chunked_sizes [of per "bd_objs b"] per(2) by (fastforce simp: list_all_iff on_wire_def)
  from read_chunks_answers [OF assms(3) [unfolded requests_def, folded per_def] assms(4) this, of i] chunked_concat [OF per(1), of "bd_objs b"]
  have "fst (readObjects en (bd_host b) cfg (bd_objs b) i) = Ret (answered val (bd_objs b))"
    by (simp add: readObjects_def per_def)
  moreover have "be_dial en (bd_host b)" using assms(3) by (simp add: answers_def)
  ultimately have "fst (pollBinding en cfg b st i) = Ret (emit_results en (b\<lparr>bd_conn := True\<rparr>) (be_now en) (answered val (bd_objs b)) st)"
    by (auto simp: pollBinding_def Let_def split: prod.splits outcome.splits)
  moreover have "map (\<lambda>p. (Name p, Tag p, Value p)) (filter (\<lambda>p. Kind p = ''energy'')
      (fst (emit_results en (b\<lparr>bd_conn := True\<rparr>) (be_now en) (answered val (bd_objs b)) st)))
    = map (\<lambda>m. (om_name m, om_tag m, reading_value en m (floatOf (val m)))) (bd_objs b)"
    using new_binding_objects(2) [OF assms(2)] objs by (intro emit_results_answered wire) simp
  moreover obtain ps b1 st1 where "emit_results en (b\<lparr>bd_conn := True\<rparr>) (be_now en) (answered val (bd_objs b)) st = (ps, b1, st1)"
    by (metis prod_cases3)
  ultimately show ?thesis by (intro exI [of _ ps] exI [of _ b1] exI [of _ st1]) simp
qed

definition valve_val :: "objMeta \<Rightarrow> rpm_value" where
  "valve_val m = (if om_objType m = ObjBinaryInput then REnum 1 else RUint (word_of_int (om_inst m)))"

definition valve :: Target where
  "valve = old_switch\<lparr>tg_DeviceType := ''valve'', tg_Hostname := ''VLV-1''\<rparr>"

definition bac_cfg :: BACnetConfig where
  "bac_cfg = \<lparr>bn_Enabled = True, bn_Port = 47808, bn_PollIntervalMs = 30000, bn_TimeoutMs = 2000, bn_Retries = 1, bn_ReadCircuits = True,
     bn_ObjectsPerRead = 12, bn_UseCOV = False, bn_COVLifetimeSec = 300\<rparr>"

definition bac_ident :: IdentityConfig where
  "bac_ident = \<lparr>idc_OrgID = ''org'', idc_DatacenterID = ''dc'', idc_FloorID = ''f1'', idc_NetworkID = ''net'', idc_GroupID = ''g'', idc_ReaderID = ''edr''\<rparr>"

definition valve_objs :: "objMeta list" where
  "valve_objs = bd_objs (new_binding bac_cfg bac_ident valve)"

text \<open>It answers with the number of the request, its ninth byte.\<close>

definition valve_env :: bac_env where
  "valve_env = \<lparr>be_resolves = (\<lambda>_. True), be_dial = (\<lambda>_. True), be_write = (\<lambda>_. True),
     be_recv = (\<lambda>_ req _. [answer_to valve_val (uint (req ! 8)) valve_objs]), be_now = 7, be_id = (\<lambda>k. replicate k CHR ''a''),
     be_sign = (\<lambda>b. b), be_scaled = (\<lambda>r. word_of_int \<lfloor>r\<rfloor>), be_nonfinite = (\<lambda>_. 0)\<rparr>"

lemma request_number: "0 \<le> invoke \<Longrightarrow> invoke < 256 \<Longrightarrow> uint (buildReadPropertyMultiple invoke specs ! 8) = invoke"
  by (simp add: buildReadPropertyMultiple_def buildBVLL_def buildNPDU_def confirmedHdr_def Let_def uint_word_of_int)

lemma valve_requests: "requests bac_cfg valve_objs = [valve_objs]"
  by code_simp

theorem answering_device_is_reported_witness:
  "\<exists>ps b1 st1. fst (pollBinding valve_env bac_cfg (new_binding bac_cfg bac_ident valve) (NewSigner ''edr'' 0, 0) 41) = Ret (ps, b1, st1)
    \<and> map (\<lambda>p. (Name p, Value p)) (filter (\<lambda>p. Kind p = ''energy'') ps)
        = [(''cooling.valve_position_pct'', 1), (''cooling.valve_commanded_position_pct'', 2), (''cooling.actuator_temp_c'', 3),
           (''cooling.valve_modulating'', 1), (''cooling.alarm_actuator_fault'', 1)]"
proof -
  let ?b = "new_binding bac_cfg bac_ident valve"
  have b: "?b = ?b\<lparr>bd_conn := False, bd_lastAlarm := (\<lambda>_. False)\<rparr>" by (simp add: new_binding_def split: prod.split)
  have a: "answers valve_env (bd_host ?b) valve_val (requests bac_cfg (bd_objs ?b))"
    unfolding valve_objs_def [symmetric] valve_requests answers_def
    by (auto simp: valve_env_def request_number)
  have c: "active_circuits valve \<le> 4192" by code_simp
  obtain ps b1 st1 where r: "fst (pollBinding valve_env bac_cfg ?b (NewSigner ''edr'' 0, 0) 41) = Ret (ps, b1, st1)"
    "map (\<lambda>p. (Name p, Tag p, Value p)) (filter (\<lambda>p. Kind p = ''energy'') ps)
      = map (\<lambda>m. (om_name m, om_tag m, reading_value valve_env m (floatOf (valve_val m)))) (bd_objs ?b)"
    using answering_device_is_reported [OF b c a, of "(NewSigner ''edr'' 0, 0)" 41] by (auto simp: bac_cfg_def)
  have "map (\<lambda>m. (om_name m, reading_value valve_env m (floatOf (valve_val m)))) (bd_objs ?b)
     = [(''cooling.valve_position_pct'', 1), (''cooling.valve_commanded_position_pct'', 2), (''cooling.actuator_temp_c'', 3),
           (''cooling.valve_modulating'', 1), (''cooling.alarm_actuator_fault'', 1)]"
    by (simp add: new_binding_def plantObjects_def valve_def valve_val_def reading_value_def float_value_def ObjAnalogInput_def ObjBinaryInput_def)
  moreover have "map (\<lambda>p. (Name p, Value p)) (filter (\<lambda>p. Kind p = ''energy'') ps) = map (\<lambda>m. (om_name m, reading_value valve_env m (floatOf (valve_val m)))) (bd_objs ?b)"
    using arg_cong [OF r(2), of "map (\<lambda>(a, b, c). (a, c))"] by (simp add: comp_def)
  ultimately show ?thesis using r(1) by auto
qed

theorem alarm_events_are_edges_witness:
  "map alarm_shown (filter (\<lambda>p. Kind p = ''alarm'' \<and> Name p = ''cooling.alarm_fault'')
     (fst (emit_seq valve_env (new_binding bac_cfg bac_ident valve)
        (map (\<lambda>k. (bi 2 ''cooling.alarm_fault'' '''', F64_uint k, 0)) [0, 1, 1, 0, 0, 1]) (NewSigner ''edr'' 0, 0))))
   = [(''critical'', 1), (''informational'', 0), (''critical'', 1)]"
proof -
  let ?m = "bi 2 ''cooling.alarm_fault'' ''''"
  have al: "isAlarmMetric (om_name ?m)" by code_simp
  have "bd_lastAlarm (new_binding bac_cfg bac_ident valve) (om_key ?m) = False" by (simp add: new_binding_def split: prod.split)
  moreover have "list_all (\<lambda>(m, _). (om_name m = om_name ?m \<longrightarrow> m = ?m) \<and> (om_key m = om_key ?m \<longrightarrow> m = ?m))
      (map (\<lambda>k. (?m, F64_uint k, 0)) [0, 1, 1, 0, 0, 1])" by simp
  from alarm_events_are_edges [OF al this, of valve_env "new_binding bac_cfg bac_ident valve" "(NewSigner ''edr'' 0, 0)"] calculation
  show ?thesis by (simp add: reading_value_def float_value_def)
qed

end
