(* ===== verification/Topology_Loader.thy ===== *)
theory Topology_Loader
  imports Target
begin

text \<open>
  \<open>fwEDR/internal/topology/loader.go\<close>: targets and links from the topology file of the
  simulator. The file enters as the result of opening and decoding it. A missing key of a
  Go map reads as the empty value, so the adjacency and the node types are functions.
\<close>

section \<open>The file\<close>

record topoDevice =
  td_Name :: string
  td_DeviceType :: string
  td_Vendor :: string
  td_ModelName :: string
  td_IPAddress :: string
  td_SNMPCommunity :: string
  td_GNMIPort :: int
  td_MgmtIPExplicit :: string
  td_ProdIPExplicit :: string
  td_Country :: string
  td_Datacenter :: string
  td_DatacenterCity :: string
  td_Room :: string
  td_Floor :: string
  td_RackRow :: int
  td_RackNum :: int
  td_RackUnit :: int

record topoNode =
  tn_ID :: string
  tn_Device :: topoDevice

record topoEdge =
  te_Src :: string
  te_Dst :: string
  te_SrcIface :: int
  te_DstIface :: int
  te_Layer :: string

record topoFile =
  tf_Nodes :: "topoNode list"
  tf_Edges :: "topoEdge list"

record LinkEdge =
  le_SrcHost :: string
  le_DstHost :: string
  le_SrcMgmtIP :: string
  le_DstMgmtIP :: string
  le_SrcDatacenterID :: string
  le_SrcFloorID :: string
  le_Layer :: string
  le_SrcPortIndex :: int
  le_DstPortIndex :: int

datatype topo_error = OpenError | DecodeError

section \<open>Classification\<close>

definition gnmiCapable :: "string \<Rightarrow> bool" where
  "gnmiCapable dt \<longleftrightarrow> dt \<in> {''router'', ''switch'', ''firewall'', ''load_balancer''}"

definition isPlantDeviceType :: "string \<Rightarrow> bool" where
  "isPlantDeviceType dt \<longleftrightarrow> dt \<in> {''chiller'', ''pump'', ''cooling_tower'', ''valve'', ''crah'', ''cdu''}"

definition normalizeVendor :: "string \<Rightarrow> string" where
  "normalizeVendor v0 =
     (let v = to_lower v0
      in if contains_str v ''cisco'' then ''cisco''
         else if contains_str v ''juniper'' then ''juniper''
         else if contains_str v ''arista'' then ''arista''
         else if contains_str v ''apc'' \<or> contains_str v ''schneider'' then ''apc''
         else if contains_str v ''eaton'' then ''eaton''
         else if contains_str v ''raritan'' then ''raritan''
         else if contains_str v ''vertiv'' \<or> contains_str v ''liebert'' then ''vertiv''
         else if contains_str v ''palo alto'' then ''paloalto''
         else if contains_str v ''f5'' then ''f5''
         else ''generic'')"

section \<open>The power graph\<close>

definition type_of :: "topoNode list \<Rightarrow> string \<Rightarrow> string" where
  "type_of ns i = (case map_of (rev (map (\<lambda>n. (tn_ID n, td_DeviceType (tn_Device n))) ns)) i of Some t \<Rightarrow> t | None \<Rightarrow> '''')"

definition add_adj :: "topoEdge \<Rightarrow> (string \<Rightarrow> string list) \<Rightarrow> string \<Rightarrow> string list" where
  "add_adj e adj =
     (if te_Layer e \<noteq> ''power'' then adj
      else let a = adj(te_Src e := adj (te_Src e) @ [te_Dst e]) in a(te_Dst e := a (te_Dst e) @ [te_Src e]))"

definition power_adj :: "topoEdge list \<Rightarrow> string \<Rightarrow> string list" where
  "power_adj es = fold add_adj es (\<lambda>_. [])"

definition activeCircuitsFor :: "string \<Rightarrow> (string \<Rightarrow> string list) \<Rightarrow> (string \<Rightarrow> string) \<Rightarrow> int" where
  "activeCircuitsFor ev2 adj ty =
     (case adj ev2 of
        [] \<Rightarrow> 0
      | pdu # _ \<Rightarrow> int (length (filter (\<lambda>nb. \<not> (nb = ev2 \<or> ty nb \<in> {''ups'', ''generator''})) (adj pdu))))"

section \<open>Targets\<close>

definition node_config :: "(string \<Rightarrow> string list) \<Rightarrow> (string \<Rightarrow> string) \<Rightarrow> topoNode \<Rightarrow> TargetConfig" where
  "node_config adj ty n =
     (let d = tn_Device n;
          mgmt = or_default (td_MgmtIPExplicit d) (td_SNMPCommunity d);
          prod_ip = or_default (td_ProdIPExplicit d) (td_IPAddress d);
          gnmi = gnmiCapable (td_DeviceType d) \<and> prod_ip \<noteq> '''';
          meter = (td_DeviceType d = ''energy_monitor'')
      in \<lparr>tc_IP = ''127.0.0.1'', tc_MgmtIP = mgmt, tc_ProdIP = prod_ip, tc_LoopbackIP = '''', tc_OOBIP = '''',
          tc_GNMIIP = (if gnmi then mgmt else ''''), tc_Hostname = td_Name d, tc_DeviceType = td_DeviceType d,
          tc_SNMPVersion = 0,
          tc_Community = (if td_DeviceType d = ''server'' \<and> prod_ip \<noteq> '''' then prod_ip else td_SNMPCommunity d),
          tc_GNMIEnabled = gnmi, tc_BACnetEnabled = (meter \<or> isPlantDeviceType (td_DeviceType d)),
          tc_ActiveCircuits = (if meter then activeCircuitsFor (tn_ID n) adj ty else 0),
          tc_Vendor = normalizeVendor (td_Vendor d), tc_Labels = Map.empty,
          tc_DatacenterID = td_Datacenter d, tc_FloorID = td_Floor d, tc_ModelName = td_ModelName d,
          tc_Country = td_Country d, tc_DatacenterName = td_Datacenter d, tc_DatacenterCity = td_DatacenterCity d,
          tc_Room = td_Room d, tc_Floor = td_Floor d,
          tc_RackRow = td_RackRow d, tc_RackNum = td_RackNum d, tc_RackUnit = td_RackUnit d\<rparr>)"

definition loadable :: "topoNode \<Rightarrow> bool" where
  "loadable n \<longleftrightarrow> \<not> (td_Name (tn_Device n) = '''' \<or> td_SNMPCommunity (tn_Device n) = '''')"

definition LoadTargets :: "topo_error + topoFile \<Rightarrow> topo_error + TargetConfig list" where
  "LoadTargets f =
     (case f of
        Inl e \<Rightarrow> Inl e
      | Inr topo \<Rightarrow>
          let ty = type_of (tf_Nodes topo); adj = power_adj (tf_Edges topo)
          in Inr (map (node_config adj ty) (filter loadable (tf_Nodes topo))))"

section \<open>Links\<close>

record nodeInfo =
  ni_host :: string
  ni_mgmtIP :: string
  ni_dc :: string
  ni_floor :: string

definition node_info :: "topoNode \<Rightarrow> nodeInfo" where
  "node_info n =
     (let d = tn_Device n
      in \<lparr>ni_host = td_Name d, ni_mgmtIP = or_default (td_MgmtIPExplicit d) (td_SNMPCommunity d),
          ni_dc = td_Datacenter d, ni_floor = td_Floor d\<rparr>)"

definition node_index :: "topoNode list \<Rightarrow> string \<rightharpoonup> nodeInfo" where
  "node_index ns =
     map_of (rev (map (\<lambda>n. (tn_ID n, node_info n)) (filter (\<lambda>n. \<not> (tn_ID n = '''' \<or> td_Name (tn_Device n) = '''')) ns)))"

definition dcs_layer :: "string \<Rightarrow> string" where
  "dcs_layer l = (if l = ''production'' then ''network'' else l)"

definition edge_link :: "(string \<rightharpoonup> nodeInfo) \<Rightarrow> topoEdge \<Rightarrow> LinkEdge list" where
  "edge_link ix e =
     (let layer = dcs_layer (te_Layer e)
      in if layer \<notin> {''network'', ''management'', ''power'', ''cooling''} then []
         else case (ix (te_Src e), ix (te_Dst e)) of
             (Some s, Some d) \<Rightarrow>
               if ni_host s = '''' \<or> ni_host d = '''' then []
               else [\<lparr>le_SrcHost = ni_host s, le_DstHost = ni_host d, le_SrcMgmtIP = ni_mgmtIP s, le_DstMgmtIP = ni_mgmtIP d,
                      le_SrcDatacenterID = ni_dc s, le_SrcFloorID = ni_floor s, le_Layer = layer,
                      le_SrcPortIndex = te_SrcIface e, le_DstPortIndex = te_DstIface e\<rparr>]
           | _ \<Rightarrow> [])"

definition LoadTopologyLinks :: "topo_error + topoFile \<Rightarrow> topo_error + LinkEdge list" where
  "LoadTopologyLinks f =
     (case f of
        Inl e \<Rightarrow> Inl e
      | Inr topo \<Rightarrow> Inr (concat (map (edge_link (node_index (tf_Nodes topo))) (tf_Edges topo))))"

section \<open>The adjacency holds exactly the power edges\<close>

text \<open>How many power edges join two nodes, counting both directions.\<close>

definition joins :: "topoEdge \<Rightarrow> string \<Rightarrow> string \<Rightarrow> nat" where
  "joins e a b =
     (if te_Layer e = ''power'' then of_bool (te_Src e = a \<and> te_Dst e = b) + of_bool (te_Dst e = a \<and> te_Src e = b) else 0)"

definition power_edges :: "topoEdge list \<Rightarrow> string \<Rightarrow> string \<Rightarrow> nat" where
  "power_edges es a b = sum_list (map (\<lambda>e. joins e a b) es)"

lemma count_upd: "count_list ((f(x := f x @ [y])) a) b = count_list (f a) b + of_bool (x = a \<and> y = b)"
  by (cases "x = a") (simp_all add: count_list_append)

lemma count_add_adj: "count_list (add_adj e adj a) b = count_list (adj a) b + joins e a b"
  unfolding add_adj_def joins_def Let_def by (simp add: count_upd del: fun_upd_apply)

lemma count_fold_adj: "count_list (fold add_adj es adj a) b = count_list (adj a) b + power_edges es a b"
proof (induction es arbitrary: adj)
  case (Cons e es)
  show ?case unfolding fold_simps Cons.IH count_add_adj by (simp add: power_edges_def)
qed (simp add: power_edges_def)

lemma count_power_adj: "count_list (power_adj es a) b = power_edges es a b"
  unfolding power_adj_def count_fold_adj by simp

lemma set_power_adj: "b \<in> set (power_adj es a) \<longleftrightarrow> 0 < power_edges es a b"
  using count_power_adj [of es a b] count_list_0_iff [of "power_adj es a" b] by (metis gr0I less_numeral_extra(3))

lemma distinct_iff_count: "distinct xs \<longleftrightarrow> (\<forall>x. count_list xs x \<le> 1)"
proof (induction xs)
  case (Cons y ys)
  show ?case
  proof
    assume "distinct (y # ys)"
    then show "\<forall>x. count_list (y # ys) x \<le> 1" using Cons count_list_0_iff [of ys y] by simp
  next
    assume *: "\<forall>x. count_list (y # ys) x \<le> 1"
    have "count_list ys x \<le> 1" for x using spec [OF *, of x] by (simp split: if_splits)
    moreover have "count_list ys y = 0" using spec [OF *, of y] by simp
    ultimately show "distinct (y # ys)" using Cons count_list_0_iff [of ys y] by simp
  qed
qed simp

lemma count_list_filter: "count_list (filter P xs) x = (if P x then count_list xs x else 0)"
  by (induction xs) auto

lemma single_set: "set xs = {x} \<Longrightarrow> distinct xs \<Longrightarrow> xs = [x]"
  by (cases xs) (auto, metis list.set_intros(1) neq_Nil_conv singletonD subset_iff)

text \<open>
  In a power graph without parallel edges a meter that clamps onto one panel has as many
  active circuits as the panel has other neighbours that are neither UPS nor generator,
  whatever the order and the direction of the edges in the file.
\<close>

theorem active_circuits_are_the_loads:
  assumes "\<And>b. power_edges es meter b = (if b = panel then 1 else 0)" and "\<And>b. power_edges es panel b \<le> 1"
  shows "activeCircuitsFor meter (power_adj es) ty
    = int (card {b. power_edges es panel b = 1 \<and> b \<noteq> meter \<and> ty b \<notin> {''ups'', ''generator''}})"
proof -
  have d: "distinct (power_adj es meter)" "distinct (power_adj es panel)"
    unfolding distinct_iff_count count_power_adj using assms by auto
  have "set (power_adj es meter) = {panel}" unfolding set_eq_iff set_power_adj assms(1) by simp
  from this d(1) have m: "power_adj es meter = [panel]" by (rule single_set)
  have one: "b \<in> set (power_adj es panel) \<longleftrightarrow> power_edges es panel b = 1" for b
    unfolding set_power_adj using assms(2) [of b] by linarith
  have "{b. power_edges es panel b = 1 \<and> b \<noteq> meter \<and> ty b \<notin> {''ups'', ''generator''}}
    = set (filter (\<lambda>nb. \<not> (nb = meter \<or> ty nb \<in> {''ups'', ''generator''})) (power_adj es panel))"
    unfolding one [symmetric] set_filter de_Morgan_disj by (rule Collect_cong) (rule refl)
  then show ?thesis
    unfolding activeCircuitsFor_def m list.case using d(2) by (simp only: distinct_card distinct_filter)
qed

definition panel_edges :: "topoEdge list" where
  "panel_edges = map (\<lambda>(a, b). \<lparr>te_Src = a, te_Dst = b, te_SrcIface = 0, te_DstIface = 0, te_Layer = ''power''\<rparr>)
     [(''ups'', ''pdu''), (''ev2'', ''pdu''), (''pdu'', ''srv1''), (''srv2'', ''pdu'')]"

theorem active_circuits_are_the_loads_witness:
  "activeCircuitsFor ''ev2'' (power_adj panel_edges) (\<lambda>b. if b = ''ups'' then ''ups'' else ''server'')
     = int (card {b. power_edges panel_edges ''pdu'' b = 1 \<and> b \<noteq> ''ev2'' \<and> (if b = ''ups'' then ''ups'' else ''server'') \<notin> {''ups'', ''generator''}})
   \<and> activeCircuitsFor ''ev2'' (power_adj panel_edges) (\<lambda>b. if b = ''ups'' then ''ups'' else ''server'') = 2"
proof
  have e: "power_edges panel_edges ''ev2'' b = (if b = ''pdu'' then 1 else 0)" for b
    by (simp add: power_edges_def joins_def panel_edges_def eq_commute [of b])
  have p: "power_edges panel_edges ''pdu'' b \<le> 1" for b
    by (auto simp: power_edges_def joins_def panel_edges_def)
  show "activeCircuitsFor ''ev2'' (power_adj panel_edges) (\<lambda>b. if b = ''ups'' then ''ups'' else ''server'')
     = int (card {b. power_edges panel_edges ''pdu'' b = 1 \<and> b \<noteq> ''ev2'' \<and> (if b = ''ups'' then ''ups'' else ''server'') \<notin> {''ups'', ''generator''}})"
    by (rule active_circuits_are_the_loads [OF e p])
qed code_simp

end
