(* ===== verification/Edge_Sources.thy ===== *)
theory Edge_Sources
  imports Topology_Loader Snmp_Collector
begin

text \<open>
  The packets of the edge reader that no poller makes: registrations, interface addresses
  and topology links of \<open>fwEDR/main.go\<close>, and the traps of \<open>fwEDR/internal/snmp/trap.go\<close>.
  They share the lookup of a device's network identifier. Decoding of a datagram, clock,
  identifiers, signature and whether a send finds room in the channel are parameters.
\<close>

section \<open>The network of a device by name or address\<close>

definition resolver_keys :: "Target \<Rightarrow> string list" where
  "resolver_keys t = [SourceID t, tg_IP t, tg_MgmtIP t, tg_ProdIP t, tg_LoopbackIP t, tg_OOBIP t]"

definition add_keys :: "string \<Rightarrow> Target \<Rightarrow> smap \<Rightarrow> smap" where
  "add_keys fallback t m =
     (let nid = NetworkID t fallback in fold (\<lambda>k m. if k \<noteq> '''' then m(k \<mapsto> nid) else m) (resolver_keys t) m)"

definition netid_map :: "Target list \<Rightarrow> string \<Rightarrow> smap" where
  "netid_map ts fallback = fold (add_keys fallback) ts Map.empty"

fun lookup_keys :: "smap \<Rightarrow> string \<Rightarrow> string list \<Rightarrow> string" where
  "lookup_keys m fallback [] = fallback"
| "lookup_keys m fallback (k # ks) = (case m k of Some nid \<Rightarrow> nid | None \<Rightarrow> lookup_keys m fallback ks)"

definition buildNetIDResolver :: "Target list \<Rightarrow> string \<Rightarrow> string list \<Rightarrow> string" where
  "buildNetIDResolver ts fallback = lookup_keys (netid_map ts fallback) fallback"

section \<open>Environment\<close>

record src_env =
  sr_now :: int
  sr_id :: "nat \<Rightarrow> string"
  sr_sign :: "byte list \<Rightarrow> byte list"
  sr_room :: "nat \<Rightarrow> bool"

text \<open>Signer and number of packets built.\<close>

type_synonym sender = "Signer \<times> nat"

section \<open>Registration\<close>

definition registration_meta :: "Target \<Rightarrow> smap" where
  "registration_meta t =
     (let m = map_of
           [(''hostname'', SourceID t), (''mgmt_ip'', tg_MgmtIP t), (''prod_ip'', tg_ProdIP t), (''loopback_ip'', tg_LoopbackIP t),
            (''oob_ip'', tg_OOBIP t), (''device_type'', tg_DeviceType t), (''vendor'', tg_Vendor t), (''model_name'', tg_ModelName t),
            (''country'', tg_Country t), (''datacenter'', tg_DatacenterName t), (''datacenter_city'', tg_DatacenterCity t),
            (''room'', tg_Room t), (''collector_agent'', ''EDR''), (''collector_protocol'', ''SNMP''), (''registration'', ''discovery'')];
          m = (if tg_RackRow t > 0 then m(''rack_row'' \<mapsto> itoa (tg_RackRow t)) else m);
          m = (if tg_RackNum t > 0 then m(''rack_num'' \<mapsto> itoa (tg_RackNum t)) else m)
      in if tg_RackUnit t > 0 then m(''rack_unit'' \<mapsto> itoa (tg_RackUnit t)) else m)"

definition registration_packet :: "src_env \<Rightarrow> IdentityConfig \<Rightarrow> Target \<Rightarrow> nat \<Rightarrow> i64 \<Rightarrow> TelemetryPacket" where
  "registration_packet en ident t k n =
     \<lparr>PktId = sr_id en k, OrgId = idc_OrgID ident, DatacenterId = or_default (tg_DatacenterID t) (idc_DatacenterID ident),
      FloorId = or_default (tg_FloorID t) (idc_FloorID ident), NetworkId = NetworkID t (idc_NetworkID ident),
      GroupId = idc_GroupID ident, SourceType = ''device'', SourceId = SourceID t, ReaderId = idc_ReaderID ident,
      TimestampNs = sr_now en, Name = ''system.uptime_centiseconds'', Tag = '''', Value = 0, Meta = registration_meta t,
      Kind = ''metric'', Severity = '''',
      Signature = sr_sign en (CanonicalBytes (sr_id en k) (SourceID t) (word_of_int (sr_now en)) ''system.uptime_centiseconds'' '''' 0 n),
      Nonce = n\<rparr>"

text \<open>A send that does not block: a packet that finds no room is lost, its nonce is used.\<close>

fun emitRegistrationPackets :: "src_env \<Rightarrow> IdentityConfig \<Rightarrow> Target list \<Rightarrow> sender \<Rightarrow> TelemetryPacket list \<times> sender" where
  "emitRegistrationPackets en ident [] st = ([], st)"
| "emitRegistrationPackets en ident (t # ts) (sg, k) =
     (case NextNonce sg of (n, sg1) \<Rightarrow>
        case emitRegistrationPackets en ident ts (sg1, Suc k) of (ps, st2) \<Rightarrow>
          (if sr_room en k then registration_packet en ident t k n # ps else ps, st2))"

section \<open>Interface addresses\<close>

record InterfaceAddress =
  ia_IfIndex :: int
  ia_Address :: string
  ia_Family :: string

definition address_packet :: "src_env \<Rightarrow> IdentityConfig \<Rightarrow> Target \<Rightarrow> InterfaceAddress \<Rightarrow> nat \<Rightarrow> i64 \<Rightarrow> TelemetryPacket" where
  "address_packet en ident t a k n =
     \<lparr>PktId = sr_id en k, OrgId = idc_OrgID ident, DatacenterId = or_default (tg_DatacenterID t) (idc_DatacenterID ident),
      FloorId = or_default (tg_FloorID t) (idc_FloorID ident), NetworkId = NetworkID t (idc_NetworkID ident),
      GroupId = idc_GroupID ident, SourceType = ''device'', SourceId = SourceID t, ReaderId = idc_ReaderID ident,
      TimestampNs = sr_now en, Name = ''interface.address'', Tag = ia_Address a, Value = 0,
      Meta = map_of
        [(''hostname'', SourceID t), (''mgmt_ip'', tg_MgmtIP t), (''prod_ip'', tg_ProdIP t), (''loopback_ip'', tg_LoopbackIP t),
         (''oob_ip'', tg_OOBIP t), (''device_type'', tg_DeviceType t), (''vendor'', tg_Vendor t), (''collector_agent'', ''EDR''),
         (''collector_protocol'', ''SNMP''), (''interface_index'', itoa (ia_IfIndex a)), (''address'', ia_Address a),
         (''address_family'', ia_Family a)],
      Kind = ''interface_address'', Severity = '''',
      Signature = sr_sign en (CanonicalBytes (sr_id en k) (SourceID t) (word_of_int (sr_now en)) ''interface.address'' (ia_Address a) 0 n),
      Nonce = n\<rparr>"

text \<open>The send blocks; it ends, and the routine with it, only when the program stops.\<close>

fun emitInterfaceAddressPackets :: "src_env \<Rightarrow> IdentityConfig \<Rightarrow> Target \<Rightarrow> InterfaceAddress list \<Rightarrow> sender \<Rightarrow> TelemetryPacket list \<times> sender" where
  "emitInterfaceAddressPackets en ident t [] st = ([], st)"
| "emitInterfaceAddressPackets en ident t (a # as) (sg, k) =
     (case NextNonce sg of (n, sg1) \<Rightarrow>
        if \<not> sr_room en k then ([], (sg1, Suc k))
        else case emitInterfaceAddressPackets en ident t as (sg1, Suc k) of (ps, st2) \<Rightarrow>
          (address_packet en ident t a k n # ps, st2))"

section \<open>Topology links\<close>

definition link_meta :: "LinkEdge \<Rightarrow> smap" where
  "link_meta e = map_of
     [(''layer'', le_Layer e), (''mgmt_ip'', le_SrcMgmtIP e), (''remote_sys_name'', le_DstHost e), (''remote_mgmt_ip'', le_DstMgmtIP e),
      (''remote_port_id'', itoa (le_DstPortIndex e)), (''local_port_index'', itoa (le_SrcPortIndex e + 1)),
      (''remote_port_index'', itoa (le_DstPortIndex e + 1)), (''hostname'', le_SrcHost e), (''collector_agent'', ''EDR''),
      (''collector_protocol'', ''TOPO'')]"

definition link_packet :: "src_env \<Rightarrow> IdentityConfig \<Rightarrow> (string list \<Rightarrow> string) \<Rightarrow> LinkEdge \<Rightarrow> nat \<Rightarrow> i64 \<Rightarrow> TelemetryPacket" where
  "link_packet en ident netIDFor e k n =
     (let srcPort = itoa (le_SrcPortIndex e)
      in \<lparr>PktId = sr_id en k, OrgId = idc_OrgID ident, DatacenterId = or_default (le_SrcDatacenterID e) (idc_DatacenterID ident),
          FloorId = or_default (le_SrcFloorID e) (idc_FloorID ident), NetworkId = netIDFor [le_SrcHost e, le_SrcMgmtIP e],
          GroupId = idc_GroupID ident, SourceType = ''device'', SourceId = le_SrcHost e, ReaderId = idc_ReaderID ident,
          TimestampNs = sr_now en, Name = ''topology.link'', Tag = srcPort, Value = 0, Meta = link_meta e, Kind = ''topology'',
          Severity = '''',
          Signature = sr_sign en (CanonicalBytes (sr_id en k) (le_SrcHost e) (word_of_int (sr_now en)) ''topology.link'' srcPort 0 n),
          Nonce = n\<rparr>)"

fun emitTopologyLinks :: "src_env \<Rightarrow> IdentityConfig \<Rightarrow> (string list \<Rightarrow> string) \<Rightarrow> LinkEdge list \<Rightarrow> sender \<Rightarrow> nat \<times> TelemetryPacket list \<times> sender" where
  "emitTopologyLinks en ident netIDFor [] st = (0, [], st)"
| "emitTopologyLinks en ident netIDFor (e # es) (sg, k) =
     (case NextNonce sg of (n, sg1) \<Rightarrow>
        case emitTopologyLinks en ident netIDFor es (sg1, Suc k) of (emitted, ps, st2) \<Rightarrow>
          (if sr_room en k then (Suc emitted, link_packet en ident netIDFor e k n # ps, st2) else (emitted, ps, st2)))"

text \<open>The cycles on which the links are sent: the first three, then each twelfth.\<close>

definition emit_links :: "nat \<Rightarrow> bool" where
  "emit_links cycle \<longleftrightarrow> cycle < 3 \<or> cycle mod 12 = 0"

section \<open>Traps\<close>

definition trapOIDToName :: "(string \<times> string) list" where
  "trapOIDToName =
     [(''1.3.6.1.6.3.1.1.5.1'', ''coldStart''),
      (''1.3.6.1.6.3.1.1.5.2'', ''warmStart''),
      (''1.3.6.1.6.3.1.1.5.3'', ''linkDown''),
      (''1.3.6.1.6.3.1.1.5.4'', ''linkUp''),
      (''1.3.6.1.6.3.1.1.5.5'', ''authenticationFailure''),
      (''1.3.6.1.2.1.15.0.2'', ''bgpSessionDown''),
      (''1.3.6.1.2.1.33.2.0.1'', ''upsOnBattery''),
      (''1.3.6.1.2.1.33.2.0.2'', ''upsLowBattery''),
      (''1.3.6.1.4.1.99999.1.1'', ''cpuHighUsage''),
      (''1.3.6.1.4.1.99999.1.2'', ''memoryHighUsage''),
      (''1.3.6.1.4.1.99999.1.3'', ''temperatureAlert''),
      (''1.3.6.1.4.1.99999.1.4'', ''linkFlap''),
      (''1.3.6.1.4.1.99999.1.5'', ''rackFailure''),
      (''1.3.6.1.4.1.99999.1.6'', ''humidityAlert''),
      (''1.3.6.1.4.1.99999.1.7'', ''dewPointAlert''),
      (''1.3.6.1.4.1.99999.1.8'', ''airflowAlert'')]"

definition trapOIDToSeverity :: "(string \<times> string) list" where
  "trapOIDToSeverity =
     [(''1.3.6.1.6.3.1.1.5.1'', ''informational''),
      (''1.3.6.1.6.3.1.1.5.2'', ''informational''),
      (''1.3.6.1.6.3.1.1.5.3'', ''major''),
      (''1.3.6.1.6.3.1.1.5.4'', ''informational''),
      (''1.3.6.1.6.3.1.1.5.5'', ''major''),
      (''1.3.6.1.2.1.15.0.2'', ''critical''),
      (''1.3.6.1.2.1.33.2.0.1'', ''critical''),
      (''1.3.6.1.2.1.33.2.0.2'', ''critical''),
      (''1.3.6.1.4.1.99999.1.1'', ''major''),
      (''1.3.6.1.4.1.99999.1.2'', ''major''),
      (''1.3.6.1.4.1.99999.1.3'', ''critical''),
      (''1.3.6.1.4.1.99999.1.4'', ''critical''),
      (''1.3.6.1.4.1.99999.1.5'', ''critical''),
      (''1.3.6.1.4.1.99999.1.6'', ''major''),
      (''1.3.6.1.4.1.99999.1.7'', ''critical''),
      (''1.3.6.1.4.1.99999.1.8'', ''major'')]"

record TrapReceiver =
  tr_orgID :: string
  tr_dcID :: string
  tr_floorID :: string
  tr_netIDFor :: "string list \<Rightarrow> string"
  tr_grpID :: string
  tr_readerID :: string
  tr_signer :: Signer
  tr_built :: nat

definition NewTrapReceiver :: "IdentityConfig \<Rightarrow> (string list \<Rightarrow> string) \<Rightarrow> int \<Rightarrow> TrapReceiver" where
  "NewTrapReceiver ident netIDFor unixNano =
     \<lparr>tr_orgID = idc_OrgID ident, tr_dcID = idc_DatacenterID ident, tr_floorID = idc_FloorID ident, tr_netIDFor = netIDFor,
      tr_grpID = idc_GroupID ident, tr_readerID = idc_ReaderID ident,
      tr_signer = NewSigner (idc_ReaderID ident @ ''-trap'') unixNano, tr_built = 0\<rparr>"

text \<open>Network and address of the socket; \<open>split\<close> is \<open>net.SplitHostPort\<close> of the address.\<close>

definition listen_on :: "(string \<times> string) option \<Rightarrow> string \<Rightarrow> string \<times> string" where
  "listen_on split addr =
     (case split of
        Some (host, port) \<Rightarrow> if host \<in> {'''', ''0.0.0.0'', ''*''} then (''udp4'', ''0.0.0.0:'' @ port) else (''udp'', addr)
      | None \<Rightarrow> (''udp'', addr))"

definition vb_oid :: "SnmpPDU \<Rightarrow> string" where
  "vb_oid v = trim_prefix (pd_Name v) ''.''"

definition snmpTrapOID :: string where "snmpTrapOID = ''1.3.6.1.6.3.1.1.4.1.0''"

fun extractTrapOID :: "SnmpPDU list \<Rightarrow> string" where
  "extractTrapOID [] = ''''"
| "extractTrapOID (v # vs) =
     (if vb_oid v = snmpTrapOID
      then (case str_value (pd_Value v) of Some s \<Rightarrow> trim_prefix s ''.'' | None \<Rightarrow> extractTrapOID vs)
      else extractTrapOID vs)"

definition add_varbind :: "(rat \<Rightarrow> string) \<Rightarrow> SnmpPDU \<Rightarrow> smap \<Rightarrow> smap" where
  "add_varbind fmt v m =
     (if vb_oid v \<in> {OIDSysUpTime, snmpTrapOID} then m else m((''vb.'' @ vb_oid v) \<mapsto> PDUString fmt v))"

definition trap_meta :: "(rat \<Rightarrow> string) \<Rightarrow> string \<Rightarrow> string \<Rightarrow> string \<Rightarrow> string \<Rightarrow> SnmpPDU list \<Rightarrow> smap" where
  "trap_meta fmt oid deviceIP srcIP community vs =
     fold (add_varbind fmt) vs
       (map_of [(''trap_oid'', oid), (''source_ip'', deviceIP), (''mgmt_ip'', deviceIP), (''udp_src'', srcIP),
                (''community'', community), (''source'', ''SNMP'')])"

definition trap_device :: "string \<Rightarrow> string \<Rightarrow> string" where
  "trap_device community srcIP = (if community \<noteq> '''' \<and> ParseIP_ok community then community else srcIP)"

definition trap_packet :: "src_env \<Rightarrow> (rat \<Rightarrow> string) \<Rightarrow> TrapReceiver \<Rightarrow> string \<Rightarrow> SnmpPDU list \<Rightarrow> string \<Rightarrow> i64 \<Rightarrow> TelemetryPacket" where
  "trap_packet en fmt r community vs srcIP n =
     (let oid = extractTrapOID vs;
          name = or_default (get (map_of trapOIDToName) oid) ''snmp.trap'';
          sev = or_default (get (map_of trapOIDToSeverity) oid) ''informational'';
          dev = trap_device community srcIP; i = sr_id en (tr_built r)
      in \<lparr>PktId = i, OrgId = tr_orgID r, DatacenterId = tr_dcID r, FloorId = tr_floorID r, NetworkId = tr_netIDFor r [dev],
          GroupId = tr_grpID r, SourceType = ''device'', SourceId = dev, ReaderId = tr_readerID r, TimestampNs = sr_now en,
          Name = name, Tag = '''', Value = 0, Meta = trap_meta fmt oid dev srcIP community vs, Kind = ''trap'', Severity = sev,
          Signature = sr_sign en (CanonicalBytes i dev (word_of_int (sr_now en)) name '''' 0 n), Nonce = n\<rparr>)"

text \<open>\<open>decoded\<close>: community and variables of the datagram, if it is an SNMP message.\<close>

definition handle_trap :: "src_env \<Rightarrow> (rat \<Rightarrow> string) \<Rightarrow> (string \<times> SnmpPDU list) option \<Rightarrow> string \<Rightarrow> TrapReceiver
    \<Rightarrow> TelemetryPacket option \<times> TrapReceiver" where
  "handle_trap en fmt decoded srcIP r =
     (case decoded of
        None \<Rightarrow> (None, r)
      | Some (community, vs) \<Rightarrow>
          (case NextNonce (tr_signer r) of
             (n, sg) \<Rightarrow> (Some (trap_packet en fmt r community vs srcIP n), r\<lparr>tr_signer := sg, tr_built := Suc (tr_built r)\<rparr>)))"

section \<open>The resolver\<close>

lemma add_keys_spec:
  "add_keys fb t m k = (if k \<noteq> '''' \<and> k \<in> set (resolver_keys t) then Some (NetworkID t fb) else m k)"
proof -
  have "fold (\<lambda>k m. if k \<noteq> '''' then m(k \<mapsto> nid) else m) ks m k = (if k \<noteq> '''' \<and> k \<in> set ks then Some nid else m k)" for ks nid
    by (induction ks arbitrary: m) auto
  then show ?thesis by (simp only: add_keys_def Let_def)
qed

text \<open>A key belongs to the last target that has it.\<close>

lemma netid_map_spec:
  "netid_map ts fb k = (if k = '''' then None
     else map_option (\<lambda>t. NetworkID t fb) (find (\<lambda>t. k \<in> set (resolver_keys t)) (rev ts)))"
proof -
  have "fold (add_keys fb) ts m k = (if k = '''' then m k
     else case find (\<lambda>t. k \<in> set (resolver_keys t)) (rev ts) of Some t \<Rightarrow> Some (NetworkID t fb) | None \<Rightarrow> m k)" for m
  proof (induction ts arbitrary: m rule: rev_induct)
    case (snoc t ts)
    show ?case using snoc.IH [of m] add_keys_spec [of fb t "fold (add_keys fb) ts m" k] by (cases "k = ''''") simp_all
  qed simp
  then show ?thesis unfolding netid_map_def by (simp split: option.split)
qed

text \<open>
  Traps and links are stamped with the network the collectors of the device use, whenever
  all targets that share the name or address agree on it.
\<close>

theorem resolver_agrees_with_collectors:
  assumes "t \<in> set ts" and "k \<in> set (resolver_keys t)" and "k \<noteq> ''''"
    and "\<And>u. u \<in> set ts \<Longrightarrow> k \<in> set (resolver_keys u) \<Longrightarrow> NetworkID u fb = NetworkID t fb"
  shows "buildNetIDResolver ts fb (k # ks) = NetworkID t fb"
proof -
  obtain u where u: "find (\<lambda>t. k \<in> set (resolver_keys t)) (rev ts) = Some u"
    using assms(1,2) by (cases "find (\<lambda>t. k \<in> set (resolver_keys t)) (rev ts)") (auto simp: find_None_iff)
  then have "u \<in> set ts" "k \<in> set (resolver_keys u)"
    unfolding find_Some_iff by (auto, metis nth_mem set_rev length_rev)
  then have "netid_map ts fb k = Some (NetworkID t fb)" using netid_map_spec [of ts fb k] u assms(3,4) by simp
  then show ?thesis by (simp only: buildNetIDResolver_def lookup_keys.simps option.case)
qed

section \<open>Lemmas\<close>

lemma link_packet_fields [simp]:
  "OrgId (link_packet en ident nf e k n) = idc_OrgID ident" "GroupId (link_packet en ident nf e k n) = idc_GroupID ident"
  "NetworkId (link_packet en ident nf e k n) = nf [le_SrcHost e, le_SrcMgmtIP e]"
  "Tag (link_packet en ident nf e k n) = itoa (le_SrcPortIndex e)" "Kind (link_packet en ident nf e k n) = ''topology''"
  "Meta (link_packet en ident nf e k n) = link_meta e"
  by (simp_all add: link_packet_def Let_def)

lemma link_meta_fields [simp]:
  "get (link_meta e) ''layer'' = le_Layer e" "get (link_meta e) ''remote_port_id'' = itoa (le_DstPortIndex e)"
  "get (link_meta e) ''mgmt_ip'' = le_SrcMgmtIP e" "get (link_meta e) ''remote_mgmt_ip'' = le_DstMgmtIP e"
  by (simp_all add: link_meta_def get_def)

lemma trap_packet_fields [simp]:
  "OrgId (trap_packet en fmt r c vs src n) = tr_orgID r" "GroupId (trap_packet en fmt r c vs src n) = tr_grpID r"
  "DatacenterId (trap_packet en fmt r c vs src n) = tr_dcID r" "FloorId (trap_packet en fmt r c vs src n) = tr_floorID r"
  "NetworkId (trap_packet en fmt r c vs src n) = tr_netIDFor r [trap_device c src]"
  "SourceId (trap_packet en fmt r c vs src n) = trap_device c src" "Kind (trap_packet en fmt r c vs src n) = ''trap''"
  "Meta (trap_packet en fmt r c vs src n) = trap_meta fmt (extractTrapOID vs) (trap_device c src) src c vs"
  by (simp_all add: trap_packet_def Let_def)

lemma add_varbinds_other:
  "\<not> has_prefix k ''vb.'' \<Longrightarrow> fold (add_varbind fmt) vs m k = m k"
  by (induction vs arbitrary: m) (auto simp: add_varbind_def)

lemma trap_meta_fields [simp]:
  "get (trap_meta fmt oid dev src c vs) ''source_ip'' = dev" "get (trap_meta fmt oid dev src c vs) ''mgmt_ip'' = dev"
  "get (trap_meta fmt oid dev src c vs) ''device_ip'' = ''''"
  by (simp_all add: trap_meta_def get_def add_varbinds_other)

lemma add_varbinds_absent:
  "(\<forall>v \<in> set vs. vb_oid v \<noteq> oid) \<Longrightarrow> fold (add_varbind fmt) vs m (''vb.'' @ oid) = m (''vb.'' @ oid)"
  by (induction vs arbitrary: m) (auto simp: add_varbind_def)

text \<open>A varbind that is not in the trap is not in its packet.\<close>

lemma trap_varbind_absent:
  "(\<forall>v \<in> set vs. vb_oid v \<noteq> oid) \<Longrightarrow> get (trap_meta fmt o' dev src c vs) (''vb.'' @ oid) = ''''"
  using add_varbinds_absent [of vs oid fmt] by (simp add: trap_meta_def get_def)

end
