(* ===== verification/Redfish.thy ===== *)
theory Redfish
  imports Poll_Packets
begin

text \<open>
  \<open>fwEDR/internal/redfish\<close>: the discovery of the resources of a server's management
  controller and the documents read from it (\<open>client.go\<close>), and the poll of a server
  (\<open>manager.go\<close>). What a GET of a resource answers is a parameter for the duration of one poll,
  decoded or an error.
\<close>

section \<open>Documents\<close>

record serviceRoot =
  ro_Systems :: string
  ro_Chassis :: string
  ro_Managers :: string

record computerSystem =
  cs_PowerState :: string
  cs_CPUUtilizationPercent :: "rat option"
  cs_MemoryUtilizationPercent :: "rat option"
  cs_MemoryUsedBytes :: "rat option"
  cs_DiskUtilizationPercent :: "rat option"
  cs_DiskUsedBytes :: "rat option"
  cs_DiskTotalBytes :: "rat option"
  cs_NetworkRxMbps :: "rat option"
  cs_NetworkTxMbps :: "rat option"
  cs_AlarmCount :: "rat option"

record thermal =
  th_Temperatures :: "(string \<times> rat option) list"
  th_Fans :: "(string \<times> rat option) list"

record power =
  pw_PowerControl :: "rat option list"
  pw_PowerSupplies :: "(string \<times> rat option) list"

record managerDoc =
  md_FirmwareVersion :: string
  md_Model :: string
  md_Manufacturer :: string

text \<open>\<open>rf_room\<close>: the packets taken before the program stops, \<open>None\<close> if it does not.\<close>

record rf_env = pack_env +
  rf_root :: "string \<Rightarrow> serviceRoot option"
  rf_collection :: "string \<Rightarrow> string \<Rightarrow> string list option"
  rf_system :: "string \<Rightarrow> string \<Rightarrow> computerSystem option"
  rf_thermal :: "string \<Rightarrow> string \<Rightarrow> thermal option"
  rf_power :: "string \<Rightarrow> string \<Rightarrow> power option"
  rf_manager :: "string \<Rightarrow> string \<Rightarrow> managerDoc option"
  rf_room :: "nat option"

definition rf_url :: "bool \<Rightarrow> int \<Rightarrow> string \<Rightarrow> string \<Rightarrow> string" where
  "rf_url tls port ip path = (if tls then ''https'' else ''http'') @ ''://'' @ ip @ '':'' @ itoa port @ path"

definition firstMember :: "('e rf_env_scheme) \<Rightarrow> string \<Rightarrow> string \<Rightarrow> string option" where
  "firstMember en ip coll =
     (if coll = '''' then None else case rf_collection en ip coll of Some (m # ms) \<Rightarrow> Some m | _ \<Rightarrow> None)"

text \<open>System, chassis and manager; a missing chassis or manager is the empty path.\<close>

definition discover :: "('e rf_env_scheme) \<Rightarrow> string \<Rightarrow> (string \<times> string \<times> string) option" where
  "discover en ip =
     (case rf_root en ip of
        None \<Rightarrow> None
      | Some r \<Rightarrow>
          (case firstMember en ip (ro_Systems r) of
             None \<Rightarrow> None
           | Some sys \<Rightarrow>
               Some (sys, case firstMember en ip (ro_Chassis r) of Some c \<Rightarrow> c | None \<Rightarrow> '''',
                     case firstMember en ip (ro_Managers r) of Some m \<Rightarrow> m | None \<Rightarrow> '''')))"

section \<open>Bindings\<close>

record rf_binding =
  rb_t :: Target
  rb_base :: basePacket
  rb_ip :: string
  rb_sysPath :: string
  rb_chassisPath :: string
  rb_mgrPath :: string
  rb_discovered :: bool

definition rf_bind :: "IdentityConfig \<Rightarrow> Target \<Rightarrow> rf_binding list" where
  "rf_bind ident t =
     (let ip = or_default (tg_MgmtIP t) (tg_IP t)
      in if tg_DeviceType t \<noteq> ''server'' \<or> ip = '''' then []
         else [\<lparr>rb_t = t, rb_base = baseFor ident t, rb_ip = ip, rb_sysPath = '''', rb_chassisPath = '''', rb_mgrPath = '''',
                rb_discovered = False\<rparr>])"

definition rf_NewManager :: "Target list \<Rightarrow> IdentityConfig \<Rightarrow> rf_binding list" where
  "rf_NewManager ts ident = concat (map (rf_bind ident) ts)"

section \<open>One poll\<close>

definition rf_meta :: "rf_binding \<Rightarrow> smap" where
  "rf_meta b =
     (let t = rb_t b; a = Asset t
      in map_of [(''hostname'', SourceID t), (''mgmt_ip'', tg_MgmtIP t), (''prod_ip'', tg_ProdIP t), (''device_type'', tg_DeviceType t),
           (''vendor'', tg_Vendor t), (''model_name'', as_ModelName a), (''country'', as_Country a), (''datacenter'', as_DatacenterName a),
           (''datacenter_city'', as_DatacenterCity a), (''room'', as_Room a), (''collector_agent'', ''EDR''),
           (''collector_protocol'', ''Redfish'')])"

definition metricP :: "rf_binding \<Rightarrow> string \<Rightarrow> string \<Rightarrow> rat option \<Rightarrow> reading list" where
  "metricP b name tag v = (case v of Some x \<Rightarrow> [metric name tag x (rf_meta b)] | None \<Rightarrow> [])"

definition deviceState :: "rf_binding \<Rightarrow> string \<Rightarrow> rat \<Rightarrow> reading" where
  "deviceState b name v = (metric name '''' v (rf_meta b))\<lparr>rd_kind := ''device_state''\<rparr>"

definition powerState :: "computerSystem \<Rightarrow> rat" where
  "powerState sys = (if to_lower (cs_PowerState sys) = ''off'' then 2 else 1)"

definition system_readings :: "rf_binding \<Rightarrow> computerSystem \<Rightarrow> reading list" where
  "system_readings b sys =
     deviceState b ''power_state'' (powerState sys)
     # metricP b ''server.cpu_percent'' '''' (cs_CPUUtilizationPercent sys)
     @ metricP b ''server.memory_used_percent'' '''' (cs_MemoryUtilizationPercent sys)
     @ metricP b ''server.memory_used_bytes'' '''' (cs_MemoryUsedBytes sys)
     @ metricP b ''server.disk_used_percent'' '''' (cs_DiskUtilizationPercent sys)
     @ metricP b ''server.disk_used_bytes'' '''' (cs_DiskUsedBytes sys)
     @ metricP b ''server.disk_total_bytes'' '''' (cs_DiskTotalBytes sys)
     @ metricP b ''server.network_rx_mbps'' '''' (cs_NetworkRxMbps sys)
     @ metricP b ''server.network_tx_mbps'' '''' (cs_NetworkTxMbps sys)
     @ metricP b ''server.alarm_count'' '''' (cs_AlarmCount sys)"

definition thermal_readings :: "rf_binding \<Rightarrow> thermal \<Rightarrow> reading list" where
  "thermal_readings b th =
     concat (map (\<lambda>(name, v). metricP b ''bmc.temp_c'' name v) (th_Temperatures th))
     @ concat (map (\<lambda>(name, v). metricP b ''bmc.fan_rpm'' name v) (th_Fans th))"

text \<open>The first control with a reading is the draw of the chassis.\<close>

definition power_readings :: "rf_binding \<Rightarrow> power \<Rightarrow> reading list" where
  "power_readings b pw =
     metricP b ''bmc.power_draw_w'' '''' (case filter (\<lambda>v. v \<noteq> None) (pw_PowerControl pw) of v # vs \<Rightarrow> v | [] \<Rightarrow> None)
     @ concat (map (\<lambda>(name, v). metricP b ''bmc.psu_output_w'' name v) (pw_PowerSupplies pw))"

definition chassis_readings :: "('e rf_env_scheme) \<Rightarrow> rf_binding \<Rightarrow> reading list" where
  "chassis_readings en b =
     (if rb_chassisPath b = '''' then []
      else (case rf_thermal en (rb_ip b) (rb_chassisPath b @ ''/Thermal'') of Some th \<Rightarrow> thermal_readings b th | None \<Rightarrow> [])
           @ (case rf_power en (rb_ip b) (rb_chassisPath b @ ''/Power'') of Some pw \<Rightarrow> power_readings b pw | None \<Rightarrow> []))"

definition manager_readings :: "('e rf_env_scheme) \<Rightarrow> rf_binding \<Rightarrow> rat \<Rightarrow> reading list" where
  "manager_readings en b state =
     (if rb_mgrPath b = '''' then []
      else case rf_manager en (rb_ip b) (rb_mgrPath b) of
          None \<Rightarrow> []
        | Some m \<Rightarrow>
            [metric ''bmc.info'' '''' state
               ((rf_meta b)(''bmc_firmware'' \<mapsto> md_FirmwareVersion m, ''bmc_model'' \<mapsto> md_Model m, ''bmc_vendor'' \<mapsto> md_Manufacturer m))])"

text \<open>The paths a poll works with, found when there are none; \<open>None\<close> when that fails.\<close>

definition located :: "('e rf_env_scheme) \<Rightarrow> rf_binding \<Rightarrow> rf_binding option" where
  "located en b =
     (if rb_discovered b then Some b
      else map_option (\<lambda>(s, c, m). b\<lparr>rb_sysPath := s, rb_chassisPath := c, rb_mgrPath := m, rb_discovered := True\<rparr>) (discover en (rb_ip b)))"

definition rf_pollOne :: "('e rf_env_scheme) \<Rightarrow> rf_binding \<Rightarrow> packer \<Rightarrow> TelemetryPacket list \<times> rf_binding \<times> packer" where
  "rf_pollOne en b st =
     (case located en b of
        None \<Rightarrow> ([], b, st)
      | Some b1 \<Rightarrow>
          (case rf_system en (rb_ip b1) (rb_sysPath b1) of
             None \<Rightarrow> ([], b1\<lparr>rb_discovered := False\<rparr>, st)
           | Some sys \<Rightarrow>
               (case device_packets en (rb_base b1) (rb_t b1) (pk_now en)
                       (system_readings b1 sys @ chassis_readings en b1 @ manager_readings en b1 (powerState sys)) st of
                  (ps, st1) \<Rightarrow> (case rf_room en of Some k \<Rightarrow> take k ps | None \<Rightarrow> ps, b1, st1))))"

text \<open>A round over the servers, in the order in which they get their slots.\<close>

fun rf_pollAll :: "('e rf_env_scheme) \<Rightarrow> rf_binding list \<Rightarrow> packer \<Rightarrow> TelemetryPacket list \<times> rf_binding list \<times> packer" where
  "rf_pollAll en [] st = ([], [], st)"
| "rf_pollAll en (b # bs) st =
     (case rf_pollOne en b st of (ps, b1, st1) \<Rightarrow>
        case rf_pollAll en bs st1 of (qs, bs1, st2) \<Rightarrow> (ps @ qs, b1 # bs1, st2))"

text \<open>The polls of one server over time.\<close>

fun rf_polls :: "('e rf_env_scheme) list \<Rightarrow> rf_binding \<Rightarrow> packer \<Rightarrow> TelemetryPacket list \<times> rf_binding \<times> packer" where
  "rf_polls [] b st = ([], b, st)"
| "rf_polls (en # ens) b st =
     (case rf_pollOne en b st of (ps, b1, st1) \<Rightarrow> case rf_polls ens b1 st1 of (qs, b2, st2) \<Rightarrow> (ps @ qs, b2, st2))"

section \<open>What a poll reports\<close>

lemma located_fields:
  assumes "located en b = Some b1"
  shows "rb_discovered b1" "rb_ip b1 = rb_ip b" "rb_t b1 = rb_t b" "rb_base b1 = rb_base b"
    and "rb_discovered b \<Longrightarrow> b1 = b"
    and "\<not> rb_discovered b \<Longrightarrow> discover en (rb_ip b) = Some (rb_sysPath b1, rb_chassisPath b1, rb_mgrPath b1)"
  using assms by (auto simp: located_def split: if_splits)

lemma poll_cases:
  assumes "rf_pollOne en b st = (ps, b1, st1)"
  shows "(ps = [] \<and> st1 = st \<and> \<not> rb_discovered b1 \<and> rb_ip b1 = rb_ip b \<and> rb_t b1 = rb_t b \<and> rb_base b1 = rb_base b)
    \<or> (\<exists>sys qs. located en b = Some b1 \<and> rf_system en (rb_ip b) (rb_sysPath b1) = Some sys
         \<and> device_packets en (rb_base b) (rb_t b) (pk_now en)
             (system_readings b1 sys @ chassis_readings en b1 @ manager_readings en b1 (powerState sys)) st = (qs, st1)
         \<and> ps = (case rf_room en of Some k \<Rightarrow> take k qs | None \<Rightarrow> qs))"
proof (cases "located en b")
  case None
  then have "\<not> rb_discovered b" by (auto simp: located_def)
  then show ?thesis using assms None by (simp add: rf_pollOne_def)
next
  case (Some b2)
  note f = located_fields [OF Some]
  show ?thesis
  proof (cases "rf_system en (rb_ip b2) (rb_sysPath b2)")
    case None
    then show ?thesis using assms Some f by (auto simp: rf_pollOne_def)
  next
    case (Some sys)
    then show ?thesis using assms \<open>located en b = Some b2\<close> f
      by (auto simp: rf_pollOne_def split: prod.splits)
  qed
qed

definition rf_answers :: "('e rf_env_scheme) \<Rightarrow> string \<Rightarrow> computerSystem option" where
  "rf_answers en ip = (case discover en ip of Some (s, c, m) \<Rightarrow> rf_system en ip s | None \<Rightarrow> None)"

text \<open>
  C27. A server that answers is never lost for long: a poll that reported nothing, because the
  discovery failed or because the system was not at the known path any more, makes the next
  one discover the resources again, and that one reports the power state it read.
\<close>

theorem failed_poll_is_followed_by_discovery:
  assumes "rf_pollOne en b st = ([], b1, st1)" and "rf_room en = None"
    and "rf_answers en' (rb_ip b) = Some sys" and "rf_room en' = None"
  shows "case rf_pollOne en' b1 st1 of (ps, b2, st2) \<Rightarrow> rb_discovered b2 \<and>
    (\<exists>p rest. ps = p # rest \<and> Name p = ''power_state'' \<and> Kind p = ''device_state'' \<and> Value p = powerState sys \<and> SourceId p = SourceID (rb_t b))"
proof -
  have fresh: "\<not> rb_discovered b1" and same: "rb_ip b1 = rb_ip b" "rb_t b1 = rb_t b"
    using poll_cases [OF assms(1)] assms(2) device_packets_spec by (fastforce simp: system_readings_def)+
  obtain s c m where d: "discover en' (rb_ip b) = Some (s, c, m)" "rf_system en' (rb_ip b) s = Some sys"
    using assms(3) by (auto simp: rf_answers_def split: option.splits)
  let ?b2 = "b1\<lparr>rb_sysPath := s, rb_chassisPath := c, rb_mgrPath := m, rb_discovered := True\<rparr>"
  have l: "located en' b1 = Some ?b2" using fresh d(1) same by (simp add: located_def)
  let ?rs = "system_readings ?b2 sys @ chassis_readings en' ?b2 @ manager_readings en' ?b2 (powerState sys)"
  obtain ps st2 where p: "device_packets en' (rb_base ?b2) (rb_t ?b2) (pk_now en') ?rs st1 = (ps, st2)"
    by (cases "device_packets en' (rb_base ?b2) (rb_t ?b2) (pk_now en') ?rs st1")
  have poll: "rf_pollOne en' b1 st1 = (ps, ?b2, st2)"
    using l d(2) same assms(4) p by (simp add: rf_pollOne_def)
  note spec = device_packets_spec [OF p]
  then obtain p' rest where ps: "ps = p' # rest" "reading_of p' = deviceState ?b2 ''power_state'' (powerState sys)"
    by (cases ps) (auto simp: system_readings_def)
  then have "packet_of_device en' (rb_base ?b2) (rb_t ?b2) p'" using spec by simp
  then show ?thesis using ps same by (simp add: poll packet_of_device_def reading_of_def deviceState_def metric_def)
qed

text \<open>
  The chassis is looked for once. If its collection does not answer when the system is found,
  neither temperatures nor fans nor the power draw of the server are reported, for as long
  as its system answers, whatever the chassis answers later.
\<close>

definition chassis_metrics :: "string list" where
  "chassis_metrics = [''bmc.temp_c'', ''bmc.fan_rpm'', ''bmc.power_draw_w'', ''bmc.psu_output_w'']"

definition system_names :: "string list" where
  "system_names =
     [''power_state'', ''server.cpu_percent'', ''server.memory_used_percent'', ''server.memory_used_bytes'', ''server.disk_used_percent'',
      ''server.disk_used_bytes'', ''server.disk_total_bytes'', ''server.network_rx_mbps'', ''server.network_tx_mbps'', ''server.alarm_count'',
      ''bmc.info'']"

lemma system_names_apart: "list_all (\<lambda>n. \<not> List.member chassis_metrics n) system_names"
  by code_simp

lemma metricP_name: "r \<in> set (metricP b n t v) \<Longrightarrow> rd_name r = n"
  by (auto simp: metricP_def metric_def split: option.splits)

lemma system_reading_names: "r \<in> set (system_readings b sys) \<Longrightarrow> rd_name r \<in> set system_names"
  unfolding system_readings_def list.set set_append
  by (elim insertE UnE; (drule metricP_name)?) (simp_all add: system_names_def deviceState_def metric_def)

lemma manager_reading_names: "r \<in> set (manager_readings en b v) \<Longrightarrow> rd_name r = ''bmc.info''"
  by (auto simp: manager_readings_def metric_def split: if_splits option.splits)

lemma no_chassis_poll:
  assumes "rf_pollOne en b st = (ps, b1, st1)" and "located en b = Some b2" and "rb_chassisPath b2 = ''''"
    and "rf_system en (rb_ip b) (rb_sysPath b2) \<noteq> None"
  shows "b1 = b2 \<and> list_all (\<lambda>p. \<not> List.member chassis_metrics (Name p)) ps"
proof -
  note f = located_fields [OF assms(2)]
  obtain sys where sys: "rf_system en (rb_ip b2) (rb_sysPath b2) = Some sys" using assms(4) f by auto
  let ?rs = "system_readings b2 sys @ chassis_readings en b2 @ manager_readings en b2 (powerState sys)"
  obtain qs st2 where q: "device_packets en (rb_base b2) (rb_t b2) (pk_now en) ?rs st = (qs, st2)"
    by (cases "device_packets en (rb_base b2) (rb_t b2) (pk_now en) ?rs st")
  have names: "map Name qs = map rd_name ?rs"
  proof -
    have "map Name qs = map rd_name (map reading_of qs)" by (simp add: reading_of_def)
    then show ?thesis using device_packets_spec [OF q] by simp
  qed
  have "\<not> List.member chassis_metrics (rd_name r)" if "r \<in> set ?rs" for r
  proof -
    have "chassis_readings en b2 = []" using assms(3) by (simp add: chassis_readings_def)
    then have "r \<in> set (system_readings b2 sys) \<or> r \<in> set (manager_readings en b2 (powerState sys))" using that by simp
    moreover have "''bmc.info'' \<in> set system_names" by (simp add: system_names_def)
    ultimately have "rd_name r \<in> set system_names"
      using system_reading_names [of r b2 sys] manager_reading_names [of r en b2 "powerState sys"] by metis
    then show ?thesis using system_names_apart by (simp add: list_all_iff)
  qed
  then have "list_all (\<lambda>r. \<not> List.member chassis_metrics (rd_name r)) ?rs" unfolding list_all_iff by blast
  then have "list_all (\<lambda>n. \<not> List.member chassis_metrics n) (map Name qs)" unfolding names by (simp only: list_all_iff set_map ball_simps)
  moreover have "ps = (case rf_room en of Some k \<Rightarrow> take k qs | None \<Rightarrow> qs)" "b1 = b2"
    using assms(1,2) sys q by (auto simp: rf_pollOne_def)
  ultimately show ?thesis by (auto simp: list_all_iff split: option.splits dest: in_set_takeD)
qed

lemma no_chassis_polls:
  assumes "rb_discovered b" and "rb_chassisPath b = ''''" and "list_all (\<lambda>en. rf_system en (rb_ip b) (rb_sysPath b) \<noteq> None) ens"
  shows "list_all (\<lambda>p. \<not> List.member chassis_metrics (Name p)) (fst (rf_polls ens b st))"
  using assms
proof (induction ens arbitrary: b st)
  case (Cons en ens)
  obtain ps b1 st1 where p: "rf_pollOne en b st = (ps, b1, st1)" by (cases "rf_pollOne en b st")
  have l: "located en b = Some b" using Cons.prems(1) by (simp add: located_def)
  note one = no_chassis_poll [OF p l Cons.prems(2)]
  have rest: "list_all (\<lambda>p. \<not> List.member chassis_metrics (Name p)) (fst (rf_polls ens b st1))"
    using Cons.IH [OF Cons.prems(1,2)] Cons.prems(3) by simp
  show ?case using one rest Cons.prems(3) by (auto simp: p split: prod.split)
qed simp

theorem chassis_is_looked_for_once:
  assumes "\<not> rb_discovered b" and "rf_root en (rb_ip b) = Some r" and "firstMember en (rb_ip b) (ro_Systems r) = Some sysp"
    and "firstMember en (rb_ip b) (ro_Chassis r) = None"
    and "list_all (\<lambda>en. rf_system en (rb_ip b) sysp \<noteq> None) (en # ens)"
  shows "list_all (\<lambda>p. \<not> List.member chassis_metrics (Name p)) (fst (rf_polls (en # ens) b st))"
proof -
  obtain ps b1 st1 where p: "rf_pollOne en b st = (ps, b1, st1)" by (cases "rf_pollOne en b st")
  define b2 where "b2 = b\<lparr>rb_sysPath := sysp, rb_chassisPath := '''',
    rb_mgrPath := (case firstMember en (rb_ip b) (ro_Managers r) of Some m \<Rightarrow> m | None \<Rightarrow> ''''), rb_discovered := True\<rparr>"
  have l: "located en b = Some b2" using assms(1-4) by (simp add: located_def discover_def b2_def)
  have b2: "rb_discovered b2" "rb_chassisPath b2 = ''''" "rb_ip b2 = rb_ip b" "rb_sysPath b2 = sysp" by (simp_all add: b2_def)
  note one = no_chassis_poll [OF p l b2(2)]
  have "list_all (\<lambda>p. \<not> List.member chassis_metrics (Name p)) (fst (rf_polls ens b2 st1))"
    by (rule no_chassis_polls [OF b2(1,2)]) (use assms(5) b2 in simp)
  then show ?thesis using one assms(5) by (auto simp: p b2 split: prod.split)
qed

text \<open>
  Every packet of a round carries the identity, the routing keys and the signature of one of
  the servers, and the nonces of the round follow one another.
\<close>

lemma poll_nonces:
  assumes "rf_pollOne en b st = (ps, b1, st1)" and "rf_room en = None"
  shows "list_all (packet_of_device en (rb_base b) (rb_t b)) ps \<and> map Nonce ps = take_nonces (length ps) (fst st)
    \<and> nonce (fst st1) = nonce (fst st) + of_nat (length ps)"
proof -
  have n: "nonce (fst (snd (device_packets en' bs t clock rs s))) = nonce (fst s) + of_nat (length rs)" for en' :: "'a rf_env_scheme" and bs t clock rs s
  proof (induction rs arbitrary: s)
    case (Cons r rs)
    obtain p s1 where d: "device_packet en' bs t clock r s = (p, s1)" by (cases "device_packet en' bs t clock r s")
    have "nonce (fst s1) = nonce (fst s) + 1" using d by (cases s) (auto simp: device_packet_def Let_def NextNonce_def)
    then show ?case using Cons.IH [of s1] by (auto simp: d split: prod.split)
  qed simp
  from poll_cases [OF assms(1)] show ?thesis
  proof (elim disjE exE conjE)
    fix sys qs
    let ?rs = "system_readings b1 sys @ chassis_readings en b1 @ manager_readings en b1 (powerState sys)"
    assume q: "device_packets en (rb_base b) (rb_t b) (pk_now en) ?rs st = (qs, st1)"
      and ps: "ps = (case rf_room en of Some k \<Rightarrow> take k qs | None \<Rightarrow> qs)"
    have "length qs = length ?rs" using device_packets_spec [OF q] by (metis length_map)
    then show ?thesis using device_packets_spec [OF q] n [of en "rb_base b" "rb_t b" "pk_now en" ?rs st] q ps assms(2) by simp
  qed simp
qed

lemma take_nonces_add:
  assumes "nonce s' = nonce s + of_nat m"
  shows "take_nonces (m + n) s = take_nonces m s @ take_nonces n s'"
proof -
  have "[0..<m + n] = [0..<m] @ map (\<lambda>i. i + m) [0..<n]"
    by (simp only: upt_add_eq_append [of 0 m n, simplified] map_add_upt add.commute)
  then show ?thesis using assms by (simp add: take_nonces_eq comp_def algebra_simps)
qed

theorem redfish_packets_name_their_server:
  assumes "rf_pollAll en bs st = (ps, bs1, st1)" and "rf_room en = None"
  shows "list_all (\<lambda>p. list_ex (\<lambda>b. packet_of_device en (rb_base b) (rb_t b) p) bs) ps
    \<and> map Nonce ps = take_nonces (length ps) (fst st) \<and> length bs1 = length bs"
  using assms(1)
proof (induction bs arbitrary: st ps bs1 st1)
  case (Cons b bs)
  obtain qs b1 st2 where p: "rf_pollOne en b st = (qs, b1, st2)" by (cases "rf_pollOne en b st")
  obtain rs bs2 st3 where r: "rf_pollAll en bs st2 = (rs, bs2, st3)" by (cases "rf_pollAll en bs st2")
  have eq: "ps = qs @ rs" "bs1 = b1 # bs2" using Cons.prems p r by simp_all
  note one = poll_nonces [OF p assms(2)]
  note rest = Cons.IH [OF r]
  have "take_nonces (length ps) (fst st) = map Nonce ps"
    using one rest by (simp add: eq take_nonces_add)
  then show ?case using one rest by (auto simp: eq list_all_iff)
qed simp

section \<open>Examples\<close>

definition off_system :: computerSystem where
  "off_system = \<lparr>cs_PowerState = ''Off'', cs_CPUUtilizationPercent = Some 0, cs_MemoryUtilizationPercent = None, cs_MemoryUsedBytes = None,
     cs_DiskUtilizationPercent = None, cs_DiskUsedBytes = None, cs_DiskTotalBytes = None, cs_NetworkRxMbps = None, cs_NetworkTxMbps = None,
     cs_AlarmCount = None\<rparr>"

text \<open>A controller whose system has the identifier \<open>i\<close>, with or without its chassis.\<close>

definition bmc :: "string \<Rightarrow> bool \<Rightarrow> rf_env" where
  "bmc i chassis = \<lparr>pk_now = (\<lambda>k. int k), pk_id = (\<lambda>_. ''p''), pk_sign = (\<lambda>bs. bs), pk_scaled = (\<lambda>_. 0),
     rf_root = (\<lambda>_. Some \<lparr>ro_Systems = ''/Systems'', ro_Chassis = ''/Chassis'', ro_Managers = ''''\<rparr>),
     rf_collection = (\<lambda>_ p. if p = ''/Systems'' then Some [''/Systems/'' @ i] else if chassis then Some [''/Chassis/1''] else None),
     rf_system = (\<lambda>_ p. if p = ''/Systems/'' @ i then Some off_system else None),
     rf_thermal = (\<lambda>_ _. Some \<lparr>th_Temperatures = [(''CPU1'', Some 40)], th_Fans = []\<rparr>),
     rf_power = (\<lambda>_ _. None), rf_manager = (\<lambda>_ _. None), rf_room = None\<rparr>"

definition bmc_binding :: rf_binding where
  "bmc_binding = \<lparr>rb_t = old_switch\<lparr>tg_DeviceType := ''server''\<rparr>, rb_base = co_base (collector_of old_switch), rb_ip = ''192.168.0.1'',
     rb_sysPath = '''', rb_chassisPath = '''', rb_mgrPath = '''', rb_discovered = False\<rparr>"

abbreviation moved_binding :: rf_binding where
  "moved_binding \<equiv> bmc_binding\<lparr>rb_sysPath := ''/Systems/1'', rb_discovered := True\<rparr>"

lemma failed_poll_is_followed_by_discovery_witness:
  "\<exists>b1 st1. rf_pollOne (bmc ''2'' True) moved_binding (NewSigner ''e'' 0, 0) = ([], b1, st1)
    \<and> fst (rf_pollOne (bmc ''2'' True) b1 st1) \<noteq> []"
proof -
  have p: "rf_pollOne (bmc ''2'' True) moved_binding (NewSigner ''e'' 0, 0)
      = ([], moved_binding\<lparr>rb_discovered := False\<rparr>, (NewSigner ''e'' 0, 0))"
    by (simp add: rf_pollOne_def located_def bmc_def bmc_binding_def)
  have a: "rf_answers (bmc ''2'' True) (rb_ip moved_binding) = Some off_system"
    by (simp add: rf_answers_def discover_def firstMember_def bmc_def bmc_binding_def)
  have r: "rf_room (bmc ''2'' True) = None" by (simp add: bmc_def)
  show ?thesis using failed_poll_is_followed_by_discovery [OF p r a r] p by fastforce
qed

lemma chassis_is_looked_for_once_witness:
  "list_all (\<lambda>p. \<not> List.member chassis_metrics (Name p))
     (fst (rf_polls [bmc ''1'' False, bmc ''1'' True, bmc ''1'' True] bmc_binding (NewSigner ''e'' 0, 0)))
   \<and> Name (fst (rf_pollOne (bmc ''1'' True) bmc_binding (NewSigner ''e'' 0, 0)) ! 2) = ''bmc.temp_c''"
proof -
  have "list_all (\<lambda>p. \<not> List.member chassis_metrics (Name p))
     (fst (rf_polls [bmc ''1'' False, bmc ''1'' True, bmc ''1'' True] bmc_binding (NewSigner ''e'' 0, 0)))"
    by (rule chassis_is_looked_for_once [where sysp = "''/Systems/1''" and r = "\<lparr>ro_Systems = ''/Systems'', ro_Chassis = ''/Chassis'', ro_Managers = ''''\<rparr>"])
      (simp_all add: bmc_def bmc_binding_def firstMember_def)
  moreover have "Name (fst (rf_pollOne (bmc ''1'' True) bmc_binding (NewSigner ''e'' 0, 0)) ! 2) = ''bmc.temp_c''"
    by code_simp
  ultimately show ?thesis by blast
qed

lemma redfish_packets_name_their_server_witness:
  "map Nonce (fst (rf_pollAll (bmc ''1'' True) [bmc_binding, bmc_binding] (NewSigner ''e'' 0, 0))) = [1, 2, 3, 4, 5, 6]"
proof -
  obtain ps bs1 st1 where p: "rf_pollAll (bmc ''1'' True) [bmc_binding, bmc_binding] (NewSigner ''e'' 0, 0) = (ps, bs1, st1)"
    by (cases "rf_pollAll (bmc ''1'' True) [bmc_binding, bmc_binding] (NewSigner ''e'' 0, 0)")
  have "length (fst (rf_pollAll (bmc ''1'' True) [bmc_binding, bmc_binding] (NewSigner ''e'' 0, 0))) = 6" by code_simp
  then have "length ps = 6" unfolding p by simp
  then have "length ps = Suc (Suc (Suc (Suc (Suc (Suc 0)))))" by simp
  moreover have "rf_room (bmc ''1'' True) = None" by (simp add: bmc_def)
  note redfish_packets_name_their_server [OF p this]
  ultimately have "map Nonce ps = [1, 2, 3, 4, 5, 6]" by (simp add: NewSigner_def NextNonce_def)
  then show ?thesis unfolding p fst_conv .
qed

end
