(* ===== verification/Edge_To_Service.thy ===== *)
theory Edge_To_Service
  imports Edge_Sources Device_Proofs Ingest_Worker Redfish
begin

text \<open>
  Packets of the edge reader in the collection service: how a trap finds the row that the
  polled packets of the device wrote, and how a link of the topology file and the trap
  about its port meet.
\<close>

section \<open>The row of a device after its packet\<close>

text \<open>No device has the address in another column than the management address.\<close>

definition only_mgmt :: "string \<Rightarrow> db \<Rightarrow> bool" where
  "only_mgmt addr db \<longleftrightarrow>
     list_all (\<lambda>d. Some addr \<in> {d_mgmt_ip d, d_prod_ip d, d_loopback_ip d, d_oob_ip d} \<longrightarrow> d_mgmt_ip d = Some addr) (devices db)"

lemma upsert_dev_table:
  assumes "upsert_dev e pkt st = (True, st1)"
  shows "\<exists>ev. UpsertDevice (iv_inet e) (iv_marshal e) (iv_ev_ok e) (iv_now e) (iv_ids e (p_seq st)) (iv_ids e (Suc (p_seq st))) pkt (p_db st)
    = (None, p_db st1, ev)"
  using assms by (auto simp: upsert_dev_def split: if_splits prod.splits)

lemma dev_args_fields:
  assumes "dev_args_of inet pkt = Some a" and "get (Meta pkt) ''mgmt_ip'' \<noteq> ''''"
  shows "x_org_id a = OrgId pkt" "x_network_id a = NetworkId pkt" "x_group_id a = GroupId pkt"
    "x_hostname a = upsert_hostname pkt" "x_mgmt_ip a = inet (get (Meta pkt) ''mgmt_ip'')" "x_mgmt_ip a \<noteq> None"
  using assms by (auto simp: dev_args_of_def Let_def cast_inet_def split: option.splits if_splits)

text \<open>
  After a packet with a management address was stored there is a row with the address, and
  every row of the tenant with the address has the host name, network and group of the packet.
\<close>

lemma stored_device:
  assumes "upsert_dev e pkt st = (True, st1)" and "distinct (map identity (devices (p_db st)))"
    and "get (Meta pkt) ''mgmt_ip'' = ip" and "ip \<noteq> ''''" and "NetworkId pkt \<noteq> ''''" and "GroupId pkt \<noteq> ''''"
  shows "\<exists>addr. iv_inet e ip = Some addr
    \<and> (\<exists>d \<in> set (devices (p_db st1)). d_org_id d = OrgId pkt \<and> d_mgmt_ip d = Some addr)
    \<and> (\<forall>d \<in> set (devices (p_db st1)). d_org_id d = OrgId pkt \<longrightarrow> d_mgmt_ip d = Some addr
         \<longrightarrow> d_hostname d = upsert_hostname pkt \<and> d_network_id d = NetworkId pkt \<and> d_group_id d = GroupId pkt)"
proof -
  obtain ev where "UpsertDevice (iv_inet e) (iv_marshal e) (iv_ev_ok e) (iv_now e) (iv_ids e (p_seq st)) (iv_ids e (Suc (p_seq st))) pkt (p_db st)
      = (None, p_db st1, ev)"
    using upsert_dev_table [OF assms(1)] by blast
  from upsert_settles [OF this assms(2)] obtain a where
    a: "dev_args_of (iv_inet e) pkt = Some a" and s: "settled a (devices (p_db st1))" by blast
  note f = dev_args_fields [OF a, unfolded assms(3), OF assms(4)]
  obtain addr where addr: "iv_inet e ip = Some addr" using f(5,6) by auto
  have "find (mgmt_match a) (devices (p_db st1)) \<noteq> None" using s f(6) by (simp add: settled_def)
  then obtain r where r: "r \<in> set (devices (p_db st1))" "mgmt_match a r" by (auto simp: find_None_iff)
  have u: "d_hostname d = upsert_hostname pkt \<and> d_network_id d = NetworkId pkt \<and> d_group_id d = GroupId pkt"
    if "d \<in> set (devices (p_db st1))" "d_org_id d = OrgId pkt" "d_mgmt_ip d = Some addr" for d
  proof -
    have "mgmt_match a d" using that f addr by (simp add: mgmt_match_def)
    then have "\<not> update_changes a d" using s that(1) by (simp add: settled_def)
    then show ?thesis using f assms(5,6) by (simp add: update_changes_def)
  qed
  have "\<exists>d \<in> set (devices (p_db st1)). d_org_id d = OrgId pkt \<and> d_mgmt_ip d = Some addr"
    using r f addr by (auto simp: mgmt_match_def)
  with addr u show ?thesis by blast
qed

section \<open>Traps\<close>

lemma sort_head: "sort_key f (filter P xs) = d # ds \<Longrightarrow> d \<in> set xs \<and> P d"
  using set_sort [of f "filter P xs"] by auto

lemma DeviceByIP_Some:
  "DeviceByIP inet db org dc fl net grp ip = Some (i, h) \<Longrightarrow> \<exists>addr d. inet ip = Some addr \<and> d \<in> set (devices db)
    \<and> d_org_id d = org \<and> (net = '''' \<or> d_network_id d = net) \<and> Some addr \<in> {d_mgmt_ip d, d_prod_ip d, d_loopback_ip d, d_oob_ip d}
    \<and> i = d_id d \<and> h = d_hostname d"
  by (auto simp: DeviceByIP_def split: if_splits option.splits list.splits dest!: sort_head)

lemma DeviceByIP_None:
  "DeviceByIP inet db org '''' '''' net grp ip = None \<Longrightarrow> inet ip = Some addr \<Longrightarrow> ip \<noteq> '''' \<Longrightarrow> d \<in> set (devices db)
    \<Longrightarrow> d_org_id d = org \<Longrightarrow> d_network_id d = net \<Longrightarrow> d_group_id d = grp \<Longrightarrow> d_mgmt_ip d = Some addr \<Longrightarrow> False"
proof -
  assume h: "DeviceByIP inet db org '''' '''' net grp ip = None" "inet ip = Some addr" "ip \<noteq> ''''" "d \<in> set (devices db)"
    "d_org_id d = org" "d_network_id d = net" "d_group_id d = grp" "d_mgmt_ip d = Some addr"
  let ?P = "\<lambda>d. d_org_id d = org \<and> (net = '''' \<or> d_network_id d = net) \<and> d_group_id d = grp
     \<and> Some addr \<in> set [d_mgmt_ip d, d_prod_ip d, d_loopback_ip d, d_oob_ip d]"
  have "sort_key (ip_rank addr) (filter ?P (devices db)) = []"
    using h(1-3) by (simp add: DeviceByIP_def split: list.splits)
  then have "filter ?P (devices db) = []" using set_sort [of "ip_rank addr" "filter ?P (devices db)"] by simp
  moreover have "d \<in> set (filter ?P (devices db))" using h(4-8) by simp
  ultimately show False by (simp only: list.set empty_iff)
qed

text \<open>The addresses the service tries for a trap are all the one of the device.\<close>

lemma trap_by_ip:
  assumes "iv_up e" and "trap_device c src = ip" and "ip \<noteq> ''''"
    and "p = trap_packet en fmt r c vs src n"
  shows "by_ip e p st [SourceId p, get (Meta p) ''source_ip'', get (Meta p) ''device_ip'', get (Meta p) ''mgmt_ip'']
    = DeviceByIP (iv_inet e) (p_db st) (tr_orgID r) (tr_dcID r) (tr_floorID r) (tr_netIDFor r [ip]) (tr_grpID r) ip"
  unfolding assms(4) trap_packet_fields trap_meta_fields assms(2) using assms(1,3) by (simp add: assms(2) split: option.split)

text \<open>
  C7. A trap is attributed to the row its device's polled packets wrote: the service finds, by the
  address in the trap, a row with the host name and management address of the packet. It needs
  that the receiver is configured without data centre and floor, that the targets sharing the
  address agree on the network, and that no device has the address as a secondary one.
\<close>

theorem traps_reach_the_polled_device:
  assumes "upsert_dev e p st = (True, st1)" and "distinct (map identity (devices (p_db st)))"
    and "t \<in> set ts" and "tg_MgmtIP t \<noteq> ''''"
    and "\<And>u. u \<in> set ts \<Longrightarrow> tg_MgmtIP t \<in> set (resolver_keys u) \<Longrightarrow> NetworkID u fb = NetworkID t fb"
    and "OrgId p = idc_OrgID ident" and "GroupId p = idc_GroupID ident" and "NetworkId p = NetworkID t fb"
    and "get (Meta p) ''mgmt_ip'' = tg_MgmtIP t" and "GroupId p \<noteq> ''''" and "NetworkId p \<noteq> ''''"
    and "idc_DatacenterID ident = ''''" and "idc_FloorID ident = ''''"
    and "\<And>addr. iv_inet e (tg_MgmtIP t) = Some addr \<Longrightarrow> only_mgmt addr (p_db st1)"
    and "iv_up e'" and "iv_inet e' = iv_inet e"
    and "trap_device c src = tg_MgmtIP t"
    and "q = trap_packet en fmt (NewTrapReceiver ident (buildNetIDResolver ts fb) unixNano) c vs src n"
  shows "\<exists>d \<in> set (devices (p_db st1)). d_hostname d = upsert_hostname p
    \<and> by_ip e' q st1 [SourceId q, get (Meta q) ''source_ip'', get (Meta q) ''device_ip'', get (Meta q) ''mgmt_ip'']
        = Some (d_id d, d_hostname d)"
proof -
  let ?ip = "tg_MgmtIP t" and ?net = "NetworkID t fb"
  let ?look = "DeviceByIP (iv_inet e) (p_db st1) (idc_OrgID ident) '''' '''' ?net (idc_GroupID ident) ?ip"
  have net: "buildNetIDResolver ts fb [?ip] = ?net"
    by (rule resolver_agrees_with_collectors [OF assms(3) _ assms(4,5)]) (simp_all add: resolver_keys_def)
  have look: "by_ip e' q st1 [SourceId q, get (Meta q) ''source_ip'', get (Meta q) ''device_ip'', get (Meta q) ''mgmt_ip''] = ?look"
    unfolding trap_by_ip [OF assms(15,17,4,18)] by (simp add: NewTrapReceiver_def net assms(12,13,16))
  obtain addr where addr: "iv_inet e ?ip = Some addr"
    and ex: "\<exists>d \<in> set (devices (p_db st1)). d_org_id d = OrgId p \<and> d_mgmt_ip d = Some addr"
    and all: "\<And>d. d \<in> set (devices (p_db st1)) \<Longrightarrow> d_org_id d = OrgId p \<Longrightarrow> d_mgmt_ip d = Some addr
        \<Longrightarrow> d_hostname d = upsert_hostname p \<and> d_network_id d = NetworkId p \<and> d_group_id d = GroupId p"
    using stored_device [OF assms(1,2,9,4,11,10)] by blast
  from ex obtain d0 where d0: "d0 \<in> set (devices (p_db st1))" "d_org_id d0 = OrgId p" "d_mgmt_ip d0 = Some addr" by blast
  have "?look \<noteq> None"
  proof
    assume "?look = None"
    from DeviceByIP_None [OF this addr assms(4) d0(1)] show False using all [OF d0] d0(2,3) assms(6-8) by simp
  qed
  then obtain i h where "?look = Some (i, h)" by auto
  moreover from DeviceByIP_Some [OF this] addr obtain d where
    d: "d \<in> set (devices (p_db st1))" "d_org_id d = idc_OrgID ident" "i = d_id d" "h = d_hostname d"
      "Some addr \<in> {d_mgmt_ip d, d_prod_ip d, d_loopback_ip d, d_oob_ip d}" by auto
  moreover have "d_mgmt_ip d = Some addr"
    using assms(14) [OF addr] d(1,5) unfolding only_mgmt_def list_all_iff by blast
  ultimately show ?thesis using all [OF d(1)] assms(6) unfolding look by (intro bexI [of _ d]) auto
qed

text \<open>
  C33. The resolver is built once. After an edit of the location has changed the network of a
  device, its packets move the row to the new network and its traps, still stamped with the
  old one, find no row any more.
\<close>

theorem location_edit_hides_traps:
  assumes "upsert_dev e p st = (True, st1)" and "distinct (map identity (devices (p_db st)))"
    and "t \<in> set ts" and "tg_MgmtIP t \<noteq> ''''"
    and "\<And>u. u \<in> set ts \<Longrightarrow> tg_MgmtIP t \<in> set (resolver_keys u) \<Longrightarrow> NetworkID u fb = NetworkID t fb"
    and "t' = snd (PatchAsset field v t)" and "NetworkID t' fb \<noteq> NetworkID t fb" and "NetworkID t fb \<noteq> ''''"
    and "OrgId p = idc_OrgID ident" and "NetworkId p = NetworkID t' fb"
    and "get (Meta p) ''mgmt_ip'' = tg_MgmtIP t'" and "GroupId p \<noteq> ''''" and "NetworkId p \<noteq> ''''"
    and "\<And>addr. iv_inet e (tg_MgmtIP t) = Some addr \<Longrightarrow> only_mgmt addr (p_db st1)"
    and "iv_up e'" and "iv_inet e' = iv_inet e"
    and "trap_device c src = tg_MgmtIP t"
    and "q = trap_packet en fmt (NewTrapReceiver ident (buildNetIDResolver ts fb) unixNano) c vs src n"
  shows "by_ip e' q st1 [SourceId q, get (Meta q) ''source_ip'', get (Meta q) ''device_ip'', get (Meta q) ''mgmt_ip''] = None"
proof -
  let ?ip = "tg_MgmtIP t"
  let ?look = "DeviceByIP (iv_inet e) (p_db st1) (idc_OrgID ident) (idc_DatacenterID ident) (idc_FloorID ident)
    (NetworkID t fb) (idc_GroupID ident) ?ip"
  have ip: "tg_MgmtIP t' = ?ip" unfolding assms(6) by (rule patch_identity)
  have net: "buildNetIDResolver ts fb [?ip] = NetworkID t fb"
    by (rule resolver_agrees_with_collectors [OF assms(3) _ assms(4,5)]) (simp_all add: resolver_keys_def)
  have look: "by_ip e' q st1 [SourceId q, get (Meta q) ''source_ip'', get (Meta q) ''device_ip'', get (Meta q) ''mgmt_ip''] = ?look"
    unfolding trap_by_ip [OF assms(15,17,4,18)] by (simp add: NewTrapReceiver_def net assms(16))
  obtain addr where addr: "iv_inet e ?ip = Some addr"
    and all: "\<And>d. d \<in> set (devices (p_db st1)) \<Longrightarrow> d_org_id d = OrgId p \<Longrightarrow> d_mgmt_ip d = Some addr
        \<Longrightarrow> d_hostname d = upsert_hostname p \<and> d_network_id d = NetworkId p \<and> d_group_id d = GroupId p"
    using stored_device [OF assms(1,2) assms(11) [unfolded ip] assms(4,13,12)] by blast
  have "?look = None"
  proof (rule ccontr)
    assume "?look \<noteq> None"
    then obtain i h where "?look = Some (i, h)" by auto
    from DeviceByIP_Some [OF this] addr obtain d where d: "d \<in> set (devices (p_db st1))" "d_org_id d = idc_OrgID ident"
      "d_network_id d = NetworkID t fb" "Some addr \<in> {d_mgmt_ip d, d_prod_ip d, d_loopback_ip d, d_oob_ip d}" using assms(8) by auto
    moreover have "d_mgmt_ip d = Some addr"
      using assms(14) [OF addr] d(1,4) unfolding only_mgmt_def list_all_iff by blast
    ultimately show False using all [OF d(1)] assms(7,9,10) by simp
  qed
  then show ?thesis using look by simp
qed

section \<open>Witnesses for traps\<close>

definition edge_ident :: IdentityConfig where
  "edge_ident = \<lparr>idc_OrgID = ''faber'', idc_DatacenterID = '''', idc_FloorID = '''', idc_NetworkID = ''net-prod'',
     idc_GroupID = ''grp-core'', idc_ReaderID = ''edr-1''\<rparr>"

definition spine_node :: topoNode where
  "spine_node = \<lparr>tn_ID = ''n1'', tn_Device = \<lparr>td_Name = ''spine-1'', td_DeviceType = ''switch'', td_Vendor = ''Arista Networks'',
     td_ModelName = '''', td_IPAddress = ''10.0.0.1'', td_SNMPCommunity = ''192.168.1.1'', td_GNMIPort = 0, td_MgmtIPExplicit = '''',
     td_ProdIPExplicit = '''', td_Country = ''USA'', td_Datacenter = ''DC1'', td_DatacenterCity = ''Dallas'', td_Room = ''r1'',
     td_Floor = ''f1'', td_RackRow = 0, td_RackNum = 0, td_RackUnit = 0\<rparr>\<rparr>"

definition spine :: Target where
  "spine = FromConfig (node_config (power_adj []) (type_of [spine_node]) spine_node) 2 ''public''"

definition edge_env :: src_env where
  "edge_env = \<lparr>sr_now = 5, sr_id = (\<lambda>_. ''pkt''), sr_sign = (\<lambda>_. []), sr_room = (\<lambda>_. True)\<rparr>"

definition svc_env :: ing_env where
  "svc_env = \<lparr>iv_up = True, iv_ev_ok = True, iv_redis = (True, True, True), iv_now = 5, iv_inet = Some, iv_uuid = Some,
     iv_json_ok = (\<lambda>_. True), iv_marshal = (\<lambda>_. ''''), iv_ids = (\<lambda>_. ''u1''), iv_kvs = (\<lambda>_. [])\<rparr>"

definition empty_pipe :: pipe where
  "empty_pipe = \<lparr>p_db = empty_db, p_dev = NewLRU 4, p_if = NewLRU 4, p_redis = \<lparr>rd_pkt = Map.empty, rd_nonce = Map.empty\<rparr>, p_seq = 0\<rparr>"

definition registered :: "Target \<Rightarrow> pipe" where
  "registered t = snd (upsert_dev svc_env (registration_packet edge_env edge_ident t 0 1) empty_pipe)"

definition spine_trap :: TelemetryPacket where
  "spine_trap = trap_packet edge_env (\<lambda>_. '''') (NewTrapReceiver edge_ident (buildNetIDResolver [spine] ''net-prod'') 0)
     ''192.168.1.1'' [] ''127.0.0.1'' 1"

lemma spine_facts:
  "tg_MgmtIP spine = ''192.168.1.1''" "NetworkID spine ''net-prod'' = ''DC1-USA-Dallas''"
  "trap_device ''192.168.1.1'' ''127.0.0.1'' = ''192.168.1.1''"
  by code_simp+

lemma svc_facts: "iv_inet svc_env = Some" "iv_up svc_env" "devices (p_db empty_pipe) = []"
  by (simp_all add: svc_env_def empty_pipe_def empty_db_def)

lemma registration_fields [simp]:
  "OrgId (registration_packet en ident t k n) = idc_OrgID ident" "GroupId (registration_packet en ident t k n) = idc_GroupID ident"
  "NetworkId (registration_packet en ident t k n) = NetworkID t (idc_NetworkID ident)"
  "get (Meta (registration_packet en ident t k n)) ''mgmt_ip'' = tg_MgmtIP t"
  "upsert_hostname (registration_packet en ident t k n) = SourceID t"
  by (simp_all add: registration_packet_def registration_meta_def upsert_hostname_def get_def Let_def or_default_def)

theorem traps_reach_the_polled_device_witness:
  "\<exists>d \<in> set (devices (p_db (registered spine))). d_hostname d = ''spine-1''
    \<and> by_ip svc_env spine_trap (registered spine) [SourceId spine_trap, get (Meta spine_trap) ''source_ip'',
        get (Meta spine_trap) ''device_ip'', get (Meta spine_trap) ''mgmt_ip''] = Some (d_id d, d_hostname d)"
proof -
  let ?p = "registration_packet edge_env edge_ident spine 0 1"
  have up: "upsert_dev svc_env ?p empty_pipe = (True, registered spine)"
    unfolding registered_def by (rule prod_eqI) (code_simp, simp)
  have only: "only_mgmt ''192.168.1.1'' (p_db (registered spine))" by code_simp
  have "SourceID spine = ''spine-1''" by code_simp
  moreover have "\<exists>d \<in> set (devices (p_db (registered spine))). d_hostname d = upsert_hostname ?p
    \<and> by_ip svc_env spine_trap (registered spine) [SourceId spine_trap, get (Meta spine_trap) ''source_ip'',
        get (Meta spine_trap) ''device_ip'', get (Meta spine_trap) ''mgmt_ip''] = Some (d_id d, d_hostname d)"
    by (rule traps_reach_the_polled_device [OF up, where t = spine and ts = "[spine]" and fb = "''net-prod''" and ident = edge_ident])
      (use only in \<open>simp_all add: spine_facts svc_facts spine_trap_def, simp_all add: edge_ident_def spine_facts\<close>)
  ultimately show ?thesis by simp
qed

theorem location_edit_hides_traps_witness:
  "by_ip svc_env spine_trap (registered (snd (PatchAsset ''datacenter'' ''DC2'' spine)))
     [SourceId spine_trap, get (Meta spine_trap) ''source_ip'', get (Meta spine_trap) ''device_ip'', get (Meta spine_trap) ''mgmt_ip''] = None"
proof -
  let ?t = "snd (PatchAsset ''datacenter'' ''DC2'' spine)"
  let ?p = "registration_packet edge_env edge_ident ?t 0 1"
  have up: "upsert_dev svc_env ?p empty_pipe = (True, registered ?t)"
    unfolding registered_def by (rule prod_eqI) (code_simp, simp)
  have only: "only_mgmt ''192.168.1.1'' (p_db (registered ?t))" by code_simp
  have net: "NetworkID ?t ''net-prod'' = ''DC2-USA-Dallas''" by code_simp
  show ?thesis
    by (rule location_edit_hides_traps [OF up, where t = spine and ts = "[spine]" and fb = "''net-prod''" and ident = edge_ident
          and field = "''datacenter''" and v = "''DC2''"])
      (use only net in \<open>simp_all add: spine_facts svc_facts spine_trap_def patch_identity, simp_all add: edge_ident_def spine_facts net patch_identity\<close>)
qed

section \<open>Links and their traps\<close>

lemma normalized [simp]: "Meta (Normalize now p) = Meta p" "Tag (Normalize now p) = trim_space (Tag p)"
  "OrgId (Normalize now p) = OrgId p" "GroupId (Normalize now p) = GroupId p" "NetworkId (Normalize now p) = NetworkId p"
  by (simp_all add: Normalize_def Let_def)

lemma candidates_by_index: "portCandidates i '''' = (if 1 \<le> i then [itoa (i - 1)] else [])"
proof -
  have "itoa j \<noteq> ''''" if "0 \<le> j" for j using nat_digits_props [of "nat j"] that by (simp add: itoa_def)
  then show ?thesis by (simp add: portCandidates_def trailingDigits_def)
qed

text \<open>The link a trap without an interface name selects touches the device at the port before the index.\<close>

lemma correlated_port:
  assumes "'''' \<notin> l_id ` set (topology_links db)"
  shows "CorrelateLinkByPort db dev i '''' = Some row \<Longrightarrow> 1 \<le> i
      \<and> ((k_SrcDeviceID row = dev \<and> k_SrcPort row = itoa (i - 1)) \<or> (k_DstDeviceID row = dev \<and> k_DstPort row = itoa (i - 1)))"
    and "CorrelateLinkByPort db dev i '''' = None \<Longrightarrow> 1 \<le> i \<Longrightarrow> x \<in> set (topology_links db) \<Longrightarrow> \<not> port_match dev (itoa (i - 1)) x"
  using CorrelateLinkByPort_exact [OF assms, where dev = dev and i = i and s = "''''"]
  by (auto simp: candidates_by_index port_match_def split: if_splits)




lemma flip_link_key [simp]: "link_key (flip_link now row down r) = link_key r"
  by (simp add: flip_link_def link_key_def)


text \<open>
  A trap that carried the 0-based index of the topology file, as the comment on the port name of
  a link says, would never be correlated to its port but at best to the one before it.
\<close>

theorem zero_based_trap_names_another_port:
  assumes "'''' \<notin> l_id ` set (topology_links db)" and "CorrelateLinkByPort db dev port '''' = Some row"
  shows "0 < port \<and> itoa (port - 1) \<noteq> itoa port
    \<and> ((k_SrcDeviceID row = dev \<and> k_SrcPort row = itoa (port - 1)) \<or> (k_DstDeviceID row = dev \<and> k_DstPort row = itoa (port - 1)))"
  using correlated_port(1) [OF assms] nat_digits_inj [of "nat (port - 1)" "nat port"] by (auto simp: itoa_def)

text \<open>
  C34. The service reads the interface of a link trap at the fixed instance 1 of \<open>ifIndex\<close> and
  \<open>ifDescr\<close>. A trap whose varbinds are those of any other interface is never correlated: the
  links stay as they are and the trap is only stored as an event.
\<close>

theorem other_instances_are_ignored:
  assumes "list_all (\<lambda>v. vb_oid v \<notin> {''1.3.6.1.2.1.2.2.1.1.1'', ''1.3.6.1.2.1.2.2.1.2.1''}) vs"
  shows "handleLinkTrap e dev host (Normalize now (trap_packet en fmt r c vs src n)) st = (False, st)"
proof -
  let ?m = "trap_meta fmt (extractTrapOID vs) (trap_device c src) src c vs"
  have "get ?m (''vb.'' @ ''1.3.6.1.2.1.2.2.1.1.1'') = ''''" "get ?m (''vb.'' @ ''1.3.6.1.2.1.2.2.1.2.1'') = ''''"
    by (rule trap_varbind_absent, use assms in \<open>simp add: list_all_iff\<close>)+
  then have "trap_port (Normalize now (trap_packet en fmt r c vs src n)) = (- 1, '''')"
    by (simp add: trap_port_def)
  then show ?thesis
    by (simp add: handleLinkTrap_def CorrelateLinkByPort_def candidates_by_index)
qed

definition linkdown_7 :: "SnmpPDU list" where
  "linkdown_7 =
     [\<lparr>pd_Name = ''.1.3.6.1.6.3.1.1.4.1.0'', pd_Type = OtherType, pd_Value = VStr ''.1.3.6.1.6.3.1.1.5.3''\<rparr>,
      \<lparr>pd_Name = ''.1.3.6.1.2.1.2.2.1.1.7'', pd_Type = OtherType, pd_Value = VInt 7\<rparr>]"

theorem other_instances_are_ignored_witness:
  "Name (trap_packet edge_env (\<lambda>_. '''') (NewTrapReceiver edge_ident (\<lambda>_. ''n'') 0) ''192.168.1.1'' linkdown_7 ''127.0.0.1'' 1) = ''linkDown''
   \<and> handleLinkTrap svc_env ''u1'' ''spine-1'' (Normalize 5 (trap_packet edge_env (\<lambda>_. '''') (NewTrapReceiver edge_ident (\<lambda>_. ''n'') 0)
       ''192.168.1.1'' linkdown_7 ''127.0.0.1'' 1)) empty_pipe = (False, empty_pipe)"
proof
  show "handleLinkTrap svc_env ''u1'' ''spine-1'' (Normalize 5 (trap_packet edge_env (\<lambda>_. '''') (NewTrapReceiver edge_ident (\<lambda>_. ''n'') 0)
       ''192.168.1.1'' linkdown_7 ''127.0.0.1'' 1)) empty_pipe = (False, empty_pipe)"
    by (rule other_instances_are_ignored) code_simp
qed code_simp

definition spine_link :: LinkEdge where
  "spine_link = \<lparr>le_SrcHost = ''d1'', le_DstHost = ''d2'', le_SrcMgmtIP = ''192.168.1.1'', le_DstMgmtIP = ''192.168.1.2'',
     le_SrcDatacenterID = ''DC1'', le_SrcFloorID = ''f1'', le_Layer = ''network'', le_SrcPortIndex = 3, le_DstPortIndex = 0\<rparr>"

definition leaf :: Target where
  "leaf = spine\<lparr>tg_MgmtIP := ''192.168.1.2'', tg_Hostname := ''leaf-1''\<rparr>"

definition two_registered :: db where
  "two_registered = p_db (snd (upsert_dev (svc_env\<lparr>iv_ids := (\<lambda>_. ''u2'')\<rparr>)
     (registration_packet edge_env edge_ident leaf 0 1) (registered spine)))"

definition spine_link_packet :: TelemetryPacket where
  "spine_link_packet = Normalize 5 (link_packet edge_env edge_ident (\<lambda>_. ''DC1-USA-Dallas'') spine_link 0 1)"

definition linked :: db where
  "linked = snd (WriteTopologyLink Some 6 (\<lambda>_. ''l1'') spine_link_packet two_registered)"




theorem zero_based_trap_names_another_port_witness:
  "map_option k_LinkID (CorrelateLinkByPort linked ''u1'' 4 '''') = Some ''l1'' \<and> itoa (4 - 1) \<noteq> itoa 4"
proof -
  have ids: "'''' \<notin> l_id ` set (topology_links linked)" by code_simp
  have row: "map_option k_LinkID (CorrelateLinkByPort linked ''u1'' 4 '''') = Some ''l1''" by code_simp
  then obtain r where "CorrelateLinkByPort linked ''u1'' 4 '''' = Some r" by auto
  from zero_based_trap_names_another_port [OF ids this] row show ?thesis by simp
qed

section \<open>The power state in the service\<close>

lemma go_int_power: "go_int (powerState sys) = (if to_lower (cs_PowerState sys) = ''off'' then 2 else 1)"
  by (simp add: powerState_def go_int_def)

text \<open>
  C28. When the service can resolve the source of the packet, the power state that a poll read ends in
  the row of the device: 2 for a chassis that is off, and 1 for anything else.
\<close>

theorem power_state_reaches_the_row:
  assumes "rf_pollOne en b st = (p # ps, b1, st1)" and "resolveDeviceID e p pl = (dev, pl1)" and "dev \<noteq> ''''" and "iv_up e"
  shows "\<exists>sys. rf_system en (rb_ip b) (rb_sysPath b1) = Some sys \<and>
    list_all (\<lambda>d. d_id d = dev \<longrightarrow> d_power_state d = Some (if to_lower (cs_PowerState sys) = ''off'' then 2 else 1))
      (devices (p_db (snd (route e p pl))))"
proof -
  obtain sys qs where sys: "rf_system en (rb_ip b) (rb_sysPath b1) = Some sys"
    and q: "device_packets en (rb_base b) (rb_t b) (pk_now en)
        (system_readings b1 sys @ chassis_readings en b1 @ manager_readings en b1 (powerState sys)) st = (qs, st1)"
    and ps: "p # ps = (case rf_room en of Some k \<Rightarrow> take k qs | None \<Rightarrow> qs)"
    using poll_cases [OF assms(1)] by auto
  have "qs \<noteq> [] \<and> hd qs = p" using ps by (cases qs) (auto split: option.splits simp: take_Cons split: nat.splits)
  then have "reading_of p = deviceState b1 ''power_state'' (powerState sys)"
    using device_packets_spec [OF q] by (cases qs) (auto simp: system_readings_def)
  then have p: "Kind p = ''device_state''" "Name p = ''power_state''" "Value p = powerState sys"
    by (simp_all add: reading_of_def deviceState_def metric_def)
  have "smallint_ok (Some (go_int (Value p)))" by (simp add: p go_int_power smallint_ok_def)
  then have "p_db (snd (route e p pl)) = snd (SetDevicePowerState dev (go_int (Value p)) (p_db pl1))"
    using assms(2-4) by (simp add: route_def p writeDeviceState_def)
  moreover have "devices (snd (SetDevicePowerState dev (go_int (Value p)) (p_db pl1)))
      = map (\<lambda>d. if d_id d = dev then d\<lparr>d_power_state := Some (go_int (Value p))\<rparr> else d) (devices (p_db pl1))"
    using \<open>smallint_ok (Some (go_int (Value p)))\<close> by (simp add: SetDevicePowerState_def)
  moreover have "list_all (\<lambda>d. d_id d = dev \<longrightarrow> d_power_state d = Some v)
      (map (\<lambda>d. if d_id d = dev then d\<lparr>d_power_state := Some v\<rparr> else d) ds)" for v ds
    by (induction ds) auto
  ultimately have "list_all (\<lambda>d. d_id d = dev \<longrightarrow> d_power_state d = Some (go_int (Value p))) (devices (p_db (snd (route e p pl))))"
    by simp
  then have "list_all (\<lambda>d. d_id d = dev \<longrightarrow> d_power_state d = Some (if to_lower (cs_PowerState sys) = ''off'' then 2 else 1))
      (devices (p_db (snd (route e p pl))))"
    unfolding p go_int_power .
  with sys show ?thesis by blast
qed

definition spine_server :: Target where
  "spine_server = spine\<lparr>tg_DeviceType := ''server''\<rparr>"

definition server_poll :: "TelemetryPacket list \<times> rf_binding \<times> packer" where
  "server_poll = rf_pollOne (bmc ''1'' True) (hd (rf_NewManager [spine_server] edge_ident)) (NewSigner ''e'' 0, 0)"

lemma power_state_reaches_the_row_witness:
  "\<exists>d \<in> set (devices (p_db (snd (route svc_env (hd (fst server_poll)) (registered spine_server))))).
     d_hostname d = ''spine-1'' \<and> d_power_state d = Some 2"
proof -
  let ?pl = "registered spine_server"
  obtain ps b1 st1 where poll: "server_poll = (ps, b1, st1)" by (cases server_poll)
  have "fst server_poll \<noteq> []" by code_simp
  then obtain pkt rest where p: "server_poll = (pkt # rest, b1, st1)" using poll by (metis fst_conv neq_Nil_conv)
  have h: "hd (fst server_poll) = pkt" unfolding p by simp
  obtain dev pl1 where dev: "resolveDeviceID svc_env pkt ?pl = (dev, pl1)" by (cases "resolveDeviceID svc_env pkt ?pl")
  have one: "list_ex (\<lambda>d. d_hostname d = ''spine-1'' \<and> d_id d = fst (resolveDeviceID svc_env (hd (fst server_poll)) ?pl))
      (devices (p_db (snd (route svc_env (hd (fst server_poll)) ?pl))))" "fst (resolveDeviceID svc_env (hd (fst server_poll)) ?pl) \<noteq> ''''" by code_simp+
  note one = one [unfolded h]
  have "\<exists>sys. rf_system (bmc ''1'' True) (rb_ip (hd (rf_NewManager [spine_server] edge_ident))) (rb_sysPath b1) = Some sys \<and>
    list_all (\<lambda>d. d_id d = dev \<longrightarrow> d_power_state d = Some (if to_lower (cs_PowerState sys) = ''off'' then 2 else 1))
      (devices (p_db (snd (route svc_env pkt ?pl))))"
    by (rule power_state_reaches_the_row [OF p [unfolded server_poll_def] dev]) (use one(2) dev svc_facts in simp_all)
  moreover have "sys = off_system" if "rf_system (bmc ''1'' True) x y = Some sys" for x y sys
    using that by (simp add: bmc_def split: if_splits)
  moreover have "to_lower (cs_PowerState off_system) = ''off''" by code_simp
  ultimately have "list_all (\<lambda>d. d_id d = dev \<longrightarrow> d_power_state d = Some 2) (devices (p_db (snd (route svc_env pkt ?pl))))" by fastforce
  then show ?thesis unfolding h using one(1) dev by (fastforce simp: list_ex_iff list_all_iff)
qed

end
