(* ===== verification/Gnmi.thy ===== *)
theory Gnmi
  imports Poll_Packets
begin

text \<open>
  \<open>fwEDR/internal/gnmi\<close>: the decoding of gNMI notifications into packets (\<open>client.go\<close>) and the
  choice between the proxy and direct subscriptions (\<open>manager.go\<close>). The JSON decoder, the
  text forms of numbers and the messages that a stream delivers are parameters.
\<close>

section \<open>Messages\<close>

text \<open>A decoded JSON value; an object has each key once. Go's \<open>nil\<close> is \<open>JNull\<close>.\<close>

datatype json = JNull | JBool bool | JNum rat | JStr string | JArr "json list" | JObj "(string \<times> json) list"

datatype TypedValue =
    UintVal "64 word" | IntVal i64 | FloatVal rat | DecimalVal "(int \<times> nat) option" | StringVal string
  | JsonVal string | JsonIetfVal string | ProtoBytes string | OtherVal

text \<open>A path element with its keys in the order in which Go iterates over them.\<close>

record PathElem =
  el_Name :: string
  el_Key :: "(string \<times> string) list"

record Notification =
  no_Timestamp :: int
  no_Target :: string
  no_Update :: "(PathElem list option \<times> TypedValue option) list"

record GNMIConfig =
  gc_ProxyAddr :: string
  gc_Port :: int
  gc_FallbackPort :: int
  gc_ProxyProbeIntervalMs :: int
  gc_PollInterval :: int

record deviceBinding =
  db_t :: Target
  db_base :: basePacket

record Subscriber =
  su_target :: "Target option"
  su_base :: basePacket
  su_cfg :: GNMIConfig
  su_aggregated :: bool
  su_resolve :: "(string \<Rightarrow> deviceBinding option) option"

text \<open>\<open>gv_json\<close>: \<open>json.Unmarshal\<close>; \<open>gv_parse\<close>: \<open>strconv.ParseFloat\<close>; \<open>gv_show\<close>: \<open>fmt.Sprintf("%v")\<close>.\<close>

record gnmi_env = pack_env +
  gv_json :: "string \<Rightarrow> json option"
  gv_parse :: "string \<Rightarrow> rat option"
  gv_show :: "json \<Rightarrow> string"

section \<open>Subscribers\<close>

definition no_base :: basePacket where
  "no_base = \<lparr>bp_orgID = '''', bp_dcID = '''', bp_floorID = '''', bp_netID = '''', bp_grpID = '''', bp_readerID = ''''\<rparr>"

definition NewSubscriber :: "Target \<Rightarrow> GNMIConfig \<Rightarrow> basePacket \<Rightarrow> Subscriber" where
  "NewSubscriber t cfg b = \<lparr>su_target = Some t, su_base = b, su_cfg = cfg, su_aggregated = False, su_resolve = None\<rparr>"

definition NewAggregator :: "GNMIConfig \<Rightarrow> (string \<Rightarrow> deviceBinding option) \<Rightarrow> Subscriber" where
  "NewAggregator cfg resolve = \<lparr>su_target = None, su_base = no_base, su_cfg = cfg, su_aggregated = True, su_resolve = Some resolve\<rparr>"

text \<open>A binding without a device counts as none.\<close>

definition binding_of :: "Subscriber \<Rightarrow> string \<Rightarrow> deviceBinding option" where
  "binding_of s ip =
     (if su_aggregated s then (case su_resolve s of None \<Rightarrow> None | Some f \<Rightarrow> f ip)
      else map_option (\<lambda>t. \<lparr>db_t = t, db_base = su_base s\<rparr>) (su_target s))"

definition dialAddr :: "Subscriber \<Rightarrow> string" where
  "dialAddr s =
     (if gc_ProxyAddr (su_cfg s) \<noteq> '''' then gc_ProxyAddr (su_cfg s)
      else case su_target s of Some t \<Rightarrow> tg_GNMIIP t @ '':'' @ itoa (gc_Port (su_cfg s)) | None \<Rightarrow> '''')"

definition gnmiTarget :: "Target \<Rightarrow> string" where
  "gnmiTarget t = or_default (tg_MgmtIP t) (or_default (tg_ProdIP t) (tg_GNMIIP t))"

section \<open>Values\<close>

definition jget :: "(string \<times> json) list \<Rightarrow> string \<Rightarrow> json" where
  "jget m k = (case map_of m k of Some v \<Rightarrow> v | None \<Rightarrow> JNull)"

fun dig :: "json \<Rightarrow> string list \<Rightarrow> json" where
  "dig cur [] = cur"
| "dig cur (k # ks) = (case cur of JObj m \<Rightarrow> dig (jget m k) ks | _ \<Rightarrow> JNull)"

definition as_obj :: "json \<Rightarrow> (string \<times> json) list" where
  "as_obj v = (case v of JObj m \<Rightarrow> m | _ \<Rightarrow> [])"

definition as_arr :: "json \<Rightarrow> json list" where
  "as_arr v = (case v of JArr xs \<Rightarrow> xs | _ \<Rightarrow> [])"

definition as_str :: "json \<Rightarrow> string" where
  "as_str v = (case v of JStr s \<Rightarrow> s | _ \<Rightarrow> '''')"

definition num :: "('e gnmi_env_scheme) \<Rightarrow> json \<Rightarrow> rat option" where
  "num en v = (case v of JNum x \<Rightarrow> Some x | JStr s \<Rightarrow> gv_parse en (trim_space s) | _ \<Rightarrow> None)"

definition statusVal :: "json \<Rightarrow> rat option" where
  "statusVal v =
     (case v of
        JStr s \<Rightarrow> (let u = to_upper (trim_space s)
                   in if u = ''UP'' \<or> u = ''ENABLED'' then Some 1
                      else if u = ''DOWN'' \<or> u = ''DISABLED'' then Some 0 else None)
      | _ \<Rightarrow> None)"

definition boolVal :: "json \<Rightarrow> rat" where
  "boolVal v =
     (case v of
        JBool b \<Rightarrow> (if b then 1 else 0)
      | JStr s \<Rightarrow> (if to_lower (trim_space s) = ''true'' then 1 else 0)
      | _ \<Rightarrow> 0)"

definition jsonBytesOf :: "TypedValue option \<Rightarrow> string" where
  "jsonBytesOf v = (case v of Some (JsonIetfVal b) \<Rightarrow> b | Some (JsonVal b) \<Rightarrow> b | Some (ProtoBytes b) \<Rightarrow> b | _ \<Rightarrow> '''')"

definition extractValue :: "TypedValue option \<Rightarrow> rat option" where
  "extractValue v =
     (case v of
        Some (UintVal n) \<Rightarrow> Some (of_int (uint n))
      | Some (IntVal n) \<Rightarrow> Some (of_int (sint n))
      | Some (FloatVal x) \<Rightarrow> Some x
      | Some (DecimalVal (Some (digits, precision))) \<Rightarrow> Some (((\<lambda>d. d / 10) ^^ precision) (of_int digits))
      | Some (StringVal s) \<Rightarrow>
          (let l = to_lower s
           in if l = ''up'' \<or> l = ''enabled'' then Some 1 else if l = ''down'' \<or> l = ''disabled'' then Some 0 else None)
      | _ \<Rightarrow> None)"

section \<open>The tree of a root subscription\<close>

definition counter_metrics :: "(string \<times> string) list" where
  "counter_metrics =
     [(''in-octets'', ''interface.bytes_received_hc''), (''out-octets'', ''interface.bytes_sent_hc''),
      (''in-unicast-pkts'', ''interface.packets_received_unicast''), (''out-unicast-pkts'', ''interface.packets_sent_unicast''),
      (''in-errors'', ''interface.errors_received''), (''out-errors'', ''interface.errors_sent''),
      (''in-discards'', ''interface.discards_received''), (''out-discards'', ''interface.discards_sent'')]"

type_synonym tree_leaf = "string \<times> string \<times> rat"

definition leaf_if :: "string \<Rightarrow> string \<Rightarrow> rat option \<Rightarrow> tree_leaf list" where
  "leaf_if name tag v = (case v of Some x \<Rightarrow> [(name, tag, x)] | None \<Rightarrow> [])"

definition is_obj :: "json \<Rightarrow> bool" where
  "is_obj v = (case v of JObj _ \<Rightarrow> True | _ \<Rightarrow> False)"

definition iface_leaves :: "('e gnmi_env_scheme) \<Rightarrow> json \<Rightarrow> tree_leaf list" where
  "iface_leaves en it =
     (let name = as_str (dig it [''name'']); st = dig it [''state'']; c = dig st [''counters'']
      in if name = '''' \<or> \<not> is_obj st then []
         else concat (map (\<lambda>(key, m). leaf_if m name (num en (dig c [key]))) counter_metrics)
              @ leaf_if ''interface.operational_status'' name (statusVal (dig st [''oper-status'']))
              @ leaf_if ''interface.admin_status'' name (statusVal (dig st [''admin-status''])))"

definition memory_leaves :: "('e gnmi_env_scheme) \<Rightarrow> json \<Rightarrow> tree_leaf list" where
  "memory_leaves en mem =
     (let total = num en (dig mem [''physical''])
      in leaf_if ''system.memory_total_bytes'' '''' total
         @ leaf_if ''system.memory_used_bytes'' ''''
             (case (total, num en (dig mem [''free''])) of (Some t, Some f) \<Rightarrow> Some (t - f) | _ \<Rightarrow> None)
         @ leaf_if ''system.memory_utilization_percent'' '''' (num en (dig mem [''utilized''])))"

definition cpu_leaves :: "('e gnmi_env_scheme) \<Rightarrow> json \<Rightarrow> tree_leaf list" where
  "cpu_leaves en it =
     (if \<not> is_obj it then []
      else leaf_if ''system.cpu_utilization_percent'' (gv_show en (dig it [''index''])) (num en (dig it [''state'', ''total'', ''instant''])))"

definition component_leaves :: "('e gnmi_env_scheme) \<Rightarrow> json \<Rightarrow> tree_leaf list" where
  "component_leaves en it =
     (let name = as_str (dig it [''name'']); tmp = dig it [''state'', ''temperature'']
      in if name = '''' then []
         else leaf_if ''environment.temperature_c'' name (num en (dig tmp [''instant'']))
              @ leaf_if ''environment.temperature_alarm'' name (map_option boolVal (map_of (as_obj tmp) ''alarm-status'')))"

definition emitTree :: "('e gnmi_env_scheme) \<Rightarrow> (string \<times> json) list \<Rightarrow> tree_leaf list" where
  "emitTree en doc =
     concat (map (iface_leaves en) (as_arr (dig (JObj doc) [''openconfig-interfaces:interfaces'', ''interface''])))
     @ (let sys = dig (JObj doc) [''openconfig-system:system'']
        in leaf_if ''system.uptime_centiseconds'' '''' (map_option (\<lambda>v. v * 100) (num en (dig sys [''state'', ''uptime''])))
           @ memory_leaves en (dig sys [''memory'', ''state''])
           @ concat (map (cpu_leaves en) (as_arr (dig sys [''cpus'', ''cpu'']))))
     @ concat (map (component_leaves en) (as_arr (dig (JObj doc) [''openconfig-platform:components'', ''component''])))"

section \<open>Scalar leaves\<close>

text \<open>\<open>strings.Index\<close>\<close>

fun index_of :: "string \<Rightarrow> string \<Rightarrow> nat option" where
  "index_of [] p = (if p = [] then Some 0 else None)"
| "index_of (c # cs) p = (if has_prefix (c # cs) p then Some 0 else map_option Suc (index_of cs p))"

definition extractBracketKey :: "string \<Rightarrow> string \<Rightarrow> string" where
  "extractBracketKey p pre =
     (case index_of p pre of None \<Rightarrow> '''' | Some i \<Rightarrow> takeWhile (\<lambda>c. c \<noteq> CHR '']'') (drop (i + length pre) p))"

definition ifaceTag :: "string \<Rightarrow> string" where
  "ifaceTag p = extractBracketKey p ''interface[name=''"

definition cpuTag :: "string \<Rightarrow> string" where
  "cpuTag p = extractBracketKey p ''cpu[index=''"

definition componentTag :: "string \<Rightarrow> string" where
  "componentTag p = extractBracketKey p ''component[name=''"

definition mapPath :: "string \<Rightarrow> string \<times> string" where
  "mapPath path =
     (let p = to_lower path
      in if contains_str p ''counters/in-octets'' then (''interface.bytes_received_hc'', ifaceTag p)
         else if contains_str p ''counters/out-octets'' then (''interface.bytes_sent_hc'', ifaceTag p)
         else if contains_str p ''counters/in-unicast-pkts'' then (''interface.packets_received_unicast'', ifaceTag p)
         else if contains_str p ''counters/out-unicast-pkts'' then (''interface.packets_sent_unicast'', ifaceTag p)
         else if contains_str p ''counters/in-errors'' then (''interface.errors_received'', ifaceTag p)
         else if contains_str p ''counters/out-errors'' then (''interface.errors_sent'', ifaceTag p)
         else if contains_str p ''counters/in-discards'' then (''interface.discards_received'', ifaceTag p)
         else if contains_str p ''counters/out-discards'' then (''interface.discards_sent'', ifaceTag p)
         else if contains_str p ''state/oper-status'' then (''interface.operational_status'', ifaceTag p)
         else if contains_str p ''state/admin-status'' then (''interface.admin_status'', ifaceTag p)
         else if contains_str p ''system/state/uptime'' then (''system.uptime_centiseconds'', '''')
         else if contains_str p ''cpus/cpu'' \<and> contains_str p ''total/instant'' then (''system.cpu_utilization_percent'', cpuTag p)
         else if contains_str p ''memory/state/utilized'' then (''system.memory_used_bytes'', '''')
         else if contains_str p ''memory/state/physical'' then (''system.memory_total_bytes'', '''')
         else if contains_str p ''temperature/instant'' then (''environment.temperature_c'', componentTag p)
         else ('''', ''''))"

definition elem_text :: "PathElem \<Rightarrow> string" where
  "elem_text e = el_Name e @ concat (map (\<lambda>(k, v). ''['' @ k @ ''='' @ v @ '']'') (el_Key e))"

definition pathToString :: "PathElem list option \<Rightarrow> string" where
  "pathToString p =
     (case p of
        None \<Rightarrow> ''''
      | Some es \<Rightarrow> ''/'' @ (case map elem_text es of [] \<Rightarrow> '''' | x # xs \<Rightarrow> x @ concat (map (\<lambda>y. ''/'' @ y) xs)))"

section \<open>Notifications\<close>

definition gnmi_meta :: "Target \<Rightarrow> string \<Rightarrow> smap" where
  "gnmi_meta t path =
     map_of [(''hostname'', SourceID t), (''mgmt_ip'', tg_MgmtIP t), (''prod_ip'', tg_ProdIP t), (''loopback_ip'', tg_LoopbackIP t),
       (''device_type'', tg_DeviceType t), (''vendor'', tg_Vendor t), (''collector_agent'', ''EDR''),
       (''collector_protocol'', ''GNMI''), (''gnmi_path'', path)] ++ tg_Labels t"

text \<open>The object of an update that carries JSON; \<open>null\<close> decodes to an empty one.\<close>

definition object_of :: "('e gnmi_env_scheme) \<Rightarrow> TypedValue option \<Rightarrow> (string \<times> json) list option" where
  "object_of en v =
     (if jsonBytesOf v = '''' then None
      else case gv_json en (jsonBytesOf v) of Some (JObj m) \<Rightarrow> Some m | Some JNull \<Rightarrow> Some [] | _ \<Rightarrow> None)"

definition update_readings :: "('e gnmi_env_scheme) \<Rightarrow> Target \<Rightarrow> PathElem list option \<times> TypedValue option \<Rightarrow> reading list" where
  "update_readings en t u =
     (case object_of en (snd u) of
        Some m \<Rightarrow> map (\<lambda>(name, tag, v). metric name tag v (gnmi_meta t name)) (emitTree en m)
      | None \<Rightarrow>
          (let path = pathToString (fst u); (name, tag) = mapPath path
           in case extractValue (snd u) of
                None \<Rightarrow> []
              | Some v \<Rightarrow> if name = '''' then [] else [metric name tag v (gnmi_meta t path)]))"

definition decodeNotification ::
  "('e gnmi_env_scheme) \<Rightarrow> Subscriber \<Rightarrow> Notification \<Rightarrow> packer \<Rightarrow> TelemetryPacket list \<times> packer" where
  "decodeNotification en s n st =
     (let ts = (if no_Timestamp n \<le> 0 then pk_now en (snd st) else no_Timestamp n)
      in case binding_of s (no_Target n) of
           None \<Rightarrow> ([], st)
         | Some b \<Rightarrow> device_packets en (db_base b) (db_t b) (\<lambda>_. ts) (concat (map (update_readings en (db_t b)) (no_Update n))) st)"

section \<open>Streams\<close>

datatype response = Update Notification | SyncResponse | OtherResponse

text \<open>\<open>Subscribe\<close>: what arrives before the stream ends or something else than an update does.\<close>

fun once_loop :: "('e gnmi_env_scheme) \<Rightarrow> Subscriber \<Rightarrow> response list \<Rightarrow> packer \<Rightarrow> TelemetryPacket list \<times> packer" where
  "once_loop en s (Update n # rs) st =
     (case decodeNotification en s n st of (ps, st1) \<Rightarrow> case once_loop en s rs st1 of (qs, st2) \<Rightarrow> (ps @ qs, st2))"
| "once_loop en s rs st = ([], st)"

text \<open>
  \<open>RunStream\<close> over the responses of the stream: \<open>room\<close> is the number of packets taken before the
  context ends, \<open>None\<close> if it does not. The result is the error, if any.
\<close>

fun gnmi_stream ::
  "('e gnmi_env_scheme) \<Rightarrow> Subscriber \<Rightarrow> response list \<Rightarrow> nat option \<Rightarrow> packer \<Rightarrow> TelemetryPacket list \<times> bool \<times> packer" where
  "gnmi_stream en s [] room st = ([], room \<noteq> Some 0, st)"
| "gnmi_stream en s (r # rs) room st =
     (case r of
        Update n \<Rightarrow>
          (case decodeNotification en s n st of
             (ps, st1) \<Rightarrow>
               (case room of
                  None \<Rightarrow> (case gnmi_stream en s rs None st1 of (qs, e) \<Rightarrow> (ps @ qs, e))
                | Some k \<Rightarrow>
                    if k < length ps then (take k ps, False, st1)
                    else case gnmi_stream en s rs (Some (k - length ps)) st1 of (qs, e) \<Rightarrow> (ps @ qs, e)))
      | _ \<Rightarrow> gnmi_stream en s rs room st)"

definition sample_interval :: "GNMIConfig \<Rightarrow> 64 word" where
  "sample_interval cfg =
     (let ns = word_of_int (gc_PollInterval cfg) * 1000000 in if ns = 0 then 30000000000 else ns)"

section \<open>Manager\<close>

record gnmi_mgr =
  gm_targets :: "Target list"
  gm_cfg :: GNMIConfig
  gm_identity :: IdentityConfig
  gm_resolver :: "string \<rightharpoonup> deviceBinding"
  gm_count :: nat

definition device_ips :: "Target \<Rightarrow> string list" where
  "device_ips t = filter (\<lambda>ip. ip \<noteq> '''') [tg_MgmtIP t, tg_ProdIP t, tg_GNMIIP t]"

definition gnmi_index :: "Target \<Rightarrow> gnmi_mgr \<Rightarrow> gnmi_mgr" where
  "gnmi_index t m =
     (if \<not> Has t CapGNMI then m
      else m\<lparr>gm_count := Suc (gm_count m),
             gm_resolver := fold (\<lambda>ip r. r(ip \<mapsto> \<lparr>db_t = t, db_base = baseFor (gm_identity m) t\<rparr>)) (device_ips t) (gm_resolver m)\<rparr>)"

definition gnmi_NewManager :: "Target list \<Rightarrow> GNMIConfig \<Rightarrow> IdentityConfig \<Rightarrow> gnmi_mgr" where
  "gnmi_NewManager ts cfg ident =
     fold gnmi_index ts \<lparr>gm_targets = ts, gm_cfg = cfg, gm_identity = ident, gm_resolver = Map.empty, gm_count = 0\<rparr>"

datatype gnmi_mode = Stopped | ViaProxy | Direct

text \<open>One turn of \<open>Run\<close>; \<open>up\<close> is what the probe of the proxy finds.\<close>

definition run_mode :: "gnmi_mgr \<Rightarrow> bool \<Rightarrow> gnmi_mode" where
  "run_mode m up =
     (if gm_count m = 0 then Stopped else if gc_ProxyAddr (gm_cfg m) \<noteq> '''' \<and> up then ViaProxy else Direct)"

definition probe_interval :: "GNMIConfig \<Rightarrow> int" where
  "probe_interval cfg = (let p = gc_ProxyProbeIntervalMs cfg * 1000000 in if p \<le> 0 then 5 * 1000000000 else p)"

definition subscribers :: "gnmi_mgr \<Rightarrow> gnmi_mode \<Rightarrow> Subscriber list" where
  "subscribers m md =
     (case md of
        Stopped \<Rightarrow> []
      | ViaProxy \<Rightarrow> [NewAggregator (gm_cfg m) (gm_resolver m)]
      | Direct \<Rightarrow>
          (let dcfg = (gm_cfg m)\<lparr>gc_ProxyAddr := '''', gc_Port := gc_FallbackPort (gm_cfg m)\<rparr>
           in map (\<lambda>t. NewSubscriber t dcfg (baseFor (gm_identity m) t)) (filter (\<lambda>t. Has t CapGNMI) (gm_targets m))))"

text \<open>When the fallback ends: at the first probe that finds the proxy, \<open>None\<close> if none does.\<close>

fun fallback_ends :: "GNMIConfig \<Rightarrow> bool list \<Rightarrow> nat option" where
  "fallback_ends cfg [] = None"
| "fallback_ends cfg (up # ups) =
     (if gc_ProxyAddr cfg = '''' then None else if up then Some 0 else map_option Suc (fallback_ends cfg ups))"

definition gnmi_backoff :: "int \<Rightarrow> int" where
  "gnmi_backoff b = (if b < 30 * 1000000000 then b * 2 else b)"

section \<open>The device of a notification\<close>

lemma metric_reading: "rd_kind (metric n t v m) = ''metric''"
  by (simp add: metric_def)

lemma update_readings_metric: "r \<in> set (concat (map (update_readings en t) us)) \<Longrightarrow> rd_kind r = ''metric''"
  by (auto simp: update_readings_def metric_reading Let_def split: option.splits prod.splits if_splits)

lemma decoded:
  assumes "binding_of s (no_Target n) = Some b"
  shows "decodeNotification en s n st =
    device_packets en (db_base b) (db_t b) (\<lambda>_. if no_Timestamp n \<le> 0 then pk_now en (snd st) else no_Timestamp n)
      (concat (map (update_readings en (db_t b)) (no_Update n))) st"
  using assms by (simp add: decodeNotification_def)

lemma fold_upd: "fold (\<lambda>ip r. r(ip \<mapsto> x)) ips r a = (if a \<in> set ips then Some x else r a)"
  by (induction ips arbitrary: r) auto

definition serves :: "string \<Rightarrow> Target \<Rightarrow> bool" where
  "serves a t \<longleftrightarrow> Has t CapGNMI \<and> List.member (device_ips t) a"

lemma resolver_fold:
  "gm_resolver (fold gnmi_index ts m) a =
     (case find (serves a) (rev ts) of
        Some t \<Rightarrow> Some \<lparr>db_t = t, db_base = baseFor (gm_identity m) t\<rparr>
      | None \<Rightarrow> gm_resolver m a)
   \<and> gm_identity (fold gnmi_index ts m) = gm_identity m"
proof (induction ts rule: rev_induct)
  case (snoc t ts)
  then show ?case by (auto simp: gnmi_index_def serves_def fold_upd split: option.splits)
qed simp

lemma resolver_of:
  "gm_resolver (gnmi_NewManager ts cfg ident) a = map_option (\<lambda>t. \<lparr>db_t = t, db_base = baseFor ident t\<rparr>) (find (serves a) (rev ts))"
  by (simp add: gnmi_NewManager_def resolver_fold split: option.split)

text \<open>
  What arrives over the proxy is attributed to the last of the gNMI devices that has the
  address as management, production or gNMI address, with that device's identity and
  routing keys, one signed metric per leaf with consecutive nonces, all with the time of the
  notification; for an address of no device nothing is emitted and no nonce is used.
\<close>

theorem proxy_packets_name_their_device:
  "case decodeNotification en (NewAggregator cfg (gm_resolver (gnmi_NewManager ts cfg ident))) n st of (ps, st') \<Rightarrow>
     (case find (serves (no_Target n)) (rev ts) of
        None \<Rightarrow> ps = [] \<and> st' = st
      | Some t \<Rightarrow>
          list_all (\<lambda>p. packet_of_device en (baseFor ident t) t p \<and> Kind p = ''metric''
            \<and> TimestampNs p = (if no_Timestamp n \<le> 0 then pk_now en (snd st) else no_Timestamp n)) ps
          \<and> map Nonce ps = take_nonces (length ps) (fst st))"
proof -
  let ?s = "NewAggregator cfg (gm_resolver (gnmi_NewManager ts cfg ident))"
  let ?ts = "if no_Timestamp n \<le> 0 then pk_now en (snd st) else no_Timestamp n"
  have b: "binding_of ?s (no_Target n) = map_option (\<lambda>t. \<lparr>db_t = t, db_base = baseFor ident t\<rparr>) (find (serves (no_Target n)) (rev ts))"
    by (simp add: binding_of_def NewAggregator_def resolver_of)
  show ?thesis
  proof (cases "find (serves (no_Target n)) (rev ts)")
    case None
    then show ?thesis using b by (simp add: decodeNotification_def Let_def)
  next
    case (Some t)
    let ?rs = "concat (map (update_readings en t) (no_Update n))"
    obtain ps st' where d: "device_packets en (baseFor ident t) t (\<lambda>_. ?ts) ?rs st = (ps, st')"
      by (cases "device_packets en (baseFor ident t) t (\<lambda>_. ?ts) ?rs st")
    note spec = device_packets_spec [OF d]
    then have r: "reading_of p \<in> set ?rs" if "p \<in> set ps" for p using that by (metis image_eqI set_map)
    have "Kind p = ''metric''" if "p \<in> set ps" for p
      using update_readings_metric [OF r [OF that]] by (simp add: reading_of_def)
    moreover have "TimestampNs p = ?ts" if "p \<in> set ps" for p
    proof -
      have "set (map TimestampNs ps) \<subseteq> {?ts}" using spec by auto
      then show ?thesis using that by auto
    qed
    moreover have "length ps = length ?rs" using spec by (metis length_map)
    ultimately show ?thesis using b Some spec d by (simp add: decoded list_all_iff del: map_concat)
  qed
qed

text \<open>
  Proxy and fallback are interchangeable: a device whose address no other gNMI device has is
  subscribed to directly in the fallback, and that subscription turns a notification of the
  device into exactly the packets that the one subscription of the proxy turns it into.
\<close>

theorem fallback_decodes_alike:
  assumes "t \<in> set ts" and "serves a t" and "\<And>u. u \<in> set ts \<Longrightarrow> serves a u \<Longrightarrow> u = t" and "no_Target n = a"
  shows "\<exists>d \<in> set (subscribers (gnmi_NewManager ts cfg ident) Direct). su_target d = Some t \<and>
    map (\<lambda>s. decodeNotification en s n st) (subscribers (gnmi_NewManager ts cfg ident) ViaProxy) = [decodeNotification en d n st]"
proof -
  let ?m = "gnmi_NewManager ts cfg ident"
  have same: "gm_targets (fold gnmi_index us m) = gm_targets m" "gm_cfg (fold gnmi_index us m) = gm_cfg m" for us m
    by (induction us arbitrary: m) (simp_all add: gnmi_index_def)
  have m: "gm_targets ?m = ts" "gm_identity ?m = ident" by (simp_all add: gnmi_NewManager_def same resolver_fold)
  let ?d = "NewSubscriber t ((gm_cfg ?m)\<lparr>gc_ProxyAddr := '''', gc_Port := gc_FallbackPort (gm_cfg ?m)\<rparr>) (baseFor ident t)"
  have d: "?d \<in> set (subscribers ?m Direct)" using assms(1,2) by (auto simp: subscribers_def Let_def m serves_def)
  obtain u where "find (serves a) (rev ts) = Some u" using assms(1,2) by (cases "find (serves a) (rev ts)") (auto simp: find_None_iff)
  then have "find (serves a) (rev ts) = Some t" using assms(3) [of u] by (auto simp: find_Some_iff) (metis nth_mem rev_nth set_rev length_rev)
  then have "binding_of (NewAggregator (gm_cfg ?m) (gm_resolver ?m)) (no_Target n) = binding_of ?d (no_Target n)"
    using assms(4) by (simp add: binding_of_def NewAggregator_def NewSubscriber_def resolver_of)
  then have "decodeNotification en (NewAggregator (gm_cfg ?m) (gm_resolver ?m)) n st = decodeNotification en ?d n st"
    by (simp add: decodeNotification_def)
  moreover have "su_target ?d = Some t" by (simp add: NewSubscriber_def)
  ultimately show ?thesis using d by (intro bexI [of _ ?d]) (simp_all add: subscribers_def)
qed

section \<open>Trees and scalar leaves\<close>

lemma lower_char_special: "lower_char c = d \<Longrightarrow> d \<notin> set ''abcdefghijklmnopqrstuvwxyz'' \<Longrightarrow> c = d"
proof (cases "map_of lower_tab c")
  case (Some e)
  assume eq: "lower_char c = d" and d: "d \<notin> set ''abcdefghijklmnopqrstuvwxyz''"
  have "(c, e) \<in> set lower_tab" using Some by (rule map_of_SomeD)
  then have "e \<in> set ''abcdefghijklmnopqrstuvwxyz''" unfolding lower_tab_def by (rule set_zip_rightD)
  moreover have "e = d" using eq Some by (simp add: lower_char_def)
  ultimately show ?thesis using d by blast
qed (simp add: lower_char_def)

lemma has_prefix_before: "c \<notin> set q \<Longrightarrow> has_prefix (w @ c # v) q = has_prefix w q"
  by (induction w q rule: has_prefix.induct) (auto elim: has_prefix.elims)

text \<open>A text without the character that separates two parts is in one of them.\<close>

lemma contains_across: "c \<notin> set q \<Longrightarrow> q \<noteq> [] \<Longrightarrow> contains_str (u @ c # v) q \<longleftrightarrow> contains_str u q \<or> contains_str v q"
proof (induction u)
  case Nil
  then show ?case by (cases q) auto
next
  case (Cons x u)
  then show ?case using has_prefix_before [of c q "x # u" v] by auto
qed

lemma contains_prefix: "contains_str s (a @ b) \<Longrightarrow> contains_str s a"
  unfolding contains_str_iff by (metis append.assoc)

definition counter_path :: "string \<Rightarrow> string \<Rightarrow> PathElem list" where
  "counter_path ifname key =
     [\<lparr>el_Name = ''interfaces'', el_Key = []\<rparr>, \<lparr>el_Name = ''interface'', el_Key = [(''name'', ifname)]\<rparr>,
      \<lparr>el_Name = ''state'', el_Key = []\<rparr>, \<lparr>el_Name = ''counters'', el_Key = []\<rparr>, \<lparr>el_Name = key, el_Key = []\<rparr>]"

definition counter_tree :: "string \<Rightarrow> string \<Rightarrow> rat \<Rightarrow> (string \<times> json) list" where
  "counter_tree ifname key v =
     [(''openconfig-interfaces:interfaces'', JObj [(''interface'', JArr [JObj
        [(''name'', JStr ifname), (''state'', JObj [(''counters'', JObj [(key, JNum v)])])]])])]"

lemma counter_path_text:
  assumes "list_all (\<lambda>c. lower_char c = c) key"
  shows "to_lower (pathToString (Some (counter_path ifname key)))
    = ''/interfaces/interface[name'' @ CHR ''='' # (to_lower ifname @ CHR '']'' # (''/state/counters/'' @ key))"
proof -
  have "map lower_char key = key" using assms by (intro map_idI) (simp add: list_all_iff)
  then show ?thesis
    by (simp add: pathToString_def counter_path_def elem_text_def to_lower_def) (simp add: lower_char_def lower_tab_def)
qed

lemma counter_path_contains:
  assumes "\<not> contains_str (to_lower ifname) ''counters/''" and "CHR ''='' \<notin> set k" and "CHR '']'' \<notin> set k"
    and "p = ''/interfaces/interface[name'' @ CHR ''='' # (to_lower ifname @ CHR '']'' # (''/state/counters/'' @ key))"
  shows "contains_str p (''counters/'' @ k) \<longleftrightarrow> contains_str (''/state/counters/'' @ key) (''counters/'' @ k)"
proof -
  let ?q = "''counters/'' @ k"
  have q: "CHR ''='' \<notin> set ?q" "CHR '']'' \<notin> set ?q" "?q \<noteq> []" using assms(2,3) by auto
  have "\<not> contains_str ''/interfaces/interface[name'' ?q" by simp
  moreover have "\<not> contains_str (to_lower ifname) ?q" using assms(1) contains_prefix by blast
  ultimately show ?thesis
    unfolding assms(4) contains_across [OF q(1,3)] contains_across [OF q(2,3)] by simp
qed

lemma counter_path_tag:
  assumes "CHR '']'' \<notin> set ifname"
    and "p = ''/interfaces/interface[name'' @ CHR ''='' # (to_lower ifname @ CHR '']'' # (''/state/counters/'' @ key))"
  shows "ifaceTag p = to_lower ifname"
proof -
  have "CHR '']'' \<notin> set (to_lower ifname)"
  proof
    assume "CHR '']'' \<in> set (to_lower ifname)"
    then obtain x where x: "x \<in> set ifname" "lower_char x = CHR '']''" by (auto simp: to_lower_def)
    have "x = CHR '']''" by (rule lower_char_special [OF x(2)]) simp
    then show False using x(1) assms(1) by simp
  qed
  then have t: "takeWhile (\<lambda>c. c \<noteq> CHR '']'') (to_lower ifname @ CHR '']'' # r) = to_lower ifname" for r
    by (subst takeWhile_append2) auto
  show ?thesis unfolding assms(2) ifaceTag_def extractBracketKey_def by (simp add: t)
qed

text \<open>The first eight choices of \<open>mapPath\<close> on the part of the path that follows the name.\<close>

definition counter_choice :: "string \<Rightarrow> string" where
  "counter_choice s =
     (if contains_str s ''counters/in-octets'' then ''interface.bytes_received_hc''
      else if contains_str s ''counters/out-octets'' then ''interface.bytes_sent_hc''
      else if contains_str s ''counters/in-unicast-pkts'' then ''interface.packets_received_unicast''
      else if contains_str s ''counters/out-unicast-pkts'' then ''interface.packets_sent_unicast''
      else if contains_str s ''counters/in-errors'' then ''interface.errors_received''
      else if contains_str s ''counters/out-errors'' then ''interface.errors_sent''
      else if contains_str s ''counters/in-discards'' then ''interface.discards_received''
      else if contains_str s ''counters/out-discards'' then ''interface.discards_sent''
      else '''')"

lemma counter_choice_key: "(key, m) \<in> set counter_metrics \<Longrightarrow> counter_choice (''/state/counters/'' @ key) = m \<and> m \<noteq> []"
proof -
  have "list_all (\<lambda>(key, m). counter_choice (''/state/counters/'' @ key) = m \<and> m \<noteq> []) counter_metrics" by code_simp
  then show "(key, m) \<in> set counter_metrics \<Longrightarrow> ?thesis" by (auto simp: list_all_iff)
qed

lemma choose_pair:
  "(if b1 then m1 else if b2 then m2 else if b3 then m3 else if b4 then m4 else if b5 then m5 else if b6 then m6 else if b7 then m7 else if b8 then m8 else []) = m \<Longrightarrow> m \<noteq> [] \<Longrightarrow>
   (if b1 then (m1, t) else if b2 then (m2, t) else if b3 then (m3, t) else if b4 then (m4, t) else if b5 then (m5, t) else if b6 then (m6, t) else if b7 then (m7, t) else if b8 then (m8, t) else r) = (m, t)"
  by (simp split: if_splits)

lemma counter_mapPath:
  assumes "(key, m) \<in> set counter_metrics" and "CHR '']'' \<notin> set ifname" and "\<not> contains_str (to_lower ifname) ''counters/''"
  shows "mapPath (pathToString (Some (counter_path ifname key))) = (m, to_lower ifname)"
proof -
  let ?p = "''/interfaces/interface[name'' @ CHR ''='' # (to_lower ifname @ CHR '']'' # (''/state/counters/'' @ key))"
  have "list_all (\<lambda>(key, m). list_all (\<lambda>c. lower_char c = c) key) counter_metrics" by code_simp
  then have lower: "to_lower (pathToString (Some (counter_path ifname key))) = ?p"
    using assms(1) by (intro counter_path_text) (auto simp only: list_all_iff)
  note tag = counter_path_tag [OF assms(2) refl, of key]
  note has = counter_path_contains [OF assms(3) _ _ refl, of _ key]

  have h1: "contains_str ?p ''counters/in-octets'' = contains_str (''/state/counters/'' @ key) ''counters/in-octets''"
    using has [of "''in-octets''"] by (simp only: append.simps) simp
  have h2: "contains_str ?p ''counters/out-octets'' = contains_str (''/state/counters/'' @ key) ''counters/out-octets''"
    using has [of "''out-octets''"] by (simp only: append.simps) simp
  have h3: "contains_str ?p ''counters/in-unicast-pkts'' = contains_str (''/state/counters/'' @ key) ''counters/in-unicast-pkts''"
    using has [of "''in-unicast-pkts''"] by (simp only: append.simps) simp
  have h4: "contains_str ?p ''counters/out-unicast-pkts'' = contains_str (''/state/counters/'' @ key) ''counters/out-unicast-pkts''"
    using has [of "''out-unicast-pkts''"] by (simp only: append.simps) simp
  have h5: "contains_str ?p ''counters/in-errors'' = contains_str (''/state/counters/'' @ key) ''counters/in-errors''"
    using has [of "''in-errors''"] by (simp only: append.simps) simp
  have h6: "contains_str ?p ''counters/out-errors'' = contains_str (''/state/counters/'' @ key) ''counters/out-errors''"
    using has [of "''out-errors''"] by (simp only: append.simps) simp
  have h7: "contains_str ?p ''counters/in-discards'' = contains_str (''/state/counters/'' @ key) ''counters/in-discards''"
    using has [of "''in-discards''"] by (simp only: append.simps) simp
  have h8: "contains_str ?p ''counters/out-discards'' = contains_str (''/state/counters/'' @ key) ''counters/out-discards''"
    using has [of "''out-discards''"] by (simp only: append.simps) simp
  note choice = counter_choice_key [OF assms(1), unfolded counter_choice_def]
  show ?thesis
    unfolding mapPath_def lower Let_def tag h1 h2 h3 h4 h5 h6 h7 h8
    by (rule choose_pair [OF conjunct1 [OF choice] conjunct2 [OF choice]])
qed

lemma measured_update:
  assumes "binding_of s (no_Target n) = Some b"
  shows "map measured (fst (decodeNotification en s n st))
    = map (\<lambda>r. (rd_name r, rd_tag r, rd_value r)) (concat (map (update_readings en (db_t b)) (no_Update n)))"
  by (simp only: decoded [OF assms] measured_readings)

lemma tree_update:
  assumes "raw \<noteq> ''''" and "gv_json en raw = Some (JObj m)"
  shows "map (\<lambda>r. (rd_name r, rd_tag r, rd_value r)) (update_readings en t (path, Some (JsonIetfVal raw))) = emitTree en m"
proof -
  have "(\<lambda>r. (rd_name r, rd_tag r, rd_value r)) \<circ> (\<lambda>(name, tag, v). metric name tag v (gnmi_meta t name)) = id"
    by (auto simp: metric_def fun_eq_iff)
  then show ?thesis using assms by (simp add: update_readings_def object_of_def jsonBytesOf_def)
qed

lemma scalar_update:
  "map (\<lambda>r. (rd_name r, rd_tag r, rd_value r)) (update_readings en t (path, Some (UintVal v)))
    = (case mapPath (pathToString path) of (name, tag) \<Rightarrow> if name = '''' then [] else [(name, tag, of_int (uint v))])"
  by (simp add: update_readings_def object_of_def jsonBytesOf_def extractValue_def metric_def Let_def split: prod.split)

lemma counter_tree_leaves:
  assumes "(key, m) \<in> set counter_metrics" and "ifname \<noteq> ''''"
  shows "emitTree en (counter_tree ifname key v) = [(m, ifname, v)]"
proof -
  have n: "num en (JNum v) = Some v" "num en JNull = None" "statusVal JNull = None" by (simp_all add: num_def statusVal_def)
  have "concat (map (\<lambda>(k, m). leaf_if m ifname (num en (jget [(key, JNum v)] k))) counter_metrics) = [(m, ifname, v)]"
    using assms(1) unfolding counter_metrics_def jget_def by (auto simp: n leaf_if_def)
  then show ?thesis using assms(2)
    unfolding emitTree_def counter_tree_def
    by (simp add: jget_def as_arr_def as_str_def iface_leaves_def is_obj_def memory_leaves_def n leaf_if_def)
qed

text \<open>
  C23. An interface counter gives the same metric with the same value whether the device sends
  it in its JSON tree or as a scalar leaf, for all eight counters; the tag is the interface
  name in the tree but its lower-case form in a leaf, so that the two agree exactly on
  names without capitals.
\<close>

theorem counter_leaf_and_tree:
  assumes "(key, m) \<in> set counter_metrics" and "ifname \<noteq> ''''" and "CHR '']'' \<notin> set ifname"
    and "\<not> contains_str (to_lower ifname) ''counters/''" and "binding_of s a = Some b"
    and "raw \<noteq> ''''" and "gv_json en raw = Some (JObj (counter_tree ifname key (of_int (uint v))))"
  shows "map measured (fst (decodeNotification en s \<lparr>no_Timestamp = ts, no_Target = a, no_Update = [(None, Some (JsonIetfVal raw))]\<rparr> st))
      = [(m, ifname, of_int (uint v))]
    \<and> map measured (fst (decodeNotification en s
        \<lparr>no_Timestamp = ts, no_Target = a, no_Update = [(Some (counter_path ifname key), Some (UintVal v))]\<rparr> st))
      = [(m, to_lower ifname, of_int (uint v))]"
proof -
  have "m \<noteq> ''''" using counter_choice_key [OF assms(1)] by simp
  then have "map (\<lambda>r. (rd_name r, rd_tag r, rd_value r)) (update_readings en (db_t b) (Some (counter_path ifname key), Some (UintVal v)))
      = [(m, to_lower ifname, of_int (uint v))]"
    unfolding scalar_update counter_mapPath [OF assms(1,3,4)] by simp
  moreover have "map (\<lambda>r. (rd_name r, rd_tag r, rd_value r)) (update_readings en (db_t b) (None, Some (JsonIetfVal raw)))
      = [(m, ifname, of_int (uint v))]"
    unfolding tree_update [OF assms(6,7)] by (rule counter_tree_leaves [OF assms(1,2)])
  ultimately show ?thesis using assms(5) by (simp add: measured_update)
qed

definition plain_path :: "string list \<Rightarrow> PathElem list" where
  "plain_path xs = map (\<lambda>x. \<lparr>el_Name = x, el_Key = []\<rparr>) xs"

text \<open>
  C40. Two leaves of the system tree are read differently: the uptime in seconds becomes
  centiseconds from the tree only, and the utilization of the memory is reported as a
  number of bytes in use from a leaf.
\<close>

theorem scalar_system_leaves_differ:
  assumes "binding_of s a = Some b" and "raw \<noteq> ''''"
    and "gv_json en raw = Some (JObj [(''openconfig-system:system'', JObj
          [(''state'', JObj [(''uptime'', JNum (of_int (uint u)))]), (''memory'', JObj [(''state'', JObj [(''utilized'', JNum (of_int (uint w)))])])])])"
  shows "map measured (fst (decodeNotification en s \<lparr>no_Timestamp = ts, no_Target = a, no_Update = [(None, Some (JsonIetfVal raw))]\<rparr> st))
      = [(''system.uptime_centiseconds'', '''', 100 * of_int (uint u)), (''system.memory_utilization_percent'', '''', of_int (uint w))]
    \<and> map measured (fst (decodeNotification en s
        \<lparr>no_Timestamp = ts, no_Target = a, no_Update =
          [(Some (plain_path [''system'', ''state'', ''uptime'']), Some (UintVal u)),
           (Some (plain_path [''system'', ''memory'', ''state'', ''utilized'']), Some (UintVal w))]\<rparr> st))
      = [(''system.uptime_centiseconds'', '''', of_int (uint u)), (''system.memory_used_bytes'', '''', of_int (uint w))]"
proof -
  have "mapPath (pathToString (Some (plain_path [''system'', ''state'', ''uptime'']))) = (''system.uptime_centiseconds'', '''')"
    and "mapPath (pathToString (Some (plain_path [''system'', ''memory'', ''state'', ''utilized'']))) = (''system.memory_used_bytes'', '''')"
    by code_simp+
  then have "map (\<lambda>r. (rd_name r, rd_tag r, rd_value r)) (concat (map (update_readings en (db_t b))
        [(Some (plain_path [''system'', ''state'', ''uptime'']), Some (UintVal u)),
         (Some (plain_path [''system'', ''memory'', ''state'', ''utilized'']), Some (UintVal w))]))
      = [(''system.uptime_centiseconds'', '''', of_int (uint u)), (''system.memory_used_bytes'', '''', of_int (uint w))]"
    by (simp only: list.map concat.simps map_append scalar_update prod.case) simp
  moreover have "emitTree en [(''openconfig-system:system'', JObj
          [(''state'', JObj [(''uptime'', JNum (of_int (uint u)))]), (''memory'', JObj [(''state'', JObj [(''utilized'', JNum (of_int (uint w)))])])])]
      = [(''system.uptime_centiseconds'', '''', 100 * of_int (uint u)), (''system.memory_utilization_percent'', '''', of_int (uint w))]"
    by (simp add: emitTree_def jget_def as_arr_def memory_leaves_def num_def leaf_if_def)
  ultimately show ?thesis using assms(1) tree_update [OF assms(2,3), of "db_t b" None]
    by (simp add: measured_update)
qed

text \<open>
  A leaf that is encoded as a JSON value but is no object gives no packet: the fall through to
  the scalar leaves finds no scalar there.
\<close>

theorem json_leaf_is_dropped:
  assumes "jsonBytesOf v \<noteq> ''''" and "case gv_json en (jsonBytesOf v) of Some j \<Rightarrow> \<not> is_obj j | None \<Rightarrow> True"
  shows "update_readings en t (path, v) = []"
proof -
  have "object_of en v = None \<or> object_of en v = Some []"
    using assms by (auto simp: object_of_def is_obj_def split: option.splits json.splits)
  moreover have "extractValue v = None"
    using assms(1) by (auto simp: jsonBytesOf_def extractValue_def split: option.splits TypedValue.splits)
  moreover have "emitTree en [] = []"
    by (simp add: emitTree_def jget_def as_arr_def memory_leaves_def num_def leaf_if_def)
  ultimately show ?thesis by (auto simp: update_readings_def Let_def split: prod.split)
qed

section \<open>Examples\<close>

definition gnmi_switch :: Target where
  "gnmi_switch = old_switch\<lparr>tg_Caps := CapSNMP OR CapGNMI\<rparr>"

definition sample_gnmi :: "json option \<Rightarrow> gnmi_env" where
  "sample_gnmi doc = \<lparr>pk_now = (\<lambda>_. 1), pk_id = (\<lambda>_. ''''), pk_sign = (\<lambda>bs. bs), pk_scaled = (\<lambda>_. 0),
     gv_json = (\<lambda>_. doc), gv_parse = (\<lambda>_. None), gv_show = as_str\<rparr>"

definition direct_cfg :: GNMIConfig where
  "direct_cfg = \<lparr>gc_ProxyAddr = '''', gc_Port = 57400, gc_FallbackPort = 57400, gc_ProxyProbeIntervalMs = 0, gc_PollInterval = 0\<rparr>"

abbreviation direct_sub :: Subscriber where
  "direct_sub \<equiv> NewSubscriber gnmi_switch direct_cfg no_base"

lemma direct_binding: "binding_of direct_sub a = Some \<lparr>db_t = gnmi_switch, db_base = no_base\<rparr>"
  by (simp add: binding_of_def NewSubscriber_def)

lemma counter_leaf_and_tree_witness:
  "map measured (fst (decodeNotification (sample_gnmi (Some (JObj (counter_tree ''Ethernet1/1'' ''in-octets'' 7)))) direct_sub
      \<lparr>no_Timestamp = 5, no_Target = '''', no_Update = [(None, Some (JsonIetfVal ''x''))]\<rparr> (NewSigner ''e'' 0, 0)))
    = [(''interface.bytes_received_hc'', ''Ethernet1/1'', 7)]
   \<and> map measured (fst (decodeNotification (sample_gnmi (Some (JObj (counter_tree ''Ethernet1/1'' ''in-octets'' 7)))) direct_sub
      \<lparr>no_Timestamp = 5, no_Target = '''', no_Update = [(Some (counter_path ''Ethernet1/1'' ''in-octets''), Some (UintVal 7))]\<rparr> (NewSigner ''e'' 0, 0)))
    = [(''interface.bytes_received_hc'', ''ethernet1/1'', 7)]"
proof -
  have k: "(''in-octets'', ''interface.bytes_received_hc'') \<in> set counter_metrics" by (simp add: counter_metrics_def)
  have l: "to_lower ''Ethernet1/1'' = ''ethernet1/1''" by code_simp
  have c: "\<not> contains_str (to_lower ''Ethernet1/1'') ''counters/''" by code_simp
  have j: "gv_json (sample_gnmi (Some (JObj (counter_tree ''Ethernet1/1'' ''in-octets'' 7)))) ''x''
      = Some (JObj (counter_tree ''Ethernet1/1'' ''in-octets'' (of_int (uint (7 :: 64 word)))))"
    by (simp add: sample_gnmi_def)
  show ?thesis using counter_leaf_and_tree [OF k _ _ c direct_binding _ j] unfolding l by simp
qed

definition system_doc :: json where
  "system_doc = JObj [(''openconfig-system:system'', JObj
     [(''state'', JObj [(''uptime'', JNum 60)]), (''memory'', JObj [(''state'', JObj [(''utilized'', JNum 40)])])])]"

lemma scalar_system_leaves_differ_witness:
  "map measured (fst (decodeNotification (sample_gnmi (Some system_doc)) direct_sub
      \<lparr>no_Timestamp = 5, no_Target = '''', no_Update = [(None, Some (JsonIetfVal ''x''))]\<rparr> (NewSigner ''e'' 0, 0)))
    = [(''system.uptime_centiseconds'', '''', 6000), (''system.memory_utilization_percent'', '''', 40)]
   \<and> map measured (fst (decodeNotification (sample_gnmi (Some system_doc)) direct_sub
      \<lparr>no_Timestamp = 5, no_Target = '''', no_Update =
        [(Some (plain_path [''system'', ''state'', ''uptime'']), Some (UintVal 60)),
         (Some (plain_path [''system'', ''memory'', ''state'', ''utilized'']), Some (UintVal 40))]\<rparr> (NewSigner ''e'' 0, 0)))
    = [(''system.uptime_centiseconds'', '''', 60), (''system.memory_used_bytes'', '''', 40)]"
proof -
  have j: "gv_json (sample_gnmi (Some system_doc)) ''x'' = Some (JObj [(''openconfig-system:system'', JObj
      [(''state'', JObj [(''uptime'', JNum (of_int (uint (60 :: 64 word))))]),
       (''memory'', JObj [(''state'', JObj [(''utilized'', JNum (of_int (uint (40 :: 64 word))))])])])])"
    by (simp add: sample_gnmi_def system_doc_def)
  show ?thesis
    using scalar_system_leaves_differ [OF direct_binding [of "''''"] _ j, where ts = 5 and st = "(NewSigner ''e'' 0, 0)"] by simp
qed

lemma json_leaf_is_dropped_witness:
  "update_readings (sample_gnmi (Some (JNum 42))) gnmi_switch (Some (counter_path ''e1'' ''in-octets''), Some (JsonIetfVal ''42'')) = []"
  by (rule json_leaf_is_dropped) (simp_all add: jsonBytesOf_def sample_gnmi_def is_obj_def)

lemma fallback_decodes_alike_witness:
  "\<exists>d \<in> set (subscribers (gnmi_NewManager [old_switch, gnmi_switch] direct_cfg
        \<lparr>idc_OrgID = ''o'', idc_DatacenterID = ''dc'', idc_FloorID = ''f'', idc_NetworkID = ''n'', idc_GroupID = ''g'', idc_ReaderID = ''r''\<rparr>) Direct).
    su_target d = Some gnmi_switch"
proof -
  have s: "serves ''192.168.0.1'' gnmi_switch" "\<not> serves ''192.168.0.1'' old_switch"
    by (simp_all add: serves_def device_ips_def gnmi_switch_def old_switch_def Has_def CapSNMP_def CapGNMI_def)
  show ?thesis
    using fallback_decodes_alike [of gnmi_switch "[old_switch, gnmi_switch]" "''192.168.0.1''"
        "\<lparr>no_Timestamp = 5, no_Target = ''192.168.0.1'', no_Update = []\<rparr>" direct_cfg _ "sample_gnmi None" "(NewSigner ''e'' 0, 0)"] s
    by fastforce
qed

end
