(* ===== verification/Subnets.thy ===== *)
theory Subnets
  imports Edge_Sources
begin

text \<open>
  The subnets of \<open>fwEDR/internal/discovery/sweep.go\<close>: the standard library's \<open>net.ParseCIDR\<close> and
  \<open>IPNet.Contains\<close> for dotted addresses, the in-place increment and the loop over the
  addresses of a subnet, which is proved to run through exactly the numbers of its block.
\<close>

section \<open>Addresses and subnets\<close>

type_synonym ip_addr = "byte list"

definition to4 :: "ip_addr \<Rightarrow> ip_addr option" where
  "to4 ip =
     (if length ip = 4 then Some ip
      else if length ip = 16 \<and> take 12 ip = replicate 10 0 @ [0xFF, 0xFF] then Some (drop 12 ip)
      else None)"

definition normal_ip :: "ip_addr \<Rightarrow> ip_addr" where
  "normal_ip ip = (case to4 ip of Some x \<Rightarrow> x | None \<Rightarrow> ip)"

text \<open>\<open>net.CIDRMask\<close> of \<open>n\<close> leading ones over \<open>len\<close> bytes, and \<open>IPNet.Contains\<close>.\<close>

definition mask_byte :: "nat \<Rightarrow> byte" where
  "mask_byte k = push_bit (8 - k) (mask k)"

fun cidr_mask :: "nat \<Rightarrow> nat \<Rightarrow> byte list" where
  "cidr_mask n 0 = []"
| "cidr_mask n (Suc len) = mask_byte (min n 8) # cidr_mask (n - 8) len"

record IPNet =
  nt_IP :: ip_addr
  nt_Mask :: "byte list"

definition Contains :: "IPNet \<Rightarrow> ip_addr \<Rightarrow> bool" where
  "Contains nt ip \<longleftrightarrow>
     (let nn = normal_ip (nt_IP nt);
          m = (if length (nt_Mask nt) = 16 \<and> length nn = 4 then drop 12 (nt_Mask nt) else nt_Mask nt);
          x = normal_ip ip
      in length m = length nn \<and> length x = length nn
         \<and> list_all (\<lambda>(a, b, c). a AND b = c AND b) (zip nn (zip m x)))"

text \<open>
  \<open>net.ParseCIDR\<close>: the dotted form is written out, an address with colons is left to \<open>ip6\<close>.
\<close>

definition ParseCIDR :: "(string \<Rightarrow> IPNet option) \<Rightarrow> string \<Rightarrow> IPNet option" where
  "ParseCIDR ip6 s =
     (let a = before_slash s; m = drop (Suc (length a)) s
      in if CHR ''/'' \<notin> set s then None
         else if \<not> parse_ip4 a then ip6 s
         else if m = '''' \<or> \<not> list_all is_digit m \<or> digits_val m > 32 then None
         else let mk = cidr_mask (digits_val m) 4
              in Some \<lparr>nt_IP = map (\<lambda>(b, k). b AND k) (zip (map (\<lambda>f. word_of_nat (digits_val f)) (split_on dot a)) mk), nt_Mask = mk\<rparr>)"

fun inc_rev :: "byte list \<Rightarrow> byte list" where
  "inc_rev [] = []"
| "inc_rev (b # bs) = (if b + 1 \<noteq> 0 then (b + 1) # bs else 0 # inc_rev bs)"

definition incrementIP :: "ip_addr \<Rightarrow> ip_addr" where
  "incrementIP ip = rev (inc_rev (rev ip))"

definition host_byte :: "ip_addr \<Rightarrow> bool" where
  "host_byte ip \<longleftrightarrow> \<not> (last ip = 0 \<or> last ip = 255)"

text \<open>The loop over one subnet; \<open>None\<close>: it does not end.\<close>

partial_function (option) expand_loop :: "IPNet \<Rightarrow> ip_addr \<Rightarrow> ip_addr list \<Rightarrow> ip_addr list option" where
  "expand_loop nt ip acc =
     (if Contains nt ip then expand_loop nt (incrementIP ip) (if host_byte ip then acc @ [ip] else acc) else Some acc)"

definition show_ip4 :: "ip_addr \<Rightarrow> string" where
  "show_ip4 ip = (case map (\<lambda>b. itoa (uint b)) ip of [] \<Rightarrow> '''' | x # xs \<Rightarrow> x @ concat (map (\<lambda>y. ''.'' @ y) xs))"

definition show_ip :: "(ip_addr \<Rightarrow> string) \<Rightarrow> ip_addr \<Rightarrow> string" where
  "show_ip show6 ip = (if length ip = 4 then show_ip4 ip else show6 ip)"

text \<open>The outer \<open>None\<close>: does not end; the inner one: an invalid subnet.\<close>

fun expandSubnets :: "(string \<Rightarrow> IPNet option) \<Rightarrow> (ip_addr \<Rightarrow> string) \<Rightarrow> string list \<Rightarrow> string list option option" where
  "expandSubnets ip6 show6 [] = Some (Some [])"
| "expandSubnets ip6 show6 (c # cs) =
     (case ParseCIDR ip6 c of
        None \<Rightarrow> Some None
      | Some nt \<Rightarrow>
          (case expand_loop nt (nt_IP nt) [] of
             None \<Rightarrow> None
           | Some ips \<Rightarrow>
               (case expandSubnets ip6 show6 cs of
                  None \<Rightarrow> None
                | Some None \<Rightarrow> Some None
                | Some (Some rest) \<Rightarrow> Some (Some (map (show_ip show6) ips @ rest)))))"

section \<open>The value of an address\<close>

fun ipval :: "byte list \<Rightarrow> nat" where
  "ipval [] = 0"
| "ipval (b # bs) = unat b * 256 ^ length bs + ipval bs"

lemma byte_lt: "unat (b :: byte) < 256"
proof -
  have "unat b < 2 ^ LENGTH(8)" by (rule unsigned_less)
  then show ?thesis by simp
qed

lemma ipval_lt: "ipval bs < 256 ^ length bs"
proof (induction bs)
  case (Cons b bs)
  have "unat b * 256 ^ length bs \<le> 255 * 256 ^ length bs" using byte_lt [of b] by (intro mult_right_mono) auto
  with Cons show ?case by (simp only: ipval.simps length_Cons power_Suc)
qed simp

lemma ipval_append: "ipval (xs @ ys) = ipval xs * 256 ^ length ys + ipval ys"
  by (induction xs) (simp_all add: algebra_simps power_add)

lemma inc_rev_spec: "length (inc_rev bs) = length bs \<and> ipval (rev (inc_rev bs)) = (ipval (rev bs) + 1) mod 256 ^ length bs"
proof (induction bs)
  case (Cons b bs)
  let ?v = "ipval (rev bs)" and ?n = "length bs"
  have v: "?v < 256 ^ ?n" using ipval_lt [of "rev bs"] by simp
  show ?case
  proof (cases "b + 1 = 0")
    case True
    then have "b = - 1" by (simp add: eq_neg_iff_add_eq_0)
    then have "unat b = 255" by (simp add: unsigned_minus_1_eq_mask mask_eq_exp_minus_1)
    moreover have "(?v * 256 + 256) mod (256 ^ ?n * 256) = (?v + 1) mod 256 ^ ?n * 256"
      using mult_mod_left [of "?v + 1" "256 ^ ?n" 256] by (simp add: algebra_simps)
    ultimately show ?thesis using True Cons by (simp add: ipval_append algebra_simps)
  next
    case False
    then have u: "unat (b + 1) = unat b + 1" using unatSuc [of b] by (simp add: add.commute)
    have "?v * 256 + unat b + 1 < 256 ^ Suc ?n"
    proof -
      have "unat b + 1 < 256" using u byte_lt [of "b + 1"] by simp
      moreover have "(?v + 1) * 256 \<le> 256 ^ ?n * 256" using v by (intro mult_right_mono) auto
      ultimately show ?thesis by simp
    qed
    then show ?thesis using False Cons u by (simp add: ipval_append)
  qed
qed simp

lemma increment_spec [simp]:
  "length (incrementIP ip) = length ip" "ipval (incrementIP ip) = (ipval ip + 1) mod 256 ^ length ip"
  using inc_rev_spec [of "rev ip"] by (simp_all add: incrementIP_def)

lemma host_byte_val: "ip \<noteq> [] \<Longrightarrow> host_byte ip \<longleftrightarrow> ipval ip mod 256 \<notin> {0, 255}"
proof -
  assume "ip \<noteq> []"
  then obtain xs b where ip: "ip = xs @ [b]" by (metis rev_exhaust)
  have "ipval ip mod 256 = unat b" using byte_lt [of b] by (simp add: ip ipval_append)
  moreover have "b = 255 \<longleftrightarrow> unat b = 255" using word_unat_eq_iff [of b 255] by simp
  moreover have "b = 0 \<longleftrightarrow> unat b = 0" by (simp add: unat_eq_zero)
  ultimately show ?thesis by (simp add: ip host_byte_def)
qed

section \<open>Subnets are ranges\<close>

lemma bit_mask_byte: "k \<le> 8 \<Longrightarrow> bit (mask_byte k) n \<longleftrightarrow> 8 - k \<le> n \<and> n < 8"
  by (auto simp: mask_byte_def bit_push_bit_iff bit_mask_iff)

lemma masked_byte:
  assumes "k \<le> 8"
  shows "a AND mask_byte k = c AND mask_byte k \<longleftrightarrow> unat a div 2 ^ (8 - k) = unat c div 2 ^ (8 - k)"
    and "unat (a AND mask_byte k) mod 2 ^ (8 - k) = 0"
proof -
  have "a AND mask_byte k = c AND mask_byte k \<longleftrightarrow> drop_bit (8 - k) a = drop_bit (8 - k) c"
  proof
    assume eq: "a AND mask_byte k = c AND mask_byte k"
    have "bit a (8 - k + n) = bit c (8 - k + n)" for n
    proof (cases "8 - k + n < 8")
      case True
      then show ?thesis using eq assms by (metis bit_and_iff bit_mask_byte le_add1)
    next
      case False
      then have "\<not> bit a (8 - k + n)" "\<not> bit c (8 - k + n)" using bit_imp_le_length [of a] bit_imp_le_length [of c] by auto
      then show ?thesis by simp
    qed
    then show "drop_bit (8 - k) a = drop_bit (8 - k) c" by (intro bit_word_eqI) (simp add: bit_drop_bit_eq)
  next
    assume eq: "drop_bit (8 - k) a = drop_bit (8 - k) c"
    have "bit a n = bit c n" if "8 - k \<le> n" for n
    proof -
      have "bit (drop_bit (8 - k) a) (n - (8 - k)) = bit (drop_bit (8 - k) c) (n - (8 - k))" by (simp only: eq)
      then show ?thesis using that by (simp add: bit_drop_bit_eq)
    qed
    then show "a AND mask_byte k = c AND mask_byte k" using assms by (intro bit_word_eqI) (auto simp: bit_and_iff bit_mask_byte)
  qed
  also have "\<dots> \<longleftrightarrow> unat (drop_bit (8 - k) a) = unat (drop_bit (8 - k) c)" by (rule word_unat_eq_iff)
  also have "\<dots> \<longleftrightarrow> unat a div 2 ^ (8 - k) = unat c div 2 ^ (8 - k)" unfolding unat_drop_bit_eq by (simp only: drop_bit_eq_div)
  finally show "a AND mask_byte k = c AND mask_byte k \<longleftrightarrow> unat a div 2 ^ (8 - k) = unat c div 2 ^ (8 - k)" .
  have "take_bit (8 - k) (a AND mask_byte k) = 0"
    by (rule bit_eqI) (use assms in \<open>auto simp: bit_take_bit_iff bit_and_iff bit_mask_byte\<close>)
  then have "take_bit (8 - k) (unat (a AND mask_byte k)) = 0" by (metis unat_0 unsigned_take_bit_eq)
  then show "unat (a AND mask_byte k) mod 2 ^ (8 - k) = 0" by (simp add: take_bit_eq_mod)
qed

lemma length_cidr_mask [simp]: "length (cidr_mask n len) = len"
  by (induction len arbitrary: n) simp_all

definition same_bits :: "byte list \<Rightarrow> byte list \<Rightarrow> byte list \<Rightarrow> bool" where
  "same_bits xs m ys \<longleftrightarrow> list_all (\<lambda>(a, b, c). a AND b = c AND b) (zip xs (zip m ys))"

lemma div_split:
  fixes a b v w :: nat
  assumes "e \<le> f" and "v < 2 ^ f" and "w < 2 ^ f"
  shows "(a * 2 ^ f + v) div 2 ^ e = (b * 2 ^ f + w) div 2 ^ e \<longleftrightarrow> a = b \<and> v div 2 ^ e = w div 2 ^ e"
proof -
  have f: "2 ^ f = (2 :: nat) ^ (f - e) * 2 ^ e" using assms(1) by (simp add: power_add [symmetric])
  have s: "(a * 2 ^ f + v) div 2 ^ e = a * 2 ^ (f - e) + v div 2 ^ e" for a v :: nat
    unfolding f by (simp add: mult.assoc [symmetric])
  have l: "v div 2 ^ e < 2 ^ (f - e)" if "v < 2 ^ f" for v :: nat
    using that unfolding f by (simp add: less_mult_imp_div_less)
  show ?thesis
  proof
    assume "(a * 2 ^ f + v) div 2 ^ e = (b * 2 ^ f + w) div 2 ^ e"
    then have *: "a * 2 ^ (f - e) + v div 2 ^ e = b * 2 ^ (f - e) + w div 2 ^ e" by (simp only: s)
    have "a = (a * 2 ^ (f - e) + v div 2 ^ e) div 2 ^ (f - e)" using l [OF assms(2)] by simp
    also have "\<dots> = b" unfolding * using l [OF assms(3)] by simp
    finally show "a = b \<and> v div 2 ^ e = w div 2 ^ e" using * by simp
  qed (simp only: s)
qed

text \<open>Two addresses agree under a mask of \<open>n\<close> bits iff they lie in the same block.\<close>

lemma same_bits_iff:
  "length xs = len \<Longrightarrow> length ys = len \<Longrightarrow> n \<le> 8 * len \<Longrightarrow>
   same_bits xs (cidr_mask n len) ys \<longleftrightarrow> ipval xs div 2 ^ (8 * len - n) = ipval ys div 2 ^ (8 * len - n)"
proof (induction len arbitrary: xs ys n)
  case (Suc len)
  then obtain a xs' c ys' where l: "xs = a # xs'" "ys = c # ys'" "length xs' = len" "length ys' = len"
    by (metis length_Suc_conv)
  have p: "(256 :: nat) ^ len = 2 ^ (8 * len)" by (simp add: power_mult)
  have b: "ipval xs' < 2 ^ (8 * len)" "ipval ys' < 2 ^ (8 * len)" using ipval_lt [of xs'] ipval_lt [of ys'] l(3,4) by (simp_all add: p)
  have step: "same_bits xs (cidr_mask n (Suc len)) ys \<longleftrightarrow>
      unat a div 2 ^ (8 - min n 8) = unat c div 2 ^ (8 - min n 8) \<and> same_bits xs' (cidr_mask (n - 8) len) ys'"
    unfolding l(1,2) by (simp add: same_bits_def masked_byte)
  have v: "ipval xs = unat a * 2 ^ (8 * len) + ipval xs'" "ipval ys = unat c * 2 ^ (8 * len) + ipval ys'"
    using l by (simp_all add: p)
  show ?case
  proof (cases "8 \<le> n")
    case True
    then have e: "8 * Suc len - n = 8 * len - (n - 8)" "8 * len - (n - 8) \<le> 8 * len" by auto
    have "same_bits xs' (cidr_mask (n - 8) len) ys' \<longleftrightarrow> ipval xs' div 2 ^ (8 * len - (n - 8)) = ipval ys' div 2 ^ (8 * len - (n - 8))"
      using Suc.IH [OF l(3,4)] Suc.prems(3) True by simp
    then show ?thesis unfolding step e(1) v div_split [OF e(2) b] using True by simp
  next
    case False
    then have e: "8 * Suc len - n = 8 * len + (8 - n)" "n - 8 = 0" by auto
    have "same_bits xs' (cidr_mask 0 len) ys'"
      using Suc.IH [OF l(3,4), of 0] b by simp
    moreover have "(u * 2 ^ (8 * len) + w) div 2 ^ (8 * len + (8 - n)) = u div 2 ^ (8 - n)" if "w < 2 ^ (8 * len)" for u w :: nat
      using that by (simp add: power_add div_mult2_eq)
    ultimately show ?thesis unfolding step e(1) v using False b by (simp add: e(2))
  qed
qed (simp add: same_bits_def)

lemma masked_aligned:
  "length xs = len \<Longrightarrow> n \<le> 8 * len \<Longrightarrow> 2 ^ (8 * len - n) dvd ipval (map (\<lambda>(b, k). b AND k) (zip xs (cidr_mask n len)))"
proof (induction len arbitrary: xs n)
  case (Suc len)
  then obtain a xs' where l: "xs = a # xs'" "length xs' = len" by (metis length_Suc_conv)
  have p: "(256 :: nat) ^ len = 2 ^ (8 * len)" by (simp add: power_mult)
  let ?t = "map (\<lambda>(b, k). b AND k) (zip xs' (cidr_mask (n - 8) len))"
  have v: "ipval (map (\<lambda>(b, k). b AND k) (zip xs (cidr_mask n (Suc len)))) = unat (a AND mask_byte (min n 8)) * 2 ^ (8 * len) + ipval ?t"
    using l by (simp add: p)
  have t: "2 ^ (8 * len - (n - 8)) dvd ipval ?t" using Suc.IH [OF l(2)] Suc.prems(2) by simp
  show ?case
  proof (cases "8 \<le> n")
    case True
    then have e: "8 * Suc len - n = 8 * len - (n - 8)" by simp
    have "(2 :: nat) ^ (8 * len - (n - 8)) dvd 2 ^ (8 * len)" by (simp add: le_imp_power_dvd)
    then show ?thesis unfolding v e using t by (simp add: dvd_add)
  next
    case False
    then have e: "8 * Suc len - n = (8 - n) + 8 * len" "n - 8 = 0" by auto
    have "ipval ?t < 2 ^ (8 * len)" using ipval_lt [of ?t] l(2) by (simp add: p)
    then have "ipval ?t = 0" using t e(2) by (auto dest: dvd_imp_le)
    moreover have "2 ^ (8 - n) dvd unat (a AND mask_byte (min n 8))"
      using masked_byte(2) [of n a] False by (simp add: mod_eq_0_iff_dvd)
    ultimately show ?thesis unfolding v e(1) power_add by (simp add: mult_dvd_mono)
  qed
qed simp

lemma normal_ip4 [simp]: "length ip = 4 \<Longrightarrow> normal_ip ip = ip"
  by (simp add: normal_ip_def to4_def)

text \<open>Membership in an IPv4 subnet is membership in its block.\<close>

lemma Contains_iff:
  assumes "length nn = 4" and "length ip = 4" and "n \<le> 32"
  shows "Contains \<lparr>nt_IP = nn, nt_Mask = cidr_mask n 4\<rparr> ip \<longleftrightarrow> ipval nn div 2 ^ (32 - n) = ipval ip div 2 ^ (32 - n)"
  using same_bits_iff [OF assms(1,2), of n] assms by (simp add: Contains_def Let_def same_bits_def)

section \<open>The loop over a subnet\<close>

definition host_range :: "nat \<Rightarrow> nat \<Rightarrow> nat list" where
  "host_range lo hi = filter (\<lambda>v. v mod 256 \<notin> {0, 255}) [lo..<hi]"

lemma host_range_step: "lo < hi \<Longrightarrow> host_range lo hi = (if lo mod 256 \<notin> {0, 255} then [lo] else []) @ host_range (Suc lo) hi"
  by (simp add: host_range_def upt_conv_Cons)

lemma next_multiple: "(e :: nat) dvd x \<Longrightarrow> e dvd y \<Longrightarrow> x < y \<Longrightarrow> x + e \<le> y"
proof -
  assume "e dvd x" "e dvd y" "x < y"
  then obtain q r where "x = e * q" "y = e * r" "q < r" by (metis dvdE mult_less_cancel1)
  then show "x + e \<le> y" using mult_le_mono2 [of "Suc q" r e] by simp
qed

lemma expand_to_the_end:
  assumes "length nn = 4" and "0 < n" and "n \<le> 32" and "2 ^ (32 - n) dvd ipval nn" and "hi = ipval nn + 2 ^ (32 - n)"
    and "length ip = 4" and "ipval nn \<le> ipval ip" and "ipval ip < hi"
  shows "\<exists>xs. expand_loop \<lparr>nt_IP = nn, nt_Mask = cidr_mask n 4\<rparr> ip acc = Some (acc @ xs) \<and> map ipval xs = host_range (ipval ip) hi"
  using assms(6-8)
proof (induction "hi - ipval ip" arbitrary: ip acc)
  case (Suc j)
  let ?nt = "\<lparr>nt_IP = nn, nt_Mask = cidr_mask n 4\<rparr>" and ?e = "(2 :: nat) ^ (32 - n)" and ?i = "incrementIP ip"
  let ?acc = "if host_byte ip then acc @ [ip] else acc"
  have in_block: "ipval nn div ?e = v div ?e \<longleftrightarrow> ipval nn \<le> v \<and> v < hi" for v
  proof -
    from assms(4) obtain q where q: "ipval nn = ?e * q" by (rule dvdE)
    have "v div ?e = q \<longleftrightarrow> ?e * q \<le> v \<and> v < ?e * q + ?e"
      by (metis add.commute div_nat_eqI mult.commute mult_Suc mult_Suc_right dividend_less_div_times times_div_less_eq_dividend zero_less_power zero_less_numeral)
    then show ?thesis using q assms(5) by auto
  qed
  have c: "Contains ?nt ip" using Contains_iff [OF assms(1) Suc.prems(1) assms(3)] in_block Suc.prems by simp
  have hb: "host_byte ip \<longleftrightarrow> ipval ip mod 256 \<notin> {0, 255}" using host_byte_val [of ip] Suc.prems(1) by fastforce
  have step: "expand_loop ?nt ip acc = expand_loop ?nt ?i ?acc" using c by (simp add: expand_loop.simps [of ?nt ip])
  have total: "hi \<le> 2 ^ 32"
  proof -
    have "ipval nn < 2 ^ 32" using ipval_lt [of nn] assms(1) by simp
    moreover have "?e dvd 2 ^ 32" by (rule le_imp_power_dvd) simp
    ultimately show ?thesis using next_multiple [of ?e "ipval nn" "2 ^ 32"] assms(4,5) by simp
  qed
  have acc: "?acc = acc @ (if host_byte ip then [ip] else [])" by simp
  have range: "host_range (ipval ip) hi = (if host_byte ip then [ipval ip] else []) @ host_range (Suc (ipval ip)) hi"
    unfolding hb by (rule host_range_step [OF Suc.prems(3)])
  show ?case
  proof (cases "Suc (ipval ip) < hi")
    case True
    then have i: "length ?i = 4" "ipval ?i = Suc (ipval ip)" using Suc.prems(1) total by simp_all
    have "\<exists>xs. expand_loop ?nt ?i ?acc = Some (?acc @ xs) \<and> map ipval xs = host_range (ipval ?i) hi"
      by (rule Suc.hyps(1)) (use i True Suc.hyps(2) Suc.prems in auto)
    then obtain xs where "expand_loop ?nt ?i ?acc = Some (?acc @ xs)" "map ipval xs = host_range (Suc (ipval ip)) hi"
      unfolding i(2) by blast
    then show ?thesis unfolding step range by (intro exI [of _ "(if host_byte ip then [ip] else []) @ xs"]) simp
  next
    case False
    then have hi: "hi = Suc (ipval ip)" using Suc.prems(3) by simp
    have "\<not> (ipval nn \<le> hi mod 2 ^ 32 \<and> hi mod 2 ^ 32 < hi)"
    proof (cases "hi = 2 ^ 32")
      case True
      have "?e < 2 ^ 32" using assms(2) by (intro power_strict_increasing) auto
      then show ?thesis using True assms(5) by simp
    qed (use total in simp)
    moreover have "ipval ?i = hi mod 2 ^ 32" "length ?i = 4" using Suc.prems(1) hi by simp_all
    ultimately have "\<not> Contains ?nt ?i" using Contains_iff [OF assms(1) _ assms(3), of ?i] in_block by simp
    then have "expand_loop ?nt ?i ?acc = Some ?acc" by (simp add: expand_loop.simps [of ?nt ?i])
    moreover have "host_range (Suc (ipval ip)) hi = []" by (simp add: hi host_range_def)
    ultimately show ?thesis unfolding step range by (intro exI [of _ "if host_byte ip then [ip] else []"]) simp
  qed
qed simp

text \<open>Under the empty prefix every address is inside, and the increment wraps around.\<close>

lemma expand_forever:
  assumes "expand_loop nt ip acc = Some r"
  shows "nt_Mask nt = cidr_mask 0 4 \<longrightarrow> length (nt_IP nt) = 4 \<longrightarrow> length ip \<noteq> 4"
  using assms
proof (rule expand_loop.raw_induct [where P = "\<lambda>nt ip acc r. nt_Mask nt = cidr_mask 0 4 \<longrightarrow> length (nt_IP nt) = 4 \<longrightarrow> length ip \<noteq> 4", rotated])
  fix f :: "IPNet \<Rightarrow> ip_addr \<Rightarrow> ip_addr list \<Rightarrow> ip_addr list option" and nt ip acc y
  assume IH: "\<And>nt ip acc y. f nt ip acc = Some y \<Longrightarrow> nt_Mask nt = cidr_mask 0 4 \<longrightarrow> length (nt_IP nt) = 4 \<longrightarrow> length ip \<noteq> 4"
    and eq: "(if Contains nt ip then f nt (incrementIP ip) (if host_byte ip then acc @ [ip] else acc) else Some acc) = Some y"
  show "nt_Mask nt = cidr_mask 0 4 \<longrightarrow> length (nt_IP nt) = 4 \<longrightarrow> length ip \<noteq> 4"
  proof (intro impI notI)
    assume m: "nt_Mask nt = cidr_mask 0 4" and l: "length (nt_IP nt) = 4" "length ip = 4"
    have "nt = \<lparr>nt_IP = nt_IP nt, nt_Mask = cidr_mask 0 4\<rparr>" using m by (cases nt) simp
    then have "Contains nt ip" using Contains_iff [OF l, of 0] ipval_lt [of "nt_IP nt"] ipval_lt [of ip] l by simp
    then show False using IH [of nt "incrementIP ip"] eq m l by simp
  qed
qed

section \<open>The expansion of a subnet\<close>

lemma split_on_chars: "c \<in> set s \<Longrightarrow> c \<noteq> d \<Longrightarrow> \<exists>f \<in> set (split_on d s). c \<in> set f"
proof (induction s)
  case (Cons x xs)
  then show ?case
    by (cases "split_on d xs") (auto split: list.splits)
qed simp

lemma ip4_text_no_slash: "parse_ip4 a \<Longrightarrow> CHR ''/'' \<notin> set a"
proof
  assume p: "parse_ip4 a" and "CHR ''/'' \<in> set a"
  then obtain f where "f \<in> set (split_on dot a)" "CHR ''/'' \<in> set f" using split_on_chars [of "CHR ''/''" a dot] by (auto simp: dot_def)
  then have "ip4_field f" "CHR ''/'' \<in> set f" using p by (auto simp: parse_ip4_def Let_def list_all_iff)
  then show False by (auto simp: ip4_field_def list_all_iff is_digit_def)
qed

lemma ParseCIDR_ip4:
  assumes "parse_ip4 a" and "m \<noteq> ''''" and "list_all is_digit m" and "digits_val m \<le> 32"
  shows "\<exists>ip. length ip = 4 \<and> 2 ^ (32 - digits_val m) dvd ipval ip
    \<and> ParseCIDR ip6 (a @ CHR ''/'' # m) = Some \<lparr>nt_IP = ip, nt_Mask = cidr_mask (digits_val m) 4\<rparr>"
proof -
  let ?xs = "map (\<lambda>f. word_of_nat (digits_val f)) (split_on dot a) :: byte list"
  have s: "before_slash (a @ CHR ''/'' # m) = a"
    unfolding before_slash_def by (subst takeWhile_append2) (use ip4_text_no_slash [OF assms(1)] in auto)
  have l: "length ?xs = 4" using assms(1) by (simp add: parse_ip4_def Let_def)
  show ?thesis
    using masked_aligned [OF l, of "digits_val m"] l assms
    by (intro exI [of _ "map (\<lambda>(b, k). b AND k) (zip ?xs (cidr_mask (digits_val m) 4))"]) (simp add: ParseCIDR_def s Let_def)
qed

text \<open>
  C16. The expansion of an IPv4 subnet with a prefix of 1 to 32 bits ends, with exactly the
  addresses of its block whose last byte is neither 0 nor 255, each once and in order, also
  when the block reaches 255.255.255.255. With an empty prefix it never ends.
\<close>

theorem subnet_expansion:
  assumes "parse_ip4 a" and "m \<noteq> ''''" and "list_all is_digit m" and "digits_val m \<le> 32"
  shows "\<exists>nt. ParseCIDR ip6 (a @ CHR ''/'' # m) = Some nt \<and> length (nt_IP nt) = 4 \<and>
    (case expand_loop nt (nt_IP nt) [] of
       None \<Rightarrow> digits_val m = 0
     | Some ips \<Rightarrow> 0 < digits_val m
         \<and> map ipval ips = filter (\<lambda>v. v mod 256 \<noteq> 0 \<and> v mod 256 \<noteq> 255) [ipval (nt_IP nt)..<ipval (nt_IP nt) + 2 ^ (32 - digits_val m)])"
proof -
  obtain ip where ip: "length ip = 4" "2 ^ (32 - digits_val m) dvd ipval ip"
    and p: "ParseCIDR ip6 (a @ CHR ''/'' # m) = Some \<lparr>nt_IP = ip, nt_Mask = cidr_mask (digits_val m) 4\<rparr>"
    using ParseCIDR_ip4 [OF assms] by blast
  show ?thesis
  proof (cases "digits_val m = 0")
    case True
    then have "expand_loop \<lparr>nt_IP = ip, nt_Mask = cidr_mask (digits_val m) 4\<rparr> ip [] = None"
      using expand_forever [of "\<lparr>nt_IP = ip, nt_Mask = cidr_mask 0 4\<rparr>" ip "[]"] ip(1)
      by (cases "expand_loop \<lparr>nt_IP = ip, nt_Mask = cidr_mask 0 4\<rparr> ip []") auto
    then show ?thesis using p ip(1) True by simp
  next
    case False
    then show ?thesis using expand_to_the_end [OF ip(1) _ assms(4) ip(2) refl ip(1), of "[]"] p ip(1)
      by (auto simp: host_range_def)
  qed
qed

lemma subnet_expansion_witness:
  "(\<exists>nt. ParseCIDR (\<lambda>_. None) (''255.255.255.0'' @ CHR ''/'' # ''25'') = Some nt \<and> expand_loop nt (nt_IP nt) [] \<noteq> None)
    \<and> (\<exists>nt. ParseCIDR (\<lambda>_. None) (''10.0.0.1'' @ CHR ''/'' # ''0'') = Some nt \<and> expand_loop nt (nt_IP nt) [] = None)"
proof -
  have c: "parse_ip4 ''255.255.255.0''" "parse_ip4 ''10.0.0.1''" "list_all is_digit ''25''" "list_all is_digit ''0''"
    "digits_val ''25'' = 25" "digits_val ''0'' = 0" by code_simp+
  have "\<exists>nt. ParseCIDR (\<lambda>_. None) (''255.255.255.0'' @ CHR ''/'' # ''25'') = Some nt \<and> expand_loop nt (nt_IP nt) [] \<noteq> None"
    using subnet_expansion [OF c(1) _ c(3), of "\<lambda>_. None"] c(5) by (auto split: option.splits)
  moreover have "\<exists>nt. ParseCIDR (\<lambda>_. None) (''10.0.0.1'' @ CHR ''/'' # ''0'') = Some nt \<and> expand_loop nt (nt_IP nt) [] = None"
    using subnet_expansion [OF c(2) _ c(4), of "\<lambda>_. None"] c(6) by (auto split: option.splits)
  ultimately show ?thesis by blast
qed

end
