(* ===== verification/Discovery.thy ===== *)
theory Discovery
  imports Subnets Poller "HOL-Library.Multiset"
begin

text \<open>
  \<open>fwEDR/internal/discovery\<close>: the sweep of the configured subnets (\<open>sweep.go\<close>; the
  subnets themselves are in \<open>Subnets\<close>), the file
  that keeps its result (\<open>persist.go\<close>), and the rediscovery of \<open>fwEDR/main.go\<close>. What the
  network answers, the JSON codec and the outcome of each file operation are parameters.
\<close>

section \<open>Classification\<close>

definition hostnameHas :: "string \<Rightarrow> string list \<Rightarrow> bool" where
  "hostnameHas h parts = list_ex (contains_str h) parts"

definition inferDeviceType :: "string \<Rightarrow> string \<Rightarrow> string" where
  "inferDeviceType descr hostname =
     (let h = to_lower hostname; d = to_lower descr
      in if hostnameHas h [''-fw'', ''fw-'', ''-asa'', ''asa-'', ''firewall''] then ''firewall''
         else if hostnameHas h [''pdu'', ''fpdu''] then ''pdu''
         else if contains_str d ''router'' \<or> contains_str d ''routing'' then ''router''
         else if contains_str d ''switch'' \<or> contains_str d ''nx-os'' then ''switch''
         else if contains_str d ''firewall'' \<or> contains_str d ''adaptive security'' then ''firewall''
         else if contains_str d ''load balancer'' \<or> contains_str d ''f5'' then ''load_balancer''
         else if contains_str d ''ups'' then ''ups''
         else if contains_str d ''pdu'' then ''pdu''
         else if contains_str d ''ios'' then
           (if hostnameHas h [''-sw'', ''sw-'', ''switch'', ''-sp'', ''spine'', ''-lf'', ''leaf'', ''-agg'', ''-core'', ''-dist'']
            then ''switch'' else ''router'')
         else ''server'')"

definition inferVendor :: "string \<Rightarrow> string" where
  "inferVendor descr =
     (let d = to_lower descr
      in if contains_str d ''cisco'' then ''cisco''
         else if contains_str d ''juniper'' then ''juniper''
         else if contains_str d ''arista'' then ''arista''
         else if contains_str d ''apc'' \<or> contains_str d ''schneider'' then ''apc''
         else if contains_str d ''eaton'' then ''eaton''
         else if contains_str d ''raritan'' then ''raritan''
         else if contains_str d ''vertiv'' \<or> contains_str d ''liebert'' then ''vertiv''
         else if contains_str d ''palo alto'' then ''paloalto''
         else if contains_str d ''f5'' then ''f5''
         else ''generic'')"

section \<open>The sweeper\<close>

record Sweeper =
  sw_subnets :: "string list"
  sw_snmpAgent :: string
  sw_seedIP :: string
  sw_community :: string
  sw_version :: int
  sw_gnmiPort :: int

text \<open>
  \<open>dv_get\<close>: the answer to a request at an address with a community, \<open>None\<close> without a slot, a
  socket or an answer. \<open>dv_walk\<close> is one walk of an attempt, with whether it succeeded.
  \<open>dv_waits\<close> lists the probes of the seed: answered, nanoseconds since the start, cancelled.
  \<open>dv_started\<close> bounds the probes started before a cancellation, \<open>dv_sched\<close> is the order in
  which they complete.
\<close>

record disc_env =
  dv_get :: "string \<Rightarrow> string \<Rightarrow> SnmpPDU list option"
  dv_walk :: "nat \<Rightarrow> string \<Rightarrow> string \<Rightarrow> string \<Rightarrow> SnmpPDU list \<times> bool"
  dv_tcp :: "string \<Rightarrow> int \<Rightarrow> bool"
  dv_fmt :: "rat \<Rightarrow> string"
  dv_waits :: "(bool \<times> int \<times> bool) list"
  dv_started :: "nat option"
  dv_sched :: "string list \<Rightarrow> string list"
  dv_ip6 :: "string \<Rightarrow> IPNet option"
  dv_show6 :: "ip_addr \<Rightarrow> string"

definition has_suffix :: "string \<Rightarrow> string \<Rightarrow> bool" where
  "has_suffix s p = has_prefix (rev s) (rev p)"

definition pduString :: "(rat \<Rightarrow> string) \<Rightarrow> SnmpPDU \<Rightarrow> string" where
  "pduString fmt p = trim_space (PDUString fmt p)"

definition no_value :: "SnmpPDU \<Rightarrow> bool" where
  "no_value p \<longleftrightarrow> pd_Type p \<in> {NoSuchObject, NoSuchInstance, NullType}"

definition name_and_descr :: "(rat \<Rightarrow> string) \<Rightarrow> SnmpPDU \<Rightarrow> string \<times> string \<Rightarrow> string \<times> string" where
  "name_and_descr fmt p nd =
     (if no_value p then nd
      else if has_suffix (pd_Name p) OIDSysName then (pduString fmt p, snd nd)
      else if has_suffix (pd_Name p) OIDSysDescr then (fst nd, pduString fmt p)
      else nd)"

text \<open>Host name and description of a device that answered.\<close>

definition snmpGet :: "disc_env \<Rightarrow> string \<Rightarrow> string \<Rightarrow> (string \<times> string) option" where
  "snmpGet en sock community =
     (case dv_get en sock community of
        None \<Rightarrow> None
      | Some vars \<Rightarrow>
          (case fold (name_and_descr (dv_fmt en)) vars ('''', '''') of
             (h, d) \<Rightarrow> if h = '''' \<and> d = '''' then None else Some (or_default h sock, d)))"

text \<open>\<open>None\<close>: still waiting when the list of probes ends.\<close>

fun ready_loop :: "(bool \<times> int \<times> bool) list \<Rightarrow> bool option" where
  "ready_loop [] = None"
| "ready_loop ((answered, elapsed, cancelled) # ws) =
     (if answered then Some True
      else if elapsed > 60 * 1000000000 then Some False
      else if cancelled then Some False
      else ready_loop ws)"

definition waitForReady :: "disc_env \<Rightarrow> Sweeper \<Rightarrow> bool option" where
  "waitForReady en s = (if sw_seedIP s = '''' \<or> sw_snmpAgent s = '''' then Some True else ready_loop (dv_waits en))"

definition probe_communities :: "Sweeper \<Rightarrow> string \<Rightarrow> string list" where
  "probe_communities s ip =
     (if sw_snmpAgent s \<noteq> '''' then [ip]
      else if sw_community s \<noteq> '''' \<and> sw_community s \<noteq> ip then [ip, sw_community s] else [ip])"

fun first_answer :: "disc_env \<Rightarrow> string \<Rightarrow> string list \<Rightarrow> (string \<times> string \<times> string) option" where
  "first_answer en sock [] = None"
| "first_answer en sock (c # cs) =
     (case snmpGet en sock c of Some (h, d) \<Rightarrow> Some (c, h, d) | None \<Rightarrow> first_answer en sock cs)"

definition network_device :: "string \<Rightarrow> bool" where
  "network_device dt \<longleftrightarrow> dt \<in> {''router'', ''switch'', ''firewall'', ''load_balancer''}"

definition probe :: "disc_env \<Rightarrow> Sweeper \<Rightarrow> string \<Rightarrow> Target option" where
  "probe en s ip =
     (case first_answer en (or_default (sw_snmpAgent s) ip) (probe_communities s ip) of
        None \<Rightarrow> None
      | Some (comm, hostname, descr) \<Rightarrow>
          if comm = '''' then None
          else Some \<lparr>tg_IP = or_default (sw_snmpAgent s) ip, tg_MgmtIP = ip, tg_ProdIP = '''', tg_LoopbackIP = '''', tg_OOBIP = '''',
            tg_GNMIIP = ip, tg_Hostname = hostname, tg_DeviceType = inferDeviceType descr hostname, tg_Vendor = inferVendor descr,
            tg_Labels = Map.empty, tg_SNMPVersion = sw_version s, tg_Community = comm,
            tg_Caps = CapSNMP OR (if dv_tcp en ip (sw_gnmiPort s) then CapGNMI else 0),
            tg_ActiveCircuits = 0, tg_DatacenterID = '''', tg_FloorID = '''', tg_ModelName = '''', tg_Country = '''',
            tg_DatacenterName = '''', tg_DatacenterCity = '''', tg_Room = '''', tg_Floor = '''', tg_RackRow = 0, tg_RackNum = 0,
            tg_RackUnit = 0\<rparr>)"

definition probe_all :: "disc_env \<Rightarrow> Sweeper \<Rightarrow> string list \<Rightarrow> Target list" where
  "probe_all en s ips = concat (map (\<lambda>ip. case probe en s ip of Some t \<Rightarrow> [t] | None \<Rightarrow> []) ips)"

text \<open>The outer option as in \<open>expandSubnets\<close>; an invalid subnet is the error.\<close>

definition Sweep :: "disc_env \<Rightarrow> Sweeper \<Rightarrow> Target list option option" where
  "Sweep en s =
     (case waitForReady en s of
        None \<Rightarrow> None
      | Some False \<Rightarrow> Some (Some [])
      | Some True \<Rightarrow>
          (case expandSubnets (dv_ip6 en) (dv_show6 en) (sw_subnets s) of
             None \<Rightarrow> None
           | Some None \<Rightarrow> Some None
           | Some (Some ips) \<Rightarrow>
               Some (Some (probe_all en s (dv_sched en (case dv_started en of Some k \<Rightarrow> take k ips | None \<Rightarrow> ips))))))"

section \<open>Addresses of the interfaces\<close>

text \<open>At most three walks; the last one counts when none succeeds.\<close>

fun walk_attempts :: "(nat \<Rightarrow> SnmpPDU list \<times> bool) \<Rightarrow> nat \<Rightarrow> nat \<Rightarrow> SnmpPDU list \<times> bool" where
  "walk_attempts w k 0 = w k"
| "walk_attempts w k (Suc n) = (if snd (w k) then w k else walk_attempts w (Suc k) n)"

definition int_of_go :: "int \<Rightarrow> int" where
  "int_of_go n = (n + 2 ^ 63) mod 2 ^ 64 - 2 ^ 63"

definition column_suffix :: "string \<Rightarrow> SnmpPDU \<Rightarrow> string option" where
  "column_suffix oid p =
     (let name = trim_prefix (pd_Name p) ''.'' in if has_prefix name (oid @ ''.'') then Some (trim_prefix name (oid @ ''.'')) else None)"

definition address_list :: "SnmpPDU list \<Rightarrow> string list" where
  "address_list ps = concat (map (\<lambda>p. case column_suffix OIDIpAdEntAddr p of Some a \<Rightarrow> [a] | None \<Rightarrow> []) ps)"

definition index_map :: "SnmpPDU list \<Rightarrow> string \<rightharpoonup> int" where
  "index_map ps =
     fold (\<lambda>p m. case column_suffix OIDIpAdEntIfIndex p of
             None \<Rightarrow> m
           | Some ip \<Rightarrow> (case pd_Value p of VInt n \<Rightarrow> m(ip \<mapsto> int_of_go n) | _ \<Rightarrow> m)) ps Map.empty"

definition EnrichTarget :: "disc_env \<Rightarrow> Sweeper \<Rightarrow> Target \<Rightarrow> InterfaceAddress list \<times> Target" where
  "EnrichTarget en s t =
     (if tg_Community t = '''' then ([], t)
      else
        let sock = or_default (sw_snmpAgent s) (tg_MgmtIP t);
            (addrs, ok) = walk_attempts (\<lambda>k. dv_walk en k sock (tg_Community t) OIDIpAdEntAddr) 1 2
        in if \<not> ok then ([], t)
           else
             let addresses = address_list addrs;
                 idx = index_map (fst (walk_attempts (\<lambda>k. dv_walk en k sock (tg_Community t) OIDIpAdEntIfIndex) 1 2));
                 prodIP = first_prefixed ''10.'' addresses; oobIP = first_prefixed ''172.'' addresses;
                 t1 = t\<lparr>tg_ProdIP := prodIP, tg_OOBIP := oobIP\<rparr>;
                 t2 = (if network_device (tg_DeviceType t) then t1\<lparr>tg_LoopbackIP := prodIP\<rparr> else t1)
             in (concat (map (\<lambda>ip. if num_at idx ip \<le> 0 then []
                   else [\<lparr>ia_IfIndex = num_at idx ip, ia_Address = ip, ia_Family = ''ipv4''\<rparr>]) addresses), t2))"

section \<open>The file of targets\<close>

record persistedTarget =
  pt_IP :: string
  pt_MgmtIP :: string
  pt_ProdIP :: string
  pt_LoopbackIP :: string
  pt_OOBIP :: string
  pt_GNMIIP :: string
  pt_Hostname :: string
  pt_DeviceType :: string
  pt_Vendor :: string
  pt_Labels :: smap
  pt_SNMPVersion :: int
  pt_Community :: string
  pt_Caps :: byte

record targetsFile =
  pf_Version :: int
  pf_LastSweepAtNs :: int
  pf_Targets :: "persistedTarget list"

definition to_persisted :: "Target \<Rightarrow> persistedTarget" where
  "to_persisted t =
     \<lparr>pt_IP = tg_IP t, pt_MgmtIP = tg_MgmtIP t, pt_ProdIP = tg_ProdIP t, pt_LoopbackIP = tg_LoopbackIP t, pt_OOBIP = tg_OOBIP t,
      pt_GNMIIP = tg_GNMIIP t, pt_Hostname = tg_Hostname t, pt_DeviceType = tg_DeviceType t, pt_Vendor = tg_Vendor t,
      pt_Labels = tg_Labels t, pt_SNMPVersion = tg_SNMPVersion t, pt_Community = tg_Community t, pt_Caps = tg_Caps t\<rparr>"

definition of_persisted :: "persistedTarget \<Rightarrow> Target" where
  "of_persisted p =
     \<lparr>tg_IP = pt_IP p, tg_MgmtIP = pt_MgmtIP p, tg_ProdIP = pt_ProdIP p, tg_LoopbackIP = pt_LoopbackIP p, tg_OOBIP = pt_OOBIP p,
      tg_GNMIIP = pt_GNMIIP p, tg_Hostname = pt_Hostname p, tg_DeviceType = pt_DeviceType p, tg_Vendor = pt_Vendor p,
      tg_Labels = pt_Labels p, tg_SNMPVersion = pt_SNMPVersion p, tg_Community = pt_Community p, tg_Caps = pt_Caps p,
      tg_ActiveCircuits = 0, tg_DatacenterID = '''', tg_FloorID = '''', tg_ModelName = '''', tg_Country = '''',
      tg_DatacenterName = '''', tg_DatacenterCity = '''', tg_Room = '''', tg_Floor = '''', tg_RackRow = 0, tg_RackNum = 0,
      tg_RackUnit = 0\<rparr>"

text \<open>
  The file system as far as the two functions touch it. A failed write may leave any part of
  the data, \<open>fe_torn\<close>.
\<close>

type_synonym files = "string \<rightharpoonup> string"

record file_env =
  fe_now :: int
  fe_mkdir :: bool
  fe_write :: bool
  fe_rename :: bool
  fe_read :: bool
  fe_torn :: "string \<Rightarrow> string option"
  fe_marshal :: "targetsFile \<Rightarrow> string option"
  fe_unmarshal :: "string \<Rightarrow> targetsFile option"

datatype persist_error = EmptyPath | MkdirError | MarshalError | WriteError | RenameError

definition saved_file :: "int \<Rightarrow> Target option list \<Rightarrow> targetsFile" where
  "saved_file now ts =
     \<lparr>pf_Version = 1, pf_LastSweepAtNs = now,
      pf_Targets = concat (map (\<lambda>t. case t of Some u \<Rightarrow> [to_persisted u] | None \<Rightarrow> []) ts)\<rparr>"

definition Save :: "file_env \<Rightarrow> string \<Rightarrow> Target option list \<Rightarrow> files \<Rightarrow> persist_error option \<times> files" where
  "Save en path ts fs =
     (if path = '''' then (Some EmptyPath, fs)
      else if \<not> fe_mkdir en then (Some MkdirError, fs)
      else case fe_marshal en (saved_file (fe_now en) ts) of
          None \<Rightarrow> (Some MarshalError, fs)
        | Some buf \<Rightarrow>
            let tmp = path @ ''.tmp''
            in if \<not> fe_write en then (Some WriteError, fs(tmp := fe_torn en buf))
               else if \<not> fe_rename en then (Some RenameError, fs(tmp \<mapsto> buf))
               else (None, (fs(tmp := None))(path \<mapsto> buf)))"

definition Load :: "file_env \<Rightarrow> string \<Rightarrow> int \<Rightarrow> files \<Rightarrow> Target list \<times> int \<times> bool" where
  "Load en path maxAge fs =
     (if path = '''' then ([], 0, False)
      else case (if fe_read en then fs path else None) of
        None \<Rightarrow> ([], 0, False)
      | Some buf \<Rightarrow>
          (case fe_unmarshal en buf of
             None \<Rightarrow> ([], 0, False)
           | Some f \<Rightarrow>
               if pf_Version f \<noteq> 1 then ([], 0, False)
               else let age = fe_now en - pf_LastSweepAtNs f
                    in if maxAge > 0 \<and> age > maxAge then ([], age, False) else (map of_persisted (pf_Targets f), age, True)))"

section \<open>The targets a reader starts with\<close>

definition target_cache_age :: "int \<Rightarrow> int" where
  "target_cache_age hours = (let a = int_of_go (hours * 3600000000000) in if a \<le> 0 then 24 * 3600000000000 else a)"

text \<open>From the cache, or from a sweep, which is saved. The outer \<open>None\<close>: the sweep does not end.\<close>

definition discover_targets ::
  "bool \<Rightarrow> int \<Rightarrow> string \<Rightarrow> disc_env \<Rightarrow> file_env \<Rightarrow> Sweeper \<Rightarrow> files \<Rightarrow> (Target list \<times> files) option" where
  "discover_targets force hours path de fe s fs =
     (let cached = (if force then []
                    else case Load fe path (target_cache_age hours) fs of (ts, age, ok) \<Rightarrow> if ok then ts else [])
      in if cached \<noteq> [] then Some (cached, fs)
         else case Sweep de s of
             None \<Rightarrow> None
           | Some r \<Rightarrow>
               let found = (case r of None \<Rightarrow> [] | Some ts \<Rightarrow> ts)
               in Some (found, if found \<noteq> [] then snd (Save fe path (map Some found) fs) else fs))"

definition strip_gnmi :: "bool \<Rightarrow> Target list \<Rightarrow> Target list" where
  "strip_gnmi enabled ts = (if enabled then ts else map (\<lambda>t. if Has t CapGNMI then ClearCap CapGNMI t else t) ts)"

definition startup_targets ::
  "bool \<Rightarrow> bool \<Rightarrow> int \<Rightarrow> string \<Rightarrow> disc_env \<Rightarrow> file_env \<Rightarrow> Sweeper \<Rightarrow> Target list \<Rightarrow> files \<Rightarrow> (Target list \<times> files) option" where
  "startup_targets gnmi force hours path de fe s configured fs =
     map_option (\<lambda>(ts, fs'). (strip_gnmi gnmi ts, fs'))
       (if configured = [] \<and> sw_subnets s \<noteq> [] then discover_targets force hours path de fe s fs else Some (configured, fs))"

section \<open>Enrichment\<close>

text \<open>Each target after the one before it; \<open>n\<close> counts the targets handled before a cancellation.\<close>

fun enrich_loop ::
  "disc_env \<Rightarrow> Sweeper \<Rightarrow> src_env \<Rightarrow> IdentityConfig \<Rightarrow> nat option \<Rightarrow> Target list \<Rightarrow> sender
    \<Rightarrow> TelemetryPacket list \<times> Target list \<times> bool \<times> sender" where
  "enrich_loop de s en ident n [] st = ([], [], True, st)"
| "enrich_loop de s en ident n (t # ts) st =
     (if n = Some 0 then ([], t # ts, False, st)
      else
        let (as, t') = EnrichTarget de s t;
            (ps, st1) = (if tg_ProdIP t' \<noteq> tg_ProdIP t \<or> tg_OOBIP t' \<noteq> '''' \<or> tg_LoopbackIP t' \<noteq> ''''
                         then emitRegistrationPackets en ident [t'] st else ([], st));
            (qs, st2) = emitInterfaceAddressPackets en ident t' as st1;
            (rs, ts', done_all, st3) = enrich_loop de s en ident (map_option (\<lambda>k. k - 1) n) ts st2
        in (ps @ qs @ rs, t' # ts', done_all, st3))"

definition enrichTargetsBackground ::
  "bool \<Rightarrow> disc_env \<Rightarrow> Sweeper \<Rightarrow> src_env \<Rightarrow> file_env \<Rightarrow> IdentityConfig \<Rightarrow> nat option \<Rightarrow> string \<Rightarrow> Target list \<Rightarrow> sender \<Rightarrow> files
    \<Rightarrow> TelemetryPacket list \<times> Target list \<times> sender \<times> files" where
  "enrichTargetsBackground stopped de s en fe ident n path ts st fs =
     (if ts = [] \<or> stopped then ([], ts, st, fs)
      else case enrich_loop de s en ident n ts st of
        (ps, ts', done_all, st') \<Rightarrow>
          (ps, ts', st', if done_all \<and> path \<noteq> '''' then snd (Save fe path (map Some ts') fs) else fs))"

section \<open>Rediscovery\<close>

text \<open>The targets of a sweep that are not known yet, by their source identifier.\<close>

fun new_targets :: "string list \<Rightarrow> Target list \<Rightarrow> Target list \<times> string list" where
  "new_targets known [] = ([], known)"
| "new_targets known (t # ts) =
     (if SourceID t \<in> set known then new_targets known ts
      else case new_targets (SourceID t # known) ts of (ns, known') \<Rightarrow> (t # ns, known'))"

definition rediscovery_wait :: "int \<Rightarrow> string list \<Rightarrow> int" where
  "rediscovery_wait hours known =
     (let long = int_of_go (hours * 3600000000000); long = (if long \<le> 0 then 3600000000000 else long)
      in if known = [] then 60 * 1000000000 else long)"

text \<open>One round, and the rounds of a run; \<open>None\<close> is a sweep that failed.\<close>

definition rediscover ::
  "src_env \<Rightarrow> IdentityConfig \<Rightarrow> Target list option \<Rightarrow> string list \<Rightarrow> poller \<Rightarrow> sender
    \<Rightarrow> TelemetryPacket list \<times> string list \<times> poller \<times> sender" where
  "rediscover en ident found known p st =
     (case found of
        None \<Rightarrow> ([], known, p, st)
      | Some ts \<Rightarrow>
          (case new_targets known ts of (ns, known') \<Rightarrow>
             if ns = [] then ([], known', p, st)
             else case emitRegistrationPackets en ident ns st of (ps, st') \<Rightarrow>
               (ps, known', fold (\<lambda>t q. snd (AddTarget (Some t) q)) ns p, st')))"

fun rediscoveryLoop ::
  "src_env \<Rightarrow> IdentityConfig \<Rightarrow> Target list option list \<Rightarrow> string list \<Rightarrow> poller \<Rightarrow> sender
    \<Rightarrow> TelemetryPacket list \<times> string list \<times> poller \<times> sender" where
  "rediscoveryLoop en ident [] known p st = ([], known, p, st)"
| "rediscoveryLoop en ident (f # fs) known p st =
     (case rediscover en ident f known p st of (ps, known', p', st') \<Rightarrow>
        case rediscoveryLoop en ident fs known' p' st' of (qs, r) \<Rightarrow> (ps @ qs, r))"

section \<open>What the sweep finds\<close>

lemma probe_fields:
  assumes "probe en s ip = Some t"
  shows "tg_MgmtIP t = ip" "tg_IP t = or_default (sw_snmpAgent s) ip" "of_persisted (to_persisted t) = t"
    and "tg_Community t \<in> set (probe_communities s ip)" "tg_Community t \<noteq> ''''"
proof -
  have c: "first_answer en sock cs = Some (c, h, d) \<Longrightarrow> c \<in> set cs" for sock cs c h d
    by (induction cs) (auto split: option.splits)
  show "tg_MgmtIP t = ip" "tg_IP t = or_default (sw_snmpAgent s) ip" "of_persisted (to_persisted t) = t"
    "tg_Community t \<in> set (probe_communities s ip)" "tg_Community t \<noteq> ''''"
    using assms c unfolding probe_def by (auto split: option.splits if_splits simp: of_persisted_def to_persisted_def)
qed

lemma probe_all_found: "t \<in> set (probe_all en s ips) \<Longrightarrow> \<exists>ip \<in> set ips. probe en s ip = Some t"
  by (auto simp: probe_all_def split: option.splits)

lemma probe_all_mgmt:
  "set (map tg_MgmtIP (probe_all en s ips)) \<subseteq> set ips \<and> (distinct ips \<longrightarrow> distinct (map tg_MgmtIP (probe_all en s ips)))"
proof (induction ips)
  case (Cons ip ips)
  have "probe_all en s (ip # ips) = (case probe en s ip of Some t \<Rightarrow> [t] | None \<Rightarrow> []) @ probe_all en s ips"
    by (simp add: probe_all_def)
  with Cons show ?case by (cases "probe en s ip") (auto simp: probe_fields)
qed (simp add: probe_all_def)

lemma Sweep_found:
  assumes "Sweep en s = Some (Some ts)"
  shows "\<exists>ips. ts = probe_all en s ips"
  using assms by (auto simp: Sweep_def probe_all_def intro: exI [of _ "[]"] split: option.splits bool.splits)

lemma probe_answered:
  assumes "probe en s ip = Some t"
  shows "snmpGet en (tg_IP t) (tg_Community t) \<noteq> None" "Has t CapSNMP"
    "sw_snmpAgent s \<noteq> '''' \<Longrightarrow> tg_IP t = sw_snmpAgent s \<and> tg_Community t = tg_MgmtIP t"
proof -
  have c: "first_answer en sock cs = Some (c, h, d) \<Longrightarrow> snmpGet en sock c = Some (h, d)" for sock cs c h d
    by (induction cs) (auto split: option.splits)
  show "snmpGet en (tg_IP t) (tg_Community t) \<noteq> None"
    using assms c unfolding probe_def by (auto split: option.splits if_splits)
  show "Has t CapSNMP" using assms unfolding probe_def by (auto split: option.splits if_splits simp: Has_def CapSNMP_def CapGNMI_def)
  show "sw_snmpAgent s \<noteq> '''' \<Longrightarrow> tg_IP t = sw_snmpAgent s \<and> tg_Community t = tg_MgmtIP t"
    using probe_fields [OF assms] by (simp add: probe_communities_def or_default_def)
qed

text \<open>
  A sweep reports each live address at most once, whatever the order in which the probes
  complete: when the subnets do not overlap, no two of its targets have the same management
  address, each is an address of the subnets, and each answered with the community kept for
  it. Through an agent that community is the device's own address, and the agent's address is
  the one dialled.
\<close>

theorem sweep_finds_each_address_once:
  assumes "Sweep en s = Some (Some ts)" and "expandSubnets (dv_ip6 en) (dv_show6 en) (sw_subnets s) = Some (Some ips)"
    and "distinct ips" and "\<And>xs. mset (dv_sched en xs) = mset xs"
  shows "distinct (map tg_MgmtIP ts) \<and> set (map tg_MgmtIP ts) \<subseteq> set ips \<and>
    list_all (\<lambda>t. snmpGet en (tg_IP t) (tg_Community t) \<noteq> None \<and> Has t CapSNMP
      \<and> (sw_snmpAgent s \<noteq> '''' \<longrightarrow> tg_IP t = sw_snmpAgent s \<and> tg_Community t = tg_MgmtIP t)) ts"
proof -
  have run: "ts = probe_all en s zs \<Longrightarrow> distinct zs \<Longrightarrow> set zs \<subseteq> set ips \<Longrightarrow> ?thesis" for zs
  proof -
    assume ts: "ts = probe_all en s zs" and zs: "distinct zs" "set zs \<subseteq> set ips"
    have "list_all (\<lambda>t. snmpGet en (tg_IP t) (tg_Community t) \<noteq> None \<and> Has t CapSNMP
      \<and> (sw_snmpAgent s \<noteq> '''' \<longrightarrow> tg_IP t = sw_snmpAgent s \<and> tg_Community t = tg_MgmtIP t)) ts"
      unfolding list_all_iff using probe_all_found [of _ en s zs] probe_answered [of en s] ts by blast
    moreover have "distinct (map tg_MgmtIP ts)" using probe_all_mgmt [of en s zs] zs(1) ts by blast
    moreover have "set (map tg_MgmtIP ts) \<subseteq> set ips" using probe_all_mgmt [of en s zs] zs(2) ts by blast
    ultimately show ?thesis by blast
  qed
  have perm: "set (dv_sched en xs) = set xs" "distinct (dv_sched en xs) = distinct xs" for xs
    using mset_eq_setD [OF assms(4) [of xs]] mset_eq_imp_distinct_iff [OF assms(4) [of xs]] by blast+
  have "ts = [] \<or> (\<exists>zs. ts = probe_all en s zs \<and> distinct zs \<and> set zs \<subseteq> set ips)"
  proof (cases "waitForReady en s")
    case (Some r)
    let ?us = "case dv_started en of Some k \<Rightarrow> take k ips | None \<Rightarrow> ips"
    have "distinct ?us" "set ?us \<subseteq> set ips" using assms(3) by (auto split: option.splits dest: in_set_takeD)
    moreover have "ts = [] \<or> ts = probe_all en s (dv_sched en ?us)" using assms(1,2) Some by (auto simp: Sweep_def split: bool.splits)
    ultimately show ?thesis using perm by blast
  qed (use assms(1) in \<open>simp add: Sweep_def\<close>)
  then show ?thesis using run by (elim disjE exE conjE) (simp, blast)
qed

definition sample_env :: "string \<Rightarrow> disc_env" where
  "sample_env name =
     \<lparr>dv_get = (\<lambda>a c. if c = ''10.0.0.1'' then Some [\<lparr>pd_Name = ''.1.3.6.1.2.1.1.5.0'', pd_Type = OtherType, pd_Value = VBytes name\<rparr>] else None),
      dv_walk = (\<lambda>_ _ _ _. ([], True)), dv_tcp = (\<lambda>_ _. False), dv_fmt = (\<lambda>_. ''''), dv_waits = [], dv_started = None, dv_sched = rev,
      dv_ip6 = (\<lambda>_. None), dv_show6 = (\<lambda>_. '''')\<rparr>"

definition sample_sweeper :: Sweeper where
  "sample_sweeper = \<lparr>sw_subnets = [''10.0.0.1/32''], sw_snmpAgent = ''127.0.0.1'', sw_seedIP = '''', sw_community = '''', sw_version = 2, sw_gnmiPort = 0\<rparr>"

lemma sample_addresses:
  "expandSubnets (dv_ip6 (sample_env name)) (dv_show6 (sample_env name)) (sw_subnets sample_sweeper) = Some (Some [''10.0.0.1''])"
proof -
  define nt where "nt = \<lparr>nt_IP = [10, 0, 0, 1], nt_Mask = [255, 255, 255, 255 :: byte]\<rparr>"
  have c: "before_slash ''10.0.0.1/32'' = ''10.0.0.1''" "parse_ip4 ''10.0.0.1''" "list_all is_digit ''32''" "digits_val ''32'' = 32"
    "map digits_val (split_on dot ''10.0.0.1'') = [10, 0, 0, 1]" by code_simp+
  have m: "cidr_mask 32 4 = [255, 255, 255, 255]" by code_simp
  have "map (\<lambda>f. word_of_nat (digits_val f)) (split_on dot ''10.0.0.1'') = map word_of_nat (map digits_val (split_on dot ''10.0.0.1''))" by simp
  then have b: "map (\<lambda>f. word_of_nat (digits_val f)) (split_on dot ''10.0.0.1'') = [10, 0, 0, 1 :: byte]" unfolding c(5) by simp
  have p: "ParseCIDR f ''10.0.0.1/32'' = Some nt" for f
    using c(2,3,4) unfolding ParseCIDR_def c(1) Let_def by (simp add: b m nt_def del: split_on.simps)
  have "Contains nt (nt_IP nt)" "\<not> Contains nt (incrementIP (nt_IP nt))" "host_byte (nt_IP nt)" unfolding nt_def by code_simp+
  then have x: "expand_loop nt (nt_IP nt) [] = Some [nt_IP nt]"
    by (simp add: expand_loop.simps [of nt "nt_IP nt"] expand_loop.simps [of nt "incrementIP (nt_IP nt)"])
  have "show_ip f (nt_IP nt) = ''10.0.0.1''" for f
  proof -
    have "map (\<lambda>b. itoa (uint b)) (nt_IP nt) = map itoa [10, 0, 0, 1]" unfolding nt_def by simp
    then show ?thesis unfolding show_ip_def show_ip4_def by (simp add: nt_def) code_simp
  qed
  then show ?thesis by (simp add: sample_sweeper_def p x)
qed

lemma sample_sweep: "Sweep (sample_env name) sample_sweeper = Some (Some (probe_all (sample_env name) sample_sweeper [''10.0.0.1'']))"
  unfolding Sweep_def sample_addresses by (simp add: sample_env_def sample_sweeper_def waitForReady_def)

lemma sample_probe:
  "map_option (\<lambda>t. (tg_Hostname t, tg_Community t)) (probe (sample_env ''r1'') sample_sweeper ''10.0.0.1'') = Some (''r1'', ''10.0.0.1'')"
  "map_option (\<lambda>t. (tg_Hostname t, tg_Community t)) (probe (sample_env ''r2'') sample_sweeper ''10.0.0.1'') = Some (''r2'', ''10.0.0.1'')"
  by code_simp+

lemma sweep_finds_each_address_once_witness:
  "\<exists>en s ts. Sweep en s = Some (Some ts) \<and> map tg_Community ts = [''10.0.0.1''] \<and> distinct (map tg_MgmtIP ts)"
proof -
  let ?en = "sample_env ''r1''"
  have "map tg_Community (probe_all ?en sample_sweeper [''10.0.0.1'']) = [''10.0.0.1'']"
    using sample_probe(1) by (auto simp: probe_all_def)
  moreover have "\<And>xs. mset (dv_sched ?en xs) = mset xs" by (simp add: sample_env_def)
  ultimately show ?thesis
    using sweep_finds_each_address_once [OF sample_sweep [of "''r1''"] sample_addresses [of "''r1''"]] sample_sweep [of "''r1''"]
    by (intro exI [of _ ?en] exI [of _ sample_sweeper] exI [of _ "probe_all ?en sample_sweeper [''10.0.0.1'']"]) simp
qed

section \<open>The file across restarts\<close>

lemma upd_frame: "t \<noteq> p \<Longrightarrow> g(t := x, p := y, t := z) = g(p := y, t := z)"
  by (auto simp: fun_eq_iff)

text \<open>
  Saving is all or nothing: when it fails the file of targets is what it was, and when it
  succeeds the file holds the whole new document; no other file but the temporary one changes.
\<close>

theorem Save_all_or_nothing:
  "case Save en path ts fs of (e, fs') \<Rightarrow>
     (if e = None then path \<noteq> '''' \<and> fs' path = fe_marshal en (saved_file (fe_now en) ts) \<and> fs' path \<noteq> None \<and> fs' (path @ ''.tmp'') = None
      else fs' path = fs path)
     \<and> fs'(path := None, path @ ''.tmp'' := None) = fs(path := None, path @ ''.tmp'' := None)"
  unfolding Save_def
  by (cases "path = ''''"; cases "fe_mkdir en"; cases "fe_marshal en (saved_file (fe_now en) ts)"; cases "fe_write en"; cases "fe_rename en")
    (simp_all add: Let_def upd_frame fun_upd_twist [of "path @ ''.tmp''" path fs None None])

lemma Load_saved:
  assumes "Save fe path (map Some ts) fs = (None, fs1)"
    and "\<And>buf. fe_marshal fe (saved_file (fe_now fe) (map Some ts)) = Some buf \<Longrightarrow> fe_unmarshal fe' buf = Some (saved_file (fe_now fe) (map Some ts))"
    and "fe_read fe'" and "fe_now fe' - fe_now fe \<le> age"
  shows "Load fe' path age fs1 = (map (\<lambda>t. of_persisted (to_persisted t)) ts, fe_now fe' - fe_now fe, True)"
proof -
  have "concat (map (\<lambda>t. case t of None \<Rightarrow> [] | Some u \<Rightarrow> [to_persisted u]) (map Some ts)) = map to_persisted ts"
    by (induction ts) simp_all
  then show ?thesis using assms
    by (auto simp: Save_def Load_def Let_def saved_file_def comp_def split: option.splits if_splits)
qed

text \<open>
  C11. A reader that swept the network and saved what it found starts again with the same targets, in
  the same order and with every field, within the age the cache allows: no probe is sent,
  whatever the network would answer now, and even if the sweep would not end. The JSON
  codec is assumed to read back the document it wrote.
\<close>

theorem restart_keeps_targets:
  assumes "Sweep de s = Some (Some found)" and "found \<noteq> []" and "sw_subnets s \<noteq> []" and "sw_subnets s' \<noteq> []"
    and "force \<or> fst (Load fe path (target_cache_age hours) fs) = []"
    and "Save fe path (map Some found) fs = (None, fs1)"
    and "\<And>buf. fe_marshal fe (saved_file (fe_now fe) (map Some found)) = Some buf \<Longrightarrow>
           fe_unmarshal fe' buf = Some (saved_file (fe_now fe) (map Some found))"
    and "fe_read fe'" and "fe_now fe' - fe_now fe \<le> target_cache_age hours"
  shows "startup_targets gnmi force hours path de fe s [] fs = Some (strip_gnmi gnmi found, fs1)
    \<and> startup_targets gnmi False hours path de' fe' s' [] fs1 = Some (strip_gnmi gnmi found, fs1)"
proof -
  have "of_persisted (to_persisted t) = t" if "t \<in> set found" for t
    using Sweep_found [OF assms(1)] probe_all_found probe_fields(3) that by metis
  then have "map (\<lambda>t. of_persisted (to_persisted t)) found = found" by (rule map_idI)
  then have l: "Load fe' path (target_cache_age hours) fs1 = (found, fe_now fe' - fe_now fe, True)"
    using Load_saved [OF assms(6,7,8,9)] by simp
  have "startup_targets gnmi False hours path de' fe' s' [] fs1 = Some (strip_gnmi gnmi found, fs1)"
    using assms(2,4) by (simp add: startup_targets_def discover_targets_def l)
  moreover have "(if force then [] else case Load fe path (target_cache_age hours) fs of (ts, age, ok) \<Rightarrow> if ok then ts else []) = []"
    using assms(5) by (auto split: prod.split)
  then have "discover_targets force hours path de fe s fs = Some (found, fs1)"
    unfolding discover_targets_def using assms(1,2,6) by (simp add: Let_def)
  then have "startup_targets gnmi force hours path de fe s [] fs = Some (strip_gnmi gnmi found, fs1)"
    using assms(3) by (simp add: startup_targets_def)
  ultimately show ?thesis by blast
qed

lemma restart_keeps_targets_witness:
  "\<exists>fe fe' fs1. startup_targets True False 0 ''targets.json'' (sample_env ''r1'') fe sample_sweeper [] Map.empty
      = Some (probe_all (sample_env ''r1'') sample_sweeper [''10.0.0.1''], fs1)
    \<and> startup_targets True False 0 ''targets.json'' (sample_env ''r2'') fe' sample_sweeper [] fs1
      = Some (probe_all (sample_env ''r1'') sample_sweeper [''10.0.0.1''], fs1)"
proof -
  let ?found = "probe_all (sample_env ''r1'') sample_sweeper [''10.0.0.1'']"
  define doc where "doc = saved_file 0 (map Some ?found)"
  define fe where "fe = \<lparr>fe_now = 0, fe_mkdir = True, fe_write = True, fe_rename = True, fe_read = True, fe_torn = Some,
    fe_marshal = (\<lambda>f. if f = doc then Some ''doc'' else None), fe_unmarshal = (\<lambda>b. if b = ''doc'' then Some doc else None)\<rparr>"
  have ne: "?found \<noteq> []" using sample_probe(1) by (auto simp: probe_all_def)
  have sub: "sw_subnets sample_sweeper \<noteq> []" by (simp add: sample_sweeper_def)
  have none: "False \<or> fst (Load fe ''targets.json'' (target_cache_age 0) Map.empty) = []" by (simp add: Load_def)
  have save: "Save fe ''targets.json'' (map Some ?found) Map.empty = (None, [''targets.json'' \<mapsto> ''doc''])"
    by (simp add: Save_def fe_def doc_def Let_def)
  have codec: "\<And>buf. fe_marshal fe (saved_file (fe_now fe) (map Some ?found)) = Some buf \<Longrightarrow>
      fe_unmarshal (fe\<lparr>fe_now := 3600\<rparr>) buf = Some (saved_file (fe_now fe) (map Some ?found))"
    by (simp add: fe_def doc_def split: if_splits)
  have age: "fe_now (fe\<lparr>fe_now := 3600\<rparr>) - fe_now fe \<le> target_cache_age 0" by (simp add: fe_def target_cache_age_def int_of_go_def)
  have r: "fe_read (fe\<lparr>fe_now := 3600\<rparr>)" by (simp add: fe_def)
  show ?thesis
    using restart_keeps_targets [OF sample_sweep ne sub sub none save codec r age, of True "sample_env ''r2''"]
    unfolding strip_gnmi_def by auto
qed


section \<open>Rediscovery finds what is new\<close>

lemma new_targets_spec:
  assumes "new_targets known ts = (ns, known')"
  shows "set known' = set known \<union> SourceID ` set ts \<and> distinct (map SourceID ns)
    \<and> SourceID ` set ns = SourceID ` set ts - set known \<and> set ns \<subseteq> set ts"
  using assms
proof (induction ts arbitrary: known ns known')
  case (Cons t ts)
  show ?case
  proof (cases "SourceID t \<in> set known")
    case True
    then show ?thesis using Cons.IH [of known ns known'] Cons.prems by auto
  next
    case False
    then obtain ms where "new_targets (SourceID t # known) ts = (ms, known')" "ns = t # ms"
      using Cons.prems by (auto split: prod.splits)
    then show ?thesis using Cons.IH [of "SourceID t # known" ms known'] False by auto
  qed
qed simp

lemma registration_sources:
  "emitRegistrationPackets en ident ts st = (ps, st') \<Longrightarrow>
   set (map SourceId ps) \<subseteq> SourceID ` set ts \<and> (distinct (map SourceID ts) \<longrightarrow> distinct (map SourceId ps))
   \<and> ((\<forall>k. sr_room en k) \<longrightarrow> map SourceId ps = map SourceID ts)"
proof (induction ts arbitrary: st ps st')
  case (Cons t ts)
  obtain sg k where st: "st = (sg, k)" by (cases st)
  obtain n sg1 where n: "NextNonce sg = (n, sg1)" by (cases "NextNonce sg")
  obtain qs st2 where q: "emitRegistrationPackets en ident ts (sg1, Suc k) = (qs, st2)"
    by (cases "emitRegistrationPackets en ident ts (sg1, Suc k)")
  have "ps = (if sr_room en k then registration_packet en ident t k n # qs else qs)" using Cons.prems by (auto simp: st n q)
  then show ?case using Cons.IH [OF q] by (auto simp: registration_packet_def)
qed simp

lemma fold_AddTarget:
  assumes "po_started p" and "p' = fold (\<lambda>t q. snd (AddTarget (Some t) q)) ts p"
  shows "po_started p' \<and> set (po_running p') = set (po_running p) \<union> SourceID ` set ts
    \<and> (distinct (po_running p) \<longrightarrow> distinct (po_running p'))"
  using assms
proof (induction ts arbitrary: p)
  case (Cons t ts)
  have a: "po_started (snd (AddTarget (Some t) p))" "set (po_running (snd (AddTarget (Some t) p))) = insert (SourceID t) (set (po_running p))"
    "distinct (po_running p) \<Longrightarrow> distinct (po_running (snd (AddTarget (Some t) p)))"
    using Cons.prems(1) by (auto simp: AddTarget_def)
  then show ?case using Cons.IH [OF a(1)] Cons.prems(2) by auto
qed simp

lemma rediscover_spec:
  assumes "rediscover en ident f known p st = (ps, known', p', st')" and "po_started p"
  defines "F \<equiv> (case f of None \<Rightarrow> {} | Some ts \<Rightarrow> SourceID ` set ts)"
  shows "po_started p' \<and> set known' = set known \<union> F \<and> set (po_running p') = set (po_running p) \<union> (F - set known)
    \<and> (distinct (po_running p) \<longrightarrow> distinct (po_running p')) \<and> distinct (map SourceId ps) \<and> set (map SourceId ps) \<subseteq> F - set known
    \<and> ((\<forall>k. sr_room en k) \<longrightarrow> set (map SourceId ps) = F - set known)"
proof (cases f)
  case None
  then show ?thesis using assms by (simp add: rediscover_def)
next
  case (Some ts)
  obtain ns k where n: "new_targets known ts = (ns, k)" by (cases "new_targets known ts")
  note spec = new_targets_spec [OF n]
  obtain qs st2 where q: "emitRegistrationPackets en ident ns st = (qs, st2)" by (cases "emitRegistrationPackets en ident ns st")
  have F: "F = SourceID ` set ts" by (simp add: F_def Some)
  show ?thesis
  proof (cases "ns = []")
    case True
    then have "F - set known = {}" using spec F by simp
    moreover have "ps = []" "known' = k" "p' = p" using assms(1) True by (auto simp: rediscover_def Some n)
    ultimately show ?thesis using assms(2) spec F by auto
  next
    case False
    then have "ps = qs" "known' = k" "p' = fold (\<lambda>t q. snd (AddTarget (Some t) q)) ns p"
      using assms(1) by (auto simp: rediscover_def Some n q)
    moreover have "(\<forall>k. sr_room en k) \<longrightarrow> set (map SourceId ps) = F - set known"
      using \<open>ps = qs\<close> registration_sources [OF q] spec F by (auto simp del: set_map simp: set_map [symmetric])
    ultimately show ?thesis using fold_AddTarget [OF assms(2), of p' ns] registration_sources [OF q] spec F by auto
  qed
qed

lemma round_algebra:
  assumes "K1 = K \<union> A" and "R1 = R \<union> (A - K)" and "S1 \<subseteq> A - K" and "K2 = K1 \<union> B" and "R2 = R1 \<union> (B - K1)" and "S2 \<subseteq> B - K1"
  shows "K2 = K \<union> (A \<union> B)" "R2 = R \<union> ((A \<union> B) - K)" "S1 \<union> S2 \<subseteq> (A \<union> B) - K" "S1 \<inter> S2 = {}"
    "S1 = A - K \<Longrightarrow> S2 = B - K1 \<Longrightarrow> S1 \<union> S2 = (A \<union> B) - K"
  using assms by auto

text \<open>
  C17. Over any number of rounds, failed sweeps included, the rediscovery starts to
  poll each source identifier at most once, and exactly those that were not known: no
  device is added twice under the same name, and none that a sweep reports is
  forgotten. It sends at most one registration per such identifier and none for
  others; when the packet channel has room it registers exactly those (a full channel
  drops registrations, and the device is not registered again).
\<close>

theorem rediscovery_adds_each_target_once:
  assumes "rediscoveryLoop en ident rounds known p st = (ps, known', p', st')" and "po_started p"
    and "distinct (po_running p)"
  defines "F \<equiv> (\<Union>ts \<in> {ts. Some ts \<in> set rounds}. SourceID ` set ts)"
  shows "set known' = set known \<union> F \<and> set (po_running p') = set (po_running p) \<union> (F - set known) \<and> distinct (po_running p')
    \<and> distinct (map SourceId ps) \<and> set (map SourceId ps) \<subseteq> F - set known
    \<and> ((\<forall>k. sr_room en k) \<longrightarrow> set (map SourceId ps) = F - set known)"
  using assms(1-3) unfolding F_def
proof (induction rounds arbitrary: known p st ps known' p' st')
  case (Cons f rounds)
  obtain ps1 k1 p1 st1 where r: "rediscover en ident f known p st = (ps1, k1, p1, st1)"
    by (cases "rediscover en ident f known p st") auto
  obtain qs where l: "rediscoveryLoop en ident rounds k1 p1 st1 = (qs, known', p', st')" and ps: "ps = ps1 @ qs"
    using Cons.prems(1) by (auto simp: r split: prod.splits)
  note one = rediscover_spec [OF r Cons.prems(2)]
  have p1: "po_started p1" "distinct (po_running p1)" using one Cons.prems(3) by blast+
  note ih = Cons.IH [OF l p1]
  have u: "(\<Union>ts \<in> {ts. Some ts \<in> set (f # rounds)}. SourceID ` set ts)
      = (case f of None \<Rightarrow> {} | Some ts \<Rightarrow> SourceID ` set ts) \<union> (\<Union>ts \<in> {ts. Some ts \<in> set rounds}. SourceID ` set ts)"
    by (auto split: option.splits)
  let ?A = "case f of None \<Rightarrow> {} | Some ts \<Rightarrow> SourceID ` set ts" and ?B = "\<Union>ts \<in> {ts. Some ts \<in> set rounds}. SourceID ` set ts"
  have k: "set k1 = set known \<union> ?A" and r1: "set (po_running p1) = set (po_running p) \<union> (?A - set known)"
    and s1: "set (map SourceId ps1) \<subseteq> ?A - set known" and d1: "distinct (map SourceId ps1)"
    using one by - (elim conjE, assumption)+
  have k2: "set known' = set k1 \<union> ?B" and r2: "set (po_running p') = set (po_running p1) \<union> (?B - set k1)"
    and s2: "set (map SourceId qs) \<subseteq> ?B - set k1" and d2: "distinct (map SourceId qs)" and d: "distinct (po_running p')"
    using ih by - (elim conjE, assumption)+
  have room1: "(\<forall>k. sr_room en k) \<longrightarrow> set (map SourceId ps1) = ?A - set known" using one by (elim conjE) assumption
  have room2: "(\<forall>k. sr_room en k) \<longrightarrow> set (map SourceId qs) = ?B - set k1" using ih by (elim conjE) assumption
  note alg = round_algebra [OF k r1 s1 k2 r2 s2]
  have room: "(\<forall>k. sr_room en k) \<longrightarrow> set (map SourceId ps1) \<union> set (map SourceId qs) = (?A \<union> ?B) - set known"
    by (intro impI alg(5)) (rule room1 [THEN mp], assumption, rule room2 [THEN mp], assumption)
  show ?case unfolding u ps map_append set_append distinct_append
    by (intro conjI) (fact alg(1), fact alg(2), fact d, fact d1, fact d2, fact alg(4), fact alg(3), fact room)
qed simp

lemma rediscovery_adds_each_target_once_witness:
  "\<exists>t ps known' p' st'. rediscoveryLoop \<lparr>sr_now = 0, sr_id = (\<lambda>_. ''''), sr_sign = (\<lambda>_. []), sr_room = (\<lambda>_. True)\<rparr> demo_ident [Some [t, t], None, Some [t]] []
      (demo_poller\<lparr>po_started := True\<rparr>) (NewSigner ''edr'' 0, 0) = (ps, known', p', st')
    \<and> set (po_running p') = {''r1''} \<and> distinct (map SourceId ps)"
proof -
  obtain t :: Target where t: "tg_Hostname t = ''r1''" using sample_probe(1) by auto
  let ?p = "demo_poller\<lparr>po_started := True\<rparr>"
  have p: "po_started ?p" "distinct (po_running ?p)" "po_running ?p = []" by (simp_all add: demo_poller_def poller_New_def)
  obtain ps known' p' st' where r: "rediscoveryLoop \<lparr>sr_now = 0, sr_id = (\<lambda>_. ''''), sr_sign = (\<lambda>_. []), sr_room = (\<lambda>_. True)\<rparr> demo_ident
      [Some [t, t], None, Some [t]] [] ?p (NewSigner ''edr'' 0, 0) = (ps, known', p', st')"
    by (cases "rediscoveryLoop \<lparr>sr_now = 0, sr_id = (\<lambda>_. ''''), sr_sign = (\<lambda>_. []), sr_room = (\<lambda>_. True)\<rparr> demo_ident
      [Some [t, t], None, Some [t]] [] ?p (NewSigner ''edr'' 0, 0)") auto
  have "SourceID t = ''r1''" using t by (simp add: SourceID_def)
  then have "(\<Union>ts \<in> {ts. Some ts \<in> set [Some [t, t], None, Some [t]]}. SourceID ` set ts) = {''r1''}" by auto
  then have "set (po_running p') = {''r1''}" "distinct (map SourceId ps)"
    using rediscovery_adds_each_target_once [OF r p(1,2)] p(3) by simp_all
  then show ?thesis using r by blast
qed

text \<open>
  A device that was renamed is polled twice: the poller and the rediscovery know it under its
  old name, the sweep reports its new one, and the target is started again beside the old one,
  with the same addresses.
\<close>

theorem renamed_device_polled_twice:
  assumes "probe de s ip = Some t" and "probe de' s ip = Some t'" and "SourceID t \<in> set (po_running p)" and "po_started p"
    and "SourceID t' \<notin> set known"
    and "rediscover en ident (Some [t']) known p st = (ps, known', p', st')"
  shows "{SourceID t, SourceID t'} \<subseteq> set (po_running p') \<and> tg_MgmtIP t = tg_MgmtIP t' \<and> tg_IP t = tg_IP t'"
  using rediscover_spec [OF assms(6,4)] assms(3,5) probe_fields(1,2) [OF assms(1)] probe_fields(1,2) [OF assms(2)] by simp

lemma renamed_device_polled_twice_witness:
  "\<exists>p p'. po_running p = [''r1''] \<and> {''r1'', ''r2''} \<subseteq> set (po_running p')
    \<and> p' = fst (snd (snd (rediscover \<lparr>sr_now = 0, sr_id = (\<lambda>_. ''''), sr_sign = (\<lambda>_. []), sr_room = (\<lambda>_. True)\<rparr> demo_ident
        (case Sweep (sample_env ''r2'') sample_sweeper of Some (Some ts) \<Rightarrow> Some ts | _ \<Rightarrow> None) [''r1''] p (NewSigner ''edr'' 0, 0))))"
proof -
  let ?en = "\<lparr>sr_now = 0, sr_id = (\<lambda>_. ''''), sr_sign = (\<lambda>_. []), sr_room = (\<lambda>_. True)\<rparr> :: src_env"
  let ?p = "demo_poller\<lparr>po_started := True, po_running := [''r1'']\<rparr>"
  obtain t t' where t: "probe (sample_env ''r1'') sample_sweeper ''10.0.0.1'' = Some t" "tg_Hostname t = ''r1''"
    "probe (sample_env ''r2'') sample_sweeper ''10.0.0.1'' = Some t'" "tg_Hostname t' = ''r2''"
    using sample_probe by auto
  have id: "SourceID t = ''r1''" "SourceID t' = ''r2''" using t by (simp_all add: SourceID_def)
  have found: "(case Sweep (sample_env ''r2'') sample_sweeper of Some (Some ts) \<Rightarrow> Some ts | _ \<Rightarrow> None) = Some [t']"
    by (simp add: sample_sweep probe_all_def t)
  obtain ps known' p' st' where r: "rediscover ?en demo_ident (Some [t']) [''r1''] ?p (NewSigner ''edr'' 0, 0) = (ps, known', p', st')"
    by (cases "rediscover ?en demo_ident (Some [t']) [''r1''] ?p (NewSigner ''edr'' 0, 0)") auto
  have "{''r1'', ''r2''} \<subseteq> set (po_running p')"
    using renamed_device_polled_twice [OF t(1,3) _ _ _ r] by (simp add: id)
  then show ?thesis unfolding found by (intro exI [of _ ?p] exI [of _ p']) (simp add: r)
qed

end
