(* ===== verification/Spec2Isabelle.thy ===== *)
theory Spec2Isabelle
  imports Bacnet_Proofs Lru_Cache Publisher Forwarder Device_Proofs Iface_Link_Store Telemetry_Store
    Command_Apply Ui_Commands Ingest_Proofs Classifier Threshold_Poller Poller Poll_Locks Bacnet_Manager Edge_To_Service Gnmi Discovery
begin

text \<open>
  \<^bold>\<open>The program.\<close> A telemetry system for data centres in three programs. The edge reader
  (\<open>fwEDR\<close>) polls network devices, signs a packet per measurement, keeps the packets in a
  persistent queue and sends them in batches over gRPC; the host reader (\<open>fwIDR\<close>) does the
  same for one host. The collection service (\<open>fwDCS\<close>) takes the batches in, resolves the
  device and the interface of each packet, writes metrics, events, links, addresses and
  thresholds to PostgreSQL, and forwards what changed to an Aggregator over HTTP. Edits
  made in the Aggregator's user interface come back through the forwarder as rows of
  \<open>device_commands\<close>, which the edge reader pulls, applies to the device and acknowledges.

  \<^bold>\<open>Theories, in the order of the data.\<close>
  \<^item> \<open>Prelude\<close>: lists, options, maps, the text routines of Go's \<open>strings\<close> and \<open>strconv\<close>, and the
    collections of simplification rules.
  \<^item> \<open>Bacnet_Codec\<close>, \<open>Bacnet_Proofs\<close>: \<open>fwEDR/internal/bacnet/codec.go\<close> and the frame parser of
    \<open>client.go\<close>. A decoder takes the datagram and a position, as the code does, and returns an
    option or the position after what it read. Round trips of acknowledgements,
    notifications and frames, progress of every decoder, and the frames on which the
    receive path panics.
  \<^item> \<open>Packet\<close>: \<open>fwEDR/pkg/packet/packet.go\<close>, the message of \<open>telemetry.proto\<close> as a record. The
    canonical bytes determine every field without NUL bytes, and of the value what the
    conversion \<open>uint64(value*1e9)\<close> keeps; nonces grow across restarts.
  \<^item> \<open>Queue_Interface\<close>, \<open>Queue\<close>: \<open>internal/queue/queue.go\<close> of both readers over a bucket that
    is an ordered list. A locale holds the laws a sender relies on; the edge queue is its
    interpretation.
  \<^item> \<open>Publisher\<close>: \<open>fwEDR/internal/publisher/publisher.go\<close> and \<open>health/gate.go\<close> as a transition
    system of producer, drain loop and concurrent senders over the queue interface. Every
    accepted packet is accounted for in each reachable state: there, delivered, or lost by a
    rejecting answer, a full queue or an eviction, where the queue interface says which
    packets a push takes out.
  \<^item> \<open>Lru_Cache\<close>: \<open>fwDCS/internal/ingest/cache.go\<close>, a linked list with an index, refined to a
    bounded, expiring recency list.
  \<^item> \<open>Store_Schema\<close>: the tables of \<open>fwDCS/migrations\<close> as lists of rows and the SQL expressions.
  \<^item> \<open>Device_Store\<close>, \<open>Device_Proofs\<close>, \<open>Iface_Link_Store\<close>, \<open>Telemetry_Store\<close>, \<open>Threshold_Store\<close>:
    the writers and lookups of \<open>fwDCS/internal/store/timescale.go\<close> and \<open>thresholds.go\<close>, one
    definition per statement and one per function. Idempotence of repeated packets,
    identity across renames, both unique keys of interfaces, port correlation of traps,
    atomicity of the metrics batch and the JSON encoder.
  \<^item> \<open>Hierarchy\<close>: \<open>hierarchy.go\<close>, the breadth-first spanning forest of the network links and the
    three updates that record it.
  \<^item> \<open>Ingest_Worker\<close>, \<open>Ingest_Proofs\<close>: \<open>fwDCS/internal/ingest\<close> (\<open>worker.go\<close>, \<open>dedup.go\<close>,
    \<open>normalizer.go\<close>) and the calls of \<open>api/grpc/server.go\<close>. Workers run interleaved over the
    shared caches, database and Redis; the invariant is that no cached or buffered
    identifier dangles. A duplicate check is its three Redis calls with the commands of other
    workers between them: an identifier passes once an hour under any overlap, whereas the
    order of nonces only holds for checks that do not overlap. One event per link
    transition, admission.
  \<^item> \<open>Cursor_Interface\<close>, \<open>Fwd_Store\<close>: \<open>forward.go\<close>, the queries of the forwarder and its cursors,
    with the laws of paging by timestamp as a locale.
  \<^item> \<open>Payload\<close>, \<open>Chunking\<close>, \<open>Forwarder\<close>: \<open>fwDCS/internal/forwarder/forwarder.go\<close>: payloads per
    scope, chunks under the body limit, retries, gates and the push cycle of a network.
  \<^item> \<open>Command_Store\<close>, \<open>Ui_Commands\<close>: \<open>commands.go\<close>, the REST handlers of
    \<open>api/rest/commands.go\<close> and \<open>forwarder/uicommands.go\<close>. The table of commands refines a map
    from device field to pending value.
  \<^item> \<open>Classifier\<close>: \<open>classifier.go\<close>, the fabric role of a switch from host name, model and
    neighbours, the rule file, and the write-back to the table of devices, which settles.
  \<^item> \<open>Target\<close>, \<open>Command_Apply\<close>: \<open>target.go\<close> and \<open>network.go\<close> of \<open>fwEDR/internal/target\<close> and
    \<open>fwEDR/internal/command\<close>. The whole loop of edits, pulls, device writes and
    acknowledgements is a transition system with lost messages.
  \<^item> \<open>Snmp_Values\<close>, \<open>Snmp_Collector\<close>: \<open>client.go\<close>, \<open>mibs.go\<close> and \<open>metrics.go\<close> of
    \<open>fwEDR/internal/snmp\<close>: object identifiers, value conversions, and every tier of the
    collector from the answers of the agent to signed packets.
  \<^item> \<open>Threshold_Poller\<close>: \<open>fwEDR/internal/threshold/poller.go\<close>, the way back of the edits: what a
    command wrote to an object is read there and reported.
  \<^item> \<open>Poll_Control\<close>, \<open>Poller\<close>, \<open>Poll_Locks\<close>: \<open>fwEDR/internal/poller\<close> (\<open>poller.go\<close>, \<open>limit.go\<close>) and
    the pacing of \<open>snmp/client.go\<close>: caps, breakers, the site-wide pause, log throttle, one poll
    with its session, the walk and the life of a target; and, apart from the data, the session
    mutexes and slots as an interleaving of goroutines, the ungated sockets to management
    agents included. The heartbeat is isolated from heavy polls, the gated sockets stay within
    their caps, nothing deadlocks, and a dead device gets no more heartbeats per cooldown than
    its threshold; what the breakers cannot see is stated as well.
  \<^item> \<open>Bacnet_Manager\<close>: \<open>fwEDR/internal/bacnet\<close> (\<open>manager.go\<close>, \<open>client.go\<close>, \<open>objects.go\<close>,
    \<open>plant_objects.go\<close>) over the codec: object tables, the request loop, polls, notifications
    and alarm edges.
  \<^item> \<open>Poll_Packets\<close>, \<open>Gnmi\<close>, \<open>Redfish\<close>: \<open>fwEDR/internal/gnmi\<close> and \<open>fwEDR/internal/redfish\<close>, over the
    step from readings to signed packets that the pollers share. Proxy and fallback yield the
    same packets, counters decode alike from trees and leaves, and a server that answers is
    reported again after at most one lost poll.
  \<^item> \<open>Topology_Loader\<close>, \<open>Edge_Sources\<close>: \<open>topology/loader.go\<close>, and of \<open>fwEDR/main.go\<close> and
    \<open>snmp/trap.go\<close> the packets that no collector makes: registrations, addresses, links,
    traps, and the resolver of network identifiers they share.
  \<^item> \<open>Edge_To_Service\<close>: these packets run through the models of the service. A trap reaches the
    row of the polled device and the link of its port, and which traps do not; the power
    state of a server reaches its row.
  \<^item> \<open>Subnets\<close>, \<open>Discovery\<close>: \<open>fwEDR/internal/discovery\<close> and its use at start and in the
    rediscovery. A subnet expands to its block, a restart keeps the targets of the last
    sweep, and each name is added to the poller once.

  \<^bold>\<open>Conventions.\<close> Machine integers that are written to the wire or that may wrap are words;
  counters that Go holds in an \<open>int\<close> and that are bounded by a size are natural or integer
  numbers; \<open>int(f)\<close> and \<open>math.Round\<close> on a binary64 are computed from mantissa and exponent
  (\<open>Command_Apply\<close>); elsewhere a measured value is a rational. Errors are values: an option or
  a sum per function, with the branch of every early return. A database statement either
  succeeds or changes nothing, and whether it fails is a parameter, as are the answers of
  the network, the clock and the random identifiers. The JSON library, ed25519, INET
  parsing, SNMP and HTTP are parameters too; a hypothesis on one of them appears in the
  statement that needs it. Work that goroutines of the program interleave is a step relation
  where a property depends on the interleaving (\<open>Publisher\<close>, \<open>Ingest_Worker\<close>, \<open>Command_Apply\<close>,
  \<open>Poll_Locks\<close>); elsewhere it is a function: one collection with its signer, the readings of
  one BACnet device, the posts of the forwarder's scopes.

  \<^bold>\<open>Bounds and fuel.\<close> No function is defined with fuel: the loop over a subnet may not end and is a
  partial function with an option, and it is proved when it ends; the loops of the decoders end by the
  position, the breadth-first search by the number of unvisited nodes, the fragmentation of
  a device by its length, and the retry loop by its three attempts.

  \<^bold>\<open>Not modelled.\<close> The retention policies, the wiring and YAML loading of the three
  programs, connections and their security settings, the collectors of the host reader and
  generated protobuf code.
\<close>

end
